(* ===== verification/Prelude.thy ===== *)
theory Prelude
  imports Main "HOL-Library.Word"
begin

text \<open>
  Shared vocabulary of the development: the ways a C call can fail to return (a null or
  dangling pointer, a failed \<open>Assert\<close>, \<open>elog(ERROR)\<close>, a loop that does not end), the
  sequencing of such calls, decimal printing as \<open>sprintf\<close> does it, and the C string
  functions of \<open>string.h\<close> on the nul-free part of a buffer.
\<close>

named_theorems res_iff \<open>equations that turn a sequenced call into its steps\<close>

section \<open>Calls that may not return\<close>

datatype cfault =
    NullDeref \<comment> \<open>a read or write through a null or dangling pointer\<close>
  | AssertFailed \<comment> \<open>\<open>Assert\<close> in a build with assertions\<close>
  | BadUnion \<comment> \<open>a member of a C union read that was not the one stored\<close>
  | BadFree \<comment> \<open>\<open>pfree\<close> of something that is not allocated\<close>
  | Diverges \<comment> \<open>a loop that does not end\<close>
  | DivByZero \<comment> \<open>the C operators / and % with a zero divisor\<close>
  | OutOfBounds \<comment> \<open>an access outside an array or buffer\<close>
  | Elog string \<comment> \<open>\<open>elog(ERROR)\<close> or \<open>ereport(ERROR)\<close> with this message\<close>

type_synonym 'a res = "cfault + 'a"

definition res_bind :: "'a res \<Rightarrow> ('a \<Rightarrow> 'b res) \<Rightarrow> 'b res" where
  "res_bind m f = (case m of Inl e \<Rightarrow> Inl e | Inr x \<Rightarrow> f x)"

definition cassert :: "bool \<Rightarrow> unit res" where
  "cassert b = (if b then Inr () else Inl AssertFailed)"

lemma res_bind_Inl [simp]: "res_bind (Inl e) f = Inl e"
  by (simp add: res_bind_def)

lemma res_bind_Inr [simp]: "res_bind (Inr x) f = f x"
  by (simp add: res_bind_def)

lemma res_bind_Inr_iff [res_iff]:
  "res_bind m f = Inr y \<longleftrightarrow> (\<exists>x. m = Inr x \<and> f x = Inr y)"
  by (simp add: res_bind_def split: sum.split)

lemma res_bind_Inl_iff:
  "res_bind m f = Inl e \<longleftrightarrow> m = Inl e \<or> (\<exists>x. m = Inr x \<and> f x = Inl e)"
  by (simp add: res_bind_def split: sum.split)

lemma res_bind_assoc: "res_bind (res_bind m f) g = res_bind m (\<lambda>x. res_bind (f x) g)"
  by (simp add: res_bind_def split: sum.split)

lemma res_bind_cong [fundef_cong]:
  "m = m' \<Longrightarrow> (\<And>x. m' = Inr x \<Longrightarrow> f x = g x) \<Longrightarrow> res_bind m f = res_bind m' g"
  by (simp add: res_bind_def split: sum.split)

lemma cassert_True [simp]: "cassert True = Inr ()"
  by (simp add: cassert_def)

lemma cassert_False [simp]: "cassert False = Inl AssertFailed"
  by (simp add: cassert_def)

lemma cassert_Inr_iff [res_iff]: "cassert b = Inr u \<longleftrightarrow> b"
  by (simp add: cassert_def)

section \<open>Decimal printing\<close>

text \<open>\<open>%u\<close> and \<open>%lu\<close>: the decimal digits of a number, most significant first.\<close>

definition digit_char :: "nat \<Rightarrow> char" where
  "digit_char d = char_of (48 + d)"

fun show_nat :: "nat \<Rightarrow> string" where
  "show_nat n = (if n < 10 then [digit_char n] else show_nat (n div 10) @ [digit_char (n mod 10)])"

declare show_nat.simps [simp del]

text \<open>\<open>%d\<close>, \<open>%i\<close>, \<open>%ld\<close> and \<open>%lld\<close>.\<close>

definition show_int :: "int \<Rightarrow> string" where
  "show_int i = (if i < 0 then CHR ''-'' # show_nat (nat (- i)) else show_nat (nat i))"

definition is_digit :: "char \<Rightarrow> bool" where
  "is_digit c \<longleftrightarrow> 48 \<le> (of_char c :: nat) \<and> (of_char c :: nat) \<le> 57"

lemma digit_char_is_digit: "d < 10 \<Longrightarrow> is_digit (digit_char d)"
  by (simp add: is_digit_def digit_char_def)

lemma digit_char_inject: "d < 10 \<Longrightarrow> e < 10 \<Longrightarrow> digit_char d = digit_char e \<longleftrightarrow> d = e"
  by (simp add: digit_char_def char_of_eq_iff take_bit_nat_eq_self)

lemma show_nat_digits: "c \<in> set (show_nat n) \<Longrightarrow> is_digit c"
proof (induction n rule: show_nat.induct)
  case (1 n)
  then show ?case
    by (cases "n < 10") (auto simp: show_nat.simps [of n] digit_char_is_digit)
qed

lemma show_nat_nonempty [simp]: "show_nat n \<noteq> []"
  by (subst show_nat.simps) simp

lemma show_nat_length: "n < 10 ^ Suc k \<Longrightarrow> length (show_nat n) \<le> Suc k"
proof (induction k arbitrary: n)
  case 0
  then show ?case by (simp add: show_nat.simps [of n])
next
  case (Suc k)
  then have "n div 10 < 10 ^ Suc k"
    by (simp add: div_less_iff_less_mult mult.commute)
  with Suc.IH have "length (show_nat (n div 10)) \<le> Suc k" by blast
  then show ?case by (simp add: show_nat.simps [of n])
qed

lemma show_nat_inject [simp]: "show_nat m = show_nat n \<longleftrightarrow> m = n"
proof
  assume "show_nat m = show_nat n"
  then show "m = n"
  proof (induction m arbitrary: n rule: show_nat.induct)
    case (1 m)
    show ?case
    proof (cases "m < 10")
      case True
      with "1.prems" show ?thesis
        by (cases "n < 10")
          (auto simp: show_nat.simps [of m] show_nat.simps [of n] digit_char_inject
            dest: sym [of "[]"])
    next
      case False
      with "1.prems" have "\<not> n < 10"
        by (auto simp: show_nat.simps [of m] show_nat.simps [of n])
      with False "1.prems" have "show_nat (m div 10) = show_nat (n div 10)"
        and "digit_char (m mod 10) = digit_char (n mod 10)"
        by (auto simp: show_nat.simps [of m] show_nat.simps [of n])
      with "1.IH" [OF False, of "n div 10"] have "m div 10 = n div 10" "m mod 10 = n mod 10"
        by (auto simp: digit_char_inject)
      then show ?thesis by (metis div_mult_mod_eq)
    qed
  qed
qed simp

end
