(* ===== verification/PgList.thy ===== *)
theory PgList
  imports Prelude
begin

text \<open>
  The linked lists of \<open>src/backend/nodes/list.c\<close>, on an explicit store: \<open>ListCell\<close>s and
  \<open>List\<close> headers live at addresses, \<open>palloc\<close> takes the next unused address and \<open>pfree\<close>
  gives one back.  Address 0 is \<open>NULL\<close> and \<open>NIL\<close>.  Assertions are those of a build with
  \<open>USE_ASSERT_CHECKING\<close>.  A loop over the cells of a list is bounded by the number of
  addresses handed out so far: a walk longer than that has met a cell twice, so the C loop
  would not end, and the model says \<open>Diverges\<close>.
\<close>

section \<open>The store\<close>

type_synonym addr = nat

datatype NodeTag = T_List | T_IntList | T_OidList

text \<open>The union \<open>ListCell.data\<close>, with the state of a cell whose data is "left undefined".\<close>

datatype ListData = Uninit | PtrVal addr | IntVal int | OidVal nat

record ListCell =
  cdata :: ListData
  cnext :: addr

record List =
  ltype :: NodeTag
  llength :: int
  lhead :: addr
  ltail :: addr

record heap =
  cells :: "addr \<rightharpoonup> ListCell"
  lists :: "addr \<rightharpoonup> List"
  objs :: "addr set"
  brk :: addr

abbreviation (input) NIL :: addr where
  "NIL \<equiv> 0"

definition palloc_cell :: "heap \<Rightarrow> ListCell \<Rightarrow> addr \<times> heap" where
  "palloc_cell h c = (brk h, h\<lparr>cells := (cells h)(brk h \<mapsto> c), brk := Suc (brk h)\<rparr>)"

definition palloc_list :: "heap \<Rightarrow> List \<Rightarrow> addr \<times> heap" where
  "palloc_list h l = (brk h, h\<lparr>lists := (lists h)(brk h \<mapsto> l), brk := Suc (brk h)\<rparr>)"

definition pfree :: "heap \<Rightarrow> addr \<Rightarrow> heap res" where
  "pfree h a =
     (if cells h a \<noteq> None then Inr (h\<lparr>cells := (cells h)(a := None)\<rparr>)
      else if lists h a \<noteq> None then Inr (h\<lparr>lists := (lists h)(a := None)\<rparr>)
      else if a \<in> objs h then Inr (h\<lparr>objs := objs h - {a}\<rparr>)
      else Inl BadFree)"

definition get_cell :: "heap \<Rightarrow> addr \<Rightarrow> ListCell res" where
  "get_cell h a = (case cells h a of None \<Rightarrow> Inl NullDeref | Some c \<Rightarrow> Inr c)"

definition get_list :: "heap \<Rightarrow> addr \<Rightarrow> List res" where
  "get_list h a = (case lists h a of None \<Rightarrow> Inl NullDeref | Some l \<Rightarrow> Inr l)"

definition put_cell :: "heap \<Rightarrow> addr \<Rightarrow> ListCell \<Rightarrow> heap" where
  "put_cell h a c = h\<lparr>cells := (cells h)(a \<mapsto> c)\<rparr>"

definition put_list :: "heap \<Rightarrow> addr \<Rightarrow> List \<Rightarrow> heap" where
  "put_list h a l = h\<lparr>lists := (lists h)(a \<mapsto> l)\<rparr>"

text \<open>\<open>lfirst(a) = d\<close> and \<open>a->next = n\<close>.\<close>

definition set_data :: "heap \<Rightarrow> addr \<Rightarrow> ListData \<Rightarrow> heap res" where
  "set_data h a d = res_bind (get_cell h a) (\<lambda>c. Inr (put_cell h a (c\<lparr>cdata := d\<rparr>)))"

definition set_next :: "heap \<Rightarrow> addr \<Rightarrow> addr \<Rightarrow> heap res" where
  "set_next h a n = res_bind (get_cell h a) (\<lambda>c. Inr (put_cell h a (c\<lparr>cnext := n\<rparr>)))"

text \<open>Which union member a list of each type stores; reading another one is \<open>BadUnion\<close>.\<close>

fun has_tag :: "NodeTag \<Rightarrow> ListData \<Rightarrow> bool" where
  "has_tag T_List (PtrVal p) = True"
| "has_tag T_IntList (IntVal i) = True"
| "has_tag T_OidList (OidVal n) = True"
| "has_tag _ _ = False"

definition read_as :: "NodeTag \<Rightarrow> ListData \<Rightarrow> ListData res" where
  "read_as tag d = (if has_tag tag d then Inr d else Inl BadUnion)"

fun ptr_value :: "ListData \<Rightarrow> addr res" where
  "ptr_value (PtrVal p) = Inr p"
| "ptr_value _ = Inl BadUnion"

fun int_value :: "ListData \<Rightarrow> int res" where
  "int_value (IntVal i) = Inr i"
| "int_value _ = Inl BadUnion"

fun oid_value :: "ListData \<Rightarrow> nat res" where
  "oid_value (OidVal n) = Inr n"
| "oid_value _ = Inl BadUnion"

section \<open>The operations of list.c\<close>

text \<open>\<open>list_head\<close>, \<open>list_tail\<close>, \<open>list_length\<close>.\<close>

definition list_head :: "heap \<Rightarrow> addr \<Rightarrow> addr res" where
  "list_head h l = (if l = NIL then Inr 0 else res_bind (get_list h l) (\<lambda>L. Inr (lhead L)))"

definition list_tail :: "heap \<Rightarrow> addr \<Rightarrow> addr res" where
  "list_tail h l = (if l = NIL then Inr 0 else res_bind (get_list h l) (\<lambda>L. Inr (ltail L)))"

definition list_length :: "heap \<Rightarrow> addr \<Rightarrow> int res" where
  "list_length h l = (if l = NIL then Inr 0 else res_bind (get_list h l) (\<lambda>L. Inr (llength L)))"

text \<open>\<open>IsPointerList\<close>, \<open>IsIntegerList\<close>, \<open>IsOidList\<close> as the \<open>Assert\<close>s use them.\<close>

definition assert_is_list :: "NodeTag \<Rightarrow> heap \<Rightarrow> addr \<Rightarrow> unit res" where
  "assert_is_list tag h l =
     (if l = NIL then Inr ()
      else res_bind (get_list h l) (\<lambda>L. cassert (ltype L = tag)))"

definition check_list_invariants :: "heap \<Rightarrow> addr \<Rightarrow> unit res" where
  "check_list_invariants h list =
     (if list = NIL then Inr ()
      else
        res_bind (get_list h list) (\<lambda>L.
        res_bind (cassert (llength L > 0)) (\<lambda>_.
        res_bind (cassert (lhead L \<noteq> 0)) (\<lambda>_.
        res_bind (cassert (ltail L \<noteq> 0)) (\<lambda>_.
        res_bind (if llength L = 1 then cassert (lhead L = ltail L) else Inr ()) (\<lambda>_.
        res_bind (if llength L = 2
                  then res_bind (get_cell h (lhead L)) (\<lambda>c. cassert (cnext c = ltail L))
                  else Inr ()) (\<lambda>_.
        res_bind (get_cell h (ltail L)) (\<lambda>c. cassert (cnext c = 0)))))))))"

definition new_list :: "heap \<Rightarrow> NodeTag \<Rightarrow> addr \<times> heap" where
  "new_list h tag =
     (let (new_head, h) = palloc_cell h \<lparr>cdata = Uninit, cnext = 0\<rparr>
      in palloc_list h \<lparr>ltype = tag, llength = 1, lhead = new_head, ltail = new_head\<rparr>)"

definition new_head_cell :: "heap \<Rightarrow> addr \<Rightarrow> heap res" where
  "new_head_cell h list =
     res_bind (get_list h list) (\<lambda>L.
       let (new_head, h) = palloc_cell h \<lparr>cdata = Uninit, cnext = lhead L\<rparr>
       in Inr (put_list h list (L\<lparr>lhead := new_head, llength := llength L + 1\<rparr>)))"

definition new_tail_cell :: "heap \<Rightarrow> addr \<Rightarrow> heap res" where
  "new_tail_cell h list =
     (let (new_tail, h) = palloc_cell h \<lparr>cdata = Uninit, cnext = 0\<rparr>
      in res_bind (get_list h list) (\<lambda>L.
         res_bind (set_next h (ltail L) new_tail) (\<lambda>h.
         Inr (put_list h list (L\<lparr>ltail := new_tail, llength := llength L + 1\<rparr>)))))"

definition lappend_gen :: "NodeTag \<Rightarrow> heap \<Rightarrow> addr \<Rightarrow> ListData \<Rightarrow> (addr \<times> heap) res" where
  "lappend_gen tag h list datum =
     res_bind (assert_is_list tag h list) (\<lambda>_.
     res_bind (if list = NIL then Inr (new_list h tag)
               else res_bind (new_tail_cell h list) (\<lambda>h. Inr (list, h))) (\<lambda>(list, h).
     res_bind (get_list h list) (\<lambda>L.
     res_bind (set_data h (ltail L) datum) (\<lambda>h.
     res_bind (check_list_invariants h list) (\<lambda>_.
     Inr (list, h))))))"

definition lappend :: "heap \<Rightarrow> addr \<Rightarrow> addr \<Rightarrow> (addr \<times> heap) res" where
  "lappend h list datum = lappend_gen T_List h list (PtrVal datum)"

definition lappend_int :: "heap \<Rightarrow> addr \<Rightarrow> int \<Rightarrow> (addr \<times> heap) res" where
  "lappend_int h list datum = lappend_gen T_IntList h list (IntVal datum)"

definition lappend_oid :: "heap \<Rightarrow> addr \<Rightarrow> nat \<Rightarrow> (addr \<times> heap) res" where
  "lappend_oid h list datum = lappend_gen T_OidList h list (OidVal datum)"

definition add_new_cell :: "heap \<Rightarrow> addr \<Rightarrow> addr \<Rightarrow> (addr \<times> heap) res" where
  "add_new_cell h list prev_cell =
     res_bind (get_cell h prev_cell) (\<lambda>p.
       let (new_cell, h) = palloc_cell h \<lparr>cdata = Uninit, cnext = cnext p\<rparr>
       in res_bind (set_next h prev_cell new_cell) (\<lambda>h.
          res_bind (get_list h list) (\<lambda>L.
            let L = (if ltail L = prev_cell then L\<lparr>ltail := new_cell\<rparr> else L)
            in Inr (new_cell, put_list h list (L\<lparr>llength := llength L + 1\<rparr>)))))"

definition lappend_cell_gen ::
    "NodeTag \<Rightarrow> heap \<Rightarrow> addr \<Rightarrow> addr \<Rightarrow> ListData \<Rightarrow> (addr \<times> heap) res" where
  "lappend_cell_gen tag h list prev datum =
     res_bind (assert_is_list tag h list) (\<lambda>_.
     res_bind (add_new_cell h list prev) (\<lambda>(new_cell, h).
     res_bind (set_data h new_cell datum) (\<lambda>h.
     res_bind (check_list_invariants h list) (\<lambda>_.
     Inr (new_cell, h)))))"

definition lappend_cell :: "heap \<Rightarrow> addr \<Rightarrow> addr \<Rightarrow> addr \<Rightarrow> (addr \<times> heap) res" where
  "lappend_cell h list prev datum = lappend_cell_gen T_List h list prev (PtrVal datum)"

definition lappend_cell_int :: "heap \<Rightarrow> addr \<Rightarrow> addr \<Rightarrow> int \<Rightarrow> (addr \<times> heap) res" where
  "lappend_cell_int h list prev datum = lappend_cell_gen T_IntList h list prev (IntVal datum)"

definition lappend_cell_oid :: "heap \<Rightarrow> addr \<Rightarrow> addr \<Rightarrow> nat \<Rightarrow> (addr \<times> heap) res" where
  "lappend_cell_oid h list prev datum = lappend_cell_gen T_OidList h list prev (OidVal datum)"

definition lcons_gen :: "NodeTag \<Rightarrow> heap \<Rightarrow> ListData \<Rightarrow> addr \<Rightarrow> (addr \<times> heap) res" where
  "lcons_gen tag h datum list =
     res_bind (assert_is_list tag h list) (\<lambda>_.
     res_bind (if list = NIL then Inr (new_list h tag)
               else res_bind (new_head_cell h list) (\<lambda>h. Inr (list, h))) (\<lambda>(list, h).
     res_bind (get_list h list) (\<lambda>L.
     res_bind (set_data h (lhead L) datum) (\<lambda>h.
     res_bind (check_list_invariants h list) (\<lambda>_.
     Inr (list, h))))))"

definition lcons :: "heap \<Rightarrow> addr \<Rightarrow> addr \<Rightarrow> (addr \<times> heap) res" where
  "lcons h datum list = lcons_gen T_List h (PtrVal datum) list"

definition lcons_int :: "heap \<Rightarrow> int \<Rightarrow> addr \<Rightarrow> (addr \<times> heap) res" where
  "lcons_int h datum list = lcons_gen T_IntList h (IntVal datum) list"

definition lcons_oid :: "heap \<Rightarrow> nat \<Rightarrow> addr \<Rightarrow> (addr \<times> heap) res" where
  "lcons_oid h datum list = lcons_gen T_OidList h (OidVal datum) list"

definition list_concat :: "heap \<Rightarrow> addr \<Rightarrow> addr \<Rightarrow> (addr \<times> heap) res" where
  "list_concat h list1 list2 =
     (if list1 = NIL then Inr (list2, h)
      else if list2 = NIL then Inr (list1, h)
      else if list1 = list2 then Inl (Elog ''cannot list_concat() a list to itself'')
      else
        res_bind (get_list h list1) (\<lambda>L1.
        res_bind (get_list h list2) (\<lambda>L2.
        res_bind (cassert (ltype L1 = ltype L2)) (\<lambda>_.
        res_bind (set_next h (ltail L1) (lhead L2)) (\<lambda>h.
          let h = put_list h list1
                    (L1\<lparr>llength := llength L1 + llength L2, ltail := ltail L2\<rparr>)
          in res_bind (check_list_invariants h list1) (\<lambda>_. Inr (list1, h)))))))"

text \<open>The \<open>foreach\<close> of \<open>list_truncate\<close>: \<open>n\<close> counts up to \<open>new_size\<close>.\<close>

fun list_truncate_loop ::
    "nat \<Rightarrow> heap \<Rightarrow> addr \<Rightarrow> int \<Rightarrow> addr \<Rightarrow> int \<Rightarrow> (addr \<times> heap) res" where
  "list_truncate_loop 0 h list new_size cell n = Inl Diverges"
| "list_truncate_loop (Suc fuel) h list new_size cell n =
     (if cell = 0 then Inl AssertFailed
      else if n = new_size then
        res_bind (set_next h cell 0) (\<lambda>h.
        res_bind (get_list h list) (\<lambda>L.
          let h = put_list h list (L\<lparr>ltail := cell, llength := new_size\<rparr>)
          in res_bind (check_list_invariants h list) (\<lambda>_. Inr (list, h))))
      else
        res_bind (get_cell h cell) (\<lambda>c.
          list_truncate_loop fuel h list new_size (cnext c) (n + 1)))"

definition list_truncate :: "heap \<Rightarrow> addr \<Rightarrow> int \<Rightarrow> (addr \<times> heap) res" where
  "list_truncate h list new_size =
     (if new_size \<le> 0 then Inr (NIL, h)
      else
        res_bind (list_length h list) (\<lambda>len.
          if new_size \<ge> len then Inr (list, h)
          else
            res_bind (list_head h list) (\<lambda>cell.
              list_truncate_loop (brk h) h list new_size cell 1)))"

fun nth_cell_loop :: "heap \<Rightarrow> addr \<Rightarrow> nat \<Rightarrow> addr res" where
  "nth_cell_loop h cell 0 = Inr cell"
| "nth_cell_loop h cell (Suc n) = res_bind (get_cell h cell) (\<lambda>c. nth_cell_loop h (cnext c) n)"

definition list_nth_cell :: "heap \<Rightarrow> addr \<Rightarrow> int \<Rightarrow> addr res" where
  "list_nth_cell h list n =
     res_bind (cassert (list \<noteq> NIL)) (\<lambda>_.
     res_bind (cassert (n \<ge> 0)) (\<lambda>_.
     res_bind (get_list h list) (\<lambda>L.
     res_bind (cassert (n < llength L)) (\<lambda>_.
     res_bind (check_list_invariants h list) (\<lambda>_.
       if n = llength L - 1 then Inr (ltail L)
       else nth_cell_loop h (lhead L) (nat n))))))"

definition list_nth_gen :: "NodeTag \<Rightarrow> heap \<Rightarrow> addr \<Rightarrow> int \<Rightarrow> ListData res" where
  "list_nth_gen tag h list n =
     res_bind (assert_is_list tag h list) (\<lambda>_.
     res_bind (list_nth_cell h list n) (\<lambda>cell.
     res_bind (get_cell h cell) (\<lambda>c. read_as tag (cdata c))))"

definition list_nth :: "heap \<Rightarrow> addr \<Rightarrow> int \<Rightarrow> addr res" where
  "list_nth h list n = res_bind (list_nth_gen T_List h list n) ptr_value"

definition list_nth_int :: "heap \<Rightarrow> addr \<Rightarrow> int \<Rightarrow> int res" where
  "list_nth_int h list n = res_bind (list_nth_gen T_IntList h list n) int_value"

definition list_nth_oid :: "heap \<Rightarrow> addr \<Rightarrow> int \<Rightarrow> nat res" where
  "list_nth_oid h list n = res_bind (list_nth_gen T_OidList h list n) oid_value"

text \<open>
  Membership, deletion and the set operations come in four variants each: \<open>equal()\<close> on
  nodes (\<open>equalfuncs.c\<close>, a parameter here), pointer comparison, integers and OIDs.  They
  differ in the union member read and in the comparison, so each is one generic definition
  applied to a tag and a comparison.
\<close>

fun match_ptr :: "(addr \<Rightarrow> addr \<Rightarrow> bool) \<Rightarrow> ListData \<Rightarrow> ListData \<Rightarrow> bool" where
  "match_ptr eq (PtrVal p) (PtrVal q) = eq p q"
| "match_ptr eq _ _ = False"

fun list_member_loop ::
    "NodeTag \<Rightarrow> (ListData \<Rightarrow> ListData \<Rightarrow> bool) \<Rightarrow> nat \<Rightarrow> heap \<Rightarrow> addr \<Rightarrow> ListData \<Rightarrow> bool res" where
  "list_member_loop tag eq 0 h cell datum = Inl Diverges"
| "list_member_loop tag eq (Suc fuel) h cell datum =
     (if cell = 0 then Inr False
      else
        res_bind (get_cell h cell) (\<lambda>c.
        res_bind (read_as tag (cdata c)) (\<lambda>d.
          if eq d datum then Inr True
          else list_member_loop tag eq fuel h (cnext c) datum)))"

definition list_member_gen ::
    "NodeTag \<Rightarrow> (ListData \<Rightarrow> ListData \<Rightarrow> bool) \<Rightarrow> heap \<Rightarrow> addr \<Rightarrow> ListData \<Rightarrow> bool res" where
  "list_member_gen tag eq h list datum =
     res_bind (assert_is_list tag h list) (\<lambda>_.
     res_bind (check_list_invariants h list) (\<lambda>_.
     res_bind (list_head h list) (\<lambda>cell. list_member_loop tag eq (brk h) h cell datum)))"

definition list_member :: "(addr \<Rightarrow> addr \<Rightarrow> bool) \<Rightarrow> heap \<Rightarrow> addr \<Rightarrow> addr \<Rightarrow> bool res" where
  "list_member equal h list datum =
     list_member_gen T_List (match_ptr equal) h list (PtrVal datum)"

definition list_member_ptr :: "heap \<Rightarrow> addr \<Rightarrow> addr \<Rightarrow> bool res" where
  "list_member_ptr h list datum = list_member_gen T_List (=) h list (PtrVal datum)"

definition list_member_int :: "heap \<Rightarrow> addr \<Rightarrow> int \<Rightarrow> bool res" where
  "list_member_int h list datum = list_member_gen T_IntList (=) h list (IntVal datum)"

definition list_member_oid :: "heap \<Rightarrow> addr \<Rightarrow> nat \<Rightarrow> bool res" where
  "list_member_oid h list datum = list_member_gen T_OidList (=) h list (OidVal datum)"

text \<open>\<open>list_free_private\<close>: the next cell is read before the current one is freed.\<close>

fun list_free_loop :: "nat \<Rightarrow> heap \<Rightarrow> addr \<Rightarrow> bool \<Rightarrow> heap res" where
  "list_free_loop 0 h cell deep = Inl Diverges"
| "list_free_loop (Suc fuel) h cell deep =
     (if cell = 0 then Inr h
      else
        res_bind (get_cell h cell) (\<lambda>c.
        res_bind (if deep then res_bind (ptr_value (cdata c)) (pfree h) else Inr h) (\<lambda>h.
        res_bind (pfree h cell) (\<lambda>h. list_free_loop fuel h (cnext c) deep))))"

definition list_free_private :: "heap \<Rightarrow> addr \<Rightarrow> bool \<Rightarrow> heap res" where
  "list_free_private h list deep =
     res_bind (check_list_invariants h list) (\<lambda>_.
     res_bind (list_head h list) (\<lambda>cell.
     res_bind (list_free_loop (brk h) h cell deep) (\<lambda>h.
       if list \<noteq> NIL then pfree h list else Inr h)))"

definition list_free :: "heap \<Rightarrow> addr \<Rightarrow> heap res" where
  "list_free h list = list_free_private h list False"

definition list_free_deep :: "heap \<Rightarrow> addr \<Rightarrow> heap res" where
  "list_free_deep h list =
     res_bind (assert_is_list T_List h list) (\<lambda>_. list_free_private h list True)"

definition list_delete_cell :: "heap \<Rightarrow> addr \<Rightarrow> addr \<Rightarrow> addr \<Rightarrow> (addr \<times> heap) res" where
  "list_delete_cell h list cell prev =
     res_bind (check_list_invariants h list) (\<lambda>_.
     res_bind (if prev \<noteq> 0 then res_bind (get_cell h prev) (\<lambda>p. cassert (cnext p = cell))
               else res_bind (list_head h list) (\<lambda>hd. cassert (hd = cell))) (\<lambda>_.
     res_bind (get_list h list) (\<lambda>L.
       if llength L = 1 then res_bind (list_free h list) (\<lambda>h. Inr (NIL, h))
       else
         res_bind (get_cell h cell) (\<lambda>c.
         res_bind (if prev \<noteq> 0
                   then res_bind (set_next h prev (cnext c))
                          (\<lambda>h. Inr (h, L\<lparr>llength := llength L - 1\<rparr>))
                   else Inr (h, L\<lparr>llength := llength L - 1, lhead := cnext c\<rparr>)) (\<lambda>(h, L).
           let h = put_list h list (if ltail L = cell then L\<lparr>ltail := prev\<rparr> else L)
           in res_bind (pfree h cell) (\<lambda>h. Inr (list, h)))))))"

fun list_delete_loop ::
    "NodeTag \<Rightarrow> (ListData \<Rightarrow> ListData \<Rightarrow> bool) \<Rightarrow> nat \<Rightarrow> heap \<Rightarrow> addr \<Rightarrow> addr \<Rightarrow> addr \<Rightarrow> ListData
       \<Rightarrow> (addr \<times> heap) res" where
  "list_delete_loop tag eq 0 h list cell prev datum = Inl Diverges"
| "list_delete_loop tag eq (Suc fuel) h list cell prev datum =
     (if cell = 0 then Inr (list, h)
      else
        res_bind (get_cell h cell) (\<lambda>c.
        res_bind (read_as tag (cdata c)) (\<lambda>d.
          if eq d datum then list_delete_cell h list cell prev
          else list_delete_loop tag eq fuel h list (cnext c) cell datum)))"

definition list_delete_gen ::
    "NodeTag \<Rightarrow> (ListData \<Rightarrow> ListData \<Rightarrow> bool) \<Rightarrow> heap \<Rightarrow> addr \<Rightarrow> ListData \<Rightarrow> (addr \<times> heap) res" where
  "list_delete_gen tag eq h list datum =
     res_bind (assert_is_list tag h list) (\<lambda>_.
     res_bind (check_list_invariants h list) (\<lambda>_.
     res_bind (list_head h list) (\<lambda>cell.
       list_delete_loop tag eq (brk h) h list cell 0 datum)))"

definition list_delete ::
    "(addr \<Rightarrow> addr \<Rightarrow> bool) \<Rightarrow> heap \<Rightarrow> addr \<Rightarrow> addr \<Rightarrow> (addr \<times> heap) res" where
  "list_delete equal h list datum =
     list_delete_gen T_List (match_ptr equal) h list (PtrVal datum)"

definition list_delete_ptr :: "heap \<Rightarrow> addr \<Rightarrow> addr \<Rightarrow> (addr \<times> heap) res" where
  "list_delete_ptr h list datum = list_delete_gen T_List (=) h list (PtrVal datum)"

definition list_delete_int :: "heap \<Rightarrow> addr \<Rightarrow> int \<Rightarrow> (addr \<times> heap) res" where
  "list_delete_int h list datum = list_delete_gen T_IntList (=) h list (IntVal datum)"

definition list_delete_oid :: "heap \<Rightarrow> addr \<Rightarrow> nat \<Rightarrow> (addr \<times> heap) res" where
  "list_delete_oid h list datum = list_delete_gen T_OidList (=) h list (OidVal datum)"

definition list_delete_first :: "heap \<Rightarrow> addr \<Rightarrow> (addr \<times> heap) res" where
  "list_delete_first h list =
     res_bind (check_list_invariants h list) (\<lambda>_.
       if list = NIL then Inr (NIL, h)
       else res_bind (list_head h list) (\<lambda>cell. list_delete_cell h list cell 0))"

text \<open>
  \<open>list_copy\<close>: the \<open>next\<close> field of a copied cell is not stored until the following cell
  exists or the loop has ended; until then the model lets it point to the cell itself, so
  that a walk which relied on it would not end.
\<close>

fun copy_cells :: "nat \<Rightarrow> heap \<Rightarrow> addr \<Rightarrow> addr \<Rightarrow> (addr \<times> heap) res" where
  "copy_cells 0 h newlist_prev oldlist_cur = Inl Diverges"
| "copy_cells (Suc fuel) h newlist_prev oldlist_cur =
     (if oldlist_cur = 0 then Inr (newlist_prev, h)
      else
        res_bind (get_cell h oldlist_cur) (\<lambda>c.
          let (newlist_cur, h) = palloc_cell h \<lparr>cdata = cdata c, cnext = brk h\<rparr>
          in res_bind (set_next h newlist_prev newlist_cur) (\<lambda>h.
             copy_cells fuel h newlist_cur (cnext c))))"

text \<open>The part common to \<open>list_copy\<close> and \<open>list_copy_tail\<close>: from the first cell to copy.\<close>

definition copy_from :: "nat \<Rightarrow> heap \<Rightarrow> addr \<Rightarrow> addr \<Rightarrow> (addr \<times> heap) res" where
  "copy_from fuel h newlist oldlist_cur =
     res_bind (get_cell h oldlist_cur) (\<lambda>c.
     res_bind (get_list h newlist) (\<lambda>N.
     res_bind (set_data h (lhead N) (cdata c)) (\<lambda>h.
     res_bind (copy_cells fuel h (lhead N) (cnext c)) (\<lambda>(newlist_prev, h).
     res_bind (set_next h newlist_prev 0) (\<lambda>h.
       let h = put_list h newlist (N\<lparr>ltail := newlist_prev\<rparr>)
       in res_bind (check_list_invariants h newlist) (\<lambda>_. Inr (newlist, h)))))))"

definition list_copy :: "heap \<Rightarrow> addr \<Rightarrow> (addr \<times> heap) res" where
  "list_copy h oldlist =
     (if oldlist = NIL then Inr (NIL, h)
      else
        res_bind (get_list h oldlist) (\<lambda>L.
          let fuel = brk h;
              (newlist, h) = new_list h (ltype L)
          in res_bind (get_list h newlist) (\<lambda>N.
               copy_from fuel (put_list h newlist (N\<lparr>llength := llength L\<rparr>)) newlist (lhead L))))"

definition list_copy_tail :: "heap \<Rightarrow> addr \<Rightarrow> int \<Rightarrow> (addr \<times> heap) res" where
  "list_copy_tail h oldlist nskip =
     (let nskip = (if nskip < 0 then 0 else nskip) in
      if oldlist = NIL then Inr (NIL, h)
      else
        res_bind (get_list h oldlist) (\<lambda>L.
          if nskip \<ge> llength L then Inr (NIL, h)
          else
            let fuel = brk h;
                (newlist, h) = new_list h (ltype L)
            in res_bind (get_list h newlist) (\<lambda>N.
               let h = put_list h newlist (N\<lparr>llength := llength L - nskip\<rparr>)
               in res_bind (nth_cell_loop h (lhead L) (nat nskip)) (\<lambda>oldlist_cur.
                    copy_from fuel h newlist oldlist_cur))))"

text \<open>
  The loop of the \<open>list_union\<close> and \<open>list_concat_unique\<close> variants: append to \<open>result\<close> what
  is not yet a member of it.
\<close>

fun append_new_loop ::
    "NodeTag \<Rightarrow> (ListData \<Rightarrow> ListData \<Rightarrow> bool) \<Rightarrow> nat \<Rightarrow> heap \<Rightarrow> addr \<Rightarrow> addr \<Rightarrow> (addr \<times> heap) res" where
  "append_new_loop tag eq 0 h result cell = Inl Diverges"
| "append_new_loop tag eq (Suc fuel) h result cell =
     (if cell = 0 then Inr (result, h)
      else
        res_bind (get_cell h cell) (\<lambda>c.
        res_bind (read_as tag (cdata c)) (\<lambda>d.
        res_bind (list_member_gen tag eq h result d) (\<lambda>found.
        res_bind (if found then Inr (result, h) else lappend_gen tag h result d) (\<lambda>(result, h).
        res_bind (get_cell h cell) (\<lambda>c.
          append_new_loop tag eq fuel h result (cnext c)))))))"

definition list_union_gen ::
    "NodeTag \<Rightarrow> (ListData \<Rightarrow> ListData \<Rightarrow> bool) \<Rightarrow> heap \<Rightarrow> addr \<Rightarrow> addr \<Rightarrow> (addr \<times> heap) res" where
  "list_union_gen tag eq h list1 list2 =
     res_bind (assert_is_list tag h list1) (\<lambda>_.
     res_bind (assert_is_list tag h list2) (\<lambda>_.
     res_bind (list_copy h list1) (\<lambda>(result, h).
     res_bind (list_head h list2) (\<lambda>cell.
     res_bind (append_new_loop tag eq (brk h) h result cell) (\<lambda>(result, h).
     res_bind (check_list_invariants h result) (\<lambda>_. Inr (result, h)))))))"

definition list_union ::
    "(addr \<Rightarrow> addr \<Rightarrow> bool) \<Rightarrow> heap \<Rightarrow> addr \<Rightarrow> addr \<Rightarrow> (addr \<times> heap) res" where
  "list_union equal h list1 list2 = list_union_gen T_List (match_ptr equal) h list1 list2"

definition list_union_ptr :: "heap \<Rightarrow> addr \<Rightarrow> addr \<Rightarrow> (addr \<times> heap) res" where
  "list_union_ptr h list1 list2 = list_union_gen T_List (=) h list1 list2"

definition list_union_int :: "heap \<Rightarrow> addr \<Rightarrow> addr \<Rightarrow> (addr \<times> heap) res" where
  "list_union_int h list1 list2 = list_union_gen T_IntList (=) h list1 list2"

definition list_union_oid :: "heap \<Rightarrow> addr \<Rightarrow> addr \<Rightarrow> (addr \<times> heap) res" where
  "list_union_oid h list1 list2 = list_union_gen T_OidList (=) h list1 list2"

fun list_difference_loop ::
    "NodeTag \<Rightarrow> (ListData \<Rightarrow> ListData \<Rightarrow> bool) \<Rightarrow> nat \<Rightarrow> heap \<Rightarrow> addr \<Rightarrow> addr \<Rightarrow> addr
       \<Rightarrow> (addr \<times> heap) res" where
  "list_difference_loop tag eq 0 h list2 result cell = Inl Diverges"
| "list_difference_loop tag eq (Suc fuel) h list2 result cell =
     (if cell = 0 then Inr (result, h)
      else
        res_bind (get_cell h cell) (\<lambda>c.
        res_bind (read_as tag (cdata c)) (\<lambda>d.
        res_bind (list_member_gen tag eq h list2 d) (\<lambda>found.
        res_bind (if found then Inr (result, h) else lappend_gen tag h result d) (\<lambda>(result, h).
        res_bind (get_cell h cell) (\<lambda>c.
          list_difference_loop tag eq fuel h list2 result (cnext c)))))))"

definition list_difference_gen ::
    "NodeTag \<Rightarrow> (ListData \<Rightarrow> ListData \<Rightarrow> bool) \<Rightarrow> heap \<Rightarrow> addr \<Rightarrow> addr \<Rightarrow> (addr \<times> heap) res" where
  "list_difference_gen tag eq h list1 list2 =
     res_bind (assert_is_list tag h list1) (\<lambda>_.
     res_bind (assert_is_list tag h list2) (\<lambda>_.
       if list2 = NIL then list_copy h list1
       else
         res_bind (list_head h list1) (\<lambda>cell.
         res_bind (list_difference_loop tag eq (brk h) h list2 NIL cell) (\<lambda>(result, h).
         res_bind (check_list_invariants h result) (\<lambda>_. Inr (result, h))))))"

definition list_difference ::
    "(addr \<Rightarrow> addr \<Rightarrow> bool) \<Rightarrow> heap \<Rightarrow> addr \<Rightarrow> addr \<Rightarrow> (addr \<times> heap) res" where
  "list_difference equal h list1 list2 =
     list_difference_gen T_List (match_ptr equal) h list1 list2"

definition list_difference_ptr :: "heap \<Rightarrow> addr \<Rightarrow> addr \<Rightarrow> (addr \<times> heap) res" where
  "list_difference_ptr h list1 list2 = list_difference_gen T_List (=) h list1 list2"

definition list_difference_int :: "heap \<Rightarrow> addr \<Rightarrow> addr \<Rightarrow> (addr \<times> heap) res" where
  "list_difference_int h list1 list2 = list_difference_gen T_IntList (=) h list1 list2"

definition list_difference_oid :: "heap \<Rightarrow> addr \<Rightarrow> addr \<Rightarrow> (addr \<times> heap) res" where
  "list_difference_oid h list1 list2 = list_difference_gen T_OidList (=) h list1 list2"

definition list_append_unique_gen ::
    "NodeTag \<Rightarrow> (ListData \<Rightarrow> ListData \<Rightarrow> bool) \<Rightarrow> heap \<Rightarrow> addr \<Rightarrow> ListData \<Rightarrow> (addr \<times> heap) res" where
  "list_append_unique_gen tag eq h list datum =
     res_bind (list_member_gen tag eq h list datum) (\<lambda>found.
       if found then Inr (list, h) else lappend_gen tag h list datum)"

definition list_append_unique ::
    "(addr \<Rightarrow> addr \<Rightarrow> bool) \<Rightarrow> heap \<Rightarrow> addr \<Rightarrow> addr \<Rightarrow> (addr \<times> heap) res" where
  "list_append_unique equal h list datum =
     list_append_unique_gen T_List (match_ptr equal) h list (PtrVal datum)"

definition list_append_unique_ptr :: "heap \<Rightarrow> addr \<Rightarrow> addr \<Rightarrow> (addr \<times> heap) res" where
  "list_append_unique_ptr h list datum =
     list_append_unique_gen T_List (=) h list (PtrVal datum)"

definition list_append_unique_int :: "heap \<Rightarrow> addr \<Rightarrow> int \<Rightarrow> (addr \<times> heap) res" where
  "list_append_unique_int h list datum =
     list_append_unique_gen T_IntList (=) h list (IntVal datum)"

definition list_append_unique_oid :: "heap \<Rightarrow> addr \<Rightarrow> nat \<Rightarrow> (addr \<times> heap) res" where
  "list_append_unique_oid h list datum =
     list_append_unique_gen T_OidList (=) h list (OidVal datum)"

definition list_concat_unique_gen ::
    "NodeTag \<Rightarrow> (ListData \<Rightarrow> ListData \<Rightarrow> bool) \<Rightarrow> heap \<Rightarrow> addr \<Rightarrow> addr \<Rightarrow> (addr \<times> heap) res" where
  "list_concat_unique_gen tag eq h list1 list2 =
     res_bind (assert_is_list tag h list1) (\<lambda>_.
     res_bind (assert_is_list tag h list2) (\<lambda>_.
     res_bind (list_head h list2) (\<lambda>cell.
     res_bind (append_new_loop tag eq (brk h) h list1 cell) (\<lambda>(list1, h).
     res_bind (check_list_invariants h list1) (\<lambda>_. Inr (list1, h))))))"

definition list_concat_unique ::
    "(addr \<Rightarrow> addr \<Rightarrow> bool) \<Rightarrow> heap \<Rightarrow> addr \<Rightarrow> addr \<Rightarrow> (addr \<times> heap) res" where
  "list_concat_unique equal h list1 list2 =
     list_concat_unique_gen T_List (match_ptr equal) h list1 list2"

definition list_concat_unique_ptr :: "heap \<Rightarrow> addr \<Rightarrow> addr \<Rightarrow> (addr \<times> heap) res" where
  "list_concat_unique_ptr h list1 list2 = list_concat_unique_gen T_List (=) h list1 list2"

definition list_concat_unique_int :: "heap \<Rightarrow> addr \<Rightarrow> addr \<Rightarrow> (addr \<times> heap) res" where
  "list_concat_unique_int h list1 list2 = list_concat_unique_gen T_IntList (=) h list1 list2"

definition list_concat_unique_oid :: "heap \<Rightarrow> addr \<Rightarrow> addr \<Rightarrow> (addr \<times> heap) res" where
  "list_concat_unique_oid h list1 list2 = list_concat_unique_gen T_OidList (=) h list1 list2"

text \<open>The compatibility function \<open>length\<close>.\<close>

definition list_length_compat :: "heap \<Rightarrow> addr \<Rightarrow> int res" where
  "list_length_compat h list = list_length h list"

end
