(* ===== verification/PgListRep.thy ===== *)
theory PgListRep
  imports PgList
begin

text \<open>
  What the lists of \<open>list.c\<close> mean: \<open>list_rep h tag l xs\<close> says that the pointer \<open>l\<close> holds, in
  the store \<open>h\<close>, a list of type \<open>tag\<close> whose cells have the addresses and data of \<open>xs\<close>, in
  this order.  Every operation is shown to return, to fail no assertion, and to implement
  the operation on HOL lists it stands for; what it leaves alone is the frame predicate
  \<open>only_changes\<close>.
\<close>

named_theorems list_facts \<open>what a represented list lets the accessors of list.c return\<close>

section \<open>Representation\<close>

primrec lseg :: "heap \<Rightarrow> addr \<Rightarrow> (addr \<times> ListData) list \<Rightarrow> addr \<Rightarrow> bool" where
  "lseg h p [] q \<longleftrightarrow> p = q"
| "lseg h p (x # xs) q \<longleftrightarrow>
     p = fst x \<and> p \<noteq> 0 \<and> (\<exists>n. cells h p = Some \<lparr>cdata = snd x, cnext = n\<rparr> \<and> lseg h n xs q)"

definition header :: "NodeTag \<Rightarrow> (addr \<times> ListData) list \<Rightarrow> List" where
  "header tag xs =
     \<lparr>ltype = tag, llength = int (length xs), lhead = fst (hd xs), ltail = fst (last xs)\<rparr>"

definition list_rep :: "heap \<Rightarrow> NodeTag \<Rightarrow> addr \<Rightarrow> (addr \<times> ListData) list \<Rightarrow> bool" where
  "list_rep h tag l xs \<longleftrightarrow>
     (if l = NIL then xs = []
      else xs \<noteq> [] \<and> lists h l = Some (header tag xs) \<and> lseg h (fst (hd xs)) xs 0 \<and>
           (\<forall>x \<in> set xs. has_tag tag (snd x)))"

text \<open>Allocated addresses are below the break, and nothing is allocated twice.\<close>

definition heap_ok :: "heap \<Rightarrow> bool" where
  "heap_ok h \<longleftrightarrow>
     0 < brk h \<and> (\<forall>a \<in> dom (cells h) \<union> dom (lists h) \<union> objs h. 0 < a \<and> a < brk h) \<and>
     dom (cells h) \<inter> dom (lists h) = {} \<and> dom (cells h) \<inter> objs h = {} \<and>
     dom (lists h) \<inter> objs h = {}"

definition only_changes :: "heap \<Rightarrow> heap \<Rightarrow> addr set \<Rightarrow> addr set \<Rightarrow> bool" where
  "only_changes h h' A M \<longleftrightarrow>
     brk h \<le> brk h' \<and> (\<forall>a. 0 < a \<and> a < brk h \<and> a \<notin> A \<longrightarrow> cells h' a = cells h a) \<and>
     (\<forall>m. 0 < m \<and> m < brk h \<and> m \<notin> M \<longrightarrow> lists h' m = lists h m)"

abbreviation addrs :: "(addr \<times> ListData) list \<Rightarrow> addr set" where
  "addrs xs \<equiv> fst ` set xs"

abbreviation vals :: "(addr \<times> ListData) list \<Rightarrow> ListData list" where
  "vals xs \<equiv> map snd xs"

section \<open>Segments\<close>

lemma lseg_append: "lseg h p (xs @ ys) q \<longleftrightarrow> (\<exists>r. lseg h p xs r \<and> lseg h r ys q)"
  by (induction xs arbitrary: p) auto

lemma lseg_hd: "lseg h p xs q \<Longrightarrow> xs \<noteq> [] \<Longrightarrow> p = fst (hd xs)"
  by (cases xs) auto

lemma lseg_frame:
  "(\<And>a. a \<in> addrs xs \<Longrightarrow> cells h' a = cells h a) \<Longrightarrow> lseg h' p xs q \<longleftrightarrow> lseg h p xs q"
  by (induction xs arbitrary: p) auto

lemma lseg_lists [simp]: "lseg (h\<lparr>lists := F\<rparr>) p xs q \<longleftrightarrow> lseg h p xs q"
  by (rule lseg_frame) simp

lemma lseg_upd [simp]: "a \<notin> addrs xs \<Longrightarrow> lseg (h\<lparr>cells := (cells h)(a := c)\<rparr>) p xs q \<longleftrightarrow> lseg h p xs q"
  by (rule lseg_frame) auto

lemma lseg_dom: "lseg h p xs q \<Longrightarrow> a \<in> addrs xs \<Longrightarrow> a \<noteq> 0 \<and> a \<in> dom (cells h)"
  by (induction xs arbitrary: p) auto

lemma lseg_unique: "lseg h p xs 0 \<Longrightarrow> lseg h p ys 0 \<Longrightarrow> xs = ys"
proof (induction xs arbitrary: p ys)
  case Nil
  then show ?case by (cases ys) auto
next
  case (Cons x xs)
  then show ?case by (cases ys) (auto simp: prod_eq_iff)
qed

lemma lseg_split: "lseg h p xs 0 \<Longrightarrow> x \<in> set xs \<Longrightarrow> \<exists>ys. lseg h (fst x) (x # ys) 0 \<and> length ys < length xs"
proof (induction xs arbitrary: p)
  case (Cons y xs)
  show ?case
  proof (cases "x = y")
    case True
    with Cons.prems show ?thesis by auto
  next
    case False
    with Cons.prems obtain n where "lseg h n xs 0" "x \<in> set xs" by auto
    from Cons.IH [OF this] show ?thesis by auto
  qed
qed simp

lemma lseg_distinct: "lseg h p xs 0 \<Longrightarrow> distinct (map fst xs)"
proof (induction xs arbitrary: p)
  case (Cons x xs)
  then obtain n where n: "cells h p = Some \<lparr>cdata = snd x, cnext = n\<rparr>" "lseg h n xs 0" "p = fst x"
    by auto
  have "fst x \<notin> addrs xs"
  proof
    assume "fst x \<in> addrs xs"
    then obtain y where "y \<in> set xs" "fst y = fst x" by auto
    with lseg_split [OF n(2)] obtain ys where ys: "lseg h (fst x) (y # ys) 0" "length ys < length xs"
      by fastforce
    have "y # ys = x # xs"
      using lseg_unique [OF ys(1), of "x # xs"] Cons.prems n(3) by simp
    with ys(2) show False by simp
  qed
  with Cons.IH [OF n(2)] show ?case by simp
qed simp

lemma lseg_length: "heap_ok h \<Longrightarrow> lseg h p xs 0 \<Longrightarrow> length xs < brk h"
proof -
  assume ok: "heap_ok h" and seg: "lseg h p xs 0"
  have "addrs xs \<subseteq> {0<..<brk h}"
    using lseg_dom [OF seg] ok by (fastforce simp: heap_ok_def)
  then have "card (addrs xs) \<le> card {0<..<brk h}"
    by (intro card_mono) auto
  moreover have "card (addrs xs) = length xs"
    using lseg_distinct [OF seg] distinct_card [of "map fst xs"] by simp
  ultimately show ?thesis
    using ok by (auto simp: heap_ok_def)
qed

lemma lseg_last:
  "lseg h p xs q \<Longrightarrow> xs \<noteq> [] \<Longrightarrow>
     lseg h p (butlast xs) (fst (last xs)) \<and> fst (last xs) \<noteq> 0 \<and>
     cells h (fst (last xs)) = Some \<lparr>cdata = snd (last xs), cnext = q\<rparr>"
  by (induction xs arbitrary: p) auto

lemma lseg_nth_cell:
  "lseg h p xs q \<Longrightarrow> n < length xs \<Longrightarrow>
     nth_cell_loop h p n = Inr (fst (xs ! n)) \<and>
     (\<exists>m. cells h (fst (xs ! n)) = Some \<lparr>cdata = snd (xs ! n), cnext = m\<rparr>)"
  by (induction xs arbitrary: p n) (auto simp: nth_Cons get_cell_def split: nat.splits)

text \<open>Storing into the \<open>next\<close> field of the last cell of a segment redirects the segment.\<close>

lemma lseg_set_next:
  assumes "lseg h p xs q" "distinct (map fst xs)" "xs \<noteq> []"
    and "cells h' (fst (last xs)) = Some \<lparr>cdata = snd (last xs), cnext = r\<rparr>"
    and "\<And>a. a \<in> addrs xs \<Longrightarrow> a \<noteq> fst (last xs) \<Longrightarrow> cells h' a = cells h a"
  shows "lseg h' p xs r"
  using assms
proof (induction xs arbitrary: p)
  case (Cons x xs)
  show ?case
  proof (cases "xs = []")
    case True
    with Cons.prems show ?thesis by auto
  next
    case False
    with Cons.prems(2) have "fst x \<noteq> fst (last xs)" by (auto simp: image_iff)
    with Cons.prems False obtain n where "cells h' (fst x) = Some \<lparr>cdata = snd x, cnext = n\<rparr>"
      and "lseg h n xs q"
      by fastforce
    moreover have "lseg h' n xs r"
      using Cons.prems False calculation by (intro Cons.IH) auto
    ultimately show ?thesis using Cons.prems(1) by auto
  qed
qed simp

section \<open>Frames\<close>

lemma only_changes_refl [simp, intro]: "only_changes h h A M"
  by (simp add: only_changes_def)

lemma only_changes_trans:
  assumes "only_changes h h' A M" "only_changes h' h'' B N"
    and "A \<inter> {0<..<brk h} \<subseteq> C" "B \<inter> {0<..<brk h} \<subseteq> C"
    and "M \<inter> {0<..<brk h} \<subseteq> P" "N \<inter> {0<..<brk h} \<subseteq> P"
  shows "only_changes h h'' C P"
proof -
  have le: "brk h \<le> brk h'" "brk h' \<le> brk h''"
    using assms(1,2) by (auto simp only: only_changes_def)
  have "cells h'' a = cells h a" if "0 < a" "a < brk h" "a \<notin> C" for a
  proof -
    from that assms(3,4) have "a \<notin> A" "a \<notin> B" by auto
    with that le assms(1,2) show ?thesis by (simp add: only_changes_def)
  qed
  moreover have "lists h'' m = lists h m" if "0 < m" "m < brk h" "m \<notin> P" for m
  proof -
    from that assms(5,6) have "m \<notin> M" "m \<notin> N" by auto
    with that le assms(1,2) show ?thesis by (simp add: only_changes_def)
  qed
  ultimately show ?thesis using le by (simp add: only_changes_def)
qed

lemma only_changes_mono:
  "only_changes h h' A M \<Longrightarrow> A \<subseteq> B \<Longrightarrow> M \<subseteq> N \<Longrightarrow> only_changes h h' B N"
  unfolding only_changes_def by blast

lemma list_rep_NIL [simp]: "list_rep h tag NIL xs \<longleftrightarrow> xs = []"
  by (simp add: list_rep_def)

lemma list_rep_Nil: "list_rep h tag l [] \<longleftrightarrow> l = NIL"
  by (simp add: list_rep_def)

lemma list_rep_in_heap:
  "heap_ok h \<Longrightarrow> list_rep h tag l xs \<Longrightarrow> l \<noteq> NIL \<Longrightarrow>
     l < brk h \<and> (\<forall>a \<in> addrs xs. 0 < a \<and> a < brk h \<and> a \<noteq> l)"
  using lseg_dom [of h "fst (hd xs)" xs 0]
  by (auto simp: list_rep_def heap_ok_def)

lemma list_rep_frame:
  assumes "heap_ok h" "list_rep h tag l xs" "only_changes h h' A M"
    and "addrs xs \<inter> A = {}" "l \<notin> M"
  shows "list_rep h' tag l xs"
proof (cases "l = NIL")
  case False
  have "cells h' a = cells h a" if "a \<in> addrs xs" for a
    using that assms list_rep_in_heap [OF assms(1,2) False] by (auto simp: only_changes_def)
  then have "lseg h' p xs 0 = lseg h p xs 0" for p
    by (rule lseg_frame)
  moreover have "lists h' l = lists h l"
    using assms False list_rep_in_heap [OF assms(1,2) False] by (auto simp: only_changes_def)
  ultimately show ?thesis using assms(2) False by (simp add: list_rep_def)
qed (use assms in simp)

lemma list_rep_distinct: "list_rep h tag l xs \<Longrightarrow> distinct (map fst xs)"
  using lseg_distinct by (auto simp: list_rep_def split: if_splits)

lemma list_rep_length: "heap_ok h \<Longrightarrow> list_rep h tag l xs \<Longrightarrow> length xs < brk h"
  using lseg_length by (auto simp: list_rep_def heap_ok_def split: if_splits)

lemma list_rep_tags: "list_rep h tag l xs \<Longrightarrow> x \<in> set xs \<Longrightarrow> has_tag tag (snd x)"
  by (auto simp: list_rep_def split: if_splits)

section \<open>Accessors\<close>

lemma get_list_rep [list_facts]:
  "list_rep h tag l xs \<Longrightarrow> l \<noteq> NIL \<Longrightarrow> get_list h l = Inr (header tag xs)"
  by (simp add: list_rep_def get_list_def)

lemma header_simps [simp]:
  "ltype (header tag xs) = tag" "llength (header tag xs) = int (length xs)"
  "lhead (header tag xs) = fst (hd xs)" "ltail (header tag xs) = fst (last xs)"
  by (simp_all add: header_def)

lemma assert_is_list_rep [list_facts]: "list_rep h tag l xs \<Longrightarrow> assert_is_list tag h l = Inr ()"
  by (simp add: assert_is_list_def get_list_rep)

lemma list_head_rep [list_facts]:
  "list_rep h tag l xs \<Longrightarrow> list_head h l = Inr (if xs = [] then 0 else fst (hd xs))"
  by (auto simp: list_head_def get_list_rep list_rep_Nil)

lemma list_length_rep [list_facts]: "list_rep h tag l xs \<Longrightarrow> list_length h l = Inr (int (length xs))"
  by (auto simp: list_length_def get_list_rep)

lemma lseg_head_ptr: "lseg h p xs 0 \<Longrightarrow> p = (if xs = [] then 0 else fst (hd xs))"
  by (cases xs) auto

lemma check_list_invariants_rep [list_facts]:
  assumes "list_rep h tag l xs"
  shows "check_list_invariants h l = Inr ()"
proof (cases "l = NIL")
  case False
  then have nz: "xs \<noteq> []" and seg: "lseg h (fst (hd xs)) xs 0"
    using assms by (auto simp: list_rep_def)
  from nz consider (one) x where "xs = [x]" | (two) x y where "xs = [x, y]"
    | (more) x y z zs where "xs = x # y # z # zs"
    by (metis neq_Nil_conv)
  then show ?thesis
  proof cases
    case one
    then show ?thesis using False assms seg
      by (auto simp: check_list_invariants_def get_list_rep get_cell_def)
  next
    case two
    then show ?thesis using False assms seg
      by (auto simp: check_list_invariants_def get_list_rep get_cell_def)
  next
    case more
    then show ?thesis using False assms seg lseg_last [OF seg]
      by (auto simp: check_list_invariants_def get_list_rep get_cell_def)
  qed
qed (simp add: check_list_invariants_def)

section \<open>Steps of a list\<close>

text \<open>
  \<open>list_step h tag l xs h' l' ys\<close>: an operation that took the list \<open>l\<close> with cells \<open>xs\<close> to
  the list \<open>l'\<close> with cells \<open>ys\<close>, touching the store only there.
\<close>

definition list_step ::
    "heap \<Rightarrow> NodeTag \<Rightarrow> addr \<Rightarrow> (addr \<times> ListData) list \<Rightarrow> heap \<Rightarrow> addr \<Rightarrow> (addr \<times> ListData) list \<Rightarrow> bool"
where
  "list_step h tag l xs h' l' ys \<longleftrightarrow>
     heap_ok h' \<and> list_rep h' tag l' ys \<and> only_changes h h' (addrs xs) {l} \<and>
     addrs ys \<subseteq> addrs xs \<union> {brk h..} \<and> (l' = NIL \<or> l' = l \<or> brk h \<le> l') \<and> objs h' = objs h"

lemma list_step_refl: "heap_ok h \<Longrightarrow> list_rep h tag l xs \<Longrightarrow> list_step h tag l xs h l xs"
  by (simp add: list_step_def)

lemma list_step_trans:
  assumes s1: "list_step h tag l xs h1 l1 ys" and s2: "list_step h1 tag l1 ys h2 l2 zs"
  shows "list_step h tag l xs h2 l2 zs"
proof -
  have le: "brk h \<le> brk h1" and oc1: "only_changes h h1 (addrs xs) {l}"
    and ys: "addrs ys \<subseteq> addrs xs \<union> {brk h..}" and l1: "l1 = NIL \<or> l1 = l \<or> brk h \<le> l1"
    using s1 by (auto simp only: list_step_def only_changes_def)
  have oc2: "only_changes h1 h2 (addrs ys) {l1}"
    and zs: "addrs zs \<subseteq> addrs ys \<union> {brk h1..}" and l2: "l2 = NIL \<or> l2 = l1 \<or> brk h1 \<le> l2"
    using s2 by (auto simp only: list_step_def)
  have "addrs ys \<inter> {0<..<brk h} \<subseteq> addrs xs" "{l1} \<inter> {0<..<brk h} \<subseteq> {l}"
    using ys l1 by (auto simp only: greaterThanLessThan_iff) (use not_less in blast)+
  then have "only_changes h h2 (addrs xs) {l}"
    by (intro only_changes_trans [OF oc1 oc2]) auto
  moreover have "addrs zs \<subseteq> addrs xs \<union> {brk h..}"
    using zs ys le by (meson Un_least Un_upper2 atLeast_subset_iff order_trans)
  moreover have "l2 = NIL \<or> l2 = l \<or> brk h \<le> l2" using l1 l2 le by auto
  moreover have "objs h2 = objs h" using s1 s2 by (simp only: list_step_def)
  ultimately show ?thesis using s2 by (simp only: list_step_def)
qed

lemma list_step_others:
  assumes step: "list_step h tag l xs h' l' ys" and ok: "heap_ok h"
    and rep: "list_rep h tag' m zs"
    and ml: "m \<noteq> NIL \<Longrightarrow> m \<noteq> l" and disj: "addrs zs \<inter> addrs xs = {}"
  shows "list_rep h' tag' m zs" "m \<noteq> NIL \<Longrightarrow> m \<noteq> l'" "addrs zs \<inter> addrs ys = {}"
proof -
  have "list_rep h' tag' m zs \<and> (m \<noteq> NIL \<longrightarrow> m \<noteq> l') \<and> addrs zs \<inter> addrs ys = {}"
  proof (cases "m = NIL")
    case True
    with rep show ?thesis by simp
  next
    case False
    note inh = list_rep_in_heap [OF ok rep False]
    have oc: "only_changes h h' (addrs xs) {l}" and ys: "addrs ys \<subseteq> addrs xs \<union> {brk h..}"
      and l': "l' = NIL \<or> l' = l \<or> brk h \<le> l'"
      using step by (auto simp only: list_step_def)
    have "list_rep h' tag' m zs"
      using list_rep_frame [OF ok rep oc disj] ml [OF False] by simp
    moreover have "m \<noteq> l'" using l' inh ml False by auto
    moreover have "a \<notin> addrs ys" if "a \<in> addrs zs" for a
    proof
      assume "a \<in> addrs ys"
      with ys have "a \<in> addrs xs \<or> brk h \<le> a" by (metis UnE atLeast_iff subsetD)
      with that inh disj show False by (metis disjoint_iff not_less)
    qed
    ultimately show ?thesis by blast
  qed
  then show "list_rep h' tag' m zs" "m \<noteq> NIL \<Longrightarrow> m \<noteq> l'" "addrs zs \<inter> addrs ys = {}" by auto
qed

end
