(* ===== verification/PgListSpec.thy ===== *)
theory PgListSpec
  imports PgListRep
begin

text \<open>
  Every operation of \<open>list.c\<close> on a represented list returns, fails no assertion, and
  implements the operation on HOL lists it stands for.
\<close>

section \<open>Store updates\<close>

lemma heap_ok_palloc_cell: "heap_ok h \<Longrightarrow> heap_ok (snd (palloc_cell h c))"
  by (fastforce simp: heap_ok_def palloc_cell_def less_Suc_eq)

lemma heap_ok_palloc_list: "heap_ok h \<Longrightarrow> heap_ok (snd (palloc_list h l))"
  by (fastforce simp: heap_ok_def palloc_list_def less_Suc_eq)

lemma heap_ok_put_cell: "heap_ok h \<Longrightarrow> a \<in> dom (cells h) \<Longrightarrow> heap_ok (put_cell h a c)"
  by (auto simp: heap_ok_def put_cell_def)

lemma heap_ok_put_list: "heap_ok h \<Longrightarrow> a \<in> dom (lists h) \<Longrightarrow> heap_ok (put_list h a l)"
  by (auto simp: heap_ok_def put_list_def)

lemma heap_ok_0: "heap_ok h \<Longrightarrow> cells h 0 = None \<and> lists h 0 = None"
  by (auto simp: heap_ok_def)

lemma heap_ok_brk:
  "heap_ok h \<Longrightarrow> brk h \<le> a \<Longrightarrow> cells h a = None \<and> lists h a = None"
  unfolding heap_ok_def by (metis domIff UnI1 UnI2 not_less)

text \<open>Updates of different fields in one order: cells, then headers, then the break.\<close>

lemma heap_norm:
  "h\<lparr>lists := F, cells := C\<rparr> = h\<lparr>cells := C, lists := F\<rparr>"
  "h\<lparr>brk := b, cells := C\<rparr> = h\<lparr>cells := C, brk := b\<rparr>"
  "h\<lparr>brk := b, lists := F\<rparr> = h\<lparr>lists := F, brk := b\<rparr>"
  by simp_all

lemmas heap_defs = palloc_cell_def palloc_list_def put_cell_def put_list_def get_cell_def
  get_list_def set_data_def set_next_def

section \<open>Appending and prepending\<close>

text \<open>A list of one cell, in fresh storage.\<close>

lemma new_singleton:
  assumes "heap_ok h" "has_tag tag d"
  shows "list_step h tag NIL []
           (h\<lparr>cells := (cells h)(brk h \<mapsto> \<lparr>cdata = d, cnext = 0\<rparr>),
              lists := (lists h)(Suc (brk h) \<mapsto> header tag [(brk h, d)]),
              brk := Suc (Suc (brk h))\<rparr>) (Suc (brk h)) [(brk h, d)]"
    (is "list_step h tag NIL [] ?h _ _")
proof -
  have "?h = snd (palloc_list (snd (palloc_cell h \<lparr>cdata = d, cnext = 0\<rparr>)) (header tag [(brk h, d)]))"
    by (simp add: palloc_list_def palloc_cell_def)
  then have "heap_ok ?h"
    using assms by (metis heap_ok_palloc_cell heap_ok_palloc_list)
  moreover have "0 < brk h" using assms by (simp add: heap_ok_def)
  ultimately show ?thesis
    using assms by (auto simp: list_step_def list_rep_def header_def only_changes_def)
qed

lemma lappend_gen_step:
  assumes ok: "heap_ok h" and rep: "list_rep h tag l xs" and d: "has_tag tag d"
  shows "\<exists>l' h' a. lappend_gen tag h l d = Inr (l', h') \<and> list_step h tag l xs h' l' (xs @ [(a, d)])"
proof (cases "l = NIL")
  case True
  let ?h = "h\<lparr>cells := (cells h)(brk h \<mapsto> \<lparr>cdata = d, cnext = 0\<rparr>),
              lists := (lists h)(Suc (brk h) \<mapsto> header tag [(brk h, d)]),
              brk := Suc (Suc (brk h))\<rparr>"
  from True rep have "xs = []" by simp
  note step = new_singleton [OF ok d]
  then have "list_rep ?h tag (Suc (brk h)) [(brk h, d)]" by (simp add: list_step_def)
  then have "check_list_invariants ?h (Suc (brk h)) = Inr ()" by (rule check_list_invariants_rep)
  then have "lappend_gen tag h l d = Inr (Suc (brk h), ?h)"
    using True by (simp add: lappend_gen_def assert_is_list_def new_list_def heap_defs header_def
        heap_norm)
  with step True \<open>xs = []\<close> show ?thesis by fastforce
next
  case False
  let ?t = "fst (last xs)"
  let ?h = "h\<lparr>cells := (cells h)(?t \<mapsto> \<lparr>cdata = snd (last xs), cnext = brk h\<rparr>,
                       brk h \<mapsto> \<lparr>cdata = d, cnext = 0\<rparr>),
              lists := (lists h)(l \<mapsto> header tag (xs @ [(brk h, d)])), brk := Suc (brk h)\<rparr>"
  from rep False have nz: "xs \<noteq> []" and hdr: "lists h l = Some (header tag xs)"
    and seg: "lseg h (fst (hd xs)) xs 0"
    by (auto simp: list_rep_def)
  note last = lseg_last [OF seg nz]
  note inh = list_rep_in_heap [OF ok rep False]
  have t: "?t < brk h" "?t \<in> addrs xs" using inh nz by auto
  have "cells ?h a = cells h a" if "a \<in> addrs xs" "a \<noteq> ?t" for a
    using inh that by auto
  then have "lseg ?h (fst (hd xs)) xs (brk h)"
    using t by (intro lseg_set_next [OF seg lseg_distinct [OF seg] nz]) auto
  moreover have "lseg ?h (brk h) [(brk h, d)] 0"
    using ok by (simp add: heap_ok_def)
  ultimately have seg': "lseg ?h (fst (hd xs)) (xs @ [(brk h, d)]) 0"
    unfolding lseg_append by blast
  have rep': "list_rep ?h tag l (xs @ [(brk h, d)])"
    unfolding list_rep_def using seg' False nz d list_rep_tags [OF rep] by auto
  have "?h = put_list (put_cell (snd (palloc_cell h \<lparr>cdata = d, cnext = 0\<rparr>)) ?t
                          \<lparr>cdata = snd (last xs), cnext = brk h\<rparr>) l (header tag (xs @ [(brk h, d)]))"
    using t by (simp add: put_list_def put_cell_def palloc_cell_def heap_norm fun_upd_twist)
  also have "heap_ok \<dots>"
    using ok hdr last
    by (intro heap_ok_put_list heap_ok_put_cell heap_ok_palloc_cell)
      (auto simp: put_cell_def palloc_cell_def)
  finally have ok': "heap_ok ?h" .
  have "lappend_gen tag h l d = Inr (l, ?h)"
    using False check_list_invariants_rep [OF rep'] assert_is_list_rep [OF rep] hdr last t nz
    by (simp add: lappend_gen_def new_tail_cell_def heap_defs header_def heap_norm fun_upd_twist
        add.commute)
  moreover have "list_step h tag l xs ?h l (xs @ [(brk h, d)])"
    using ok' rep' t inh by (auto simp: list_step_def only_changes_def)
  ultimately show ?thesis by blast
qed

lemma lcons_gen_step:
  assumes ok: "heap_ok h" and rep: "list_rep h tag l xs" and d: "has_tag tag d"
  shows "\<exists>l' h' a. lcons_gen tag h d l = Inr (l', h') \<and> list_step h tag l xs h' l' ((a, d) # xs)"
proof (cases "l = NIL")
  case True
  let ?h = "h\<lparr>cells := (cells h)(brk h \<mapsto> \<lparr>cdata = d, cnext = 0\<rparr>),
              lists := (lists h)(Suc (brk h) \<mapsto> header tag [(brk h, d)]),
              brk := Suc (Suc (brk h))\<rparr>"
  from True rep have "xs = []" by simp
  note step = new_singleton [OF ok d]
  then have "list_rep ?h tag (Suc (brk h)) [(brk h, d)]" by (simp add: list_step_def)
  then have "check_list_invariants ?h (Suc (brk h)) = Inr ()" by (rule check_list_invariants_rep)
  then have "lcons_gen tag h d l = Inr (Suc (brk h), ?h)"
    using True by (simp add: lcons_gen_def assert_is_list_def new_list_def heap_defs header_def
        heap_norm)
  with step True \<open>xs = []\<close> show ?thesis by fastforce
next
  case False
  let ?p = "fst (hd xs)"
  let ?h = "h\<lparr>cells := (cells h)(brk h \<mapsto> \<lparr>cdata = d, cnext = ?p\<rparr>),
              lists := (lists h)(l \<mapsto> header tag ((brk h, d) # xs)), brk := Suc (brk h)\<rparr>"
  from rep False have nz: "xs \<noteq> []" and hdr: "lists h l = Some (header tag xs)"
    and seg: "lseg h ?p xs 0"
    by (auto simp: list_rep_def)
  note inh = list_rep_in_heap [OF ok rep False]
  have "lseg ?h ?p xs 0 = lseg h ?p xs 0"
    using inh by (intro lseg_frame) auto
  with seg ok have seg': "lseg ?h (brk h) ((brk h, d) # xs) 0"
    by (simp add: heap_ok_def)
  have rep': "list_rep ?h tag l ((brk h, d) # xs)"
    unfolding list_rep_def using seg' False nz d list_rep_tags [OF rep] by auto
  have "?h = put_list (snd (palloc_cell h \<lparr>cdata = d, cnext = ?p\<rparr>)) l (header tag ((brk h, d) # xs))"
    by (simp add: put_list_def palloc_cell_def heap_norm)
  also have "heap_ok \<dots>"
    using ok hdr by (intro heap_ok_put_list heap_ok_palloc_cell) (auto simp: palloc_cell_def)
  finally have ok': "heap_ok ?h" .
  have "lcons_gen tag h d l = Inr (l, ?h)"
    using False check_list_invariants_rep [OF rep'] assert_is_list_rep [OF rep] hdr nz
    by (simp add: lcons_gen_def new_head_cell_def heap_defs header_def heap_norm add.commute)
  moreover have "list_step h tag l xs ?h l ((brk h, d) # xs)"
    using ok' rep' inh by (auto simp: list_step_def only_changes_def)
  ultimately show ?thesis by blast
qed

section \<open>Access by position\<close>

lemma list_nth_cell_rep:
  assumes rep: "list_rep h tag l xs" and n: "n < length xs"
  shows "list_nth_cell h l (int n) = Inr (fst (xs ! n))"
proof -
  from rep n have l: "l \<noteq> NIL" by (auto simp: list_rep_def split: if_splits)
  with rep have seg: "lseg h (fst (hd xs)) xs 0" and nz: "xs \<noteq> []" by (auto simp: list_rep_def)
  have "fst (xs ! n) = fst (last xs)" if "int n = int (length xs) - 1"
    using that nz by (auto simp: last_conv_nth algebra_simps)
      (metis One_nat_def Suc_diff_1 length_greater_0_conv nat_int nat_int_add of_nat_Suc diff_Suc_1 plus_1_eq_Suc)
  with lseg_nth_cell [OF seg n] l n show ?thesis
    by (simp add: list_nth_cell_def get_list_rep [OF rep l] check_list_invariants_rep [OF rep])
qed

lemma list_nth_gen_rep:
  assumes rep: "list_rep h tag l xs" and n: "n < length xs"
  shows "list_nth_gen tag h l (int n) = Inr (vals xs ! n)"
proof -
  from rep n have l: "l \<noteq> NIL" by (auto simp: list_rep_def split: if_splits)
  with rep have seg: "lseg h (fst (hd xs)) xs 0" by (auto simp: list_rep_def)
  have "has_tag tag (snd (xs ! n))" using list_rep_tags [OF rep] n by simp
  with lseg_nth_cell [OF seg n] n show ?thesis
    by (auto simp: list_nth_gen_def assert_is_list_rep [OF rep] list_nth_cell_rep [OF rep n]
        get_cell_def read_as_def)
qed

lemma list_nth_gen_out_of_range:
  assumes rep: "list_rep h tag l xs" and n: "n < 0 \<or> int (length xs) \<le> n"
  shows "list_nth_gen tag h l n = Inl AssertFailed"
  using n by (cases "l = NIL")
    (auto simp: list_nth_gen_def assert_is_list_rep [OF rep] list_nth_cell_def get_list_rep [OF rep]
      cassert_def assert_is_list_def)

section \<open>Membership\<close>

lemma list_member_loop_rep:
  "lseg h p xs 0 \<Longrightarrow> \<forall>x \<in> set xs. has_tag tag (snd x) \<Longrightarrow> length xs < fuel \<Longrightarrow>
     list_member_loop tag eq fuel h p d = Inr (\<exists>x \<in> set (vals xs). eq x d)"
proof (induction xs arbitrary: p fuel)
  case Nil
  then show ?case by (cases fuel) auto
next
  case (Cons x xs)
  then obtain f n where "fuel = Suc f" "p = fst x" "p \<noteq> 0"
    and c: "cells h p = Some \<lparr>cdata = snd x, cnext = n\<rparr>" and "lseg h n xs 0"
    by (cases fuel) auto
  with Cons show ?case
    by (auto simp: get_cell_def read_as_def)
qed

lemma list_member_gen_rep:
  assumes ok: "heap_ok h" and rep: "list_rep h tag l xs"
  shows "list_member_gen tag eq h l d = Inr (\<exists>x \<in> set (vals xs). eq x d)"
proof -
  have "lseg h (if xs = [] then 0 else fst (hd xs)) xs 0"
    using rep by (auto simp: list_rep_def split: if_splits)
  from list_member_loop_rep [OF this] list_rep_tags [OF rep] list_rep_length [OF ok rep]
  show ?thesis
    by (simp add: list_member_gen_def assert_is_list_rep [OF rep] check_list_invariants_rep [OF rep]
        list_head_rep [OF rep])
qed

section \<open>Cutting and joining\<close>

lemma list_concat_rep:
  assumes ok: "heap_ok h" and rep1: "list_rep h tag l1 xs" and rep2: "list_rep h tag l2 ys"
    and disj: "addrs xs \<inter> addrs ys = {}" and ne: "l1 = l2 \<Longrightarrow> l1 = NIL"
  shows "\<exists>l' h'. list_concat h l1 l2 = Inr (l', h') \<and> heap_ok h' \<and> list_rep h' tag l' (xs @ ys) \<and>
           list_rep h' tag l2 ys \<and> only_changes h h' (addrs xs) {l1}"
proof (cases "l1 = NIL \<or> l2 = NIL")
  case True
  with ok rep1 rep2 show ?thesis by (auto simp: list_concat_def)
next
  case False
  let ?t = "fst (last xs)"
  let ?h = "h\<lparr>cells := (cells h)(?t \<mapsto> \<lparr>cdata = snd (last xs), cnext = fst (hd ys)\<rparr>),
              lists := (lists h)(l1 \<mapsto> header tag (xs @ ys))\<rparr>"
  from False rep1 rep2 have nz: "xs \<noteq> []" "ys \<noteq> []"
    and hdr: "lists h l1 = Some (header tag xs)" "lists h l2 = Some (header tag ys)"
    and seg: "lseg h (fst (hd xs)) xs 0" "lseg h (fst (hd ys)) ys 0"
    by (auto simp: list_rep_def)
  note last = lseg_last [OF seg(1) nz(1)]
  have t: "?t \<in> addrs xs" using nz by simp
  have ok': "heap_ok ?h"
    using ok hdr last heap_ok_put_list [OF heap_ok_put_cell [OF ok, of ?t], of l1]
    by (auto simp: put_list_def put_cell_def)
  have "lseg ?h (fst (hd xs)) xs (fst (hd ys))"
    using lseg_set_next [OF seg(1) lseg_distinct [OF seg(1)] nz(1)] by simp
  moreover have "cells ?h a = cells h a" if "a \<in> addrs ys" for a
  proof -
    have "a \<noteq> ?t" using disj t that by blast
    then show ?thesis by simp
  qed
  then have "lseg ?h (fst (hd ys)) ys 0 = lseg h (fst (hd ys)) ys 0"
    by (rule lseg_frame)
  ultimately have "lseg ?h (fst (hd xs)) (xs @ ys) 0"
    using seg(2) unfolding lseg_append by blast
  then have rep': "list_rep ?h tag l1 (xs @ ys)"
    using False nz list_rep_tags [OF rep1] list_rep_tags [OF rep2]
    unfolding list_rep_def by (auto simp: hd_append)
  have oc: "only_changes h ?h (addrs xs) {l1}"
    using t by (auto simp: only_changes_def)
  have "list_concat h l1 l2 = Inr (l1, ?h)"
    using False ne hdr last nz check_list_invariants_rep [OF rep']
    by (auto simp: list_concat_def heap_defs header_def hd_append last_append)
  moreover have "list_rep ?h tag l2 ys"
    using list_rep_frame [OF ok rep2 oc] disj False ne by auto
  ultimately show ?thesis using ok' rep' oc by blast
qed

lemma list_truncate_loop_rep:
  "lseg h p zs 0 \<Longrightarrow> k < length zs \<Longrightarrow> k < fuel \<Longrightarrow>
     list_truncate_loop fuel h l (n + int k) p n =
       list_truncate_loop 1 h l (n + int k) (fst (zs ! k)) (n + int k)"
proof (induction k arbitrary: zs p n fuel)
  case 0
  then show ?case by (cases zs; cases fuel) auto
next
  case (Suc k)
  then obtain z zs' f where zs: "zs = z # zs'" and f: "fuel = Suc f"
    by (cases zs; cases fuel) auto
  with Suc.prems obtain m where m: "p = fst z" "p \<noteq> 0"
    "cells h p = Some \<lparr>cdata = snd z, cnext = m\<rparr>" "lseg h m zs' 0"
    by auto
  have "list_truncate_loop f h l ((n + 1) + int k) m (n + 1) =
       list_truncate_loop 1 h l ((n + 1) + int k) (fst (zs' ! k)) ((n + 1) + int k)"
    using Suc.prems zs f m by (intro Suc.IH) auto
  moreover have "n + 1 + int k = n + int (Suc k)" by simp
  ultimately have "list_truncate_loop f h l (n + int (Suc k)) m (n + 1) =
       list_truncate_loop 1 h l (n + int (Suc k)) (fst (zs' ! k)) (n + int (Suc k))"
    by (simp only:)
  moreover have "n \<noteq> n + int (Suc k)" by simp
  ultimately show ?case using m f zs
    by (simp only: list_truncate_loop.simps if_False nth_Cons_Suc)
      (simp add: get_cell_def)
qed

text \<open>The store after the list has been cut behind cell \<open>k\<close>.\<close>

definition cut_store :: "heap \<Rightarrow> NodeTag \<Rightarrow> addr \<Rightarrow> (addr \<times> ListData) list \<Rightarrow> nat \<Rightarrow> heap" where
  "cut_store h tag l xs k =
     h\<lparr>cells := (cells h)(fst (xs ! k) \<mapsto> \<lparr>cdata = snd (xs ! k), cnext = 0\<rparr>),
       lists := (lists h)(l \<mapsto> header tag (take (Suc k) xs))\<rparr>"

lemma cut_step:
  assumes ok: "heap_ok h" and rep: "list_rep h tag l xs" and k: "k < length xs"
  shows "list_step h tag l xs (cut_store h tag l xs k) l (take (Suc k) xs)"
proof -
  have nz: "xs \<noteq> []" using k by auto
  then have l: "l \<noteq> NIL" using rep by (cases "l = NIL") simp_all
  with rep have hdr: "lists h l = Some (header tag xs)" and seg: "lseg h (fst (hd xs)) xs 0"
    by (auto simp: list_rep_def)
  let ?ys = "take (Suc k) xs" and ?h = "cut_store h tag l xs k"
  have ys: "?ys \<noteq> []" "last ?ys = xs ! k" "hd ?ys = hd xs"
    using k nz by (auto simp: take_Suc_conv_app_nth hd_append last_append hd_conv_nth)
  have "lseg h (fst (hd xs)) (?ys @ drop (Suc k) xs) 0" using seg by simp
  then obtain r where seg1: "lseg h (fst (hd xs)) ?ys r" unfolding lseg_append by blast
  have dist: "distinct (map fst ?ys)"
    using lseg_distinct [OF seg] by (simp add: take_map [symmetric] distinct_take)
  have "lseg ?h (fst (hd xs)) ?ys 0"
    using lseg_set_next [OF seg1 dist ys(1)] ys(2) by (simp add: cut_store_def)
  then have rep': "list_rep ?h tag l ?ys"
    using l ys list_rep_tags [OF rep] unfolding list_rep_def
    by (auto simp: cut_store_def dest: in_set_takeD)
  obtain m where cell: "cells h (fst (xs ! k)) = Some \<lparr>cdata = snd (xs ! k), cnext = m\<rparr>"
    using lseg_nth_cell [OF seg k] by blast
  have "heap_ok ?h"
    using heap_ok_put_list [OF heap_ok_put_cell [OF ok, of "fst (xs ! k)"], of l] cell hdr
    by (auto simp: put_list_def put_cell_def cut_store_def)
  moreover have "fst (xs ! k) \<in> addrs xs" using k by auto
  ultimately show ?thesis using rep'
    by (auto simp: list_step_def only_changes_def cut_store_def dest: in_set_takeD)
qed

lemma list_truncate_rep:
  assumes ok: "heap_ok h" and rep: "list_rep h tag l xs"
  shows "\<exists>l' h'. list_truncate h l n = Inr (l', h') \<and> list_step h tag l xs h' l' (take (nat n) xs)"
proof -
  consider (zero) "n \<le> 0" | (all) "0 < n" "int (length xs) \<le> n" | (cut) "0 < n" "n < int (length xs)"
    by linarith
  then show ?thesis
  proof cases
    case zero
    with ok show ?thesis by (auto simp: list_truncate_def list_step_def)
  next
    case all
    then have "take (nat n) xs = xs" by simp
    with all list_step_refl [OF ok rep] show ?thesis
      by (auto simp: list_truncate_def list_length_rep [OF rep])
  next
    case cut
    define k where "k = nat (n - 1)"
    from cut have k: "n = 1 + int k" "k < length xs" "nat n = Suc k" by (auto simp: k_def)
    have l: "l \<noteq> NIL" and nz: "xs \<noteq> []" using rep k by (auto simp: list_rep_def split: if_splits)
    with rep have hdr: "lists h l = Some (header tag xs)" and seg: "lseg h (fst (hd xs)) xs 0"
      by (auto simp: list_rep_def)
    note step = cut_step [OF ok rep k(2)]
    obtain m where cell: "cells h (fst (xs ! k)) = Some \<lparr>cdata = snd (xs ! k), cnext = m\<rparr>"
      using lseg_nth_cell [OF seg k(2)] by blast
    have x0: "fst (xs ! k) \<noteq> 0" using lseg_dom [OF seg, of "fst (xs ! k)"] k by auto
    have hdr': "(header tag xs)\<lparr>ltail := fst (xs ! k), llength := n\<rparr> = header tag (take (Suc k) xs)"
      using k nz by (simp add: header_def take_Suc_conv_app_nth hd_append last_append hd_conv_nth)
    have "check_list_invariants (cut_store h tag l xs k) l = Inr ()"
      using step check_list_invariants_rep by (auto simp: list_step_def)
    then have "list_truncate_loop 1 h l n (fst (xs ! k)) n = Inr (l, cut_store h tag l xs k)"
      using cell hdr x0 hdr' by (simp add: heap_defs cut_store_def)
    moreover have "list_truncate h l n = list_truncate_loop 1 h l n (fst (xs ! k)) n"
      using cut k list_truncate_loop_rep [OF seg k(2), of "brk h" l 1] list_rep_length [OF ok rep] nz
      by (simp add: list_truncate_def list_length_rep [OF rep] list_head_rep [OF rep])
    ultimately show ?thesis using step by (auto simp: k(3))
  qed
qed

end
