(* ===== verification/PgListSets.thy ===== *)
theory PgListSets
  imports PgListSpec
begin

text \<open>
  Deletion, release, copying and the set operations of \<open>list.c\<close>, against their meaning on
  HOL lists.
\<close>

section \<open>The operations on HOL lists\<close>

fun del_first :: "('a \<Rightarrow> bool) \<Rightarrow> 'a list \<Rightarrow> 'a list" where
  "del_first P [] = []"
| "del_first P (x # xs) = (if P x then xs else x # del_first P xs)"

fun append_new :: "('a \<Rightarrow> 'a \<Rightarrow> bool) \<Rightarrow> 'a list \<Rightarrow> 'a list \<Rightarrow> 'a list" where
  "append_new eq acc [] = acc"
| "append_new eq acc (d # ds) =
     append_new eq (if \<exists>x \<in> set acc. eq x d then acc else acc @ [d]) ds"

lemma list_rep_ne: "list_rep h tag l xs \<Longrightarrow> xs \<noteq> [] \<Longrightarrow> l \<noteq> NIL"
  by (cases "l = NIL") auto

lemma list_rep_seg: "list_rep h tag l xs \<Longrightarrow> lseg h (if xs = [] then 0 else fst (hd xs)) xs 0"
  by (auto simp: list_rep_def split: if_splits)

lemma assert_is_list_NIL [simp]: "assert_is_list tag h NIL = Inr ()"
  by (simp add: assert_is_list_def)

lemma heap_ok_dom:
  assumes ok: "heap_ok h" and c: "dom (cells h') \<subseteq> dom (cells h)"
    and l: "dom (lists h') \<subseteq> dom (lists h)" and o: "objs h' = objs h" and b: "brk h' = brk h"
  shows "heap_ok h'"
proof -
  have "dom (cells h') \<union> dom (lists h') \<union> objs h' \<subseteq> dom (cells h) \<union> dom (lists h) \<union> objs h"
    using c l o by blast
  then have "\<forall>a \<in> dom (cells h') \<union> dom (lists h') \<union> objs h'. 0 < a \<and> a < brk h'"
    using ok b by (metis heap_ok_def subsetD)
  moreover have "dom (cells h') \<inter> dom (lists h') = {}" "dom (cells h') \<inter> objs h' = {}"
    "dom (lists h') \<inter> objs h' = {}"
    using ok c l o unfolding heap_ok_def by (metis inf_mono subset_empty order_refl)+
  ultimately show ?thesis using ok b by (simp add: heap_ok_def)
qed

section \<open>Release\<close>

lemma list_free_loop_rep:
  assumes "lseg h p xs 0" "length xs < fuel"
  shows "list_free_loop fuel h p False = Inr (h\<lparr>cells := cells h |` (- addrs xs)\<rparr>)"
  using assms
proof (induction xs arbitrary: h p fuel)
  case Nil
  then show ?case by (cases fuel) auto
next
  case (Cons x xs)
  then obtain f n where f: "fuel = Suc f" and p: "p = fst x" "p \<noteq> 0"
    and c: "cells h p = Some \<lparr>cdata = snd x, cnext = n\<rparr>" and seg: "lseg h n xs 0"
    by (cases fuel) auto
  let ?h = "h\<lparr>cells := (cells h)(p := None)\<rparr>"
  from lseg_distinct [OF Cons.prems(1)] p have "p \<notin> addrs xs" by simp
  then have "lseg ?h n xs 0 = lseg h n xs 0"
    by (intro lseg_frame) (metis fun_upd_other heap.simps(5) heap.ext_inject heap.surjective heap.update_convs(1))
  with seg have "list_free_loop f ?h n False = Inr (?h\<lparr>cells := cells ?h |` (- addrs xs)\<rparr>)"
    using Cons.prems f by (intro Cons.IH) auto
  moreover have "(cells h)(p := None) |` (- addrs xs) = cells h |` (- addrs (x # xs))"
    using p by (auto simp: restrict_map_def fun_eq_iff)
  ultimately show ?case using f p c by (simp add: get_cell_def pfree_def)
qed

lemma list_free_rep:
  assumes ok: "heap_ok h" and rep: "list_rep h tag l xs"
  shows "list_free h l = Inr (h\<lparr>cells := cells h |` (- addrs xs), lists := (lists h)(l := None)\<rparr>)"
proof (cases "l = NIL")
  case True
  with rep have "xs = []" by simp
  have "(lists h)(0 := None) = lists h" using heap_ok_0 [OF ok] by auto
  moreover have "cells h |` UNIV = cells h" by (simp add: fun_eq_iff)
  ultimately show ?thesis using True \<open>xs = []\<close> list_rep_length [OF ok rep]
    by (cases "brk h") (auto simp: list_free_def list_free_private_def check_list_invariants_def list_head_def)
next
  case False
  with rep have seg: "lseg h (fst (hd xs)) xs 0" and nz: "xs \<noteq> []"
    and hdr: "lists h l = Some (header tag xs)"
    by (auto simp: list_rep_def)
  have "cells h l = None" using ok hdr by (auto simp: heap_ok_def)
  with list_free_loop_rep [OF seg list_rep_length [OF ok rep]] hdr nz False show ?thesis
    by (simp add: list_free_def list_free_private_def check_list_invariants_rep [OF rep]
        list_head_rep [OF rep] pfree_def)
qed

section \<open>Deletion\<close>

text \<open>The cells after \<open>x\<close> has been unlinked from between \<open>pre\<close> and the cell at \<open>m\<close>.\<close>

definition unlinked :: "heap \<Rightarrow> (addr \<times> ListData) list \<Rightarrow> addr \<times> ListData \<Rightarrow> addr \<Rightarrow> addr \<rightharpoonup> ListCell" where
  "unlinked h pre x m =
     (if pre = [] then cells h
      else (cells h)(fst (last pre) \<mapsto> \<lparr>cdata = snd (last pre), cnext = m\<rparr>))(fst x := None)"

lemma lseg_unlinked:
  assumes pre: "lseg h p pre (fst x)" and post: "lseg h m post 0"
    and dist: "distinct (map fst (pre @ x # post))" and h': "\<And>a. a \<in> addrs (pre @ post) \<Longrightarrow> cells h' a = unlinked h pre x m a"
  shows "lseg h' (if pre = [] then m else p) (pre @ post) 0"
proof -
  have xpre: "fst x \<notin> addrs pre" and xpost: "fst x \<notin> addrs post"
    and disj: "addrs pre \<inter> addrs post = {}" and dpre: "distinct (map fst pre)"
    using dist by auto
  have "cells h' a = cells h a" if "a \<in> addrs post" for a
  proof -
    have "a \<noteq> fst x" "pre \<noteq> [] \<Longrightarrow> a \<noteq> fst (last pre)"
      using that xpost disj last_in_set by (blast, metis disjoint_iff imageI)
    moreover have "cells h' a = unlinked h pre x m a" using that by (intro h') auto
    ultimately show ?thesis by (simp add: unlinked_def)
  qed
  then have post': "lseg h' m post 0" using post lseg_frame [of post h' h] by blast
  show ?thesis
  proof (cases "pre = []")
    case True
    with post' show ?thesis by simp
  next
    case pz: False
    have "fst (last pre) \<noteq> fst x" using xpre pz by (metis image_eqI last_in_set)
    moreover have "cells h' a = cells h a" if "a \<in> addrs pre" "a \<noteq> fst (last pre)" for a
    proof -
      have "a \<noteq> fst x" using that xpre by blast
      moreover have "cells h' a = unlinked h pre x m a" using that by (intro h') auto
      ultimately show ?thesis using that pz by (simp add: unlinked_def)
    qed
    moreover have "cells h' (fst (last pre)) = unlinked h pre x m (fst (last pre))"
      using pz by (intro h') auto
    ultimately have "lseg h' p pre m"
      using pz by (intro lseg_set_next [OF pre dpre pz]) (auto simp: unlinked_def)
    with post' pz show ?thesis unfolding lseg_append by auto
  qed
qed

text \<open>The header \<open>list_delete_cell\<close> stores is that of the shorter list.\<close>

lemma header_unlinked:
  assumes "distinct (map fst (pre @ x # post))" "pre @ post \<noteq> []"
    and "prev = (if pre = [] then 0 else fst (last pre))"
    and "m = (if post = [] then 0 else fst (hd post))"
  shows "(let L = (header tag (pre @ x # post))\<lparr>llength := int (length (pre @ x # post)) - 1\<rparr>;
              L = (if pre = [] then L\<lparr>lhead := m\<rparr> else L)
          in if ltail L = fst x then L\<lparr>ltail := prev\<rparr> else L) = header tag (pre @ post)"
proof (cases "post = []")
  case True
  with assms show ?thesis by (simp add: header_def Let_def)
next
  case False
  then have "last post \<in> set post" by simp
  with assms(1) have "fst (last post) \<noteq> fst x" by (auto simp: image_iff)
  with False assms show ?thesis by (simp add: header_def Let_def)
qed

lemma list_delete_cell_unlinks:
  assumes ok: "heap_ok h" and rep: "list_rep h tag l (pre @ x # post)"
    and prev: "prev = (if pre = [] then 0 else fst (last pre))" and more: "pre @ post \<noteq> []"
    and pre: "lseg h p pre (fst x)"
    and cx: "cells h (fst x) = Some \<lparr>cdata = snd x, cnext = m\<rparr>" and post: "lseg h m post 0"
  shows "list_delete_cell h l (fst x) prev =
           Inr (l, h\<lparr>cells := unlinked h pre x m, lists := (lists h)(l \<mapsto> header tag (pre @ post))\<rparr>)"
proof -
  let ?xs = "pre @ x # post"
  have l: "l \<noteq> NIL" using list_rep_ne [OF rep] by simp
  with rep have hdr: "lists h l = Some (header tag ?xs)" by (auto simp: list_rep_def)
  have len: "int (length ?xs) \<noteq> 1" using more by (cases pre; cases post) auto
  note hdrs = header_unlinked [OF list_rep_distinct [OF rep] more prev lseg_head_ptr [OF post], of tag]
  have lx: "lists h (fst x) = None" "fst x \<noteq> l" using cx ok hdr by (auto simp: heap_ok_def)
  show ?thesis
  proof (cases "pre = []")
    case True
    with hdrs have eq: "header tag (pre @ post) =
        (let L = (header tag ?xs)\<lparr>llength := int (length ?xs) - 1, lhead := m\<rparr>
         in if ltail L = fst x then L\<lparr>ltail := prev\<rparr> else L)" by (simp add: Let_def)
    show ?thesis using len lx cx True prev hdr eq
      by (simp add: list_delete_cell_def check_list_invariants_rep [OF rep]
          list_head_rep [OF rep] heap_defs pfree_def heap_norm unlinked_def Let_def)
  next
    case pz: False
    with lseg_last [OF pre pz] prev have pv: "prev = fst (last pre)" "prev \<noteq> 0"
      "cells h prev = Some \<lparr>cdata = snd (last pre), cnext = fst x\<rparr>" by auto
    have pvx: "prev \<noteq> fst x"
    proof -
      have "fst x \<notin> addrs pre" using list_rep_distinct [OF rep] by simp
      with pv(1) last_in_set [OF pz] show ?thesis by (metis imageI)
    qed
    from pz hdrs have eq: "header tag (pre @ post) =
        (let L = (header tag ?xs)\<lparr>llength := int (length ?xs) - 1\<rparr>
         in if ltail L = fst x then L\<lparr>ltail := prev\<rparr> else L)" by (simp add: Let_def)
    show ?thesis using len lx cx pz pv pvx hdr eq
      by (simp add: list_delete_cell_def check_list_invariants_rep [OF rep] heap_defs pfree_def heap_norm unlinked_def Let_def)
  qed
qed

lemma list_delete_cell_rep:
  assumes ok: "heap_ok h" and rep: "list_rep h tag l (pre @ x # post)"
    and prev: "prev = (if pre = [] then 0 else fst (last pre))"
  shows "\<exists>l' h'. list_delete_cell h l (fst x) prev = Inr (l', h') \<and>
           list_step h tag l (pre @ x # post) h' l' (pre @ post)"
proof -
  let ?xs = "pre @ x # post"
  have l: "l \<noteq> NIL" using list_rep_ne [OF rep] by simp
  with rep have hdr: "lists h l = Some (header tag ?xs)" and seg: "lseg h (fst (hd ?xs)) ?xs 0"
    by (auto simp: list_rep_def)
  from seg obtain m where pre: "lseg h (fst (hd ?xs)) pre (fst x)"
    and cx: "cells h (fst x) = Some \<lparr>cdata = snd x, cnext = m\<rparr>" and post: "lseg h m post 0"
    by (auto simp: lseg_append)
  show ?thesis
  proof (cases "pre @ post = []")
    case True
    let ?h = "h\<lparr>cells := cells h |` (- addrs ?xs), lists := (lists h)(l := None)\<rparr>"
    have "list_delete_cell h l (fst x) prev = Inr (NIL, ?h)"
      using True prev list_free_rep [OF ok rep] hdr
      by (simp add: list_delete_cell_def check_list_invariants_rep [OF rep] get_list_rep [OF rep l]
          list_head_rep [OF rep])
    moreover have "only_changes h ?h (addrs ?xs) {l}"
      by (auto simp: only_changes_def restrict_map_def)
    then have "list_step h tag l ?xs ?h NIL []"
      using heap_ok_dom [OF ok, of ?h] by (auto simp: list_step_def)
    ultimately show ?thesis using True by auto
  next
    case False
    let ?h = "h\<lparr>cells := unlinked h pre x m, lists := (lists h)(l \<mapsto> header tag (pre @ post))\<rparr>"
    have "lseg ?h (fst (hd (pre @ post))) (pre @ post) 0"
      using lseg_unlinked [OF pre post lseg_distinct [OF seg], of ?h] lseg_head_ptr [OF post] False
      by (cases "pre = []") auto
    then have "list_rep ?h tag l (pre @ post)"
      using l False list_rep_tags [OF rep] unfolding list_rep_def by auto
    moreover have "heap_ok ?h"
      using lseg_last [OF pre] hdr
      by (intro heap_ok_dom [OF ok]) (auto simp: unlinked_def split: if_splits)
    moreover have "only_changes h ?h (addrs ?xs) {l}"
      by (auto simp: only_changes_def unlinked_def)
    ultimately have "list_step h tag l ?xs ?h l (pre @ post)"
      by (auto simp: list_step_def)
    with list_delete_cell_unlinks [OF ok rep prev False pre cx post] show ?thesis by blast
  qed
qed

lemma list_delete_cell_frees:
  assumes ok: "heap_ok h" and rep: "list_rep h tag l (pre @ x # post)"
    and prev: "prev = (if pre = [] then 0 else fst (last pre))"
    and ret: "list_delete_cell h l (fst x) prev = Inr (l', h')"
  shows "cells h' (fst x) = None"
proof (cases "pre @ post = []")
  case True
  with ret prev rep list_free_rep [OF ok rep] list_rep_ne [OF rep] show ?thesis
    by (auto simp: list_delete_cell_def check_list_invariants_rep [OF rep] get_list_rep [OF rep]
        list_head_rep [OF rep])
next
  case False
  from list_rep_seg [OF rep] obtain p m where "lseg h p pre (fst x)"
    "cells h (fst x) = Some \<lparr>cdata = snd x, cnext = m\<rparr>" "lseg h m post 0"
    by (auto simp: lseg_append)
  from list_delete_cell_unlinks [OF ok rep prev False this] ret show ?thesis
    by (auto simp: unlinked_def)
qed

lemma list_delete_loop_rep:
  assumes ok: "heap_ok h" and rep: "list_rep h tag l (pre @ xs)"
    and seg: "lseg h p xs 0" and fuel: "length xs < fuel"
    and prev: "prev = (if pre = [] then 0 else fst (last pre))"
  shows "\<exists>l' h' ys. list_delete_loop tag eq fuel h l p prev d = Inr (l', h') \<and>
           list_step h tag l (pre @ xs) h' l' (pre @ del_first (\<lambda>x. eq (snd x) d) xs)"
  using rep seg fuel prev
proof (induction xs arbitrary: pre p fuel prev)
  case Nil
  then show ?case using list_step_refl [OF ok] by (cases fuel) auto
next
  case (Cons x xs)
  then obtain f n where f: "fuel = Suc f" and p: "p = fst x" "p \<noteq> 0"
    and c: "cells h p = Some \<lparr>cdata = snd x, cnext = n\<rparr>" and seg: "lseg h n xs 0"
    by (cases fuel) auto
  have t: "has_tag tag (snd x)" using list_rep_tags [OF Cons.prems(1)] by simp
  show ?case
  proof (cases "eq (snd x) d")
    case True
    with list_delete_cell_rep [OF ok Cons.prems(1,4)] show ?thesis
      using f p c t by (auto simp: get_cell_def read_as_def)
  next
    case False
    from Cons.IH [of "pre @ [x]" n f p] Cons.prems(1,3) seg f p
    show ?thesis using False c t p f by (simp add: get_cell_def read_as_def)
  qed
qed

lemma list_delete_gen_rep:
  assumes ok: "heap_ok h" and rep: "list_rep h tag l xs"
  shows "\<exists>l' h'. list_delete_gen tag eq h l d = Inr (l', h') \<and>
           list_step h tag l xs h' l' (del_first (\<lambda>x. eq (snd x) d) xs)"
proof -
  have "lseg h (if xs = [] then 0 else fst (hd xs)) xs 0"
    using rep by (auto simp: list_rep_def split: if_splits)
  from list_delete_loop_rep [OF ok _ this list_rep_length [OF ok rep], of tag l "[]" 0 eq d] rep
  show ?thesis
    by (auto simp: list_delete_gen_def list_facts [OF rep])
qed

lemma list_delete_first_rep:
  assumes ok: "heap_ok h" and rep: "list_rep h tag l xs"
  shows "\<exists>l' h'. list_delete_first h l = Inr (l', h') \<and> list_step h tag l xs h' l' (tl xs)"
proof (cases xs)
  case Nil
  with rep show ?thesis using list_step_refl [OF ok rep]
    by (auto simp: list_delete_first_def list_rep_Nil check_list_invariants_def)
next
  case (Cons x ys)
  then have l: "l \<noteq> NIL" using list_rep_ne [OF rep] by simp
  have "list_delete_first h l = list_delete_cell h l (fst x) 0"
    using l Cons by (simp add: list_delete_first_def check_list_invariants_rep [OF rep]
        list_head_rep [OF rep])
  moreover have "list_rep h tag l ([] @ x # ys)" using rep Cons by simp
  ultimately show ?thesis
    using list_delete_cell_rep [OF ok, of tag l "[]" x ys 0] Cons by simp
qed

section \<open>Copying\<close>

lemma copy_cells_rep:
  assumes "heap_ok h" "lseg h cur xs 0" "length xs < fuel"
    and "cells h prev = Some \<lparr>cdata = d, cnext = n0\<rparr>" "prev \<notin> addrs xs"
  shows "\<exists>ys h' q. copy_cells fuel h prev cur = Inr (fst (last ((prev, d) # ys)), h') \<and>
           heap_ok h' \<and> vals ys = vals xs \<and> addrs ys \<subseteq> {brk h..} \<and> distinct (map fst ((prev, d) # ys)) \<and>
           lseg h' prev ((prev, d) # ys) q \<and> only_changes h h' {prev} {} \<and>
           lists h' = lists h \<and> objs h' = objs h"
  using assms
proof (induction xs arbitrary: h cur prev d n0 fuel)
  case Nil
  have "prev \<noteq> 0" using Nil.prems(4) heap_ok_0 [OF Nil.prems(1)] by (cases prev) auto
  with Nil show ?case by (cases fuel) (auto intro!: exI [of _ "[]"])
next
  case (Cons x xs)
  let ?n = "brk h"
  let ?h = "h\<lparr>cells := (cells h)(?n \<mapsto> \<lparr>cdata = snd x, cnext = ?n\<rparr>,
                 prev \<mapsto> \<lparr>cdata = d, cnext = ?n\<rparr>), brk := Suc ?n\<rparr>"
  from Cons.prems obtain f m where f: "fuel = Suc f" and c: "cur = fst x" "cur \<noteq> 0"
    "cells h cur = Some \<lparr>cdata = snd x, cnext = m\<rparr>" and seg: "lseg h m xs 0"
    by (cases fuel) auto
  have pn: "prev \<noteq> ?n" "prev < ?n" "prev \<noteq> 0"
    using Cons.prems(1,4) by (auto simp: heap_ok_def)
  have fresh: "a < ?n" if "a \<in> addrs xs" for a
    using lseg_dom [OF seg that] Cons.prems(1) by (auto simp: heap_ok_def)
  have "cells ?h a = cells h a" if "a \<in> addrs xs" for a
    using fresh [OF that] that Cons.prems(5) by auto
  then have seg': "lseg ?h m xs 0" using seg lseg_frame [of xs ?h h] by blast
  have "heap_ok (put_cell (snd (palloc_cell h \<lparr>cdata = snd x, cnext = ?n\<rparr>)) prev \<lparr>cdata = d, cnext = ?n\<rparr>)"
    using Cons.prems(4) pn by (intro heap_ok_put_cell heap_ok_palloc_cell Cons.prems)
      (auto simp: palloc_cell_def)
  then have ok': "heap_ok ?h" by (simp add: heap_defs heap_norm)
  have step: "copy_cells fuel h prev cur = copy_cells f ?h ?n m"
    using f c pn Cons.prems(4) by (simp add: heap_defs heap_norm)
  from Cons.IH [OF ok' seg', of f ?n "snd x" ?n] Cons.prems(3) f fresh pn(1)
  obtain ys h' q where ih: "copy_cells f ?h ?n m = Inr (fst (last ((?n, snd x) # ys)), h')"
    "heap_ok h'" "vals ys = vals xs" "addrs ys \<subseteq> {brk ?h..}" "distinct (map fst ((?n, snd x) # ys))"
    "lseg h' ?n ((?n, snd x) # ys) q" "only_changes ?h h' {?n} {}" "lists h' = lists h" "objs h' = objs h"
    by fastforce
  have "cells h' prev = Some \<lparr>cdata = d, cnext = ?n\<rparr>"
    using ih(7) pn by (auto simp: only_changes_def)
  then have "lseg h' prev ((prev, d) # (?n, snd x) # ys) q" using ih(6) pn(3) by auto
  moreover have "prev \<notin> addrs ((?n, snd x) # ys)" using ih(4) pn by fastforce
  then have "distinct (map fst ((prev, d) # (?n, snd x) # ys))" using ih(5) by simp
  moreover have "only_changes h h' {prev} {}"
    using ih(7) by (auto simp: only_changes_def)
  moreover have "addrs ((?n, snd x) # ys) \<subseteq> {?n..}" using ih(4) by fastforce
  ultimately show ?case using step ih(1,2,3,8,9)
    by (intro exI [of _ "(?n, snd x) # ys"] exI [of _ h'] exI [of _ q]) simp
qed

lemma copy_from_rep:
  assumes ok: "heap_ok h" and seg: "lseg h cur xs 0" and nz: "xs \<noteq> []" and fuel: "length xs \<le> fuel"
    and tags: "\<forall>x \<in> set xs. has_tag tag (snd x)"
    and hdr: "lists h nl = Some \<lparr>ltype = tag, llength = int (length xs), lhead = a, ltail = t\<rparr>"
    and ca: "cells h a = Some \<lparr>cdata = d0, cnext = n0\<rparr>" and a: "a \<notin> addrs xs"
  shows "\<exists>h' ys. copy_from fuel h nl cur = Inr (nl, h') \<and> heap_ok h' \<and> list_rep h' tag nl ys \<and>
           vals ys = vals xs \<and> addrs ys \<subseteq> {a} \<union> {brk h..} \<and> only_changes h h' {a} {nl} \<and>
           objs h' = objs h"
proof -
  obtain x zs where xs: "xs = x # zs" using nz by (cases xs) auto
  with seg obtain m where c: "cells h cur = Some \<lparr>cdata = snd x, cnext = m\<rparr>" and seg: "lseg h m zs 0"
    by auto
  let ?h = "h\<lparr>cells := (cells h)(a \<mapsto> \<lparr>cdata = snd x, cnext = n0\<rparr>)\<rparr>"
  have ok1: "heap_ok ?h" using ca by (intro heap_ok_dom [OF ok]) auto
  have "cells ?h b = cells h b" if "b \<in> addrs zs" for b using that a xs by auto
  then have seg1: "lseg ?h m zs 0" using seg lseg_frame [of zs ?h h] by blast
  have pre: "length zs < fuel" "cells ?h a = Some \<lparr>cdata = snd x, cnext = n0\<rparr>" "a \<notin> addrs zs"
    using fuel a xs by simp_all
  from copy_cells_rep [OF ok1 seg1 pre] obtain ys h1 q where cp: "copy_cells fuel ?h a m = Inr (fst (last ((a, snd x) # ys)), h1)"
    "heap_ok h1" "vals ys = vals zs" "addrs ys \<subseteq> {brk ?h..}" "distinct (map fst ((a, snd x) # ys))"
    "lseg h1 a ((a, snd x) # ys) q" "only_changes ?h h1 {a} {}" "lists h1 = lists ?h" "objs h1 = objs ?h"
    by (elim exE conjE)
  let ?ys = "(a, snd x) # ys"
  let ?p = "fst (last ?ys)"
  let ?h2 = "h1\<lparr>cells := (cells h1)(?p \<mapsto> \<lparr>cdata = snd (last ?ys), cnext = 0\<rparr>),
                lists := (lists h1)(nl \<mapsto> header tag ?ys)\<rparr>"
  note last = lseg_last [OF cp(6), simplified]
  have len: "length ys = length zs" using arg_cong [OF cp(3), of length] by simp
  have "lseg ?h2 a ?ys 0"
    by (rule lseg_set_next [OF cp(6) cp(5)]) auto
  moreover have "has_tag tag d" if "d \<in> set (vals ?ys)" for d
    using that cp(3) tags xs by (metis (no_types, lifting) image_iff list.simps(9) set_map snd_conv)
  moreover have "nl \<noteq> 0" using hdr heap_ok_0 [OF ok] by (cases nl) auto
  ultimately have rep: "list_rep ?h2 tag nl ?ys" by (auto simp: list_rep_def)
  have "heap_ok ?h2" using last hdr cp(8) by (intro heap_ok_dom [OF cp(2)]) auto
  moreover have "only_changes h ?h2 {a} {nl}"
  proof -
    have "brk h \<le> fst (last ys)" if "ys \<noteq> []"
      using subsetD [OF cp(4) imageI [OF last_in_set [OF that]]] by simp
    then have "?p = a \<or> brk h \<le> ?p" by simp
    with cp(7,8) show ?thesis by (auto simp: only_changes_def)
  qed
  moreover have "copy_from fuel h nl cur = Inr (nl, ?h2)"
  proof -
    have "(\<lparr>ltype = tag, llength = int (length xs), lhead = a, ltail = t\<rparr>)\<lparr>ltail := ?p\<rparr> = header tag ?ys"
      using len xs by (simp add: header_def)
    moreover have "cells h1 ?p = Some \<lparr>cdata = snd (last ?ys), cnext = q\<rparr>"
      using lseg_last [OF cp(6)] by blast
    ultimately show ?thesis using c hdr ca cp(1) check_list_invariants_rep [OF rep]
      by (simp add: copy_from_def heap_defs heap_norm del: last.simps)
  qed
  ultimately show ?thesis using rep cp(3,4,9) xs by (intro exI [of _ ?h2] exI [of _ ?ys]) auto
qed

text \<open>A new list with its one cell, as \<open>list_copy\<close> and \<open>list_copy_tail\<close> start from.\<close>

lemma copy_start:
  assumes ok: "heap_ok h" and seg: "lseg h cur xs 0" and nz: "xs \<noteq> []" and fuel: "length xs \<le> fuel"
    and tags: "\<forall>x \<in> set xs. has_tag tag (snd x)"
    and h1: "h1 = h\<lparr>cells := (cells h)(brk h \<mapsto> \<lparr>cdata = Uninit, cnext = 0\<rparr>), lists := (lists h)(Suc (brk h) \<mapsto>
        \<lparr>ltype = tag, llength = int (length xs), lhead = brk h, ltail = t\<rparr>), brk := Suc (Suc (brk h))\<rparr>"
  shows "\<exists>h' ys. copy_from fuel h1 (Suc (brk h)) cur = Inr (Suc (brk h), h') \<and>
           list_step h tag NIL [] h' (Suc (brk h)) ys \<and> vals ys = vals xs"
proof -
  have ok1: "heap_ok h1"
    using heap_ok_palloc_list [OF heap_ok_palloc_cell [OF ok, of "\<lparr>cdata = Uninit, cnext = 0\<rparr>"]] unfolding h1
    by (simp add: palloc_cell_def palloc_list_def heap_norm)
  have fresh: "a < brk h" if "a \<in> addrs xs" for a
    using lseg_dom [OF seg that] ok by (auto simp: heap_ok_def)
  then have "cells h1 a = cells h a" if "a \<in> addrs xs" for a
    using that by (fastforce simp: h1)
  then have seg1: "lseg h1 cur xs 0" using seg lseg_frame [of xs h1 h] by blast
  have nl: "lists h1 (Suc (brk h)) =
      Some \<lparr>ltype = tag, llength = int (length xs), lhead = brk h, ltail = t\<rparr>"
    and ca: "cells h1 (brk h) = Some \<lparr>cdata = Uninit, cnext = 0\<rparr>" and a: "brk h \<notin> addrs xs"
    using fresh by (auto simp: h1)
  from copy_from_rep [OF ok1 seg1 nz fuel tags nl ca a] obtain h' ys where
    cf: "copy_from fuel h1 (Suc (brk h)) cur = Inr (Suc (brk h), h')" "heap_ok h'"
      "list_rep h' tag (Suc (brk h)) ys" "vals ys = vals xs"
      "addrs ys \<subseteq> {brk h} \<union> {brk h1..}" "only_changes h1 h' {brk h} {Suc (brk h)}" "objs h' = objs h1"
    by (elim exE conjE)
  have "addrs ys \<subseteq> {brk h..}" using cf(5) by (auto simp: h1)
  moreover have "only_changes h h' {} {0}" using cf(6) by (auto simp: only_changes_def h1)
  ultimately have "list_step h tag NIL [] h' (Suc (brk h)) ys"
    using cf(2,3,7) by (simp add: list_step_def h1)
  with cf(1,4) show ?thesis by blast
qed

lemma list_copy_rep:
  assumes ok: "heap_ok h" and rep: "list_rep h tag l xs"
  shows "\<exists>l' h' ys. list_copy h l = Inr (l', h') \<and> list_step h tag NIL [] h' l' ys \<and> vals ys = vals xs"
proof (cases "l = NIL")
  case True
  with rep list_step_refl [OF ok, of tag NIL "[]"] show ?thesis by (auto simp: list_copy_def)
next
  case False
  with rep have seg: "lseg h (fst (hd xs)) xs 0" and nz: "xs \<noteq> []" by (auto simp: list_rep_def)
  have fuel: "length xs \<le> brk h" using list_rep_length [OF ok rep] by simp
  have "\<forall>x \<in> set xs. has_tag tag (snd x)" using list_rep_tags [OF rep] by blast
  from copy_start [OF ok seg nz fuel this refl]
  show ?thesis using False get_list_rep [OF rep]
    by (simp add: list_copy_def new_list_def heap_defs heap_norm) blast
qed

lemma list_copy_tail_rep:
  assumes ok: "heap_ok h" and rep: "list_rep h tag l xs"
  shows "\<exists>l' h' ys. list_copy_tail h l n = Inr (l', h') \<and> list_step h tag NIL [] h' l' ys \<and>
           vals ys = drop (nat n) (vals xs)"
proof (cases "length xs \<le> nat n")
  case True
  then have "list_copy_tail h l n = Inr (NIL, h)"
    using rep list_rep_Nil [of h tag l] by (cases "l = NIL")
      (auto simp: list_copy_tail_def get_list_rep [OF rep] Let_def)
  with True list_step_refl [OF ok, of tag NIL "[]"] show ?thesis by auto
next
  case False
  let ?n = "nat n"
  have nz: "drop ?n xs \<noteq> []" "xs \<noteq> []" using False by auto
  then have l: "l \<noteq> NIL" using list_rep_ne [OF rep] by blast
  with rep have hdr: "lists h l = Some (header tag xs)" and seg: "lseg h (fst (hd xs)) xs 0"
    by (auto simp: list_rep_def)
  have "lseg h (fst (hd xs)) (take ?n xs @ drop ?n xs) 0" using seg by simp
  then obtain r where "lseg h r (drop ?n xs) 0" unfolding lseg_append by blast
  moreover from this nz(1) have "r = fst (xs ! ?n)" using lseg_hd False by (metis hd_drop_conv_nth not_le)
  ultimately have tl: "lseg h (fst (xs ! ?n)) (drop ?n xs) 0" by simp
  have fuel: "length (drop ?n xs) \<le> brk h" using list_rep_length [OF ok rep] by simp
  have tags: "\<forall>x \<in> set (drop ?n xs). has_tag tag (snd x)"
    using list_rep_tags [OF rep] by (meson in_set_dropD)
  define h1 where "h1 = h\<lparr>cells := (cells h)(brk h \<mapsto> \<lparr>cdata = Uninit, cnext = 0\<rparr>),
      lists := (lists h)(Suc (brk h) \<mapsto> \<lparr>ltype = tag, llength = int (length (drop ?n xs)),
        lhead = brk h, ltail = brk h\<rparr>), brk := Suc (Suc (brk h))\<rparr>"
  have "cells h1 a = cells h a" if "a \<in> addrs xs" for a
    using lseg_dom [OF seg that] ok by (auto simp: heap_ok_def h1_def)
  then have "lseg h1 (fst (hd xs)) xs 0" using seg lseg_frame [of xs h1 h] by blast
  then have nth: "nth_cell_loop h1 (fst (hd xs)) ?n = Inr (fst (xs ! ?n))"
    using lseg_nth_cell False by simp
  have "list_copy_tail h l n = copy_from (brk h) h1 (Suc (brk h)) (fst (xs ! ?n))"
  proof -
    have "list_copy_tail h l n = list_copy_tail h l (int ?n)"
      by (simp add: list_copy_tail_def)
    moreover have "int (length (drop ?n xs)) = int (length xs) - int ?n" using False by simp
    ultimately show ?thesis using False l hdr nth unfolding h1_def
      by (simp add: list_copy_tail_def new_list_def heap_defs heap_norm del: length_drop int_nat_eq)
  qed
  with copy_start [OF ok tl nz(1) fuel tags h1_def] show ?thesis by (simp add: drop_map) blast
qed

section \<open>Set operations\<close>

lemma list_step_lseg:
  assumes step: "list_step h tag l xs h' l' zs" and ok: "heap_ok h" and seg: "lseg h p ys 0"
    and disj: "addrs ys \<inter> addrs xs = {}"
  shows "lseg h' p ys 0" "addrs ys \<inter> addrs zs = {}" "\<And>a. a \<in> addrs ys \<Longrightarrow> cells h' a = cells h a"
proof -
  have zs: "addrs zs \<subseteq> addrs xs \<union> {brk h..}" using step by (simp add: list_step_def)
  have keep: "cells h' a = cells h a \<and> a \<notin> addrs zs" if "a \<in> addrs ys" for a
  proof -
    have "0 < a" "a < brk h" using lseg_dom [OF seg that] ok by (auto simp: heap_ok_def)
    moreover have "a \<notin> addrs xs" using that disj by blast
    ultimately show ?thesis using step zs by (auto simp: list_step_def only_changes_def)
  qed
  then show "lseg h' p ys 0" using seg lseg_frame [of ys h' h] by blast
  show "addrs ys \<inter> addrs zs = {}" using keep by blast
  show "\<And>a. a \<in> addrs ys \<Longrightarrow> cells h' a = cells h a" using keep by blast
qed

lemma list_step_invariants:
  "list_step h tag l xs h' l' zs \<Longrightarrow> check_list_invariants h' l' = Inr ()"
  using check_list_invariants_rep by (auto simp: list_step_def)

text \<open>One round of the loops: append a datum unless it has been found.\<close>

lemma append_unless:
  assumes "heap_ok h" "list_rep h tag l xs" "has_tag tag d"
  shows "\<exists>l' h' zs. (if found then Inr (l, h) else lappend_gen tag h l d) = Inr (l', h') \<and>
           list_step h tag l xs h' l' zs \<and> vals zs = (if found then vals xs else vals xs @ [d])"
  using lappend_gen_step [OF assms] list_step_refl [OF assms(1,2)] by (cases found) fastforce+

lemma append_new_loop_rep:
  assumes "heap_ok h" "list_rep h tag l xs" "lseg h p ys 0" "length ys < fuel"
    and "\<forall>y \<in> set ys. has_tag tag (snd y)" "addrs ys \<inter> addrs xs = {}"
  shows "\<exists>l' h' zs. append_new_loop tag eq fuel h l p = Inr (l', h') \<and>
           list_step h tag l xs h' l' zs \<and> vals zs = append_new eq (vals xs) (vals ys)"
  using assms
proof (induction ys arbitrary: h l xs p fuel)
  case Nil
  then show ?case using list_step_refl [OF Nil.prems(1,2)] by (cases fuel) auto
next
  case (Cons y ys)
  then obtain f n where f: "fuel = Suc f" and p: "p = fst y" "p \<noteq> 0"
    and c: "cells h p = Some \<lparr>cdata = snd y, cnext = n\<rparr>" and seg: "lseg h n ys 0"
    and t: "has_tag tag (snd y)"
    by (cases fuel) auto
  let ?found = "\<exists>x \<in> set (vals xs). eq x (snd y)"
  from append_unless [OF Cons.prems(1,2) t, of ?found] obtain l1 h1 zs1 where
    step1: "(if ?found then Inr (l, h) else lappend_gen tag h l (snd y)) = Inr (l1, h1)"
      "list_step h tag l xs h1 l1 zs1" "vals zs1 = (if ?found then vals xs else vals xs @ [snd y])"
    by (elim exE conjE)
  note keep = list_step_lseg [OF step1(2) Cons.prems(1,3,6)]
  have seg1: "lseg h1 n ys 0" using keep(3) seg lseg_frame [of ys h1 h] by simp
  have ok1: "heap_ok h1" "list_rep h1 tag l1 zs1" using step1(2) by (simp_all add: list_step_def)
  from Cons.IH [OF ok1 seg1, of f] Cons.prems(4,5) keep(2) f obtain l2 h2 zs2 where
    ih: "append_new_loop tag eq f h1 l1 n = Inr (l2, h2)" "list_step h1 tag l1 zs1 h2 l2 zs2"
      "vals zs2 = append_new eq (vals zs1) (vals ys)"
    by auto
  have "append_new_loop tag eq fuel h l p = Inr (l2, h2)"
    using f p c keep(3) [of p] step1(1) ih(1) t
    by (simp add: get_cell_def read_as_def list_member_gen_rep [OF Cons.prems(1,2)])
  moreover have "vals zs2 = append_new eq (vals xs) (vals (y # ys))" using ih(3) step1(3) by simp
  ultimately show ?case using list_step_trans [OF step1(2) ih(2)] by blast
qed

lemma list_concat_unique_gen_rep:
  assumes ok: "heap_ok h" and rep1: "list_rep h tag l1 xs" and rep2: "list_rep h tag l2 ys"
    and disj: "addrs ys \<inter> addrs xs = {}"
  shows "\<exists>l' h' zs. list_concat_unique_gen tag eq h l1 l2 = Inr (l', h') \<and>
           list_step h tag l1 xs h' l' zs \<and> vals zs = append_new eq (vals xs) (vals ys)"
proof -
  have "\<forall>y \<in> set ys. has_tag tag (snd y)" using list_rep_tags [OF rep2] by blast
  from append_new_loop_rep [OF ok rep1 list_rep_seg [OF rep2] list_rep_length [OF ok rep2] this disj]
  obtain l' h' zs where *: "append_new_loop tag eq (brk h) h l1 (if ys = [] then 0 else fst (hd ys)) = Inr (l', h')"
    "list_step h tag l1 xs h' l' zs" "vals zs = append_new eq (vals xs) (vals ys)"
    by blast
  with * list_step_invariants [OF *(2)] show ?thesis
    by (auto simp: list_concat_unique_gen_def assert_is_list_rep [OF rep1] assert_is_list_rep [OF rep2]
        list_head_rep [OF rep2])
qed

text \<open>The union leaves both of its arguments as they are and builds its result from new cells.\<close>

lemma list_union_gen_rep:
  assumes ok: "heap_ok h" and rep1: "list_rep h tag l1 xs" and rep2: "list_rep h tag l2 ys"
  shows "\<exists>l' h' zs. list_union_gen tag eq h l1 l2 = Inr (l', h') \<and>
           list_step h tag NIL [] h' l' zs \<and> vals zs = append_new eq (vals xs) (vals ys)"
proof -
  from list_copy_rep [OF ok rep1] obtain l' h' zs where
    cp: "list_copy h l1 = Inr (l', h')" "list_step h tag NIL [] h' l' zs" "vals zs = vals xs"
    by blast
  then have ok': "heap_ok h'" "list_rep h' tag l' zs" by (simp_all add: list_step_def)
  note others = list_step_others [OF cp(2) ok rep2]
  have rep2': "list_rep h' tag l2 ys" and disj: "addrs ys \<inter> addrs zs = {}"
    using others(1,3) by auto
  have "\<forall>y \<in> set ys. has_tag tag (snd y)" using list_rep_tags [OF rep2] by blast
  from append_new_loop_rep [OF ok' list_rep_seg [OF rep2'] list_rep_length [OF ok'(1) rep2'] this disj]
  obtain l2' h2 us where *: "append_new_loop tag eq (brk h') h' l' (if ys = [] then 0 else fst (hd ys)) = Inr (l2', h2)"
    "list_step h' tag l' zs h2 l2' us" "vals us = append_new eq (vals zs) (vals ys)"
    by blast
  with * list_step_invariants [OF *(2)] cp show ?thesis using list_step_trans [OF cp(2) *(2)]
    by (auto simp: list_union_gen_def assert_is_list_rep [OF rep1] assert_is_list_rep [OF rep2]
        list_head_rep [OF rep2'])
qed

lemma list_append_unique_gen_rep:
  assumes ok: "heap_ok h" and rep: "list_rep h tag l xs" and d: "has_tag tag d"
  shows "\<exists>l' h' zs. list_append_unique_gen tag eq h l d = Inr (l', h') \<and>
           list_step h tag l xs h' l' zs \<and> vals zs = append_new eq (vals xs) [d]"
  using append_unless [OF ok rep d, of "\<exists>x \<in> set (vals xs). eq x d"]
  by (auto simp: list_append_unique_gen_def list_member_gen_rep [OF ok rep])

lemma list_difference_loop_rep:
  assumes "heap_ok h" "list_rep h tag r zs" "lseg h p xs 0" "length xs < fuel"
    and "\<forall>x \<in> set xs. has_tag tag (snd x)" "addrs xs \<inter> addrs zs = {}"
    and "list_rep h tag l2 ys" "l2 \<noteq> NIL \<longrightarrow> l2 \<noteq> r" "addrs ys \<inter> addrs zs = {}"
  shows "\<exists>r' h' us. list_difference_loop tag eq fuel h l2 r p = Inr (r', h') \<and>
           list_step h tag r zs h' r' us \<and>
           vals us = vals zs @ filter (\<lambda>d. \<not> (\<exists>y \<in> set (vals ys). eq y d)) (vals xs)"
  using assms
proof (induction xs arbitrary: h r zs p fuel)
  case Nil
  then show ?case using list_step_refl [OF Nil.prems(1,2)] by (cases fuel) auto
next
  case (Cons x xs)
  then obtain f n where f: "fuel = Suc f" and p: "p = fst x" "p \<noteq> 0"
    and c: "cells h p = Some \<lparr>cdata = snd x, cnext = n\<rparr>" and seg: "lseg h n xs 0"
    and t: "has_tag tag (snd x)"
    by (cases fuel) auto
  let ?found = "\<exists>y \<in> set (vals ys). eq y (snd x)"
  from append_unless [OF Cons.prems(1,2) t, of ?found] obtain r1 h1 zs1 where
    step1: "(if ?found then Inr (r, h) else lappend_gen tag h r (snd x)) = Inr (r1, h1)"
      "list_step h tag r zs h1 r1 zs1" "vals zs1 = (if ?found then vals zs else vals zs @ [snd x])"
    by (elim exE conjE)
  note keep = list_step_lseg [OF step1(2) Cons.prems(1,3,6)]
  have seg1: "lseg h1 n xs 0" using keep(3) seg lseg_frame [of xs h1 h] by simp
  have ok1: "heap_ok h1" "list_rep h1 tag r1 zs1" using step1(2) by (simp_all add: list_step_def)
  have m: "l2 \<noteq> r" if "l2 \<noteq> NIL" using that Cons.prems(8) by blast
  note others = list_step_others [OF step1(2) Cons.prems(1,7) m Cons.prems(9)]
  from Cons.IH [OF ok1 seg1, of f] Cons.prems(4,5) keep(2) f others obtain r2 h2 us where
    ih: "list_difference_loop tag eq f h1 l2 r1 n = Inr (r2, h2)" "list_step h1 tag r1 zs1 h2 r2 us"
      "vals us = vals zs1 @ filter (\<lambda>d. \<not> (\<exists>y \<in> set (vals ys). eq y d)) (vals xs)"
    by auto
  have "list_difference_loop tag eq fuel h l2 r p = Inr (r2, h2)"
    using f p c keep(3) [of p] step1(1) ih(1) t
    by (simp add: get_cell_def read_as_def list_member_gen_rep [OF Cons.prems(1,7)])
  moreover have "vals us = vals zs @ filter (\<lambda>d. \<not> (\<exists>y \<in> set (vals ys). eq y d)) (vals (x # xs))"
    using ih(3) step1(3) by simp
  ultimately show ?case using list_step_trans [OF step1(2) ih(2)] by blast
qed

lemma list_difference_gen_rep:
  assumes ok: "heap_ok h" and rep1: "list_rep h tag l1 xs" and rep2: "list_rep h tag l2 ys"
  shows "\<exists>l' h' zs. list_difference_gen tag eq h l1 l2 = Inr (l', h') \<and>
           list_step h tag NIL [] h' l' zs \<and>
           vals zs = filter (\<lambda>d. \<not> (\<exists>y \<in> set (vals ys). eq y d)) (vals xs)"
proof (cases "l2 = NIL")
  case True
  with list_copy_rep [OF ok rep1] rep1 rep2 show ?thesis
    by (auto simp: list_difference_gen_def assert_is_list_rep [OF rep1] assert_is_list_rep [OF rep2])
next
  case False
  have t: "\<forall>x \<in> set xs. has_tag tag (snd x)" using list_rep_tags [OF rep1] by blast
  have nil: "list_rep h tag NIL []" by simp
  from list_difference_loop_rep [OF ok nil list_rep_seg [OF rep1] list_rep_length [OF ok rep1] t _ rep2,
      where eq = eq]
  obtain l' h' zs where
    *: "list_difference_loop tag eq (brk h) h l2 NIL (if xs = [] then 0 else fst (hd xs)) = Inr (l', h')"
    "list_step h tag NIL [] h' l' zs"
    "vals zs = filter (\<lambda>d. \<not> (\<exists>y \<in> set (vals ys). eq y d)) (vals xs)"
    by auto
  with * list_step_invariants [OF *(2)] False show ?thesis
    by (auto simp: list_difference_gen_def assert_is_list_rep [OF rep1] assert_is_list_rep [OF rep2]
        list_head_rep [OF rep1])
qed

end
