(* ===== verification/PgListApi.thy ===== *)
theory PgListApi
  imports PgListSets
begin

text \<open>
  The three families of \<open>list.c\<close> that compare their elements with \<open>==\<close> (pointers, integers
  and OIDs) as one interface: lists used as sets.  The locale states what the calls return in
  terms of the values stored, its lemmas say how the calls combine, and each family is an
  instance.  The properties of \<open>list.c\<close> follow.
\<close>

lemma append_new_map:
  assumes "inj f"
  shows "append_new (=) (map f vs) (map f ws) = map f (append_new (=) vs ws)"
proof (induction ws arbitrary: vs)
  case (Cons w ws)
  have "(\<exists>x \<in> set (map f vs). x = f w) \<longleftrightarrow> w \<in> set vs" using assms by (auto simp: inj_eq)
  with Cons [of "vs @ [w]"] Cons [of vs] show ?case by simp
qed simp

lemma set_append_new: "set (append_new (=) vs ws) = set vs \<union> set ws"
  by (induction ws arbitrary: vs) auto

lemma distinct_append_new: "distinct vs \<Longrightarrow> distinct (append_new (=) vs ws)"
  by (induction ws arbitrary: vs) auto

lemma append_new_prefix: "\<exists>us. append_new eq vs ws = vs @ us"
proof (induction ws arbitrary: vs)
  case (Cons w ws)
  from Cons [of vs] Cons [of "vs @ [w]"] show ?case by auto
qed simp

lemma vals_del_first: "vals (del_first (\<lambda>x. P (snd x)) xs) = del_first P (vals xs)"
  by (induction xs) auto

lemma del_first_map: "inj f \<Longrightarrow> del_first (\<lambda>x. x = f d) (map f vs) = map f (remove1 d vs)"
  by (induction vs) (auto simp: inj_eq)

section \<open>Lists as sets\<close>

locale list_set =
  fixes tag :: NodeTag and inj' :: "'a \<Rightarrow> ListData"
    and member :: "heap \<Rightarrow> addr \<Rightarrow> 'a \<Rightarrow> bool res"
    and append_unique :: "heap \<Rightarrow> addr \<Rightarrow> 'a \<Rightarrow> (addr \<times> heap) res"
    and delete :: "heap \<Rightarrow> addr \<Rightarrow> 'a \<Rightarrow> (addr \<times> heap) res"
    and union :: "heap \<Rightarrow> addr \<Rightarrow> addr \<Rightarrow> (addr \<times> heap) res"
    and difference :: "heap \<Rightarrow> addr \<Rightarrow> addr \<Rightarrow> (addr \<times> heap) res"
  assumes member: "heap_ok h \<Longrightarrow> list_rep h tag l xs \<Longrightarrow> vals xs = map inj' vs \<Longrightarrow>
      member h l d = Inr (d \<in> set vs)"
    and append_unique: "heap_ok h \<Longrightarrow> list_rep h tag l xs \<Longrightarrow> vals xs = map inj' vs \<Longrightarrow>
      \<exists>l' h' zs. append_unique h l d = Inr (l', h') \<and> list_step h tag l xs h' l' zs \<and>
        vals zs = map inj' (if d \<in> set vs then vs else vs @ [d])"
    and delete: "heap_ok h \<Longrightarrow> list_rep h tag l xs \<Longrightarrow> vals xs = map inj' vs \<Longrightarrow>
      \<exists>l' h' zs. delete h l d = Inr (l', h') \<and> list_step h tag l xs h' l' zs \<and>
        vals zs = map inj' (remove1 d vs)"
    and union: "heap_ok h \<Longrightarrow> list_rep h tag l xs \<Longrightarrow> vals xs = map inj' vs \<Longrightarrow>
      list_rep h tag m ys \<Longrightarrow> vals ys = map inj' ws \<Longrightarrow>
      \<exists>l' h' zs. union h l m = Inr (l', h') \<and> list_step h tag NIL [] h' l' zs \<and>
        vals zs = map inj' (append_new (=) vs ws)"
    and difference: "heap_ok h \<Longrightarrow> list_rep h tag l xs \<Longrightarrow> vals xs = map inj' vs \<Longrightarrow>
      list_rep h tag m ys \<Longrightarrow> vals ys = map inj' ws \<Longrightarrow>
      \<exists>l' h' zs. difference h l m = Inr (l', h') \<and> list_step h tag NIL [] h' l' zs \<and>
        vals zs = map inj' (filter (\<lambda>d. d \<notin> set ws) vs)"
begin

lemma step_ok: "list_step h tag l xs h' l' zs \<Longrightarrow> heap_ok h' \<and> list_rep h' tag l' zs"
  by (simp add: list_step_def)

text \<open>A call that builds a new list leaves every list of the store as it was.\<close>

lemma fresh_keeps:
  "list_step h tag NIL [] h' l' zs \<Longrightarrow> heap_ok h \<Longrightarrow> list_rep h tag' m ys \<Longrightarrow> list_rep h' tag' m ys"
  by (rule list_step_others(1)) auto

lemma union_members:
  assumes "heap_ok h" "list_rep h tag l xs" "vals xs = map inj' vs"
    and "list_rep h tag m ys" "vals ys = map inj' ws"
  shows "\<exists>r h'. union h l m = Inr (r, h') \<and> (\<forall>d. member h' r d = Inr (d \<in> set vs \<union> set ws)) \<and>
           list_rep h' tag l xs \<and> list_rep h' tag m ys"
proof -
  from union [OF assms] obtain r h' zs where u: "union h l m = Inr (r, h')"
    "list_step h tag NIL [] h' r zs" "vals zs = map inj' (append_new (=) vs ws)" by blast
  with member [of h' r zs] step_ok [OF u(2)] have "\<forall>d. member h' r d = Inr (d \<in> set vs \<union> set ws)"
    by (simp add: set_append_new)
  with u(1) fresh_keeps [OF u(2) assms(1)] assms(2,4) show ?thesis by blast
qed

lemma difference_members:
  assumes "heap_ok h" "list_rep h tag l xs" "vals xs = map inj' vs"
    and "list_rep h tag m ys" "vals ys = map inj' ws"
  shows "\<exists>r h'. difference h l m = Inr (r, h') \<and> (\<forall>d. member h' r d = Inr (d \<in> set vs - set ws)) \<and>
           list_rep h' tag l xs \<and> list_rep h' tag m ys"
proof -
  from difference [OF assms] obtain r h' zs where u: "difference h l m = Inr (r, h')"
    "list_step h tag NIL [] h' r zs" "vals zs = map inj' (filter (\<lambda>d. d \<notin> set ws) vs)" by blast
  with member [of h' r zs] step_ok [OF u(2)] have "\<forall>d. member h' r d = Inr (d \<in> set vs - set ws)"
    by auto
  with u(1) fresh_keeps [OF u(2) assms(1)] assms(2,4) show ?thesis by blast
qed

lemma append_unique_idem:
  assumes "heap_ok h" "list_rep h tag l xs" "vals xs = map inj' vs"
  shows "\<exists>l1 h1 l2 h2 zs. append_unique h l d = Inr (l1, h1) \<and> member h1 l1 d = Inr True \<and>
           append_unique h1 l1 d = Inr (l2, h2) \<and> list_rep h2 tag l2 zs \<and>
           vals zs = map inj' (if d \<in> set vs then vs else vs @ [d])"
proof -
  let ?vs = "if d \<in> set vs then vs else vs @ [d]"
  from append_unique [OF assms] obtain l1 h1 ys where a: "append_unique h l d = Inr (l1, h1)"
    "list_step h tag l xs h1 l1 ys" "vals ys = map inj' ?vs" by blast
  from step_ok [OF a(2)] have ok: "heap_ok h1" "list_rep h1 tag l1 ys" by auto
  from append_unique [OF ok a(3)] obtain l2 h2 zs where b: "append_unique h1 l1 d = Inr (l2, h2)"
    "list_step h1 tag l1 ys h2 l2 zs" "vals zs = map inj' (if d \<in> set ?vs then ?vs else ?vs @ [d])"
    by blast
  have "d \<in> set ?vs" by simp
  with member [OF ok a(3), of d] b(3) have "member h1 l1 d = Inr True" "vals zs = map inj' ?vs"
    by simp_all
  with a(1) b(1) step_ok [OF b(2)] show ?thesis by blast
qed

lemma append_unique_delete:
  assumes "heap_ok h" "list_rep h tag l xs" "vals xs = map inj' vs" "d \<notin> set vs"
  shows "\<exists>l1 h1 l2 h2 zs. append_unique h l d = Inr (l1, h1) \<and> delete h1 l1 d = Inr (l2, h2) \<and>
           list_rep h2 tag l2 zs \<and> vals zs = map inj' vs"
proof -
  from append_unique [OF assms(1-3), of d] assms(4) obtain l1 h1 ys where a: "append_unique h l d = Inr (l1, h1)"
    "list_step h tag l xs h1 l1 ys" "vals ys = map inj' (vs @ [d])" by auto
  from step_ok [OF a(2)] have ok: "heap_ok h1" "list_rep h1 tag l1 ys" by auto
  have "remove1 d (vs @ [d]) = vs" using assms(4) by (simp add: remove1_append)
  with delete [OF ok a(3), of d] obtain l2 h2 zs where "delete h1 l1 d = Inr (l2, h2)"
    "list_step h1 tag l1 ys h2 l2 zs" "vals zs = map inj' vs" by auto
  with a(1) step_ok show ?thesis by blast
qed

end

text \<open>The laws hold for every variant that compares with \<open>==\<close>, from the general lemmas.\<close>

lemma gen_list_set:
  assumes "inj f" "\<And>d. has_tag tag (f d)"
  shows "list_set tag f (\<lambda>h l d. list_member_gen tag (=) h l (f d))
    (\<lambda>h l d. list_append_unique_gen tag (=) h l (f d)) (\<lambda>h l d. list_delete_gen tag (=) h l (f d))
    (list_union_gen tag (=)) (list_difference_gen tag (=))"
proof
  fix h l xs vs d
  assume ok: "heap_ok h" and rep: "list_rep h tag l xs" and v: "vals xs = map f vs"
  show "list_member_gen tag (=) h l (f d) = Inr (d \<in> set vs)"
    unfolding list_member_gen_rep [OF ok rep] v using assms(1) by (auto simp: inj_eq)
  have "append_new (=) (map f vs) [f d] = map f (if d \<in> set vs then vs else vs @ [d])"
    using assms(1) by (auto simp: inj_eq)
  with list_append_unique_gen_rep [OF ok rep assms(2), of "(=)" d]
  show "\<exists>l' h' zs. list_append_unique_gen tag (=) h l (f d) = Inr (l', h') \<and> list_step h tag l xs h' l' zs \<and>
      vals zs = map f (if d \<in> set vs then vs else vs @ [d])"
    unfolding v by (simp only:)
  show "\<exists>l' h' zs. list_delete_gen tag (=) h l (f d) = Inr (l', h') \<and> list_step h tag l xs h' l' zs \<and>
      vals zs = map f (remove1 d vs)"
    using list_delete_gen_rep [OF ok rep, of "(=)" "f d"] vals_del_first [of "\<lambda>x. x = f d" xs]
    unfolding v del_first_map [OF assms(1), symmetric] by blast
  fix m ys ws
  assume rep2: "list_rep h tag m ys" and w: "vals ys = map f ws"
  show "\<exists>l' h' zs. list_union_gen tag (=) h l m = Inr (l', h') \<and> list_step h tag NIL [] h' l' zs \<and>
      vals zs = map f (append_new (=) vs ws)"
    using list_union_gen_rep [OF ok rep rep2, of "(=)"] unfolding v w append_new_map [OF assms(1)] .
  have "filter (\<lambda>d. \<not> (\<exists>y \<in> set (map f ws). y = d)) (map f vs) = map f (filter (\<lambda>d. d \<notin> set ws) vs)"
    using assms(1) by (auto simp: filter_map comp_def inj_eq intro!: arg_cong [of _ _ "map f"] filter_cong)
  with list_difference_gen_rep [OF ok rep rep2, of "(=)"]
  show "\<exists>l' h' zs. list_difference_gen tag (=) h l m = Inr (l', h') \<and> list_step h tag NIL [] h' l' zs \<and>
      vals zs = map f (filter (\<lambda>d. d \<notin> set ws) vs)" unfolding v w by (simp only:)
qed

interpretation ptrs: list_set T_List PtrVal list_member_ptr list_append_unique_ptr list_delete_ptr
    list_union_ptr list_difference_ptr
  using gen_list_set [of PtrVal T_List]
  by (simp add: inj_def list_member_ptr_def [abs_def] list_append_unique_ptr_def [abs_def]
      list_delete_ptr_def [abs_def] list_union_ptr_def [abs_def] list_difference_ptr_def [abs_def])

interpretation ints: list_set T_IntList IntVal list_member_int list_append_unique_int list_delete_int
    list_union_int list_difference_int
  using gen_list_set [of IntVal T_IntList]
  by (simp add: inj_def list_member_int_def [abs_def] list_append_unique_int_def [abs_def]
      list_delete_int_def [abs_def] list_union_int_def [abs_def] list_difference_int_def [abs_def])

interpretation oids: list_set T_OidList OidVal list_member_oid list_append_unique_oid list_delete_oid
    list_union_oid list_difference_oid
  using gen_list_set [of OidVal T_OidList]
  by (simp add: inj_def list_member_oid_def [abs_def] list_append_unique_oid_def [abs_def]
      list_delete_oid_def [abs_def] list_union_oid_def [abs_def] list_difference_oid_def [abs_def])

end
