(* ===== verification/PgListProps.thy ===== *)
theory PgListProps
  imports PgListApi
begin

text \<open>
  The properties of \<open>list.c\<close>, each with an instance on a small store.
\<close>

section \<open>A store with two lists\<close>

definition ex_store :: "NodeTag \<Rightarrow> (nat \<Rightarrow> ListData) \<Rightarrow> heap" where
  "ex_store tag f =
     \<lparr>cells = [1 \<mapsto> \<lparr>cdata = f 7, cnext = 2\<rparr>, 2 \<mapsto> \<lparr>cdata = f 9, cnext = 0\<rparr>,
               4 \<mapsto> \<lparr>cdata = f 9, cnext = 5\<rparr>, 5 \<mapsto> \<lparr>cdata = f 4, cnext = 0\<rparr>],
      lists = [3 \<mapsto> \<lparr>ltype = tag, llength = 2, lhead = 1, ltail = 2\<rparr>,
               6 \<mapsto> \<lparr>ltype = tag, llength = 2, lhead = 4, ltail = 5\<rparr>],
      objs = {}, brk = 7\<rparr>"

lemma ex_store_ok: "heap_ok (ex_store tag f)"
  by (auto simp: heap_ok_def ex_store_def split: if_splits)

lemma ex_store_reps:
  assumes "\<And>n. has_tag tag (f n)"
  shows "list_rep (ex_store tag f) tag 3 [(1, f 7), (2, f 9)]"
    and "list_rep (ex_store tag f) tag 6 [(4, f 9), (5, f 4)]"
  using assms by (auto simp: list_rep_def ex_store_def header_def)

lemmas ex_ints = ex_store_ok [of T_IntList "\<lambda>n. IntVal (int n)"]
  ex_store_reps [of T_IntList "\<lambda>n. IntVal (int n)", simplified]

lemmas ex_oids = ex_store_ok [of T_OidList OidVal] ex_store_reps [of T_OidList OidVal, simplified]

section \<open>Properties\<close>

text \<open>C15: \<open>list_union_int\<close> returns without a fault a list whose members, as
  \<open>list_member_int\<close> sees them, are those of either argument, and leaves both arguments as
  they were.\<close>

theorem list_union_int_set:
  assumes "heap_ok h" "list_rep h T_IntList l xs" "vals xs = map IntVal vs"
    and "list_rep h T_IntList m ys" "vals ys = map IntVal ws"
  shows "\<exists>r h'. list_union_int h l m = Inr (r, h') \<and>
           (\<forall>d. list_member_int h' r d = Inr (d \<in> set vs \<union> set ws)) \<and>
           list_rep h' T_IntList l xs \<and> list_rep h' T_IntList m ys"
  using assms by (rule ints.union_members)

theorem list_union_int_set_witness:
  "\<exists>r h'. list_union_int (ex_store T_IntList (\<lambda>n. IntVal (int n))) 3 6 = Inr (r, h') \<and>
     list_member_int h' r 4 = Inr True \<and> list_member_int h' r 5 = Inr False"
  using list_union_int_set [OF ex_ints(1,2) _ ex_ints(3), of "[7, 9]" "[9, 4]"] by auto

text \<open>\<open>list_difference_oid\<close> returns without a fault a list whose members are those of
  the first argument that are not in the second, and leaves both arguments as they were.\<close>

theorem list_difference_oid_set:
  assumes "heap_ok h" "list_rep h T_OidList l xs" "vals xs = map OidVal vs"
    and "list_rep h T_OidList m ys" "vals ys = map OidVal ws"
  shows "\<exists>r h'. list_difference_oid h l m = Inr (r, h') \<and>
           (\<forall>d. list_member_oid h' r d = Inr (d \<in> set vs - set ws)) \<and>
           list_rep h' T_OidList l xs \<and> list_rep h' T_OidList m ys"
  using assms by (rule oids.difference_members)

theorem list_difference_oid_set_witness:
  "\<exists>r h'. list_difference_oid (ex_store T_OidList OidVal) 3 6 = Inr (r, h') \<and>
     list_member_oid h' r 7 = Inr True \<and> list_member_oid h' r 9 = Inr False"
  using list_difference_oid_set [OF ex_oids(1,2) _ ex_oids(3), of "[7, 9]" "[9, 4]"] by auto

text \<open>C24: deleting a cell with its predecessor at hand unlinks exactly that cell, keeps the
  others at their addresses and in their order, releases the storage of the cell, and touches
  no other list of the store.\<close>

theorem list_delete_cell_exact:
  assumes "heap_ok h" "list_rep h tag l (pre @ x # post)"
    and "list_rep h tag' m ys" "m \<noteq> l" "addrs ys \<inter> addrs (pre @ x # post) = {}"
  shows "\<exists>l' h'. list_delete_cell h l (fst x) (if pre = [] then 0 else fst (last pre)) = Inr (l', h') \<and>
           heap_ok h' \<and> list_rep h' tag l' (pre @ post) \<and> cells h' (fst x) = None \<and>
           list_rep h' tag' m ys"
proof -
  from list_delete_cell_rep [OF assms(1,2) refl] obtain l' h' where
    d: "list_delete_cell h l (fst x) (if pre = [] then 0 else fst (last pre)) = Inr (l', h')"
      "list_step h tag l (pre @ x # post) h' l' (pre @ post)" by blast
  have "list_rep h' tag' m ys"
    using list_step_others(1) [OF d(2) assms(1,3)] assms(4,5) by blast
  with d list_delete_cell_frees [OF assms(1,2) refl d(1)] show ?thesis
    by (auto simp: list_step_def)
qed

theorem list_delete_cell_exact_witness:
  "\<exists>l' h'. list_delete_cell (ex_store T_OidList OidVal) 3 2 1 = Inr (l', h') \<and>
     list_rep h' T_OidList l' [(1, OidVal 7)] \<and> cells h' 2 = None"
  using list_delete_cell_exact [OF ex_oids(1), of T_OidList 3 "[(1, OidVal 7)]" "(2, OidVal 9)" "[]"
      T_OidList 6 "[(4, OidVal 9), (5, OidVal 4)]"] ex_oids(2,3) by auto

text \<open>\<open>list_copy\<close> returns a list with the same elements that shares no cell with its
  argument, so that whatever later happens to the copy by the operations of \<open>list.c\<close>
  (here: appending an element) is not seen through the original.\<close>

theorem list_copy_independent:
  assumes "heap_ok h" "list_rep h tag l xs" "has_tag tag d"
  shows "\<exists>l' h' ys. list_copy h l = Inr (l', h') \<and> list_rep h' tag l' ys \<and> vals ys = vals xs \<and>
           addrs xs \<inter> addrs ys = {} \<and>
           (\<exists>l'' h'' a. lappend_gen tag h' l' d = Inr (l'', h'') \<and>
              list_rep h'' tag l'' (ys @ [(a, d)]) \<and> list_rep h'' tag l xs)"
proof -
  from list_copy_rep [OF assms(1,2)] obtain l' h' ys where
    c: "list_copy h l = Inr (l', h')" "list_step h tag NIL [] h' l' ys" "vals ys = vals xs" by blast
  note o = list_step_others [OF c(2) assms(1,2)]
  have rep: "heap_ok h'" "list_rep h' tag l' ys" using c(2) by (simp_all add: list_step_def)
  from lappend_gen_step [OF rep assms(3)] obtain l'' h'' a where
    a: "lappend_gen tag h' l' d = Inr (l'', h'')" "list_step h' tag l' ys h'' l'' (ys @ [(a, d)])" by blast
  have "list_rep h'' tag l xs" using list_step_others(1) [OF a(2) rep(1) o(1)] o(2,3) by auto
  with a have "\<exists>l'' h'' a. lappend_gen tag h' l' d = Inr (l'', h'') \<and>
      list_rep h'' tag l'' (ys @ [(a, d)]) \<and> list_rep h'' tag l xs" by (auto simp: list_step_def)
  with c(1,3) rep(2) o(3) show ?thesis by auto
qed

theorem list_copy_independent_witness:
  "\<exists>l' h'. list_copy (ex_store T_OidList OidVal) 3 = Inr (l', h') \<and>
     (\<exists>l'' h''. lappend_gen T_OidList h' l' (OidVal 1) = Inr (l'', h'') \<and>
        list_rep h'' T_OidList 3 [(1, OidVal 7), (2, OidVal 9)])"
  using list_copy_independent [OF ex_oids(1,2), of "OidVal 1"] by auto

text \<open>\<open>list_concat\<close> appends the second list to the first and leaves the header of the
  second one usable, provided the two do not share cells and are not the same list; and a list
  concatenated to itself is refused.\<close>

theorem list_concat_appends:
  assumes "heap_ok h" "list_rep h tag l1 xs" "list_rep h tag l2 ys" "l1 \<noteq> NIL"
  shows "(l1 = l2 \<longrightarrow> list_concat h l1 l2 = Inl (Elog ''cannot list_concat() a list to itself'')) \<and>
         (l1 \<noteq> l2 \<and> addrs xs \<inter> addrs ys = {} \<longrightarrow>
            (\<exists>l' h'. list_concat h l1 l2 = Inr (l', h') \<and> heap_ok h' \<and>
               list_rep h' tag l' (xs @ ys) \<and> list_rep h' tag l2 ys))"
  using list_concat_rep [OF assms(1-3)] assms(4) by (auto simp: list_concat_def)

theorem list_concat_appends_witness:
  "\<exists>l' h'. list_concat (ex_store T_OidList OidVal) 3 6 = Inr (l', h') \<and>
     list_rep h' T_OidList l' [(1, OidVal 7), (2, OidVal 9), (4, OidVal 9), (5, OidVal 4)]"
  using list_concat_appends [OF ex_oids] by auto

text \<open>\<open>list_truncate\<close> keeps exactly the first \<open>n\<close> cells, for every \<open>n\<close>: none for a
  negative or zero \<open>n\<close>, all of them when there are fewer.\<close>

theorem list_truncate_keeps_prefix:
  assumes "heap_ok h" "list_rep h tag l xs"
  shows "\<exists>l' h'. list_truncate h l n = Inr (l', h') \<and> heap_ok h' \<and> list_rep h' tag l' (take (nat n) xs)"
  using list_truncate_rep [OF assms, of n] by (auto simp: list_step_def)

theorem list_truncate_keeps_prefix_witness:
  "\<exists>l' h'. list_truncate (ex_store T_OidList OidVal) 3 1 = Inr (l', h') \<and>
     list_rep h' T_OidList l' [(1, OidVal 7)]"
  using list_truncate_keeps_prefix [OF ex_oids(1,2), of 1] by auto

end
