(* ===== verification/ProvStack.thy ===== *)
theory ProvStack
  imports PgListApi
begin

text \<open>
  The stack and list helpers of \<open>src/backend/provrewrite/util/prov_stack.c\<close>, on the store of
  \<open>list.c\<close>.  A parameter \<open>List **list\<close> is an argument and a component of the result.  Node
  contents that the file only reads through \<open>equal()\<close>, a predicate or a field are parameters:
  \<open>equal\<close>, \<open>predicate\<close>, and accessors such as \<open>te_expr\<close>.  Log calls are left out.
\<close>

section \<open>Reading cells\<close>

definition lfirst :: "heap \<Rightarrow> addr \<Rightarrow> addr res" where
  "lfirst h lc = res_bind (get_cell h lc) (\<lambda>c. ptr_value (cdata c))"

definition lfirst_int :: "heap \<Rightarrow> addr \<Rightarrow> int res" where
  "lfirst_int h lc = res_bind (get_cell h lc) (\<lambda>c. int_value (cdata c))"

definition lnext :: "heap \<Rightarrow> addr \<Rightarrow> addr res" where
  "lnext h lc = res_bind (get_cell h lc) (\<lambda>c. Inr (cnext c))"

definition linitial :: "heap \<Rightarrow> addr \<Rightarrow> addr res" where
  "linitial h l = res_bind (list_head h l) (lfirst h)"

text \<open>\<open>list->head\<close>, without the null check of \<open>list_head\<close>.\<close>

definition head_field :: "heap \<Rightarrow> addr \<Rightarrow> addr res" where
  "head_field h l = res_bind (get_list h l) (\<lambda>L. Inr (lhead L))"

text \<open>
  The data of what \<open>a\<close> points to, read as if it were a \<open>ListCell\<close>.  Storage of another type
  gives some word of that object: \<open>Uninit\<close>.
\<close>

definition read_as_cell :: "heap \<Rightarrow> addr \<Rightarrow> ListData res" where
  "read_as_cell h a =
     (case cells h a of
        Some c \<Rightarrow> Inr (cdata c)
      | None \<Rightarrow> if a \<in> objs h \<or> lists h a \<noteq> None then Inr Uninit else Inl NullDeref)"

section \<open>Global state\<close>

record provGlobals =
  baseRelStack :: addr
  pStack :: addr
  baseRelStackActive :: bool
  curUniqueAttrNum :: int
  curUniqueRelNum :: int
  rewriteMethodStack :: addr

definition resetUniqueNameGens :: "provGlobals \<Rightarrow> provGlobals" where
  "resetUniqueNameGens g = g\<lparr>curUniqueAttrNum := 1, curUniqueRelNum := 1\<rparr>"

definition appendIdToString :: "string \<Rightarrow> int \<Rightarrow> string \<times> int" where
  "appendIdToString str i = (str @ show_int i, i + 1)"

definition deactiveBaseRelStack :: "provGlobals \<Rightarrow> provGlobals" where
  "deactiveBaseRelStack g = g\<lparr>baseRelStack := NIL, baseRelStackActive := False\<rparr>"

section \<open>Searching\<close>

text \<open>
  \<open>foreach(lc, list)\<close> with a counter, up to the first element that passes the test: its
  position and pointer.
\<close>

fun search_loop :: "nat \<Rightarrow> heap \<Rightarrow> addr \<Rightarrow> (addr \<Rightarrow> bool) \<Rightarrow> int \<Rightarrow> (int \<times> addr) option res" where
  "search_loop 0 h lc test count = Inl Diverges"
| "search_loop (Suc fuel) h lc test count =
     (if lc = 0 then Inr None
      else
        res_bind (lfirst h lc) (\<lambda>elem.
          if test elem then Inr (Some (count, elem))
          else res_bind (lnext h lc) (\<lambda>lc. search_loop fuel h lc test (count + 1))))"

definition position_of :: "(int \<times> addr) option \<Rightarrow> int" where
  "position_of r = (case r of None \<Rightarrow> - 1 | Some (count, _) \<Rightarrow> count)"

definition listPositionExprTargetList ::
    "(addr \<Rightarrow> addr) \<Rightarrow> (addr \<Rightarrow> addr \<Rightarrow> bool) \<Rightarrow> heap \<Rightarrow> addr \<Rightarrow> addr \<Rightarrow> int res" where
  "listPositionExprTargetList te_expr equal h list node =
     res_bind (list_head h list) (\<lambda>lc.
     res_bind (search_loop (brk h) h lc (\<lambda>te. equal (te_expr te) node) 0) (\<lambda>r.
       Inr (position_of r)))"

fun position_int_loop :: "nat \<Rightarrow> heap \<Rightarrow> addr \<Rightarrow> int \<Rightarrow> int \<Rightarrow> int res" where
  "position_int_loop 0 h cell datum count = Inl Diverges"
| "position_int_loop (Suc fuel) h cell datum count =
     (if cell = 0 then Inr (- 1)
      else
        res_bind (lfirst_int h cell) (\<lambda>d.
          if d = datum then Inr count
          else res_bind (lnext h cell) (\<lambda>cell. position_int_loop fuel h cell datum (count + 1))))"

definition listPositionInt :: "heap \<Rightarrow> addr \<Rightarrow> int \<Rightarrow> int res" where
  "listPositionInt h list datum =
     res_bind (list_head h list) (\<lambda>cell. position_int_loop (brk h) h cell datum 0)"

text \<open>\<open>nodePositionInList\<close> reads \<open>list->head\<close>, so the empty list is a null dereference.\<close>

definition nodePositionInList :: "(addr \<Rightarrow> addr \<Rightarrow> bool) \<Rightarrow> heap \<Rightarrow> addr \<Rightarrow> addr \<Rightarrow> int res" where
  "nodePositionInList equal h list node =
     res_bind (head_field h list) (\<lambda>lc.
     res_bind (search_loop (brk h) h lc (\<lambda>check. equal node check) 0) (\<lambda>r.
       Inr (position_of r)))"

definition nodeInList :: "(addr \<Rightarrow> addr \<Rightarrow> bool) \<Rightarrow> heap \<Rightarrow> addr \<Rightarrow> addr \<Rightarrow> bool res" where
  "nodeInList equal h list node =
     res_bind (nodePositionInList equal h list node) (\<lambda>p. Inr (p \<noteq> - 1))"

fun list_overlap_loop ::
    "nat \<Rightarrow> (addr \<Rightarrow> addr \<Rightarrow> bool) \<Rightarrow> heap \<Rightarrow> addr \<Rightarrow> addr \<Rightarrow> bool res" where
  "list_overlap_loop 0 equal h lc right = Inl Diverges"
| "list_overlap_loop (Suc fuel) equal h lc right =
     (if lc = 0 then Inr False
      else
        res_bind (lfirst h lc) (\<lambda>leftElem.
        res_bind (list_head h right) (\<lambda>innerLc.
        res_bind (search_loop (brk h) h innerLc (\<lambda>rightElem. equal leftElem rightElem) 0) (\<lambda>r.
          if r \<noteq> None then Inr True
          else res_bind (lnext h lc) (\<lambda>lc. list_overlap_loop fuel equal h lc right)))))"

definition list_overlap :: "(addr \<Rightarrow> addr \<Rightarrow> bool) \<Rightarrow> heap \<Rightarrow> addr \<Rightarrow> addr \<Rightarrow> bool res" where
  "list_overlap equal h left right =
     res_bind (list_head h left) (\<lambda>lc. list_overlap_loop (brk h) equal h lc right)"

definition getFirstNodeForPred :: "(addr \<Rightarrow> bool) \<Rightarrow> heap \<Rightarrow> addr \<Rightarrow> addr res" where
  "getFirstNodeForPred predicate h list =
     res_bind (list_head h list) (\<lambda>lc.
     res_bind (search_loop (brk h) h lc predicate 0) (\<lambda>r.
       Inr (case r of None \<Rightarrow> 0 | Some (_, elem) \<Rightarrow> elem)))"

section \<open>Stacks\<close>

definition pop :: "heap \<Rightarrow> addr \<Rightarrow> (addr \<times> addr \<times> heap) res" where
  "pop h list =
     res_bind (cassert (list \<noteq> NIL)) (\<lambda>_.
     res_bind (linitial h list) (\<lambda>firstElem.
     res_bind (list_delete_first h list) (\<lambda>(list, h). Inr (firstElem, list, h))))"

definition push :: "heap \<Rightarrow> addr \<Rightarrow> addr \<Rightarrow> (addr \<times> heap) res" where
  "push h list newElem = lcons h newElem list"

fun get_reverse_loop :: "nat \<Rightarrow> int \<Rightarrow> heap \<Rightarrow> addr \<Rightarrow> addr \<Rightarrow> (addr \<times> heap) res" where
  "get_reverse_loop 0 i h stack result = Inr (result, h)"
| "get_reverse_loop (Suc n) i h stack result =
     res_bind (list_nth h stack i) (\<lambda>e.
     res_bind (lcons h e result) (\<lambda>(result, h). get_reverse_loop n (i + 1) h stack result))"

definition getListAndReverse :: "heap \<Rightarrow> addr \<Rightarrow> int \<Rightarrow> (addr \<times> heap) res" where
  "getListAndReverse h stack numElem =
     res_bind (list_length h stack) (\<lambda>len.
     res_bind (cassert (len \<ge> numElem)) (\<lambda>_.
       get_reverse_loop (nat numElem) 0 h stack NIL))"

definition getAllUntil :: "heap \<Rightarrow> addr \<Rightarrow> int \<Rightarrow> (addr \<times> heap) res" where
  "getAllUntil h stack stopElem =
     res_bind (list_length h stack) (\<lambda>len. getListAndReverse h stack (len - stopElem))"

fun pop_reverse_loop :: "nat \<Rightarrow> heap \<Rightarrow> addr \<Rightarrow> addr \<Rightarrow> (addr \<times> addr \<times> heap) res" where
  "pop_reverse_loop 0 h stack result = Inr (result, stack, h)"
| "pop_reverse_loop (Suc n) h stack result =
     res_bind (pop h stack) (\<lambda>(e, stack, h).
     res_bind (lcons h e result) (\<lambda>(result, h). pop_reverse_loop n h stack result))"

text \<open>The new list, the stack, and the store.\<close>

definition popListAndReverse :: "heap \<Rightarrow> addr \<Rightarrow> int \<Rightarrow> (addr \<times> addr \<times> heap) res" where
  "popListAndReverse h stack numElem =
     res_bind (list_length h stack) (\<lambda>len.
     res_bind (cassert (len \<ge> numElem)) (\<lambda>_.
       pop_reverse_loop (nat numElem) h stack NIL))"

definition popAllUntil :: "heap \<Rightarrow> addr \<Rightarrow> int \<Rightarrow> (addr \<times> addr \<times> heap) res" where
  "popAllUntil h stack stopElem =
     res_bind (list_length h stack) (\<lambda>len. popListAndReverse h stack (len - stopElem))"

text \<open>
  \<open>deQueue\<close>: the loop runs to the last cell (not to the one before it), so the stores after
  it change nothing.
\<close>

fun last_cell_loop :: "nat \<Rightarrow> heap \<Rightarrow> addr \<Rightarrow> addr res" where
  "last_cell_loop 0 h lc = Inl Diverges"
| "last_cell_loop (Suc fuel) h lc =
     res_bind (lnext h lc) (\<lambda>n. if n = 0 then Inr lc else last_cell_loop fuel h n)"

definition deQueue :: "heap \<Rightarrow> addr \<Rightarrow> (addr \<times> heap) res" where
  "deQueue h list =
     res_bind (cassert (list \<noteq> NIL)) (\<lambda>_.
     res_bind (get_list h list) (\<lambda>L.
     res_bind (lfirst h (ltail L)) (\<lambda>lastElem.
     res_bind (last_cell_loop (brk h) h (lhead L)) (\<lambda>lc.
       let h = put_list h list (L\<lparr>ltail := lc\<rparr>)
       in res_bind (set_next h lc 0) (\<lambda>h. Inr (lastElem, h))))))"

text \<open>
  \<open>popNthCell\<close>: the head's data is returned where its address is meant (\<open>return
  lc->data.ptr_value\<close>).  The result is the returned pointer, the list and the store.
\<close>

definition popNthCell :: "heap \<Rightarrow> addr \<Rightarrow> int \<Rightarrow> (addr \<times> addr \<times> heap) res" where
  "popNthCell h list n =
     res_bind (list_length h list) (\<lambda>len.
     res_bind (cassert (n \<ge> 0 \<and> len > n)) (\<lambda>_.
     res_bind (get_list h list) (\<lambda>L.
       let L = L\<lparr>llength := llength L - 1\<rparr>; h = put_list h list L; lc = lhead L in
       if n = 0 then
         res_bind (lnext h lc) (\<lambda>next.
           let h = put_list h list (L\<lparr>lhead := next\<rparr>)
           in res_bind (lfirst h lc) (\<lambda>d.
                Inr (d, if llength L = 0 then NIL else list, h)))
       else
         res_bind (nth_cell_loop h lc (nat n - 1)) (\<lambda>lc.
         res_bind (lnext h lc) (\<lambda>nth.
         res_bind (lnext h nth) (\<lambda>after.
         res_bind (set_next h lc after) (\<lambda>h.
           Inr (nth, list, if nth = ltail L then put_list h list (L\<lparr>ltail := lc\<rparr>) else h))))))))"

definition popNthInt :: "heap \<Rightarrow> addr \<Rightarrow> int \<Rightarrow> (int \<times> addr \<times> heap) res" where
  "popNthInt h list n =
     res_bind (popNthCell h list n) (\<lambda>(lc, list, h).
     res_bind (read_as_cell h lc) (\<lambda>d.
     res_bind (int_value d) (\<lambda>i. Inr (i, list, h))))"

text \<open>\<open>popNth\<close> returns whatever word it finds, so its result may be \<open>Uninit\<close>.\<close>

definition popNth :: "heap \<Rightarrow> addr \<Rightarrow> int \<Rightarrow> (ListData \<times> addr \<times> heap) res" where
  "popNth h list n =
     res_bind (popNthCell h list n) (\<lambda>(lc, list, h).
     res_bind (read_as_cell h lc) (\<lambda>d. Inr (d, list, h)))"

text \<open>
  \<open>insert\<close> and \<open>replaceNth\<close>.  A negative \<open>afterPos\<close> passes the assertion and means 0.
\<close>

definition insert_elem :: "heap \<Rightarrow> addr \<Rightarrow> addr \<Rightarrow> int \<Rightarrow> (addr \<times> heap) res" where
  "insert_elem h list newElem afterPos =
     res_bind (list_length h list) (\<lambda>len.
     res_bind (cassert (afterPos < len)) (\<lambda>_.
     res_bind (head_field h list) (\<lambda>lc.
     res_bind (nth_cell_loop h lc (nat afterPos)) (\<lambda>lc.
     res_bind (lnext h lc) (\<lambda>next.
       let (newCell, h) = palloc_cell h \<lparr>cdata = PtrVal newElem, cnext = next\<rparr>
       in res_bind (set_next h lc newCell) (\<lambda>h. Inr (list, h)))))))"

definition replaceNth :: "heap \<Rightarrow> addr \<Rightarrow> addr \<Rightarrow> int \<Rightarrow> heap res" where
  "replaceNth h list newElem pos =
     res_bind (list_length h list) (\<lambda>len.
     res_bind (cassert (pos < len \<and> pos \<ge> 0)) (\<lambda>_.
     res_bind (head_field h list) (\<lambda>lc.
     res_bind (nth_cell_loop h lc (nat pos)) (\<lambda>lc.
       set_data h lc (PtrVal newElem)))))"

section \<open>Sorting\<close>

text \<open>The inner loop of \<open>sortIntList\<close>: \<open>n\<close> rounds from the cell \<open>lc\<close>.\<close>

fun sort_int_pass :: "bool \<Rightarrow> nat \<Rightarrow> heap \<Rightarrow> addr \<Rightarrow> heap res" where
  "sort_int_pass increasing 0 h lc = Inr h"
| "sort_int_pass increasing (Suc n) h lc =
     res_bind (lfirst_int h lc) (\<lambda>a.
     res_bind (lnext h lc) (\<lambda>next.
     res_bind (lfirst_int h next) (\<lambda>b.
       let switchElems = (if increasing then a > b else a < b) in
       res_bind (if switchElems
                 then res_bind (set_data h lc (IntVal b)) (\<lambda>h. set_data h next (IntVal a))
                 else Inr h) (\<lambda>h.
         sort_int_pass increasing n h next))))"

fun sort_int_loop :: "bool \<Rightarrow> nat \<Rightarrow> heap \<Rightarrow> addr \<Rightarrow> heap res" where
  "sort_int_loop increasing 0 h list = Inr h"
| "sort_int_loop increasing (Suc i) h list =
     res_bind (head_field h list) (\<lambda>lc.
     res_bind (list_length h list) (\<lambda>len.
     res_bind (sort_int_pass increasing (nat (len - 1)) h lc) (\<lambda>h.
       sort_int_loop increasing i h list)))"

definition sortIntList :: "heap \<Rightarrow> addr \<Rightarrow> bool \<Rightarrow> (addr \<times> heap) res" where
  "sortIntList h list increasing =
     res_bind (list_length h list) (\<lambda>len.
     res_bind (sort_int_loop increasing (nat len) h list) (\<lambda>h. Inr (list, h)))"

fun sort_pass :: "(addr \<Rightarrow> addr \<Rightarrow> int) \<Rightarrow> int \<Rightarrow> nat \<Rightarrow> heap \<Rightarrow> addr \<Rightarrow> heap res" where
  "sort_pass compare factor 0 h lc = Inr h"
| "sort_pass compare factor (Suc n) h lc =
     res_bind (lfirst h lc) (\<lambda>a.
     res_bind (lnext h lc) (\<lambda>next.
     res_bind (lfirst h next) (\<lambda>b.
       let comparison = compare a b * factor in
       res_bind (if comparison = 1
                 then res_bind (set_data h lc (PtrVal b)) (\<lambda>h. set_data h next (PtrVal a))
                 else Inr h) (\<lambda>h.
         sort_pass compare factor n h next))))"

fun sort_loop :: "(addr \<Rightarrow> addr \<Rightarrow> int) \<Rightarrow> int \<Rightarrow> nat \<Rightarrow> heap \<Rightarrow> addr \<Rightarrow> heap res" where
  "sort_loop compare factor 0 h list = Inr h"
| "sort_loop compare factor (Suc i) h list =
     res_bind (head_field h list) (\<lambda>lc.
     res_bind (list_length h list) (\<lambda>len.
     res_bind (sort_pass compare factor (nat (len - 1)) h lc) (\<lambda>h.
       sort_loop compare factor i h list)))"

definition sortList :: "(addr \<Rightarrow> addr \<Rightarrow> int) \<Rightarrow> heap \<Rightarrow> addr \<Rightarrow> bool \<Rightarrow> (addr \<times> heap) res" where
  "sortList compare h list increasing =
     res_bind (list_length h list) (\<lambda>len.
     res_bind (sort_loop compare (if increasing then 1 else - 1) (nat len) h list) (\<lambda>h.
       Inr (list, h)))"

text \<open>The comparison functions; the field compared is a parameter.\<close>

definition compareVars :: "(addr \<Rightarrow> int) \<Rightarrow> addr \<Rightarrow> addr \<Rightarrow> int" where
  "compareVars varattno l r =
     (if varattno l < varattno r then - 1 else if varattno l > varattno r then 1 else 0)"

definition compareTeOnRessortgroupref :: "(addr \<Rightarrow> nat) \<Rightarrow> addr \<Rightarrow> addr \<Rightarrow> int" where
  "compareTeOnRessortgroupref ressortgroupref l r =
     (if ressortgroupref l < ressortgroupref r then - 1
      else if ressortgroupref l > ressortgroupref r then 1 else 0)"

definition compareCopyMapRelEntryOnRtindex :: "(addr \<Rightarrow> nat) \<Rightarrow> addr \<Rightarrow> addr \<Rightarrow> int" where
  "compareCopyMapRelEntryOnRtindex rtindex l r =
     (if rtindex l < rtindex r then - 1 else if rtindex l > rtindex r then 1 else 0)"

section \<open>Positions\<close>

text \<open>Append the elements of \<open>list\<close> at the positions in the cells from \<open>lc\<close> on.\<close>

fun get_all_loop :: "nat \<Rightarrow> heap \<Rightarrow> addr \<Rightarrow> addr \<Rightarrow> addr \<Rightarrow> (addr \<times> heap) res" where
  "get_all_loop 0 h list lc result = Inl Diverges"
| "get_all_loop (Suc fuel) h list lc result =
     (if lc = 0 then Inr (result, h)
      else
        res_bind (lfirst_int h lc) (\<lambda>element.
        res_bind (list_nth h list element) (\<lambda>e.
        res_bind (lappend h result e) (\<lambda>(result, h).
        res_bind (lnext h lc) (\<lambda>lc. get_all_loop fuel h list lc result)))))"

definition getAllInList :: "heap \<Rightarrow> addr \<Rightarrow> addr \<Rightarrow> (addr \<times> heap) res" where
  "getAllInList h list elements =
     res_bind (list_head h elements) (\<lambda>lc. get_all_loop (brk h) h list lc NIL)"

fun pop_all_loop :: "nat \<Rightarrow> heap \<Rightarrow> addr \<Rightarrow> addr \<Rightarrow> (addr \<times> heap) res" where
  "pop_all_loop 0 h stack lc = Inl Diverges"
| "pop_all_loop (Suc fuel) h stack lc =
     (if lc = 0 then Inr (stack, h)
      else
        res_bind (lfirst_int h lc) (\<lambda>curElem.
        res_bind (popNth h stack curElem) (\<lambda>(_, stack, h).
        res_bind (lnext h lc) (\<lambda>lc. pop_all_loop fuel h stack lc))))"

text \<open>\<open>copyObject\<close> of an integer list is \<open>list_copy\<close> (\<open>copyfuncs.c\<close>).\<close>

definition popAllInList :: "heap \<Rightarrow> addr \<Rightarrow> addr \<Rightarrow> (addr \<times> addr \<times> heap) res" where
  "popAllInList h stack elements =
     res_bind (list_head h elements) (\<lambda>lc.
     res_bind (get_all_loop (brk h) h stack lc NIL) (\<lambda>(result, h).
     res_bind (list_copy h elements) (\<lambda>(remove, h).
     res_bind (sortIntList h remove False) (\<lambda>(remove, h).
     res_bind (list_head h remove) (\<lambda>lc.
     res_bind (pop_all_loop (brk h) h stack lc) (\<lambda>(stack, h).
       Inr (result, stack, h)))))))"

fun reverse_onto_loop :: "nat \<Rightarrow> heap \<Rightarrow> addr \<Rightarrow> addr \<Rightarrow> (addr \<times> heap) res" where
  "reverse_onto_loop 0 h lc reversed = Inl Diverges"
| "reverse_onto_loop (Suc fuel) h lc reversed =
     (if lc = 0 then Inr (reversed, h)
      else
        res_bind (lfirst h lc) (\<lambda>curElem.
        res_bind (lcons h curElem reversed) (\<lambda>(reversed, h).
        res_bind (lnext h lc) (\<lambda>lc. reverse_onto_loop fuel h lc reversed))))"

definition popAllInListAndReverse :: "heap \<Rightarrow> addr \<Rightarrow> addr \<Rightarrow> (addr \<times> addr \<times> heap) res" where
  "popAllInListAndReverse h stack elements =
     res_bind (popAllInList h stack elements) (\<lambda>(result, stack, h).
     res_bind (list_head h result) (\<lambda>lc.
     res_bind (reverse_onto_loop (brk h) h lc NIL) (\<lambda>(reversed, h).
       Inr (reversed, stack, h))))"

section \<open>Reversal\<close>

text \<open>\<open>reverseList\<close> iterates over \<open>result\<close>, which is \<open>NIL\<close>, where \<open>list\<close> is meant.\<close>

definition reverseList :: "heap \<Rightarrow> addr \<Rightarrow> (addr \<times> heap) res" where
  "reverseList h list =
     (let result = NIL in
      res_bind (list_head h result) (\<lambda>lc. reverse_onto_loop (brk h) h lc result))"

fun reverse_cells_loop :: "nat \<Rightarrow> heap \<Rightarrow> addr \<Rightarrow> addr \<Rightarrow> heap res" where
  "reverse_cells_loop 0 h lc prev = Inl Diverges"
| "reverse_cells_loop (Suc fuel) h lc prev =
     (if lc = 0 then Inr h
      else
        res_bind (lnext h lc) (\<lambda>next.
        res_bind (set_next h lc prev) (\<lambda>h. reverse_cells_loop fuel h next lc)))"

definition reverseCellsInPlace :: "heap \<Rightarrow> addr \<Rightarrow> heap res" where
  "reverseCellsInPlace h list =
     res_bind (get_list h list) (\<lambda>L.
       let lc = lhead L; prev = lc; L = L\<lparr>lhead := ltail L, ltail := prev\<rparr>; h = put_list h list L in
       if llength L = 2 then
         res_bind (set_next h (lhead L) (ltail L)) (\<lambda>h. set_next h (ltail L) 0)
       else
         res_bind (lnext h lc) (\<lambda>lc.
         res_bind (reverse_cells_loop (brk h) h lc prev) (\<lambda>h. set_next h (ltail L) 0)))"

section \<open>Building lists\<close>

fun duplicates_loop :: "nat \<Rightarrow> heap \<Rightarrow> addr \<Rightarrow> addr \<Rightarrow> (addr \<times> heap) res" where
  "duplicates_loop 0 h elem result = Inr (result, h)"
| "duplicates_loop (Suc n) h elem result =
     res_bind (lappend h result elem) (\<lambda>(result, h). duplicates_loop n h elem result)"

definition generateDuplicatesList :: "heap \<Rightarrow> addr \<Rightarrow> int \<Rightarrow> (addr \<times> heap) res" where
  "generateDuplicatesList h elem count = duplicates_loop (nat count) h elem NIL"

fun first_ints_loop :: "nat \<Rightarrow> int \<Rightarrow> heap \<Rightarrow> addr \<Rightarrow> (addr \<times> heap) res" where
  "first_ints_loop 0 offset h result = Inr (result, h)"
| "first_ints_loop (Suc n) offset h result =
     res_bind (lcons_int h (int n + offset) result) (\<lambda>(result, h). first_ints_loop n offset h result)"

definition listNthFirstInts :: "heap \<Rightarrow> int \<Rightarrow> int \<Rightarrow> (addr \<times> heap) res" where
  "listNthFirstInts h numElems offset = first_ints_loop (nat numElems) offset h NIL"

text \<open>\<open>makeString(pstrdup(method))\<close> allocates a node; its contents are not read here.\<close>

definition palloc_obj :: "heap \<Rightarrow> addr \<times> heap" where
  "palloc_obj h = (brk h, h\<lparr>objs := insert (brk h) (objs h), brk := Suc (brk h)\<rparr>)"

definition addUsedMethod :: "heap \<Rightarrow> provGlobals \<Rightarrow> (provGlobals \<times> heap) res" where
  "addUsedMethod h g =
     (let (node, h) = palloc_obj h
      in res_bind (lappend h (rewriteMethodStack g) node) (\<lambda>(l, h).
           Inr (g\<lparr>rewriteMethodStack := l\<rparr>, h)))"

section \<open>Removal\<close>

text \<open>
  The loop of \<open>removeElems\<close>, as written: it stops while positions remain, and when none
  remains it goes on and reads through the null \<open>posLc\<close>.  Neither the length nor the tail of
  the list is updated.
\<close>

fun remove_elems_loop :: "nat \<Rightarrow> heap \<Rightarrow> addr \<Rightarrow> addr \<Rightarrow> addr \<Rightarrow> addr \<Rightarrow> int \<Rightarrow> heap res" where
  "remove_elems_loop 0 h list lc before posLc i = Inl Diverges"
| "remove_elems_loop (Suc fuel) h list lc before posLc i =
     (if lc = 0 then Inr h
      else
        res_bind (lfirst_int h posLc) (\<lambda>p.
          if i = p then
            res_bind (lnext h lc) (\<lambda>next.
            res_bind (if before \<noteq> 0 then set_next h before next
                      else res_bind (get_list h list) (\<lambda>L. Inr (put_list h list (L\<lparr>lhead := next\<rparr>)))) (\<lambda>h.
            res_bind (lnext h posLc) (\<lambda>posLc.
              if posLc \<noteq> 0 then Inr h
              else res_bind (lnext h lc) (\<lambda>next.
                     remove_elems_loop fuel h list next lc posLc (i + 1)))))
          else
            res_bind (lnext h lc) (\<lambda>next.
              remove_elems_loop fuel h list next lc posLc (i + 1))))"

definition removeElems :: "heap \<Rightarrow> addr \<Rightarrow> addr \<Rightarrow> (addr \<times> heap) res" where
  "removeElems h list pos =
     res_bind (list_length h pos) (\<lambda>len.
       if len = 0 then Inr (list, h)
       else
         res_bind (sortIntList h pos False) (\<lambda>(pos, h).
         res_bind (head_field h pos) (\<lambda>posLc.
         res_bind (list_head h list) (\<lambda>lc.
         res_bind (remove_elems_loop (brk h) h list lc 0 posLc 0) (\<lambda>h. Inr (list, h))))))"

text \<open>
  \<open>removeNodeElem\<close> and \<open>removeNodeForPred\<close> share their loop: unlink the first match, without
  updating the length or the tail.
\<close>

fun remove_first_loop :: "nat \<Rightarrow> heap \<Rightarrow> (addr \<Rightarrow> bool) \<Rightarrow> addr \<Rightarrow> addr \<Rightarrow> addr \<Rightarrow> heap res" where
  "remove_first_loop 0 h test list lc before = Inl Diverges"
| "remove_first_loop (Suc fuel) h test list lc before =
     (if lc = 0 then Inr h
      else
        res_bind (lfirst h lc) (\<lambda>curNode.
        res_bind (lnext h lc) (\<lambda>next.
          if test curNode then
            (if before \<noteq> 0 then set_next h before next
             else res_bind (get_list h list) (\<lambda>L. Inr (put_list h list (L\<lparr>lhead := next\<rparr>))))
          else remove_first_loop fuel h test list next lc)))"

definition removeNodeElem :: "(addr \<Rightarrow> addr \<Rightarrow> bool) \<Rightarrow> heap \<Rightarrow> addr \<Rightarrow> addr \<Rightarrow> heap res" where
  "removeNodeElem equal h list node =
     res_bind (list_head h list) (\<lambda>lc. remove_first_loop (brk h) h (equal node) list lc 0)"

definition removeNodeForPred :: "(addr \<Rightarrow> bool) \<Rightarrow> heap \<Rightarrow> addr \<Rightarrow> heap res" where
  "removeNodeForPred predicate h list =
     res_bind (list_head h list) (\<lambda>lc. remove_first_loop (brk h) h predicate list lc 0)"

fun remove_after_loop :: "nat \<Rightarrow> heap \<Rightarrow> addr \<Rightarrow> int \<Rightarrow> addr \<Rightarrow> int \<Rightarrow> heap res" where
  "remove_after_loop 0 h list pos lc i = Inl Diverges"
| "remove_after_loop (Suc fuel) h list pos lc i =
     (if lc = 0 then Inr h
      else if i = pos - 1 then
        res_bind (set_next h lc 0) (\<lambda>h.
        res_bind (get_list h list) (\<lambda>L. Inr (put_list h list (L\<lparr>ltail := lc, llength := pos\<rparr>))))
      else res_bind (lnext h lc) (\<lambda>next. remove_after_loop fuel h list pos next (i + 1)))"

definition removeAfterPos :: "heap \<Rightarrow> addr \<Rightarrow> int \<Rightarrow> heap res" where
  "removeAfterPos h list pos =
     res_bind (list_head h list) (\<lambda>lc. remove_after_loop (brk h) h list pos lc 0)"

end
