(* ===== verification/ProvSort.thy ===== *)
theory ProvSort
  imports ProvStack "HOL-Library.Multiset"
begin

text \<open>
  The bubble sorts of \<open>prov_stack.c\<close>: \<open>sortIntList\<close> and \<open>sortList\<close> are the same algorithm
  on two kinds of data; on HOL lists one round of the outer loop is \<open>bpass\<close>, and as many
  rounds as there are elements give the stable sort of the library.
\<close>

section \<open>Bubble sort on lists\<close>

fun bpass :: "('a \<Rightarrow> 'a \<Rightarrow> bool) \<Rightarrow> 'a list \<Rightarrow> 'a list" where
  "bpass P [] = []"
| "bpass P [x] = [x]"
| "bpass P (x # y # zs) = (if P x y then y # bpass P (x # zs) else x # bpass P (y # zs))"

lemma length_bpass [simp]: "length (bpass P xs) = length xs"
  by (induction P xs rule: bpass.induct) auto

lemma length_bpasses [simp]: "length ((bpass P ^^ n) xs) = length xs"
  by (induction n) auto

lemma mset_bpass [simp]: "mset (bpass P xs) = mset xs"
  by (induction P xs rule: bpass.induct) auto

lemma mset_bpasses [simp]: "mset ((bpass P ^^ n) xs) = mset xs"
  by (induction n) auto

lemma set_bpasses [simp]: "set ((bpass P ^^ n) xs) = set xs"
  by (metis mset_bpasses set_mset_mset)

abbreviation out_of_order :: "('a \<Rightarrow> 'b::linorder) \<Rightarrow> 'a \<Rightarrow> 'a \<Rightarrow> bool" where
  "out_of_order k x y \<equiv> k y < k x"

lemma filter_bpass: "filter (\<lambda>x. k a = k x) (bpass (out_of_order k) xs) = filter (\<lambda>x. k a = k x) xs"
  by (induction "out_of_order k" xs rule: bpass.induct) auto

lemma filter_bpasses:
  "filter (\<lambda>x. k a = k x) ((bpass (out_of_order k) ^^ n) xs) = filter (\<lambda>x. k a = k x) xs"
  by (induction n) (auto simp: filter_bpass)

text \<open>A round moves a largest element to the end, and leaves one that is there alone.\<close>

lemma bpass_last:
  "xs \<noteq> [] \<Longrightarrow> \<exists>ys m. bpass (out_of_order k) xs = ys @ [m] \<and> (\<forall>y \<in> set ys. k y \<le> k m)"
proof (induction "out_of_order k" xs rule: bpass.induct)
  case (3 x y zs)
  show ?case
  proof (cases "k y < k x")
    case True
    with 3 obtain ys m where ys: "bpass (out_of_order k) (x # zs) = ys @ [m]" "\<forall>y \<in> set ys. k y \<le> k m"
      by auto
    have "x \<in> set (ys @ [m])" by (metis ys(1) list.set_intros(1) mset_bpass set_mset_mset)
    with ys(2) have "k x \<le> k m" by auto
    with True ys have "bpass (out_of_order k) (x # y # zs) = (y # ys) @ [m]" "\<forall>z \<in> set (y # ys). k z \<le> k m"
      by auto
    then show ?thesis by blast
  next
    case False
    with 3 obtain ys m where ys: "bpass (out_of_order k) (y # zs) = ys @ [m]" "\<forall>y \<in> set ys. k y \<le> k m"
      by auto
    have "y \<in> set (ys @ [m])" by (metis ys(1) list.set_intros(1) mset_bpass set_mset_mset)
    with ys(2) False have "k x \<le> k m" by auto
    with False ys have "bpass (out_of_order k) (x # y # zs) = (x # ys) @ [m]" "\<forall>z \<in> set (x # ys). k z \<le> k m"
      by auto
    then show ?thesis by blast
  qed
qed auto

lemma bpass_snoc:
  "\<forall>y \<in> set ys. k y \<le> k m \<Longrightarrow> bpass (out_of_order k) (ys @ [m]) = bpass (out_of_order k) ys @ [m]"
  by (induction "out_of_order k" ys rule: bpass.induct) auto

lemma bpasses_snoc:
  "\<forall>y \<in> set ys. k y \<le> k m \<Longrightarrow>
     (bpass (out_of_order k) ^^ n) (ys @ [m]) = (bpass (out_of_order k) ^^ n) ys @ [m]"
  by (induction n) (auto simp: bpass_snoc)

lemma sorted_bpasses:
  "length xs \<le> n \<Longrightarrow> sorted (map k ((bpass (out_of_order k) ^^ n) xs))"
proof (induction n arbitrary: xs)
  case (Suc n)
  show ?case
  proof (cases "xs = []")
    case True
    have "(bpass (out_of_order k) ^^ Suc n) [] = []"
      using length_bpasses [of "Suc n" "out_of_order k" "[]"] by (simp only: length_0_conv list.size)
    with True show ?thesis by (simp only:) simp
  next
    case False
    then obtain ys m where ys: "bpass (out_of_order k) xs = ys @ [m]" "\<forall>y \<in> set ys. k y \<le> k m"
      using bpass_last by blast
    have "length ys \<le> n" using Suc.prems arg_cong [OF ys(1), of length] by simp
    with Suc.IH have "sorted (map k ((bpass (out_of_order k) ^^ n) ys))" by blast
    moreover have "(bpass (out_of_order k) ^^ Suc n) xs = (bpass (out_of_order k) ^^ n) ys @ [m]"
      using bpasses_snoc [OF ys(2)] by (simp add: funpow_swap1 ys(1))
    ultimately show ?thesis using ys(2) by (simp add: sorted_append)
  qed
qed simp

lemma bpasses_sort_key:
  "length xs \<le> n \<Longrightarrow> (bpass (out_of_order k) ^^ n) xs = sort_key k xs"
  by (rule properties_for_sort_key [symmetric]) (simp_all add: filter_bpasses sorted_bpasses)

section \<open>One algorithm for both lists\<close>

text \<open>The two loops of the C code with the element access and the comparison abstracted.\<close>

fun gen_pass ::
    "(heap \<Rightarrow> addr \<Rightarrow> 'a res) \<Rightarrow> ('a \<Rightarrow> ListData) \<Rightarrow> ('a \<Rightarrow> 'a \<Rightarrow> bool) \<Rightarrow> nat \<Rightarrow> heap \<Rightarrow> addr \<Rightarrow> heap res" where
  "gen_pass rd f P 0 h lc = Inr h"
| "gen_pass rd f P (Suc n) h lc =
     res_bind (rd h lc) (\<lambda>a.
     res_bind (lnext h lc) (\<lambda>next.
     res_bind (rd h next) (\<lambda>b.
       res_bind (if P a b
                 then res_bind (set_data h lc (f b)) (\<lambda>h. set_data h next (f a))
                 else Inr h) (\<lambda>h.
         gen_pass rd f P n h next))))"

fun gen_loop ::
    "(heap \<Rightarrow> addr \<Rightarrow> 'a res) \<Rightarrow> ('a \<Rightarrow> ListData) \<Rightarrow> ('a \<Rightarrow> 'a \<Rightarrow> bool) \<Rightarrow> nat \<Rightarrow> heap \<Rightarrow> addr \<Rightarrow> heap res" where
  "gen_loop rd f P 0 h list = Inr h"
| "gen_loop rd f P (Suc i) h list =
     res_bind (head_field h list) (\<lambda>lc.
     res_bind (list_length h list) (\<lambda>len.
     res_bind (gen_pass rd f P (nat (len - 1)) h lc) (\<lambda>h. gen_loop rd f P i h list)))"

abbreviation int_switch :: "bool \<Rightarrow> int \<Rightarrow> int \<Rightarrow> bool" where
  "int_switch increasing a b \<equiv> if increasing then a > b else a < b"

lemma sort_int_pass_gen: "sort_int_pass inc n h lc = gen_pass lfirst_int IntVal (int_switch inc) n h lc"
  by (induction n arbitrary: h lc) (simp_all add: Let_def)

lemma sort_int_loop_gen: "sort_int_loop inc n h l = gen_loop lfirst_int IntVal (int_switch inc) n h l"
  by (induction n arbitrary: h) (simp_all add: sort_int_pass_gen)

lemma sort_pass_gen:
  "sort_pass cmp factor n h lc = gen_pass lfirst PtrVal (\<lambda>a b. cmp a b * factor = 1) n h lc"
  by (induction n arbitrary: h lc) (simp_all add: Let_def)

lemma sort_loop_gen:
  "sort_loop cmp factor n h l = gen_loop lfirst PtrVal (\<lambda>a b. cmp a b * factor = 1) n h l"
  by (induction n arbitrary: h) (simp_all add: sort_pass_gen)

lemma heap_cells_id: "h\<lparr>cells := cells h\<rparr> = h"
  by simp

lemma header_cong: "map fst xs = map fst ys \<Longrightarrow> xs \<noteq> [] \<Longrightarrow> header tag xs = header tag ys"
  by (metis header_def last_map length_map list.map_disc_iff list.map_sel(1))

locale cell_access =
  fixes rd :: "heap \<Rightarrow> addr \<Rightarrow> 'a res" and f :: "'a \<Rightarrow> ListData"
  assumes rd_cell: "cells h a = Some \<lparr>cdata = f v, cnext = n\<rparr> \<Longrightarrow> rd h a = Inr v"
begin

text \<open>A round stores data in the cells, which keep their addresses and links.\<close>

lemma gen_pass_rep:
  assumes "lseg h p (zip as (map f vs)) q" "length as = length vs" "distinct as" "vs \<noteq> []"
  shows "\<exists>cs. gen_pass rd f P (length vs - 1) h p = Inr (h\<lparr>cells := cs\<rparr>) \<and>
           lseg (h\<lparr>cells := cs\<rparr>) p (zip as (map f (bpass P vs))) q \<and>
           dom cs = dom (cells h) \<and> (\<forall>a. a \<notin> set as \<longrightarrow> cs a = cells h a)"
  using assms
proof (induction P vs arbitrary: h p as rule: bpass.induct)
  case (3 P x y zs)
  from "3.prems"(2) obtain a b bs where as: "as = a # b # bs"
    by (metis length_Suc_conv)
  with "3.prems" obtain m where pa: "p = a" "a \<noteq> 0" "b \<noteq> 0" "cells h a = Some \<lparr>cdata = f x, cnext = b\<rparr>"
    "cells h b = Some \<lparr>cdata = f y, cnext = m\<rparr>" "lseg h m (zip bs (map f zs)) q"
    by auto
  have ab: "a \<noteq> b" "a \<notin> set bs" "b \<notin> set bs" "distinct (b # bs)" using "3.prems"(3) as by auto
  let ?c = "if P x y then (cells h)(a \<mapsto> \<lparr>cdata = f y, cnext = b\<rparr>, b \<mapsto> \<lparr>cdata = f x, cnext = m\<rparr>)
            else cells h"
  let ?v = "if P x y then x else y" and ?u = "if P x y then y else x"
  let ?h = "h\<lparr>cells := ?c\<rparr>"
  have "cells ?h c = cells h c" if "c \<in> addrs (zip bs (map f zs))" for c
    using that ab set_zip_leftD by fastforce
  then have "lseg ?h m (zip bs (map f zs)) q" using pa(6) lseg_frame [of _ ?h h] by blast
  then have seg: "lseg ?h b (zip (b # bs) (map f (?v # zs))) q" using pa by auto
  have "\<exists>cs. gen_pass rd f P (length (?v # zs) - 1) ?h b = Inr (?h\<lparr>cells := cs\<rparr>) \<and>
      lseg (?h\<lparr>cells := cs\<rparr>) b (zip (b # bs) (map f (bpass P (?v # zs)))) q \<and>
      dom cs = dom (cells ?h) \<and> (\<forall>a. a \<notin> set (b # bs) \<longrightarrow> cs a = cells ?h a)"
  proof -
    have "length (b # bs) = length (?v # zs)" "?v # zs \<noteq> []" using "3.prems"(2) as by simp_all
    with "3.IH"(1) [of ?h b "b # bs"] "3.IH"(2) [of ?h b "b # bs"] seg ab(4) show ?thesis
      by (cases "P x y") (simp_all only: if_True if_False simp_thms)
  qed
  then obtain cs where ih: "gen_pass rd f P (length zs) ?h b = Inr (h\<lparr>cells := cs\<rparr>)"
    "lseg (h\<lparr>cells := cs\<rparr>) b (zip (b # bs) (map f (bpass P (?v # zs)))) q"
    "dom cs = dom ?c" "\<forall>a. a \<notin> set (b # bs) \<longrightarrow> cs a = ?c a" by auto
  have "cs a = Some \<lparr>cdata = f ?u, cnext = b\<rparr>" using ih(4) ab pa by auto
  then have "lseg (h\<lparr>cells := cs\<rparr>) p (zip as (map f (bpass P (x # y # zs)))) q"
    using ih(2) pa as by auto
  moreover have "gen_pass rd f P (length (x # y # zs) - 1) h p = Inr (h\<lparr>cells := cs\<rparr>)"
    using ih(1) pa ab(1) rd_cell [OF pa(4)] rd_cell [OF pa(5)]
    by (cases "P x y") (simp_all add: lnext_def set_data_def get_cell_def put_cell_def heap_cells_id)
  moreover have "dom cs = dom (cells h)" using ih(3) pa by auto
  moreover have "\<forall>c. c \<notin> set as \<longrightarrow> cs c = cells h c" using ih(4) as by auto
  ultimately show ?case by blast
next
  case (2 P v)
  then show ?case by (intro exI [of _ "cells h"]) (auto simp: length_Suc_conv)
qed simp

lemma gen_round_step:
  assumes ok: "heap_ok h" and rep: "list_rep h tag l xs" and v: "vals xs = map f vs" and nz: "xs \<noteq> []"
  shows "\<exists>h'. gen_pass rd f P (length vs - 1) h (fst (hd xs)) = Inr h' \<and>
           list_step h tag l xs h' l (zip (map fst xs) (map f (bpass P vs)))"
proof -
  let ?as = "map fst xs" and ?ys = "zip (map fst xs) (map f (bpass P vs))"
  have xs: "xs = zip ?as (map f vs)" by (simp flip: v add: zip_map_fst_snd)
  have len: "length ?as = length vs" using arg_cong [OF v, of length] by simp
  have l: "l \<noteq> NIL" using list_rep_ne [OF rep nz] .
  with rep have hdr: "lists h l = Some (header tag xs)" and seg: "lseg h (fst (hd xs)) xs 0"
    by (auto simp: list_rep_def)
  have vz: "vs \<noteq> []" using len nz by auto
  have "lseg h (fst (hd xs)) (zip ?as (map f vs)) 0" using seg xs by simp
  from gen_pass_rep [OF this len list_rep_distinct [OF rep] vz] obtain cs where
    g: "gen_pass rd f P (length vs - 1) h (fst (hd xs)) = Inr (h\<lparr>cells := cs\<rparr>)"
      "lseg (h\<lparr>cells := cs\<rparr>) (fst (hd xs)) ?ys 0" "dom cs = dom (cells h)"
      "\<forall>a. a \<notin> set ?as \<longrightarrow> cs a = cells h a"
    by blast
  have fst: "map fst ?ys = ?as" using len by simp
  then have yz: "?ys \<noteq> []" using nz by (metis list.map_disc_iff)
  have "has_tag tag d" if "d \<in> set (vals ?ys)" for d
  proof -
    have "d \<in> f ` set vs" using that len by (metis length_bpass length_map map_snd_zip mset_bpass set_map set_mset_mset)
    then have "d \<in> set (vals xs)" by (simp add: v)
    then show ?thesis using list_rep_tags [OF rep] by auto
  qed
  moreover have "header tag ?ys = header tag xs" using header_cong [OF fst yz] header_cong [of xs ?ys tag] fst yz
    by (metis nz)
  moreover have "fst (hd ?ys) = fst (hd xs)" using fst yz nz by (metis list.map_sel(1))
  ultimately have "list_rep (h\<lparr>cells := cs\<rparr>) tag l ?ys"
    using l yz hdr g(2) by (auto simp: list_rep_def)
  moreover have "heap_ok (h\<lparr>cells := cs\<rparr>)" using g(3) by (intro heap_ok_dom [OF ok]) auto
  moreover have "only_changes h (h\<lparr>cells := cs\<rparr>) (addrs xs) {l}"
    using g(4) by (auto simp: only_changes_def)
  moreover have "addrs ?ys = addrs xs" using fst by (metis set_map)
  ultimately have "list_step h tag l xs (h\<lparr>cells := cs\<rparr>) l ?ys" by (simp add: list_step_def)
  with g(1) show ?thesis by blast
qed

lemma gen_loop_step:
  assumes "heap_ok h" "list_rep h tag l xs" "vals xs = map f vs" "xs \<noteq> []"
  shows "\<exists>h'. gen_loop rd f P n h l = Inr h' \<and>
           list_step h tag l xs h' l (zip (map fst xs) (map f ((bpass P ^^ n) vs)))"
  using assms
proof (induction n arbitrary: h xs vs)
  case 0
  have "zip (map fst xs) (map f vs) = xs" by (simp flip: 0(3) add: zip_map_fst_snd)
  with list_step_refl [OF 0(1,2)] show ?case by simp
next
  case (Suc n)
  let ?ys = "zip (map fst xs) (map f (bpass P vs))"
  have len: "length xs = length vs" using arg_cong [OF Suc.prems(3), of length] by simp
  from gen_round_step [OF Suc.prems, of P] obtain h1 where
    r: "gen_pass rd f P (length vs - 1) h (fst (hd xs)) = Inr h1" "list_step h tag l xs h1 l ?ys" by blast
  then have ok1: "heap_ok h1" "list_rep h1 tag l ?ys" by (simp_all add: list_step_def)
  have ys: "vals ?ys = map f (bpass P vs)" "map fst ?ys = map fst xs" using len by simp_all
  then have "?ys \<noteq> []" using Suc.prems(4) by (metis list.map_disc_iff)
  from Suc.IH [OF ok1 ys(1) this] ys(2) obtain h2 where
    ih: "gen_loop rd f P n h1 l = Inr h2"
      "list_step h1 tag l ?ys h2 l (zip (map fst xs) (map f ((bpass P ^^ n) (bpass P vs))))" by auto
  have "nat (int (length xs) - 1) = length vs - 1" using len by simp
  moreover have "head_field h l = Inr (fst (hd xs))"
    using get_list_rep [OF Suc.prems(2) list_rep_ne [OF Suc.prems(2,4)]] by (simp add: head_field_def)
  ultimately have "gen_loop rd f P (Suc n) h l = Inr h2"
    using r(1) ih(1) by (simp add: list_length_rep [OF Suc.prems(2)])
  with list_step_trans [OF r(2) ih(2)] show ?case by (simp add: funpow_swap1)
qed

end

interpretation int_cells: cell_access lfirst_int IntVal
  by unfold_locales (simp add: lfirst_int_def get_cell_def)

interpretation ptr_cells: cell_access lfirst PtrVal
  by unfold_locales (simp add: lfirst_def get_cell_def)

section \<open>What the sorts return\<close>

lemma sort_key_uminus: "sort_key uminus vs = rev (sort (vs :: int list))"
proof (rule sort_key_inj_key_eq)
  have "sorted_wrt (\<ge>) (rev (sort vs))" by (simp add: sorted_wrt_rev)
  then show "sorted (map uminus (rev (sort vs)))" by (simp add: sorted_wrt_map)
qed (auto simp: inj_on_def)

definition sorted_ints :: "bool \<Rightarrow> int list \<Rightarrow> int list" where
  "sorted_ints increasing vs = (if increasing then sort vs else rev (sort vs))"

lemma int_switches: "(bpass (int_switch inc) ^^ length vs) vs = sorted_ints inc vs"
  using bpasses_sort_key [of vs "length vs" "\<lambda>x. x"] bpasses_sort_key [of vs "length vs" uminus]
  by (cases inc) (simp_all add: sorted_ints_def sort_key_uminus)

lemma sortIntList_step:
  assumes "heap_ok h" "list_rep h T_IntList l xs" "vals xs = map IntVal vs"
  shows "\<exists>h'. sortIntList h l inc = Inr (l, h') \<and>
           list_step h T_IntList l xs h' l (zip (map fst xs) (map IntVal (sorted_ints inc vs)))"
proof (cases "xs = []")
  case True
  with assms list_step_refl [OF assms(1,2)] show ?thesis
    by (simp add: sortIntList_def list_length_rep [OF assms(2)] sorted_ints_def)
next
  case False
  have "length xs = length vs" using arg_cong [OF assms(3), of length] by simp
  then have "sortIntList h l inc =
      res_bind (gen_loop lfirst_int IntVal (int_switch inc) (length vs) h l) (\<lambda>h. Inr (l, h))"
    by (simp only: sortIntList_def list_length_rep [OF assms(2)] sort_int_loop_gen res_bind_Inr nat_int)
  with int_cells.gen_loop_step [OF assms False, of "int_switch inc" "length vs"] show ?thesis
    unfolding int_switches by (elim exE conjE) (simp only: res_bind_Inr, blast)
qed

text \<open>A comparison function that orders by a key.\<close>

definition compares_by :: "(addr \<Rightarrow> addr \<Rightarrow> int) \<Rightarrow> (addr \<Rightarrow> int) \<Rightarrow> bool" where
  "compares_by cmp key \<longleftrightarrow> (\<forall>a b. cmp a b = sgn (key a - key b))"

lemma compares:
  "compares_by (compareVars varattno) varattno"
  "compares_by (compareTeOnRessortgroupref ref) (\<lambda>x. int (ref x))"
  "compares_by (compareCopyMapRelEntryOnRtindex ix) (\<lambda>x. int (ix x))"
  by (auto simp: compares_by_def compareVars_def compareTeOnRessortgroupref_def
      compareCopyMapRelEntryOnRtindex_def sgn_if)

lemma sortList_step:
  assumes "heap_ok h" "list_rep h T_List l xs" "vals xs = map PtrVal vs" "compares_by cmp key"
  shows "\<exists>h'. sortList cmp h l inc = Inr (l, h') \<and>
           list_step h T_List l xs h' l
             (zip (map fst xs) (map PtrVal (sort_key (\<lambda>x. if inc then key x else - key x) vs)))"
proof (cases "xs = []")
  case True
  with assms list_step_refl [OF assms(1,2)] show ?thesis
    by (simp add: sortList_def list_length_rep [OF assms(2)])
next
  case False
  have len: "length xs = length vs" using arg_cong [OF assms(3), of length] by simp
  let ?k = "\<lambda>x. if inc then key x else - key x"
  have "(\<lambda>a b. cmp a b * (if inc then 1 else - 1) = 1) = out_of_order ?k"
    using assms(4) by (auto simp: compares_by_def sgn_if fun_eq_iff)
  with len have "sortList cmp h l inc =
      res_bind (gen_loop lfirst PtrVal (out_of_order ?k) (length vs) h l) (\<lambda>h. Inr (l, h))"
    by (simp only: sortList_def list_length_rep [OF assms(2)] sort_loop_gen res_bind_Inr nat_int)
  with ptr_cells.gen_loop_step [OF assms(1-3) False, of "out_of_order ?k" "length vs"] show ?thesis
    unfolding bpasses_sort_key [OF order_refl] by (elim exE conjE) (simp only: res_bind_Inr, blast)
qed

end
