(* ===== verification/ProvStackSpec.thy ===== *)
theory ProvStackSpec
  imports ProvSort
begin

text \<open>
  The stack operations of \<open>prov_stack.c\<close> against HOL lists.  An operation on one list of
  the store leaves the others as they are, which \<open>apart\<close> carries through the loops that work
  on two of them.
\<close>

section \<open>Two lists side by side\<close>

definition apart ::
    "heap \<Rightarrow> NodeTag \<Rightarrow> addr \<Rightarrow> (addr \<times> ListData) list \<Rightarrow> NodeTag \<Rightarrow> addr \<Rightarrow> (addr \<times> ListData) list \<Rightarrow> bool"
where
  "apart h tag l xs tag' m ys \<longleftrightarrow>
     list_rep h tag l xs \<and> list_rep h tag' m ys \<and> (m \<noteq> NIL \<longrightarrow> m \<noteq> l) \<and> addrs ys \<inter> addrs xs = {}"

lemma apart_sym: "apart h tag l xs tag' m ys \<Longrightarrow> apart h tag' m ys tag l xs"
  by (auto simp: apart_def)

lemma apart_reps: "apart h tag l xs tag' m ys \<Longrightarrow> list_rep h tag l xs \<and> list_rep h tag' m ys"
  by (simp add: apart_def)

lemma apart_NIL: "list_rep h tag l xs \<Longrightarrow> apart h tag NIL [] tag l xs"
  by (simp add: apart_def)

lemma apart_step:
  assumes "apart h tag l xs tag' m ys" "heap_ok h" "list_step h tag l xs h' l' zs"
  shows "apart h' tag l' zs tag' m ys"
proof -
  have rep: "list_rep h tag' m ys" and ml: "m \<noteq> NIL \<Longrightarrow> m \<noteq> l" and d: "addrs ys \<inter> addrs xs = {}"
    using assms(1) by (auto simp only: apart_def)
  note o = list_step_others [OF assms(3,2) rep ml d]
  have "list_rep h' tag l' zs" using assms(3) by (simp add: list_step_def)
  with o show ?thesis by (auto simp: apart_def)
qed

lemma apart_new:
  assumes "heap_ok h" "list_rep h tag' m ys" "list_step h tag NIL [] h' l' zs"
  shows "apart h' tag l' zs tag' m ys"
  using apart_step [OF _ assms(1,3)] assms(2) by (auto simp: apart_def)

lemma step_facts: "list_step h tag l xs h' l' zs \<Longrightarrow> heap_ok h' \<and> list_rep h' tag l' zs \<and> objs h' = objs h"
  by (simp add: list_step_def)

section \<open>Push and pop\<close>

lemma push_step:
  assumes "heap_ok h" "list_rep h T_List l xs"
  shows "\<exists>l' h' a. push h l e = Inr (l', h') \<and> list_step h T_List l xs h' l' ((a, PtrVal e) # xs)"
  using lcons_gen_step [OF assms, of "PtrVal e"] by (simp add: push_def lcons_def)

lemma linitial_rep:
  "list_rep h T_List l ((a, PtrVal e) # xs) \<Longrightarrow> linitial h l = Inr e"
  using list_rep_seg [of h T_List l] by (fastforce simp: linitial_def list_head_rep lfirst_def get_cell_def)

lemma pop_step:
  assumes "heap_ok h" "list_rep h T_List l ((a, PtrVal e) # xs)"
  shows "\<exists>l' h'. pop h l = Inr (e, l', h') \<and> list_step h T_List l ((a, PtrVal e) # xs) h' l' xs"
  using list_delete_first_rep [OF assms] linitial_rep [OF assms(2)] list_rep_ne [OF assms(2)]
  by (auto simp: pop_def)

lemma pop_empty: "pop h NIL = Inl AssertFailed"
  by (simp add: pop_def)

text \<open>The elements of a pointer list.\<close>

definition holds :: "heap \<Rightarrow> addr \<Rightarrow> addr list \<Rightarrow> bool" where
  "holds h l es \<longleftrightarrow> heap_ok h \<and> (\<exists>xs. list_rep h T_List l xs \<and> vals xs = map PtrVal es)"

datatype stack_op = Push addr | Pop

text \<open>A sequence of calls, with the elements popped; \<open>None\<close> is a call that does not return.\<close>

fun run_calls ::
    "(heap \<Rightarrow> addr \<Rightarrow> addr \<Rightarrow> (addr \<times> heap) res) \<Rightarrow> (heap \<Rightarrow> addr \<Rightarrow> (addr \<times> addr \<times> heap) res) \<Rightarrow>
     stack_op list \<Rightarrow> heap \<Rightarrow> addr \<Rightarrow> (addr list \<times> addr \<times> heap) res" where
  "run_calls pu po [] h l = Inr ([], l, h)"
| "run_calls pu po (Push e # ops) h l =
     res_bind (pu h l e) (\<lambda>(l, h). run_calls pu po ops h l)"
| "run_calls pu po (Pop # ops) h l =
     res_bind (po h l) (\<lambda>(e, l, h).
     res_bind (run_calls pu po ops h l) (\<lambda>(es, l, h). Inr (e # es, l, h)))"

text \<open>The abstract stack: a list with its top first.  A pop of the empty stack is refused.\<close>

fun run_spec :: "stack_op list \<Rightarrow> addr list \<Rightarrow> (addr list \<times> addr list) option" where
  "run_spec [] s = Some ([], s)"
| "run_spec (Push e # ops) s = run_spec ops (e # s)"
| "run_spec (Pop # ops) [] = None"
| "run_spec (Pop # ops) (e # s) = map_option (\<lambda>(es, s). (e # es, s)) (run_spec ops s)"

locale stack =
  fixes rep :: "heap \<Rightarrow> addr \<Rightarrow> addr list \<Rightarrow> bool"
    and pu :: "heap \<Rightarrow> addr \<Rightarrow> addr \<Rightarrow> (addr \<times> heap) res"
    and po :: "heap \<Rightarrow> addr \<Rightarrow> (addr \<times> addr \<times> heap) res"
  assumes push_law: "rep h l es \<Longrightarrow> \<exists>l' h'. pu h l e = Inr (l', h') \<and> rep h' l' (e # es)"
    and pop_law: "rep h l (e # es) \<Longrightarrow> \<exists>l' h'. po h l = Inr (e, l', h') \<and> rep h' l' es"
    and pop_none: "rep h l [] \<Longrightarrow> \<exists>f. po h l = Inl f"
begin

lemma run_refines:
  "rep h l s \<Longrightarrow>
     (case run_spec ops s of
        Some (es, s') \<Rightarrow> \<exists>l' h'. run_calls pu po ops h l = Inr (es, l', h') \<and> rep h' l' s'
      | None \<Rightarrow> \<exists>f. run_calls pu po ops h l = Inl f)"
proof (induction ops s arbitrary: h l rule: run_spec.induct)
  case (2 e ops s)
  then obtain l' h' where p: "pu h l e = Inr (l', h')" "rep h' l' (e # s)" using push_law by blast
  from "2.IH" [OF p(2)] p(1) show ?case by (auto split: option.splits)
next
  case (3 ops)
  then show ?case using pop_none by fastforce
next
  case (4 ops e s)
  then obtain l' h' where p: "po h l = Inr (e, l', h')" "rep h' l' s" using pop_law by blast
  from "4.IH" [OF p(2)] p(1) show ?case
    by (cases "run_spec ops s") auto
qed auto

text \<open>What is pushed comes back last in, first out.\<close>

lemma push_pop_all:
  assumes "rep h l s"
  shows "\<exists>l' h'. run_calls pu po (map Push es @ replicate (length es) Pop) h l = Inr (rev es, l', h') \<and>
           rep h' l' s"
proof -
  have "run_spec (replicate (length us) Pop) (us @ s) = Some (us, s)" for us s
    by (induction us) auto
  moreover have "run_spec (map Push es @ ops) s = run_spec ops (rev es @ s)" for ops s
    by (induction es arbitrary: s) auto
  ultimately have "run_spec (map Push es @ replicate (length es) Pop) s = Some (rev es, s)"
    by (metis length_rev)
  with run_refines [OF assms, of "map Push es @ replicate (length es) Pop"] show ?thesis by auto
qed

end

interpretation prov_stack: stack holds push pop
proof
  fix h l es e
  assume "holds h l es"
  then obtain xs where xs: "heap_ok h" "list_rep h T_List l xs" "vals xs = map PtrVal es"
    by (auto simp: holds_def)
  from push_step [OF xs(1,2), of e] xs(3) show "\<exists>l' h'. push h l e = Inr (l', h') \<and> holds h' l' (e # es)"
    by (fastforce simp: holds_def dest: step_facts)
next
  fix h l e es
  assume "holds h l (e # es)"
  then obtain a xs where xs: "heap_ok h" "list_rep h T_List l ((a, PtrVal e) # xs)" "vals xs = map PtrVal es"
    by (auto simp: holds_def map_eq_Cons_conv)
  from pop_step [OF xs(1,2)] xs(3) show "\<exists>l' h'. pop h l = Inr (e, l', h') \<and> holds h' l' es"
    by (auto simp: holds_def dest: step_facts)
next
  fix h l
  assume "holds h l []"
  then show "\<exists>f. pop h l = Inl f" by (auto simp: holds_def list_rep_Nil pop_empty)
qed

section \<open>Taking several elements\<close>

lemma pop_reverse_loop_step:
  assumes "heap_ok h" "apart h T_List r zs T_List l xs" "vals xs = map PtrVal es" "n \<le> length es"
  shows "\<exists>r' l' h' us. pop_reverse_loop n h l r = Inr (r', l', h') \<and> heap_ok h' \<and>
           apart h' T_List r' us T_List l' (drop n xs) \<and> vals us = map PtrVal (rev (take n es)) @ vals zs"
  using assms
proof (induction n arbitrary: h r zs l xs es)
  case (Suc n)
  then obtain e es' a xs' where es: "es = e # es'" and xs: "xs = (a, PtrVal e) # xs'" "vals xs' = map PtrVal es'"
    by (cases es) (auto simp: map_eq_Cons_conv)
  have rep: "list_rep h T_List l ((a, PtrVal e) # xs')" using Suc.prems(2) xs by (simp add: apart_def)
  from pop_step [OF Suc.prems(1) this] obtain l1 h1 where
    p: "pop h l = Inr (e, l1, h1)" "list_step h T_List l xs h1 l1 xs'" using xs by auto
  have a1: "apart h1 T_List l1 xs' T_List r zs"
    by (rule apart_step [OF apart_sym [OF Suc.prems(2)] Suc.prems(1) p(2)])
  have ok1: "heap_ok h1" using step_facts [OF p(2)] by blast
  have "list_rep h1 T_List r zs" using a1 by (simp add: apart_def)
  from lcons_gen_step [OF ok1 this, of "PtrVal e"] obtain r2 h2 b where
    c: "lcons h1 e r = Inr (r2, h2)" "list_step h1 T_List r zs h2 r2 ((b, PtrVal e) # zs)"
    by (auto simp: lcons_def)
  have a2: "apart h2 T_List r2 ((b, PtrVal e) # zs) T_List l1 xs'"
    by (rule apart_step [OF apart_sym [OF a1] ok1 c(2)])
  have "heap_ok h2" using step_facts [OF c(2)] by blast
  from Suc.IH [OF this a2 xs(2)] Suc.prems(4) es obtain r' l' h' us where
    ih: "pop_reverse_loop n h2 l1 r2 = Inr (r', l', h')" "heap_ok h'"
      "apart h' T_List r' us T_List l' (drop n xs')"
      "vals us = map PtrVal (rev (take n es')) @ vals ((b, PtrVal e) # zs)" by auto
  then show ?case using p(1) c(1) es xs(1) by auto
qed auto

lemma popListAndReverse_step:
  assumes "heap_ok h" "list_rep h T_List l xs" "vals xs = map PtrVal es" "n \<le> int (length es)"
  shows "\<exists>r' l' h' us. popListAndReverse h l n = Inr (r', l', h') \<and> heap_ok h' \<and>
           apart h' T_List r' us T_List l' (drop (nat n) xs) \<and> vals us = map PtrVal (rev (take (nat n) es))"
proof -
  have "length xs = length es" using arg_cong [OF assms(3), of length] by simp
  with pop_reverse_loop_step [OF assms(1) apart_NIL [OF assms(2)] assms(3), of "nat n"] assms(4)
  show ?thesis by (auto simp: popListAndReverse_def list_length_rep [OF assms(2)])
qed

lemma get_reverse_loop_step:
  assumes "heap_ok h" "apart h T_List r zs T_List l xs" "vals xs = map PtrVal es" "i + n \<le> length es"
  shows "\<exists>r' h' us. get_reverse_loop n (int i) h l r = Inr (r', h') \<and> heap_ok h' \<and>
           apart h' T_List r' us T_List l xs \<and> vals us = map PtrVal (rev (take n (drop i es))) @ vals zs"
  using assms
proof (induction n arbitrary: h r zs i)
  case (Suc n)
  have len: "length xs = length es" using arg_cong [OF Suc.prems(3), of length] by simp
  have rep: "list_rep h T_List l xs" "list_rep h T_List r zs" using Suc.prems(2) by (auto simp: apart_def)
  have "list_nth h l (int i) = Inr (es ! i)"
    using list_nth_gen_rep [OF rep(1), of i] Suc.prems(3,4) len by (simp add: list_nth_def)
  moreover from lcons_gen_step [OF Suc.prems(1) rep(2), of "PtrVal (es ! i)"] obtain r2 h2 b where
    c: "lcons h (es ! i) r = Inr (r2, h2)" "list_step h T_List r zs h2 r2 ((b, PtrVal (es ! i)) # zs)"
    by (auto simp: lcons_def)
  have "heap_ok h2" using step_facts [OF c(2)] by blast
  moreover from Suc.IH [OF this apart_step [OF Suc.prems(2,1) c(2)] Suc.prems(3), of "Suc i"] Suc.prems(4)
  obtain r' h' us where
    ih: "get_reverse_loop n (int i + 1) h2 l r2 = Inr (r', h')" "heap_ok h'" "apart h' T_List r' us T_List l xs"
      "vals us = map PtrVal (rev (take n (drop (Suc i) es))) @ vals ((b, PtrVal (es ! i)) # zs)"
    by (auto simp: add.commute)
  moreover have "drop i es = es ! i # drop (Suc i) es" using Suc.prems(4) by (simp add: Cons_nth_drop_Suc)
  ultimately show ?case using c(1) by auto
qed auto

lemma getListAndReverse_step:
  assumes "heap_ok h" "list_rep h T_List l xs" "vals xs = map PtrVal es" "n \<le> int (length es)"
  shows "\<exists>r' h' us. getListAndReverse h l n = Inr (r', h') \<and> heap_ok h' \<and>
           apart h' T_List r' us T_List l xs \<and> vals us = map PtrVal (rev (take (nat n) es))"
proof -
  have "length xs = length es" using arg_cong [OF assms(3), of length] by simp
  with get_reverse_loop_step [OF assms(1) apart_NIL [OF assms(2)] assms(3), of 0 "nat n"] assms(4)
  show ?thesis by (auto simp: getListAndReverse_def list_length_rep [OF assms(2)])
qed

end
