(* ===== verification/ProvStackPos.thy ===== *)
theory ProvStackPos
  imports ProvStackSpec
begin

text \<open>
  Removal by position (\<open>popNthCell\<close>, \<open>popAllInList\<close>), reversal in place, truncation, the
  list builders and the searches of \<open>prov_stack.c\<close>.
\<close>

section \<open>Removing by position\<close>

definition del_at :: "nat \<Rightarrow> 'a list \<Rightarrow> 'a list" where
  "del_at n xs = take n xs @ drop (Suc n) xs"

lemma del_at_split: "n < length xs \<Longrightarrow> xs = take n xs @ xs ! n # drop (Suc n) xs"
  by (simp add: id_take_nth_drop)

lemma popNthCell_first:
  assumes ok: "heap_ok h" and rep: "list_rep h T_List l ((a, PtrVal e) # xs)"
  shows "\<exists>l' h'. popNthCell h l 0 = Inr (e, l', h') \<and>
           list_step h T_List l ((a, PtrVal e) # xs) h' l' xs"
proof -
  let ?xs = "(a, PtrVal e) # xs"
  have l: "l \<noteq> NIL" using list_rep_ne [OF rep] by simp
  with rep obtain m where hdr: "lists h l = Some (header T_List ?xs)" and a: "a \<noteq> 0"
    "cells h a = Some \<lparr>cdata = PtrVal e, cnext = m\<rparr>" and seg: "lseg h m xs 0"
    by (auto simp: list_rep_def)
  have m: "m = (if xs = [] then 0 else fst (hd xs))" by (rule lseg_head_ptr [OF seg])
  let ?L = "\<lparr>ltype = T_List, llength = int (length xs), lhead = m, ltail = fst (last ?xs)\<rparr>"
  let ?h = "h\<lparr>lists := (lists h)(l \<mapsto> ?L)\<rparr>"
  have "popNthCell h l 0 = Inr (e, if xs = [] then NIL else l, ?h)"
    using hdr a l by (simp add: popNthCell_def list_length_def heap_defs lnext_def lfirst_def header_def Let_def)
  moreover have "list_rep ?h T_List (if xs = [] then NIL else l) xs"
  proof (cases "xs = []")
    case False
    then have "?L = header T_List xs" using m by (simp add: header_def)
    moreover have "lseg ?h m xs 0" using seg lseg_frame [of xs ?h h] by simp
    ultimately show ?thesis using False l m list_rep_tags [OF rep] by (auto simp: list_rep_def)
  qed simp
  moreover have "heap_ok ?h" using hdr by (intro heap_ok_dom [OF ok]) auto
  moreover have "only_changes h ?h (addrs ?xs) {l}" by (auto simp: only_changes_def)
  ultimately show ?thesis by (auto simp: list_step_def)
qed

lemma popNthCell_later:
  assumes ok: "heap_ok h" and rep: "list_rep h tag l (pre @ x # post)" and pz: "pre \<noteq> []"
  shows "\<exists>h'. popNthCell h l (int (length pre)) = Inr (fst x, l, h') \<and>
           list_step h tag l (pre @ x # post) h' l (pre @ post) \<and> cells h' (fst x) = cells h (fst x)"
proof -
  let ?xs = "pre @ x # post"
  have l: "l \<noteq> NIL" using list_rep_ne [OF rep] by simp
  with rep have hdr: "lists h l = Some (header tag ?xs)" and seg: "lseg h (fst (hd ?xs)) ?xs 0"
    by (auto simp: list_rep_def)
  from seg obtain m where pre: "lseg h (fst (hd ?xs)) pre (fst x)" and x0: "fst x \<noteq> 0"
    and cx: "cells h (fst x) = Some \<lparr>cdata = snd x, cnext = m\<rparr>" and post: "lseg h m post 0"
    by (auto simp: lseg_append)
  let ?p = "fst (last pre)"
  let ?h1 = "h\<lparr>lists := (lists h)(l \<mapsto> (header tag ?xs)\<lparr>llength := int (length pre + length post)\<rparr>)\<rparr>"
  let ?h = "h\<lparr>cells := (cells h)(?p \<mapsto> \<lparr>cdata = snd (last pre), cnext = m\<rparr>),
              lists := (lists h)(l \<mapsto> header tag (pre @ post))\<rparr>"
  have dist: "distinct (map fst ?xs)" by (rule lseg_distinct [OF seg])
  have px: "?p \<noteq> fst x" using dist last_in_set [OF pz] by (auto simp: image_iff)
  note last = lseg_last [OF pre pz]
  have nth: "nth_cell_loop ?h1 (fst (hd ?xs)) (length pre - 1) = Inr ?p"
  proof -
    have "lseg ?h1 (fst (hd ?xs)) pre (fst x)" using pre lseg_frame [of pre ?h1 h] by simp
    then show ?thesis using lseg_nth_cell [of ?h1 "fst (hd ?xs)" pre "fst x" "length pre - 1"] pz
      by (simp add: last_conv_nth)
  qed
  have hdrs: "header tag (pre @ post) =
      (let L = (header tag ?xs)\<lparr>llength := int (length pre + length post)\<rparr>
       in if ltail L = fst x then L\<lparr>ltail := ?p\<rparr> else L)"
    using header_unlinked [OF dist _ _ lseg_head_ptr [OF post], of ?p tag] pz by (simp add: Let_def)
  have "popNthCell h l (int (length pre)) = Inr (fst x, l, ?h)"
    using hdr nth pz last cx px l hdrs
    by (auto simp: popNthCell_def list_length_def heap_defs lnext_def Let_def heap_norm)
  moreover have "lseg ?h (fst (hd (pre @ post))) (pre @ post) 0"
  proof -
    have "cells ?h a = unlinked h pre x m a" if "a \<in> addrs (pre @ post)" for a
    proof -
      have "fst x \<notin> addrs (pre @ post)" using dist by auto
      with that have "a \<noteq> fst x" by metis
      with pz show ?thesis by (simp add: unlinked_def)
    qed
    from lseg_unlinked [OF pre post dist this] pz show ?thesis by simp
  qed
  then have "list_rep ?h tag l (pre @ post)"
    using l pz list_rep_tags [OF rep] unfolding list_rep_def by auto
  moreover have "heap_ok ?h" using last hdr by (intro heap_ok_dom [OF ok]) auto
  moreover have "only_changes h ?h (addrs ?xs) {l}" using pz by (auto simp: only_changes_def)
  ultimately show ?thesis using px by (auto simp: list_step_def)
qed

text \<open>
  \<open>popNth\<close> removes the element; what it returns is the element only for positions after the
  first, and for the first a word of the object the element points to.
\<close>

lemma popNth_step:
  assumes ok: "heap_ok h" and rep: "list_rep h T_List l xs" and v: "vals xs = map PtrVal es"
    and objs: "set es \<subseteq> objs h" and n: "n < length es"
  shows "\<exists>l' h'. popNth h l (int n) = Inr (if n = 0 then Uninit else PtrVal (es ! n), l', h') \<and>
           list_step h T_List l xs h' l' (del_at n xs)"
proof (cases "n = 0")
  case True
  with v n obtain a e xs' es' where xs: "xs = (a, PtrVal e) # xs'" "es = e # es'"
    by (cases xs; cases es) auto
  have "list_rep h T_List l ((a, PtrVal e) # xs')" using rep xs(1) by simp
  from popNthCell_first [OF ok this] obtain l' h' where
    p: "popNthCell h l 0 = Inr (e, l', h')" "list_step h T_List l xs h' l' xs'" using xs(1) by auto
  have "e \<in> objs h'" "heap_ok h'" using step_facts [OF p(2)] objs xs(2) by auto
  then have "read_as_cell h' e = Inr Uninit"
    by (auto simp: read_as_cell_def heap_ok_def split: option.splits)
  with True p xs show ?thesis by (auto simp: popNth_def del_at_def)
next
  case False
  have len: "length xs = length es" using arg_cong [OF v, of length] by simp
  let ?pre = "take n xs" and ?post = "drop (Suc n) xs"
  have xs: "xs = ?pre @ xs ! n # ?post" using n len by (simp add: id_take_nth_drop)
  have "list_rep h T_List l (?pre @ xs ! n # ?post)" using rep xs by simp
  moreover have "?pre \<noteq> []" "length ?pre = n" using False n len by auto
  ultimately obtain h' where p: "popNthCell h l (int n) = Inr (fst (xs ! n), l, h')"
    "list_step h T_List l xs h' l (?pre @ ?post)" "cells h' (fst (xs ! n)) = cells h (fst (xs ! n))"
    using popNthCell_later [OF ok, of T_List l ?pre "xs ! n" ?post] xs by auto
  have "lseg h (fst (hd xs)) xs 0" using list_rep_seg [OF rep] n len by (cases xs) auto
  from lseg_nth_cell [OF this] n len obtain m where
    "cells h (fst (xs ! n)) = Some \<lparr>cdata = snd (xs ! n), cnext = m\<rparr>" by auto
  moreover have "snd (xs ! n) = PtrVal (es ! n)" using v n len by (metis length_map nth_map)
  ultimately show ?thesis using p False by (auto simp: popNth_def read_as_cell_def del_at_def)
qed

text \<open>Removing positions from the largest to the smallest removes just those positions.\<close>

lemma set_del_at: "set (del_at n xs) \<subseteq> set xs"
  by (auto simp: del_at_def dest: in_set_takeD in_set_dropD)

lemma map_del_at: "map f (del_at n xs) = del_at n (map f xs)"
  by (simp add: del_at_def take_map drop_map)

lemma nths_del_at:
  assumes "n < length xs" "\<forall>i \<in> A. i < n"
  shows "nths (del_at n xs) (- A) = nths xs (- insert n A)"
proof -
  let ?p = "take n xs" and ?d = "drop (Suc n) xs"
  have len: "length ?p = n" using assms(1) by simp
  have A: "{j. j + n \<in> - A} = UNIV" using assms(2) by force
  have B: "{j. Suc j + n \<in> - insert n A} = UNIV" "n \<notin> - insert n A" using assms(2) by force+
  have C: "nths ?p (- A) = nths ?p (- insert n A)"
  proof -
    have "filter (\<lambda>p. snd p \<in> - A) (zip ?p [0..<n]) = filter (\<lambda>p. snd p \<in> - insert n A) (zip ?p [0..<n])"
      by (rule filter_cong) (auto dest: set_zip_rightD)
    then show ?thesis by (simp only: nths_def len)
  qed
  have "nths (?p @ xs ! n # ?d) (- insert n A) = nths ?p (- insert n A) @ ?d"
    using B assms(1) by (simp add: nths_append nths_Cons nths_all min_def)
  moreover have "nths (?p @ ?d) (- A) = nths ?p (- A) @ ?d"
    using A assms(1) by (simp add: nths_append nths_all min_def)
  ultimately show ?thesis using C id_take_nth_drop [OF assms(1)] by (simp add: del_at_def)
qed

lemma fold_del_at:
  "sorted_wrt (>) ps \<Longrightarrow> \<forall>p \<in> set ps. p < length xs \<Longrightarrow>
     fold del_at ps xs = nths xs (- set ps)"
proof (induction ps arbitrary: xs)
  case Nil
  have "nths xs UNIV = xs" by (simp add: nths_all)
  then show ?case by simp
next
  case (Cons p ps)
  have len: "length (del_at p xs) = length xs - 1" using Cons.prems(2) by (simp add: del_at_def)
  have "\<forall>q \<in> set ps. q < length (del_at p xs)" using Cons.prems by (auto simp: len)
  with Cons have "fold del_at ps (del_at p xs) = nths (del_at p xs) (- set ps)" by auto
  with nths_del_at [of p xs "set ps"] Cons.prems show ?case by simp
qed

lemma get_all_loop_step:
  assumes "heap_ok h" "apart h T_List r zs T_List l xs" "vals xs = map PtrVal es"
    and "lseg h p ps 0" "vals ps = map IntVal (map int is)" "\<forall>i \<in> set is. i < length es"
    and "addrs ps \<inter> addrs zs = {}" "length ps < fuel"
  shows "\<exists>r' h' us. get_all_loop fuel h l p r = Inr (r', h') \<and> list_step h T_List r zs h' r' us \<and>
           vals us = vals zs @ map (\<lambda>i. PtrVal (es ! i)) is"
  using assms
proof (induction ps arbitrary: h r zs p "is" fuel)
  case Nil
  have "list_rep h T_List r zs" using Nil.prems(2) by (simp add: apart_def)
  with list_step_refl [OF Nil.prems(1)] Nil.prems show ?case by (cases fuel) auto
next
  case (Cons x ps)
  then obtain f m i js where f: "fuel = Suc f" "length ps < f" and p: "p = fst x" "p \<noteq> 0"
    and i: "is = i # js" "snd x = IntVal (int i)" "vals ps = map IntVal (map int js)"
    and c: "cells h p = Some \<lparr>cdata = snd x, cnext = m\<rparr>" and seg: "lseg h m ps 0"
    by (cases fuel; cases "is") auto
  have rep: "list_rep h T_List l xs" "list_rep h T_List r zs" using Cons.prems(2) by (auto simp: apart_def)
  have len: "length xs = length es" using arg_cong [OF Cons.prems(3), of length] by simp
  have nth: "list_nth h l (int i) = Inr (es ! i)"
    using list_nth_gen_rep [OF rep(1), of i] Cons.prems(3,6) len i(1) by (simp add: list_nth_def)
  from lappend_gen_step [OF Cons.prems(1) rep(2), of "PtrVal (es ! i)"] obtain r1 h1 b where
    a: "lappend h r (es ! i) = Inr (r1, h1)" "list_step h T_List r zs h1 r1 (zs @ [(b, PtrVal (es ! i))])"
    by (auto simp: lappend_def)
  note keep = list_step_lseg [OF a(2) Cons.prems(1,4,7)]
  have seg1: "lseg h1 m ps 0" using keep(3) seg lseg_frame [of ps h1 h] by simp
  have disj: "addrs ps \<inter> addrs (zs @ [(b, PtrVal (es ! i))]) = {}" using keep(2) by auto
  have "heap_ok h1" using step_facts [OF a(2)] by blast
  moreover have "\<forall>i \<in> set js. i < length es" using Cons.prems(6) i(1) by simp
  ultimately obtain r2 h2 us where ih: "get_all_loop f h1 l m r1 = Inr (r2, h2)"
    "list_step h1 T_List r1 (zs @ [(b, PtrVal (es ! i))]) h2 r2 us"
    "vals us = vals (zs @ [(b, PtrVal (es ! i))]) @ map (\<lambda>i. PtrVal (es ! i)) js"
    using Cons.IH [OF _ apart_step [OF Cons.prems(2,1) a(2)] Cons.prems(3) seg1 i(3) _ disj f(2)] by blast
  have "get_all_loop fuel h l p r = Inr (r2, h2)"
    using f p c i(2) nth a(1) ih(1) keep(3) [of p] by (simp add: lfirst_int_def lnext_def get_cell_def)
  moreover have "vals us = vals zs @ map (\<lambda>i. PtrVal (es ! i)) is" using ih(3) i(1) by simp
  ultimately show ?case using list_step_trans [OF a(2) ih(2)] by blast
qed

lemma pop_all_loop_step:
  assumes "heap_ok h" "list_rep h T_List l xs" "vals xs = map PtrVal es" "set es \<subseteq> objs h"
    and "lseg h p ps 0" "vals ps = map IntVal (map int is)" "sorted_wrt (>) is"
    and "\<forall>i \<in> set is. i < length es" "addrs ps \<inter> addrs xs = {}" "length ps < fuel"
  shows "\<exists>l' h'. pop_all_loop fuel h l p = Inr (l', h') \<and> list_step h T_List l xs h' l' (fold del_at is xs)"
  using assms
proof (induction ps arbitrary: h l xs es p "is" fuel)
  case Nil
  with list_step_refl [OF Nil.prems(1,2)] show ?case by (cases fuel) auto
next
  case (Cons x ps)
  then obtain f m i js where f: "fuel = Suc f" "length ps < f" and p: "p = fst x" "p \<noteq> 0"
    and i: "is = i # js" "snd x = IntVal (int i)" "vals ps = map IntVal (map int js)"
    and c: "cells h p = Some \<lparr>cdata = snd x, cnext = m\<rparr>" and seg: "lseg h m ps 0"
    by (cases fuel; cases "is") auto
  have il: "i < length es" using Cons.prems(8) i(1) by simp
  from popNth_step [OF Cons.prems(1-4) this] obtain d l1 h1 where
    a: "popNth h l (int i) = Inr (d, l1, h1)" "list_step h T_List l xs h1 l1 (del_at i xs)" by blast
  note keep = list_step_lseg [OF a(2) Cons.prems(1,5,9)]
  have seg1: "lseg h1 m ps 0" using keep(3) seg lseg_frame [of ps h1 h] by simp
  have v: "vals (del_at i xs) = map PtrVal (del_at i es)" by (simp add: map_del_at Cons.prems(3))
  have o: "set (del_at i es) \<subseteq> objs h1" using step_facts [OF a(2)] Cons.prems(4) set_del_at [of i es] by auto
  have "length (del_at i es) = length es - 1" using il by (simp add: del_at_def)
  then have js: "\<forall>j \<in> set js. j < length (del_at i es)" "sorted_wrt (>) js"
    using Cons.prems(7,8) i(1) by auto
  have ok1: "heap_ok h1" "list_rep h1 T_List l1 (del_at i xs)" using step_facts [OF a(2)] by auto
  have "addrs ps \<inter> addrs (del_at i xs) = {}" using keep(2) by auto
  from Cons.IH [OF ok1 v o seg1 i(3) js(2,1) this f(2)] obtain l2 h2 where
    ih: "pop_all_loop f h1 l1 m = Inr (l2, h2)"
      "list_step h1 T_List l1 (del_at i xs) h2 l2 (fold del_at js (del_at i xs))" by blast
  have "pop_all_loop fuel h l p = Inr (l2, h2)"
    using f p c i(2) a(1) ih(1) keep(3) [of p] by (simp add: lfirst_int_def lnext_def get_cell_def)
  with list_step_trans [OF a(2) ih(2)] i(1) show ?case by auto
qed

lemma sorted_ints_desc:
  "sorted_ints False (map int is) = map int (rev (sort is))"
proof -
  have "sort (map int is) = map int (sort is)"
    by (rule properties_for_sort) (simp_all add: sorted_map)
  then show ?thesis by (simp add: sorted_ints_def rev_map)
qed

lemma popAllInList_step:
  assumes ok: "heap_ok h" and ap: "apart h T_List l xs T_IntList m ps"
    and v: "vals xs = map PtrVal es" and objs: "set es \<subseteq> objs h"
    and w: "vals ps = map IntVal (map int is)" and d: "distinct is" and r: "\<forall>i \<in> set is. i < length es"
  shows "\<exists>r' l' h' us. popAllInList h l m = Inr (r', l', h') \<and> heap_ok h' \<and>
           apart h' T_List r' us T_List l' (nths xs (- set is)) \<and> vals us = map (\<lambda>i. PtrVal (es ! i)) is \<and>
           list_rep h' T_IntList m ps"
proof -
  have rx: "list_rep h T_List l xs" and rp: "list_rep h T_IntList m ps" using ap by (auto simp: apart_def)
  from get_all_loop_step [OF ok apart_NIL [OF rx] v list_rep_seg [OF rp] w r _ list_rep_length [OF ok rp]]
  obtain r1 h1 us where g: "get_all_loop (brk h) h l (if ps = [] then 0 else fst (hd ps)) NIL = Inr (r1, h1)"
    "list_step h T_List NIL [] h1 r1 us" "vals us = map (\<lambda>i. PtrVal (es ! i)) is" by auto
  have ok1: "heap_ok h1" and o1: "objs h1 = objs h" using step_facts [OF g(2)] by auto
  note a1 = apart_new [OF ok rx g(2)]
  have p1: "list_rep h1 T_IntList m ps" using apart_new [OF ok rp g(2)] by (simp add: apart_def)
  have b1: "apart h1 T_List l xs T_IntList m ps"
    using ap a1 p1 by (simp add: apart_def)
  from list_copy_rep [OF ok1 p1] obtain c h2 cs where cp: "list_copy h1 m = Inr (c, h2)"
    "list_step h1 T_IntList NIL [] h2 c cs" "vals cs = vals ps" by blast
  have ok2: "heap_ok h2" and o2: "objs h2 = objs h" and c2: "list_rep h2 T_IntList c cs"
    using step_facts [OF cp(2)] o1 by auto
  let ?s = "rev (sort is)"
  let ?ds = "zip (map fst cs) (map IntVal (map int ?s))"
  from sortIntList_step [OF ok2 c2, of "map int is" False] cp(3) w obtain h3 where
    st: "sortIntList h2 c False = Inr (c, h3)" "list_step h2 T_IntList c cs h3 c ?ds"
    by (auto simp: sorted_ints_desc)
  have ok3: "heap_ok h3" and o3: "objs h3 = objs h" and c3: "list_rep h3 T_IntList c ?ds"
    using step_facts [OF st(2)] o2 by auto
  have new: "apart h3 T_IntList c ?ds tag q zs" if "list_rep h1 tag q zs" for tag q zs
    using apart_step [OF apart_new [OF ok1 that cp(2)] ok2 st(2)] .
  have a3: "apart h3 T_List l xs T_List r1 us"
    using a1 new [of T_List l xs] new [of T_List r1 us] by (auto simp: apart_def)
  have b3: "apart h3 T_List l xs T_IntList m ps"
    using b1 new [of T_List l xs] new [of T_IntList m ps] by (auto simp: apart_def)
  have len: "length cs = length is" using arg_cong [OF cp(3), of length] arg_cong [OF w, of length] by simp
  have ds: "vals ?ds = map IntVal (map int ?s)" "sorted_wrt (>) ?s" "\<forall>i \<in> set ?s. i < length es"
    using d r len by (auto simp: sorted_wrt_rev strict_sorted_iff)
  have dj: "addrs ?ds \<inter> addrs xs = {}" and rx3: "list_rep h3 T_List l xs"
    using new [of T_List l xs] a1 by (auto simp: apart_def)
  from pop_all_loop_step [OF ok3 rx3 v _ list_rep_seg [OF c3] ds dj list_rep_length [OF ok3 c3]] objs o3
  obtain l4 h4 where po: "pop_all_loop (brk h3) h3 l (if ?ds = [] then 0 else fst (hd ?ds)) = Inr (l4, h4)"
    "list_step h3 T_List l xs h4 l4 (fold del_at ?s xs)" by auto
  have "fold del_at ?s xs = nths xs (- set is)"
    using fold_del_at [OF ds(2), of xs] ds(3) arg_cong [OF v, of length] by simp
  then have "apart h4 T_List r1 us T_List l4 (nths xs (- set is))" "list_rep h4 T_IntList m ps"
    using apart_sym [OF apart_step [OF a3 ok3 po(2)]] apart_reps [OF apart_step [OF b3 ok3 po(2)]] by auto
  moreover have "popAllInList h l m = Inr (r1, l4, h4)"
    using g(1) cp(1) st(1) po(1) by (simp add: popAllInList_def list_head_rep [OF rp] list_head_rep [OF c3])
  ultimately show ?thesis using g(3) step_facts [OF po(2)] by blast
qed

end
