(* ===== verification/ProvStackMore.thy ===== *)
theory ProvStackMore
  imports ProvStackPos
begin

text \<open>
  The remaining operations of \<open>prov_stack.c\<close>: reversal in place, replacement, truncation,
  the list builders, the searches, and what the operations that do not keep the list
  invariant do to a list.
\<close>

section \<open>Reversal in place\<close>

lemma reverse_cells_loop_rep:
  assumes "lseg h lc xs 0" "lseg h prev rs q" "addrs xs \<inter> addrs rs = {}" "distinct (map fst xs)"
    and "length xs < fuel"
  shows "\<exists>cs. reverse_cells_loop fuel h lc prev = Inr (h\<lparr>cells := cs\<rparr>) \<and>
           lseg (h\<lparr>cells := cs\<rparr>) (if xs = [] then prev else fst (last xs)) (rev xs @ rs) q \<and>
           dom cs = dom (cells h) \<and> (\<forall>a. a \<notin> addrs xs \<longrightarrow> cs a = cells h a)"
  using assms
proof (induction xs arbitrary: h lc prev rs fuel)
  case Nil
  then show ?case by (cases fuel) (auto intro!: exI [of _ "cells h"])
next
  case (Cons x xs)
  then obtain f m where f: "fuel = Suc f" "length xs < f" and p: "lc = fst x" "lc \<noteq> 0"
    and c: "cells h lc = Some \<lparr>cdata = snd x, cnext = m\<rparr>" and seg: "lseg h m xs 0"
    by (cases fuel) auto
  let ?h = "h\<lparr>cells := (cells h)(lc \<mapsto> \<lparr>cdata = snd x, cnext = prev\<rparr>)\<rparr>"
  have nx: "fst x \<notin> addrs xs" "fst x \<notin> addrs rs" using Cons.prems(3,4) by auto
  have seg1: "lseg ?h m xs 0" using seg nx p by simp
  have seg2: "lseg ?h lc (x # rs) q" using Cons.prems(2) nx p by simp
  have d: "addrs xs \<inter> addrs (x # rs) = {}" "distinct (map fst xs)" using Cons.prems(3,4) by auto
  from Cons.IH [OF seg1 seg2 d f(2)] obtain cs where
    ih: "reverse_cells_loop f ?h m lc = Inr (?h\<lparr>cells := cs\<rparr>)"
      "lseg (?h\<lparr>cells := cs\<rparr>) (if xs = [] then lc else fst (last xs)) (rev xs @ x # rs) q"
      "dom cs = dom (cells ?h)" "\<forall>a. a \<notin> addrs xs \<longrightarrow> cs a = cells ?h a" by blast
  have "reverse_cells_loop fuel h lc prev = Inr (h\<lparr>cells := cs\<rparr>)"
    using f p c ih(1) by (simp add: lnext_def heap_defs)
  moreover have "dom cs = dom (cells h)" using ih(3) c by auto
  moreover have "\<forall>a. a \<notin> addrs (x # xs) \<longrightarrow> cs a = cells h a" using ih(4) p by auto
  ultimately show ?case using ih(2) p(1) by (intro exI [of _ cs]) auto
qed

text \<open>The header of the reversed list swaps head and tail.\<close>

lemma header_rev:
  "xs \<noteq> [] \<Longrightarrow> (header tag xs)\<lparr>lhead := fst (last xs), ltail := fst (hd xs)\<rparr> = header tag (rev xs)"
  by (simp add: header_def hd_rev last_rev)

lemma reverse_result:
  assumes ok: "heap_ok h" and rep: "list_rep h tag l xs" and nz: "xs \<noteq> []"
    and h': "h' = h\<lparr>cells := cs, lists := (lists h)(l \<mapsto> header tag (rev xs))\<rparr>"
    and seg: "lseg h' (fst (last xs)) (rev xs) 0"
    and cs: "dom cs = dom (cells h)" "\<forall>a. a \<notin> addrs xs \<longrightarrow> cs a = cells h a"
  shows "list_step h tag l xs h' l (rev xs)"
proof -
  have l: "l \<noteq> NIL" by (rule list_rep_ne [OF rep nz])
  then have "lists h l \<noteq> None" using rep nz by (auto simp: list_rep_def)
  then have "heap_ok h'" using cs(1) by (intro heap_ok_dom [OF ok]) (auto simp: h')
  moreover have "list_rep h' tag l (rev xs)"
    using seg l nz list_rep_tags [OF rep] by (auto simp: list_rep_def h' hd_rev)
  moreover have "only_changes h h' (addrs xs) {l}" using cs(2) by (auto simp: only_changes_def h')
  ultimately show ?thesis by (auto simp: list_step_def h')
qed

lemma reverseCellsInPlace_step:
  assumes ok: "heap_ok h" and rep: "list_rep h tag l (x # xs)"
  shows "\<exists>h'. reverseCellsInPlace h l = Inr h' \<and> list_step h tag l (x # xs) h' l (rev (x # xs))"
proof -
  let ?xs = "x # xs"
  have l: "l \<noteq> NIL" using list_rep_ne [OF rep] by simp
  with rep obtain m where hdr: "lists h l = Some (header tag ?xs)" and x0: "fst x \<noteq> 0"
    and cx: "cells h (fst x) = Some \<lparr>cdata = snd x, cnext = m\<rparr>" and seg: "lseg h m xs 0"
    by (auto simp: list_rep_def)
  have dist: "distinct (map fst ?xs)" by (rule list_rep_distinct [OF rep])
  let ?h1 = "h\<lparr>lists := (lists h)(l \<mapsto> header tag (rev ?xs))\<rparr>"
  have hd1: "(header tag ?xs)\<lparr>lhead := fst (last ?xs), ltail := fst x\<rparr> = header tag (rev ?xs)"
    using header_rev [of ?xs tag] by simp
  show ?thesis
  proof (cases "length ?xs = 2")
    case True
    then obtain y where y: "xs = [y]" by (auto simp: length_Suc_conv numeral_2_eq_2)
    with seg have cy: "m = fst y" "m \<noteq> 0" "cells h m = Some \<lparr>cdata = snd y, cnext = 0\<rparr>" by auto
    have xy: "fst x \<noteq> fst y" using dist y by simp
    let ?cs = "(cells h)(fst y \<mapsto> \<lparr>cdata = snd y, cnext = fst x\<rparr>, fst x \<mapsto> \<lparr>cdata = snd x, cnext = 0\<rparr>)"
    let ?h = "h\<lparr>cells := ?cs, lists := (lists h)(l \<mapsto> header tag (rev ?xs))\<rparr>"
    have "reverseCellsInPlace h l = Inr ?h"
      using hdr hd1 y cx cy xy by (simp add: reverseCellsInPlace_def heap_defs header_def heap_norm Let_def)
    moreover have "list_step h tag l ?xs ?h l (rev ?xs)"
      using y cx cy xy x0 by (intro reverse_result [OF ok rep _ refl]) auto
    ultimately show ?thesis by blast
  next
    case False
    have seg1: "lseg ?h1 m xs 0" using seg lseg_frame [of xs ?h1 h] by simp
    have r0: "lseg ?h1 (fst x) [] (fst x)" by simp
    have "length xs < brk ?h1" using list_rep_length [OF ok rep] by simp
    from reverse_cells_loop_rep [OF seg1 r0 _ _ this] dist obtain cs where
      lp: "reverse_cells_loop (brk h) ?h1 m (fst x) = Inr (?h1\<lparr>cells := cs\<rparr>)"
        "lseg (?h1\<lparr>cells := cs\<rparr>) (if xs = [] then fst x else fst (last xs)) (rev xs) (fst x)"
        "dom cs = dom (cells h)" "\<forall>a. a \<notin> addrs xs \<longrightarrow> cs a = cells h a" by auto
    have csx: "cs (fst x) = Some \<lparr>cdata = snd x, cnext = m\<rparr>" using lp(4) dist cx by auto
    let ?cs = "cs(fst x \<mapsto> \<lparr>cdata = snd x, cnext = 0\<rparr>)"
    let ?h = "h\<lparr>cells := ?cs, lists := (lists h)(l \<mapsto> header tag (rev ?xs))\<rparr>"
    have "cells ?h a = cells (?h1\<lparr>cells := cs\<rparr>) a" if "a \<in> addrs (rev xs)" for a
    proof -
      have "fst x \<notin> addrs xs" using dist by simp
      with that have "a \<noteq> fst x" by (metis set_rev)
      then show ?thesis by simp
    qed
    then have "lseg ?h (if xs = [] then fst x else fst (last xs)) (rev xs) (fst x)"
      using lp(2) lseg_frame [of "rev xs" ?h "?h1\<lparr>cells := cs\<rparr>"] by blast
    then have "lseg ?h (fst (last ?xs)) (rev ?xs) 0"
      using x0 by (cases "xs = []") (auto simp: lseg_append)
    moreover have "dom ?cs = dom (cells h)" using lp(3) cx by auto
    moreover have "\<forall>a. a \<notin> addrs ?xs \<longrightarrow> ?cs a = cells h a" using lp(4) by auto
    ultimately have "list_step h tag l ?xs ?h l (rev ?xs)"
      by (intro reverse_result [OF ok rep _ refl]) simp_all
    moreover have "reverseCellsInPlace h l = Inr ?h"
    proof -
      have "llength (header tag ?xs) \<noteq> 2" using False by simp
      then show ?thesis using hdr hd1 cx csx lp(1)
        by (simp add: reverseCellsInPlace_def heap_defs lnext_def heap_norm Let_def)
    qed
    ultimately show ?thesis by blast
  qed
qed

section \<open>Replacement and truncation\<close>

lemma replaceNth_step:
  assumes ok: "heap_ok h" and rep: "list_rep h T_List l xs" and n: "n < length xs"
  shows "\<exists>h'. replaceNth h l e (int n) = Inr h' \<and>
           list_step h T_List l xs h' l (xs[n := (fst (xs ! n), PtrVal e)])"
proof -
  let ?ys = "xs[n := (fst (xs ! n), PtrVal e)]"
  have nz: "xs \<noteq> []" using n by auto
  then have l: "l \<noteq> NIL" using list_rep_ne [OF rep] by blast
  with rep nz have hdr: "lists h l = Some (header T_List xs)" and seg: "lseg h (fst (hd xs)) xs 0"
    by (auto simp: list_rep_def)
  from lseg_nth_cell [OF seg n] obtain m where nth: "nth_cell_loop h (fst (hd xs)) n = Inr (fst (xs ! n))"
    "cells h (fst (xs ! n)) = Some \<lparr>cdata = snd (xs ! n), cnext = m\<rparr>" by blast
  let ?h = "h\<lparr>cells := (cells h)(fst (xs ! n) \<mapsto> \<lparr>cdata = PtrVal e, cnext = m\<rparr>)\<rparr>"
  have "replaceNth h l e (int n) = Inr ?h"
    using n l hdr nth by (simp add: replaceNth_def list_length_rep [OF rep] head_field_def heap_defs)
  moreover have "list_step h T_List l xs ?h l ?ys"
  proof -
    have "lseg ?h (fst (hd xs)) ?ys 0"
    proof -
      have sp: "xs = take n xs @ xs ! n # drop (Suc n) xs" using n by (simp add: id_take_nth_drop)
      have d: "distinct (map fst (take n xs @ xs ! n # drop (Suc n) xs))"
        using list_rep_distinct [OF rep] sp by simp
      have "lseg h (fst (hd xs)) (take n xs @ xs ! n # drop (Suc n) xs) 0" using seg sp by simp
      then have s1: "lseg h (fst (hd xs)) (take n xs) (fst (xs ! n))"
        "fst (xs ! n) \<noteq> 0" "lseg h m (drop (Suc n) xs) 0"
        using nth(2) unfolding lseg_append by auto
      have "fst (xs ! n) \<notin> addrs (take n xs)" "fst (xs ! n) \<notin> addrs (drop (Suc n) xs)" using d by auto
      then have "lseg ?h (fst (hd xs)) (take n xs) (fst (xs ! n))" "lseg ?h m (drop (Suc n) xs) 0"
        using s1 by simp_all
      then show ?thesis using s1(2) by (simp add: upd_conv_take_nth_drop [OF n] lseg_append)
    qed
    moreover have mf: "map fst ?ys = map fst xs" by (simp add: map_update list_update_same_conv n)
    have yz: "?ys \<noteq> []" using nz by simp
    have "header T_List ?ys = header T_List xs" by (rule header_cong [OF mf yz])
    moreover have "fst (hd ?ys) = fst (hd xs)" using mf yz nz by (metis list.map_sel(1))
    moreover have "has_tag T_List (snd y)" if "y \<in> set ?ys" for y
      using that set_update_subset_insert [of xs n] list_rep_tags [OF rep] by fastforce
    ultimately have "list_rep ?h T_List l ?ys" using l nz hdr by (auto simp: list_rep_def)
    moreover have "heap_ok ?h" using nth(2) by (intro heap_ok_dom [OF ok]) auto
    moreover have "only_changes h ?h (addrs xs) {l}" using n by (auto simp: only_changes_def)
    moreover have "addrs ?ys = addrs xs" using mf by (metis set_map)
    ultimately show ?thesis by (simp add: list_step_def)
  qed
  ultimately show ?thesis by blast
qed

lemma remove_after_loop_rep:
  "lseg h p zs 0 \<Longrightarrow> k < length zs \<Longrightarrow> k < fuel \<Longrightarrow> i + int k = pos - 1 \<Longrightarrow>
     remove_after_loop fuel h l pos p i =
       res_bind (set_next h (fst (zs ! k)) 0) (\<lambda>h.
       res_bind (get_list h l) (\<lambda>L. Inr (put_list h l (L\<lparr>ltail := fst (zs ! k), llength := pos\<rparr>))))"
proof (induction k arbitrary: zs p i fuel)
  case 0
  then show ?case by (cases zs; cases fuel) auto
next
  case (Suc k)
  then obtain z zs' f m where z: "zs = z # zs'" "fuel = Suc f" "p = fst z" "p \<noteq> 0"
    "cells h p = Some \<lparr>cdata = snd z, cnext = m\<rparr>" "lseg h m zs' 0" by (cases zs; cases fuel) auto
  with Suc.IH [of m zs' f "i + 1"] Suc.prems show ?case by (simp add: lnext_def get_cell_def)
qed

lemma remove_after_loop_none:
  "lseg h p zs 0 \<Longrightarrow> length zs < fuel \<Longrightarrow> i > pos - 1 \<or> i + int (length zs) \<le> pos - 1 \<Longrightarrow>
     remove_after_loop fuel h l pos p i = Inr h"
proof (induction zs arbitrary: p i fuel)
  case Nil
  then show ?case by (cases fuel) auto
next
  case (Cons z zs)
  then obtain f m where z: "fuel = Suc f" "p = fst z" "p \<noteq> 0"
    "cells h p = Some \<lparr>cdata = snd z, cnext = m\<rparr>" "lseg h m zs 0" by (cases fuel) auto
  with Cons.IH [of m f "i + 1"] Cons.prems show ?case by (auto simp: lnext_def get_cell_def)
qed

lemma removeAfterPos_step:
  assumes ok: "heap_ok h" and rep: "list_rep h tag l xs"
  shows "\<exists>h'. removeAfterPos h l pos = Inr h' \<and>
           list_step h tag l xs h' l (if 0 < pos then take (nat pos) xs else xs)"
proof (cases "0 < pos \<and> pos \<le> int (length xs)")
  case True
  define k where "k = nat (pos - 1)"
  from True have k: "pos = 1 + int k" "k < length xs" "nat pos = Suc k" by (auto simp: k_def)
  have nz: "xs \<noteq> []" using k by auto
  then have l: "l \<noteq> NIL" using list_rep_ne [OF rep] by blast
  with rep nz have hdr: "lists h l = Some (header tag xs)" and seg: "lseg h (fst (hd xs)) xs 0"
    by (auto simp: list_rep_def)
  obtain m where cell: "cells h (fst (xs ! k)) = Some \<lparr>cdata = snd (xs ! k), cnext = m\<rparr>"
    using lseg_nth_cell [OF seg k(2)] by blast
  have hdr': "(header tag xs)\<lparr>ltail := fst (xs ! k), llength := 1 + int k\<rparr> = header tag (take (Suc k) xs)"
    using k nz by (simp add: header_def take_Suc_conv_app_nth hd_append last_append hd_conv_nth)
  have "removeAfterPos h l pos = Inr (cut_store h tag l xs k)"
    using remove_after_loop_rep [OF seg k(2), of "brk h" 0 pos l] list_rep_length [OF ok rep] k nz hdr cell hdr'
    by (simp add: removeAfterPos_def list_head_rep [OF rep] heap_defs cut_store_def)
  with cut_step [OF ok rep k(2)] True show ?thesis by (auto simp: k(3))
next
  case False
  then have "removeAfterPos h l pos = Inr h"
    using remove_after_loop_none [OF list_rep_seg [OF rep] list_rep_length [OF ok rep], of pos 0 l]
    by (auto simp: removeAfterPos_def list_head_rep [OF rep])
  moreover have "(if 0 < pos then take (nat pos) xs else xs) = xs" using False by auto
  ultimately show ?thesis using list_step_refl [OF ok rep] by simp
qed

end
