(* ===== verification/ProvStackProps.thy ===== *)
theory ProvStackProps
  imports ProvStackMore
begin

text \<open>
  The properties of \<open>prov_stack.c\<close>, with instances on a small store, and what the
  operations with a defect do.
\<close>

section \<open>A store with a stack and a list of positions\<close>

definition ex_stack :: heap where
  "ex_stack =
     \<lparr>cells = [1 \<mapsto> \<lparr>cdata = PtrVal 7, cnext = 2\<rparr>, 2 \<mapsto> \<lparr>cdata = PtrVal 8, cnext = 3\<rparr>,
               3 \<mapsto> \<lparr>cdata = PtrVal 9, cnext = 0\<rparr>,
               5 \<mapsto> \<lparr>cdata = IntVal 0, cnext = 6\<rparr>, 6 \<mapsto> \<lparr>cdata = IntVal 2, cnext = 0\<rparr>],
      lists = [4 \<mapsto> \<lparr>ltype = T_List, llength = 3, lhead = 1, ltail = 3\<rparr>,
               10 \<mapsto> \<lparr>ltype = T_IntList, llength = 2, lhead = 5, ltail = 6\<rparr>],
      objs = {7, 8, 9}, brk = 11\<rparr>"

abbreviation ex_cells :: "(addr \<times> ListData) list" where
  "ex_cells \<equiv> [(1, PtrVal 7), (2, PtrVal 8), (3, PtrVal 9)]"

abbreviation ex_positions :: "(addr \<times> ListData) list" where
  "ex_positions \<equiv> [(5, IntVal 0), (6, IntVal 2)]"

lemma ex_stack_ok: "heap_ok ex_stack"
  by (auto simp: heap_ok_def ex_stack_def split: if_splits)

lemma ex_stack_rep: "list_rep ex_stack T_List 4 ex_cells" "list_rep ex_stack T_IntList 10 ex_positions"
  by (simp_all add: list_rep_def ex_stack_def header_def)

lemma ex_stack_apart: "apart ex_stack T_List 4 ex_cells T_IntList 10 ex_positions"
  using ex_stack_rep by (simp add: apart_def)

lemma ex_stack_holds: "holds ex_stack 4 [7, 8, 9]"
  using ex_stack_ok ex_stack_rep(1) by (auto simp: holds_def)

section \<open>Stacks\<close>

text \<open>C25: every sequence of \<open>push\<close> and \<open>pop\<close> calls on a stack returns what the abstract
  stack returns, in the same order, and leaves the list in the state of the abstract stack; a
  sequence that pops an empty stack does not return.\<close>

theorem push_pop_refine_stack:
  assumes "holds h l s"
  shows "case run_spec ops s of
           Some (es, s') \<Rightarrow> \<exists>l' h'. run_calls push pop ops h l = Inr (es, l', h') \<and> holds h' l' s'
         | None \<Rightarrow> \<exists>f. run_calls push pop ops h l = Inl f"
  using assms by (rule prov_stack.run_refines)

theorem push_pop_refine_stack_witness:
  "\<exists>l' h'. run_calls push pop [Push 5, Pop, Pop, Push 6] ex_stack 4 = Inr ([5, 7], l', h') \<and>
     holds h' l' [6, 8, 9]"
  using push_pop_refine_stack [OF ex_stack_holds, of "[Push 5, Pop, Pop, Push 6]"] by simp

text \<open>\<open>popListAndReverse\<close> returns the top \<open>n\<close> elements in the order in which they were
  pushed and leaves the rest on the stack, in cells of their own; it refuses to pop more
  elements than there are.\<close>

theorem popListAndReverse_order:
  assumes "heap_ok h" "list_rep h T_List l xs" "vals xs = map PtrVal es"
  shows "if n \<le> int (length es)
         then \<exists>r l' h' us. popListAndReverse h l n = Inr (r, l', h') \<and>
                apart h' T_List r us T_List l' (drop (nat n) xs) \<and> vals us = map PtrVal (rev (take (nat n) es))
         else popListAndReverse h l n = Inl AssertFailed"
proof (cases "n \<le> int (length es)")
  case True
  with popListAndReverse_step [OF assms True] show ?thesis by auto
next
  case False
  moreover have "length xs = length es" using arg_cong [OF assms(3), of length] by simp
  ultimately show ?thesis by (simp add: popListAndReverse_def list_length_rep [OF assms(2)])
qed

theorem popListAndReverse_order_witness:
  "\<exists>r l' h' us. popListAndReverse ex_stack 4 2 = Inr (r, l', h') \<and>
     list_rep h' T_List r us \<and> vals us = [PtrVal 8, PtrVal 7] \<and> list_rep h' T_List l' [(3, PtrVal 9)]"
proof -
  have "if 2 \<le> int (length [7, 8, 9 :: nat])
        then \<exists>r l' h' us. popListAndReverse ex_stack 4 2 = Inr (r, l', h') \<and>
               apart h' T_List r us T_List l' (drop (nat 2) ex_cells) \<and>
               vals us = map PtrVal (rev (take (nat 2) [7, 8, 9]))
        else popListAndReverse ex_stack 4 2 = Inl AssertFailed"
    by (rule popListAndReverse_order [OF ex_stack_ok ex_stack_rep(1)]) simp
  then obtain r l' h' us where "popListAndReverse ex_stack 4 2 = Inr (r, l', h')"
    "apart h' T_List r us T_List l' (drop (nat 2) ex_cells)" "vals us = map PtrVal (rev (take (nat 2) [7, 8, 9]))"
    by (simp only: list.size) auto
  then show ?thesis by (auto simp: apart_def simp del: map_eq_Cons_conv)
qed

text \<open>\<open>popAllInList\<close>, given distinct positions of the stack, returns the elements at these
  positions in the order of the positions, removes exactly them from the stack, and keeps the
  list of positions as it was.\<close>

theorem popAllInList_exact:
  assumes "heap_ok h" "apart h T_List l xs T_IntList m ps"
    and "vals xs = map PtrVal es" "set es \<subseteq> objs h"
    and "vals ps = map IntVal (map int is)" "distinct is" "\<forall>i \<in> set is. i < length es"
  shows "\<exists>r l' h' us. popAllInList h l m = Inr (r, l', h') \<and>
           apart h' T_List r us T_List l' (nths xs (- set is)) \<and>
           vals us = map (\<lambda>i. PtrVal (es ! i)) is \<and> list_rep h' T_IntList m ps"
  using popAllInList_step [OF assms] by blast

theorem popAllInList_exact_witness:
  "\<exists>r l' h' us. popAllInList ex_stack 4 10 = Inr (r, l', h') \<and> list_rep h' T_List r us \<and>
     vals us = [PtrVal 7, PtrVal 9] \<and> list_rep h' T_List l' [(2, PtrVal 8)]"
proof -
  have "set [7, 8, 9 :: nat] \<subseteq> objs ex_stack" by (simp add: ex_stack_def)
  from popAllInList_exact [OF ex_stack_ok ex_stack_apart _ this, of "[0, 2]"]
  obtain r l' h' us where "popAllInList ex_stack 4 10 = Inr (r, l', h')"
    "apart h' T_List r us T_List l' (nths ex_cells (- set [0, 2]))" "vals us = [PtrVal 7, PtrVal 9]"
    by auto
  moreover have "nths ex_cells (- set [0, 2]) = [(2, PtrVal 8)]" by (simp add: nths_Cons)
  ultimately show ?thesis by (auto simp: apart_def)
qed

section \<open>Sorting and reversal\<close>

text \<open>\<open>sortIntList\<close> returns the list it was given, with the same cells, holding the same
  integers in ascending order when \<open>increasing\<close> is set and in descending order otherwise.\<close>

theorem sortIntList_sorts:
  assumes "heap_ok h" "list_rep h T_IntList l xs" "vals xs = map IntVal vs"
  shows "\<exists>h' ys. sortIntList h l increasing = Inr (l, h') \<and> heap_ok h' \<and> list_rep h' T_IntList l ys \<and>
           map fst ys = map fst xs \<and>
           vals ys = map IntVal (if increasing then sort vs else rev (sort vs))"
proof -
  let ?ys = "zip (map fst xs) (map IntVal (sorted_ints increasing vs))"
  have "length xs = length vs" using arg_cong [OF assms(3), of length] by simp
  then have "map fst ?ys = map fst xs"
    "vals ?ys = map IntVal (if increasing then sort vs else rev (sort vs))"
    by (simp_all add: sorted_ints_def)
  with sortIntList_step [OF assms, of increasing] show ?thesis
    unfolding list_step_def by blast
qed

theorem sortIntList_sorts_witness:
  "\<exists>h'. sortIntList ex_stack 10 False = Inr (10, h') \<and> list_rep h' T_IntList 10 [(5, IntVal 2), (6, IntVal 0)]"
proof -
  have "vals ex_positions = map IntVal [0, 2]" by simp
  from sortIntList_sorts [OF ex_stack_ok ex_stack_rep(2) this, of False] obtain h' ys where
    h': "sortIntList ex_stack 10 False = Inr (10, h')" "list_rep h' T_IntList 10 ys"
      "map fst ys = [5, 6]" "vals ys = [IntVal 2, IntVal 0]" by auto
  have "ys = zip (map fst ys) (vals ys)" by (simp add: zip_map_fst_snd)
  with h' show ?thesis by simp
qed

text \<open>\<open>sortList\<close> with \<open>compareVars\<close> is a stable sort of the pointers by attribute
  number: ascending, or descending when \<open>increasing\<close> is not set.\<close>

theorem sortList_vars_stable:
  assumes "heap_ok h" "list_rep h T_List l xs" "vals xs = map PtrVal vs"
  shows "\<exists>h' ys. sortList (compareVars varattno) h l increasing = Inr (l, h') \<and> heap_ok h' \<and>
           list_rep h' T_List l ys \<and>
           vals ys = map PtrVal (sort_key (\<lambda>v. if increasing then varattno v else - varattno v) vs)"
proof -
  have "length xs = length vs" using arg_cong [OF assms(3), of length] by simp
  moreover obtain h' where "sortList (compareVars varattno) h l increasing = Inr (l, h')"
    "list_step h T_List l xs h' l
       (zip (map fst xs) (map PtrVal (sort_key (\<lambda>v. if increasing then varattno v else - varattno v) vs)))"
    using sortList_step [OF assms compares(1), of varattno increasing] by blast
  ultimately show ?thesis by (auto simp: list_step_def intro!: exI)
qed

theorem sortList_vars_stable_witness:
  "\<exists>h' ys. sortList (compareVars (\<lambda>v. - int v)) ex_stack 4 True = Inr (4, h') \<and>
     list_rep h' T_List 4 ys \<and> vals ys = [PtrVal 9, PtrVal 8, PtrVal 7]"
proof -
  have "vals ex_cells = map PtrVal [7, 8, 9]" by simp
  from sortList_vars_stable [OF ex_stack_ok ex_stack_rep(1) this, of "\<lambda>v. - int v" True] obtain h' ys where
    "sortList (compareVars (\<lambda>v. - int v)) ex_stack 4 True = Inr (4, h')" "list_rep h' T_List 4 ys"
    "vals ys = map PtrVal (sort_key (\<lambda>v. if True then - int v else - (- int v)) [7, 8, 9])" by (elim exE conjE)
  moreover have "sort_key (\<lambda>v. if True then - int v else - (- int v)) [7, 8, 9] = [9, 8, 7]" by simp
  ultimately show ?thesis by (intro exI [of _ h'] exI [of _ ys]) simp
qed

text \<open>\<open>reverseCellsInPlace\<close> reverses any non-empty list, in the cells it has.\<close>

theorem reverseCellsInPlace_reverses:
  assumes "heap_ok h" "list_rep h tag l (x # xs)"
  shows "\<exists>h'. reverseCellsInPlace h l = Inr h' \<and> heap_ok h' \<and> list_rep h' tag l (rev (x # xs))"
  using reverseCellsInPlace_step [OF assms] by (auto simp: list_step_def)

theorem reverseCellsInPlace_reverses_witness:
  "\<exists>h'. reverseCellsInPlace ex_stack 4 = Inr h' \<and>
     list_rep h' T_List 4 [(3, PtrVal 9), (2, PtrVal 8), (1, PtrVal 7)]"
  using reverseCellsInPlace_reverses [OF ex_stack_ok ex_stack_rep(1)] by auto

section \<open>Operations with a defect\<close>

text \<open>\<open>reverseList\<close>, which is to return its argument in reversed order, returns the
  empty list for every argument.\<close>

theorem reverseList_empty: "0 < brk h \<Longrightarrow> reverseList h list = Inr (NIL, h)"
  by (cases "brk h") (simp_all add: reverseList_def list_head_def)

theorem reverseList_empty_witness: "reverseList ex_stack 4 = Inr (NIL, ex_stack)"
  by (rule reverseList_empty) (simp add: ex_stack_def)

lemma last_cell_loop_rep:
  "lseg h p xs 0 \<Longrightarrow> xs \<noteq> [] \<Longrightarrow> length xs \<le> fuel \<Longrightarrow> last_cell_loop fuel h p = Inr (fst (last xs))"
proof (induction xs arbitrary: p fuel)
  case (Cons x xs)
  then obtain f m where x: "fuel = Suc f" "p = fst x" "cells h p = Some \<lparr>cdata = snd x, cnext = m\<rparr>"
    "lseg h m xs 0" by (cases fuel) auto
  with Cons.IH [OF x(4)] Cons.prems(3) show ?case
    by (cases xs) (auto simp: lnext_def get_cell_def)
qed simp

text \<open>\<open>deQueue\<close>, which is to remove the last element, returns it and leaves the store,
  and so the list, exactly as it was.\<close>

theorem deQueue_removes_nothing:
  assumes "heap_ok h" "list_rep h T_List l (xs @ [(a, PtrVal e)])"
  shows "deQueue h l = Inr (e, h)"
proof -
  let ?xs = "xs @ [(a, PtrVal e)]"
  have l: "l \<noteq> NIL" using list_rep_ne [OF assms(2)] by simp
  with assms(2) have hdr: "lists h l = Some (header T_List ?xs)" and seg: "lseg h (fst (hd ?xs)) ?xs 0"
    by (auto simp: list_rep_def)
  have c: "cells h a = Some \<lparr>cdata = PtrVal e, cnext = 0\<rparr>" using lseg_last [OF seg] by simp
  have loop: "last_cell_loop (brk h) h (fst (hd ?xs)) = Inr a"
    using last_cell_loop_rep [OF seg _ less_imp_le [OF list_rep_length [OF assms]]] by simp
  have eq: "(header T_List ?xs)\<lparr>ltail := a\<rparr> = header T_List ?xs" by (simp add: header_def)
  have "(lists h)(l \<mapsto> header T_List ?xs) = lists h" "(cells h)(a \<mapsto> \<lparr>cdata = PtrVal e, cnext = 0\<rparr>) = cells h"
    using hdr c by auto
  then show ?thesis using l hdr c loop
    by (simp add: deQueue_def heap_defs lfirst_def eq)
qed

theorem deQueue_removes_nothing_witness: "deQueue ex_stack 4 = Inr (9, ex_stack)"
  using deQueue_removes_nothing [OF ex_stack_ok, of 4 "[(1, PtrVal 7), (2, PtrVal 8)]" 3 9] ex_stack_rep(1)
  by simp

text \<open>\<open>popNth\<close> at position 0 removes the first element, but instead of the element it
  returns a word read from the object the element points to.\<close>

theorem popNth_first_unspecified:
  assumes "heap_ok h" "list_rep h T_List l xs" "vals xs = map PtrVal es" "set es \<subseteq> objs h" "es \<noteq> []"
  shows "\<exists>l' h'. popNth h l 0 = Inr (Uninit, l', h') \<and> list_rep h' T_List l' (tl xs)"
proof -
  from popNth_step [OF assms(1-4), of 0] assms(5) obtain l' h' where
    "popNth h l 0 = Inr (Uninit, l', h')" "list_step h T_List l xs h' l' (del_at 0 xs)" by auto
  then show ?thesis by (auto simp: del_at_def drop_Suc dest: step_facts)
qed

theorem popNth_first_unspecified_witness:
  "\<exists>l' h'. popNth ex_stack 4 0 = Inr (Uninit, l', h') \<and>
     list_rep h' T_List l' [(2, PtrVal 8), (3, PtrVal 9)]"
  using popNth_first_unspecified [OF ex_stack_ok ex_stack_rep(1), of "[7, 8, 9]"]
  by (simp add: ex_stack_def)

lemma remove_first_loop_at:
  assumes "lseg h p (pre @ x # post) 0" "length (pre @ x # post) < fuel"
    and "\<forall>y \<in> set pre. \<exists>q. snd y = PtrVal q \<and> \<not> test q" "snd x = PtrVal e" "test e"
    and "cells h (fst x) = Some \<lparr>cdata = PtrVal e, cnext = m\<rparr>"
  shows "remove_first_loop fuel h test l p before =
           (let before = (if pre = [] then before else fst (last pre))
            in if before \<noteq> 0 then set_next h before m
               else res_bind (get_list h l) (\<lambda>L. Inr (put_list h l (L\<lparr>lhead := m\<rparr>))))"
  using assms(1-3)
proof (induction pre arbitrary: p before fuel)
  case Nil
  then show ?case using assms(4-6)
    by (cases fuel) (auto simp: lfirst_def lnext_def get_cell_def)
next
  case (Cons y pre)
  then obtain f n q where y: "fuel = Suc f" "p = fst y" "p \<noteq> 0" "cells h p = Some \<lparr>cdata = PtrVal q, cnext = n\<rparr>"
    "lseg h n (pre @ x # post) 0" "\<not> test q" by (cases fuel) auto
  with Cons.IH [OF y(5), of f p] Cons.prems(2,3) show ?case
    by (simp add: lfirst_def lnext_def get_cell_def Let_def)
qed

text \<open>\<open>removeNodeElem\<close> unlinks the first element equal to the node but keeps the length
  of the list: it then has one cell less than \<open>list_length\<close> says.\<close>

theorem removeNodeElem_length_stale:
  assumes "heap_ok h" "list_rep h T_List l (pre @ (a, PtrVal e) # post)"
    and "equal node e" "\<forall>y \<in> set pre. \<exists>q. snd y = PtrVal q \<and> \<not> equal node q"
  shows "\<exists>h' p. removeNodeElem equal h l node = Inr h' \<and>
           list_head h' l = Inr p \<and> lseg h' p (pre @ post) 0 \<and>
           list_length h' l = Inr (int (length (pre @ post)) + 1)"
proof -
  let ?x = "(a, PtrVal e)" and ?xs = "pre @ (a, PtrVal e) # post"
  have l: "l \<noteq> NIL" using list_rep_ne [OF assms(2)] by simp
  with assms(2) have hdr: "lists h l = Some (header T_List ?xs)" and seg: "lseg h (fst (hd ?xs)) ?xs 0"
    by (auto simp: list_rep_def)
  from seg obtain m where pre: "lseg h (fst (hd ?xs)) pre (fst ?x)"
    and cx: "cells h a = Some \<lparr>cdata = PtrVal e, cnext = m\<rparr>" and post: "lseg h m post 0"
    by (auto simp: lseg_append)
  have dist: "distinct (map fst ?xs)" by (rule list_rep_distinct [OF assms(2)])
  have ret: "removeNodeElem equal h l node =
      (if pre = [] then Inr (h\<lparr>lists := (lists h)(l \<mapsto> (header T_List ?xs)\<lparr>lhead := m\<rparr>)\<rparr>)
       else set_next h (fst (last pre)) m)"
    using remove_first_loop_at [OF seg list_rep_length [OF assms(1,2)] assms(4) _ assms(3), of m l 0]
      cx hdr lseg_last [OF pre]
    by (auto simp: removeNodeElem_def list_head_rep [OF assms(2)] heap_defs Let_def)
  show ?thesis
  proof (cases "pre = []")
    case True
    with ret hdr post l show ?thesis by (simp add: list_head_def list_length_def get_list_def)
  next
    case False
    let ?h = "h\<lparr>cells := (cells h)(fst (last pre) \<mapsto> \<lparr>cdata = snd (last pre), cnext = m\<rparr>)\<rparr>"
    have "a \<notin> addrs (pre @ post)" using dist by auto
    then have "cells ?h b = unlinked h pre ?x m b" if "b \<in> addrs (pre @ post)" for b
    proof -
      have "b \<noteq> a" using that \<open>a \<notin> addrs (pre @ post)\<close> by metis
      with False show ?thesis by (simp add: unlinked_def)
    qed
    from lseg_unlinked [OF pre post dist this] False have "lseg ?h (fst (hd pre)) (pre @ post) 0" by simp
    moreover have "removeNodeElem equal h l node = Inr ?h"
      using ret False lseg_last [OF pre False] by (simp add: heap_defs)
    ultimately show ?thesis using hdr l False
      by (simp add: list_head_def list_length_def get_list_def)
  qed
qed

theorem removeNodeElem_length_stale_witness:
  "\<exists>h'. removeNodeElem (=) ex_stack 4 8 = Inr h' \<and> list_length h' 4 = Inr 3 \<and>
     (\<exists>p. list_head h' 4 = Inr p \<and> lseg h' p [(1, PtrVal 7), (3, PtrVal 9)] 0)"
  using removeNodeElem_length_stale [OF ex_stack_ok, of 4 "[(1, PtrVal 7)]" 2 8 "[(3, PtrVal 9)]" "(=)" 8]
    ex_stack_rep(1) by auto

end
