(* ===== verification/VarBits.thy ===== *)
theory VarBits
  imports Prelude
begin

text \<open>
  The bit sets of the transformation provenance: the type \<open>VarBit\<close> of
  \<open>src/include/utils/varbit.h\<close> and the operations on it in
  \<open>src/backend/provrewrite/adt/prov_trans_bitset.c\<close>.  Bytes are 8-bit words; a set over
  \<open>n\<close> elements is a bit string of length \<open>n\<close>, most significant bit of the first byte first.
  A byte access outside the data section is the fault \<open>OutOfBounds\<close>.
\<close>

unbundle bit_operations_syntax

section \<open>Bit strings\<close>

type_synonym bits8 = "8 word"

record VarBit =
  bit_len :: int
  bit_dat :: "bits8 list"

definition VARBITBYTES :: "VarBit \<Rightarrow> nat" where
  "VARBITBYTES v = length (bit_dat v)"

definition VARBITPAD :: "VarBit \<Rightarrow> int" where
  "VARBITPAD v = int (VARBITBYTES v) * 8 - bit_len v"

text \<open>The data bytes that \<open>VARBITTOTALLEN\<close> allots to \<open>n\<close> bits, with the division of C.\<close>

definition varbit_data_bytes :: "int \<Rightarrow> nat" where
  "varbit_data_bytes n = nat ((n + 7) div 8)"

section \<open>Operations\<close>

text \<open>
  \<open>mask = BITMASK << VARBITPAD(result)\<close>, stored in a byte, clears the padding of the last
  byte.  For an empty data section the mask is \<open>0xFF\<close> and the C code rewrites the byte before
  it with its own value.
\<close>

definition pad_mask :: "VarBit \<Rightarrow> bits8" where
  "pad_mask v = push_bit (nat (VARBITPAD v)) 0xFF"

definition clear_padding :: "VarBit \<Rightarrow> VarBit" where
  "clear_padding v =
     (if pad_mask v = 0 \<or> bit_dat v = [] then v
      else v\<lparr>bit_dat := butlast (bit_dat v) @ [last (bit_dat v) AND pad_mask v]\<rparr>)"

text \<open>Byte by byte over the data of the first argument, reading the second alongside.\<close>

fun or_bytes :: "bits8 list \<Rightarrow> bits8 list \<Rightarrow> bits8 list res" where
  "or_bytes [] ys = Inr []"
| "or_bytes (x # xs) [] = Inl OutOfBounds"
| "or_bytes (x # xs) (y # ys) = res_bind (or_bytes xs ys) (\<lambda>zs. Inr ((x OR y) # zs))"

definition bitor_with_null :: "VarBit option \<Rightarrow> VarBit option \<Rightarrow> VarBit option res" where
  "bitor_with_null arg1 arg2 =
     (case (arg1, arg2) of
        (None, None) \<Rightarrow> Inr None
      | (None, Some a) \<Rightarrow> Inr (Some (clear_padding a))
      | (Some a, None) \<Rightarrow> Inr (Some (clear_padding a))
      | (Some a, Some b) \<Rightarrow>
          if bit_len a \<noteq> bit_len b then Inl (Elog ''cannot OR bit strings of different sizes'')
          else res_bind (or_bytes (bit_dat a) (bit_dat b)) (\<lambda>zs.
                 Inr (Some (clear_padding (a\<lparr>bit_dat := zs\<rparr>)))))"

fun contains_bytes :: "bits8 list \<Rightarrow> bits8 list \<Rightarrow> bool res" where
  "contains_bytes [] ys = Inr True"
| "contains_bytes (x # xs) [] = Inl OutOfBounds"
| "contains_bytes (x # xs) (y # ys) = (if x AND y \<noteq> y then Inr False else contains_bytes xs ys)"

definition bitsetContains :: "VarBit \<Rightarrow> VarBit \<Rightarrow> bool res" where
  "bitsetContains left right =
     (if bit_len left \<noteq> bit_len right
      then Inl (Elog ''cannot test bit strings of different sizes for containment'')
      else contains_bytes (bit_dat left) (bit_dat right))"

definition bitset_contains :: "VarBit option \<Rightarrow> VarBit option \<Rightarrow> bool res" where
  "bitset_contains arg1 arg2 =
     (case (arg1, arg2) of (Some a, Some b) \<Rightarrow> bitsetContains a b | _ \<Rightarrow> Inr False)"

fun equal_bytes :: "bits8 list \<Rightarrow> bits8 list \<Rightarrow> bool res" where
  "equal_bytes [] ys = Inr True"
| "equal_bytes (x # xs) [] = Inl OutOfBounds"
| "equal_bytes (x # xs) (y # ys) = (if x \<noteq> y then Inr False else equal_bytes xs ys)"

definition bitsetEqual :: "VarBit \<Rightarrow> VarBit \<Rightarrow> bool res" where
  "bitsetEqual left right =
     (if bit_len left \<noteq> bit_len right
      then Inl (Elog ''cannot test bit strings of different sizes for equality'')
      else equal_bytes (bit_dat left) (bit_dat right))"

text \<open>The loop of \<open>generateVarbitSetElem\<close>; \<open>cur\<close> is the index of the byte \<open>*cur\<close>.\<close>

fun set_elem_loop :: "nat \<Rightarrow> bits8 list \<Rightarrow> nat \<Rightarrow> bits8 list res" where
  "set_elem_loop 0 bs cur = Inr bs"
| "set_elem_loop (Suc v) bs cur =
     (let b = drop_bit 1 (bs ! cur); bs = bs[cur := b] in
      if b = 0 then
        (if Suc cur < length bs then set_elem_loop v (bs[Suc cur := 0x80]) (Suc cur)
         else Inl OutOfBounds)
      else set_elem_loop v bs cur)"

definition generateVarbitSetElem :: "int \<Rightarrow> int \<Rightarrow> VarBit res" where
  "generateVarbitSetElem n v =
     res_bind (cassert (v \<le> n)) (\<lambda>_.
       let bs = replicate (varbit_data_bytes n) 0 in
       if bs = [] then Inl OutOfBounds
       else res_bind (set_elem_loop (nat (v - 1)) (bs[0 := 0x80]) 0) (\<lambda>bs.
              Inr \<lparr>bit_len = n, bit_dat = bs\<rparr>))"

definition generateEmptyBitset :: "int \<Rightarrow> VarBit" where
  "generateEmptyBitset n = \<lparr>bit_len = n, bit_dat = replicate (varbit_data_bytes n) 0\<rparr>"

definition varBitOr :: "VarBit \<Rightarrow> VarBit \<Rightarrow> VarBit res" where
  "varBitOr left right =
     res_bind (or_bytes (bit_dat left) (bit_dat right)) (\<lambda>zs. Inr (left\<lparr>bit_dat := zs\<rparr>))"

text \<open>
  The loop of \<open>bitset_nonzero_repeat\<close>, \<open>n\<close> rounds from round \<open>i\<close>; \<open>p1\<close> is the index of the
  byte the pointer is at.
\<close>

fun nonzero_loop :: "nat \<Rightarrow> int \<Rightarrow> bits8 list \<Rightarrow> nat \<Rightarrow> bits8 \<Rightarrow> bool \<Rightarrow> int \<Rightarrow> bool res" where
  "nonzero_loop 0 i bs p1 temp foundOne arg2 = Inr True"
| "nonzero_loop (Suc n) i bs p1 temp foundOne arg2 =
     (let foundOne = (foundOne \<or> bit temp 7) in
      if arg2 = 0 then Inl DivByZero
      else if i mod arg2 = 0 \<and> \<not> foundOne then Inr False
      else
        let foundOne = (if i mod arg2 = 0 then False else foundOne) in
        if i mod 8 = 0 then
          (if Suc p1 < length bs
           then nonzero_loop n (i + 1) bs (Suc p1) (bs ! Suc p1) foundOne arg2
           else Inl OutOfBounds)
        else nonzero_loop n (i + 1) bs p1 (push_bit 1 temp) foundOne arg2)"

definition bitset_nonzero_repeat :: "VarBit option \<Rightarrow> int option \<Rightarrow> bool res" where
  "bitset_nonzero_repeat arg1 arg2 =
     (case (arg1, arg2) of
        (Some v, Some k) \<Rightarrow>
          if bit_dat v = [] then Inl OutOfBounds
          else nonzero_loop (nat (bit_len v)) 1 (bit_dat v) 0 (bit_dat v ! 0) False k
      | _ \<Rightarrow> Inr False)"

section \<open>Meaning\<close>

definition vbit :: "bits8 list \<Rightarrow> nat \<Rightarrow> bool" where
  "vbit bs i \<longleftrightarrow> bit (bs ! (i div 8)) (7 - i mod 8)"

definition elems :: "VarBit \<Rightarrow> nat set" where
  "elems v = {i. int i < bit_len v \<and> vbit (bit_dat v) i}"

text \<open>A well-formed bit string has the bytes its length needs and no bit set in the padding.\<close>

definition vb_ok :: "VarBit \<Rightarrow> bool" where
  "vb_ok v \<longleftrightarrow>
     0 \<le> bit_len v \<and> length (bit_dat v) = varbit_data_bytes (bit_len v) \<and>
     (\<forall>i < 8 * length (bit_dat v). vbit (bit_dat v) i \<longrightarrow> int i < bit_len v)"

lemma vb_ok_bytes:
  "vb_ok v \<Longrightarrow> bit_len v \<le> 8 * int (length (bit_dat v)) \<and> 8 * int (length (bit_dat v)) < bit_len v + 8"
  by (auto simp: vb_ok_def varbit_data_bytes_def)

lemma vb_ok_elems: "vb_ok v \<Longrightarrow> elems v = {i. i < 8 * length (bit_dat v) \<and> vbit (bit_dat v) i}"
  using vb_ok_bytes [of v] by (auto simp: elems_def vb_ok_def)

lemma byte_index:
  fixes j k :: nat
  assumes "k < 8"
  shows "(8 * j + (7 - k)) div 8 = j \<and> 7 - (8 * j + (7 - k)) mod 8 = k"
proof -
  define m where "m = 7 - k"
  have "m < 8" "7 - m = k" using assms by (auto simp: m_def)
  then show ?thesis unfolding m_def [symmetric] by simp
qed

lemma all_bits:
  "(\<forall>i < 8 * n. P (i div 8) (7 - i mod 8)) \<longleftrightarrow> (\<forall>j < n. \<forall>k < 8. P j k)" for n :: nat
proof
  assume a: "\<forall>i < 8 * n. P (i div 8) (7 - i mod 8)"
  show "\<forall>j < n. \<forall>k < 8. P j k"
  proof (intro allI impI)
    fix j k :: nat
    assume "j < n" "k < 8"
    then have "8 * j + (7 - k) < 8 * n" by auto
    with a byte_index [OF \<open>k < 8\<close>] show "P j k" by metis
  qed
qed auto

lemma byte_eq: "x = y \<longleftrightarrow> (\<forall>k < 8. bit x k = bit y k)" for x y :: bits8
  by (auto intro: bit_word_eqI)

lemma byte_contains: "x AND y = y \<longleftrightarrow> (\<forall>k < 8. bit y k \<longrightarrow> bit x k)" for x y :: bits8
  by (auto simp: byte_eq bit_and_iff)

section \<open>The operations on sets\<close>

lemma or_bytes_vbit:
  "length xs \<le> length ys \<Longrightarrow>
     \<exists>zs. or_bytes xs ys = Inr zs \<and> length zs = length xs \<and> (\<forall>j < length xs. zs ! j = xs ! j OR ys ! j)"
proof (induction xs ys rule: or_bytes.induct)
  case (3 x xs y ys)
  then obtain zs where "or_bytes xs ys = Inr zs" "length zs = length xs"
    "\<forall>j < length xs. zs ! j = xs ! j OR ys ! j" by auto
  then show ?case by (auto simp: nth_Cons split: nat.splits)
qed auto

lemma contains_bytes_iff:
  "length xs \<le> length ys \<Longrightarrow> contains_bytes xs ys = Inr (\<forall>j < length xs. xs ! j AND ys ! j = ys ! j)"
  by (induction xs ys rule: contains_bytes.induct) (auto simp: less_Suc_eq_0_disj)

lemma equal_bytes_iff:
  "length xs \<le> length ys \<Longrightarrow> equal_bytes xs ys = Inr (\<forall>j < length xs. xs ! j = ys ! j)"
  by (induction xs ys rule: equal_bytes.induct) (auto simp: less_Suc_eq_0_disj)

lemma same_size:
  "vb_ok a \<Longrightarrow> vb_ok b \<Longrightarrow> bit_len a = bit_len b \<Longrightarrow> length (bit_dat a) = length (bit_dat b)"
  by (simp add: vb_ok_def)

lemma bitsetContains_iff:
  assumes "vb_ok a" "vb_ok b" "bit_len a = bit_len b"
  shows "bitsetContains a b = Inr (elems b \<subseteq> elems a)"
proof -
  let ?n = "length (bit_dat a)"
  have n: "length (bit_dat b) = ?n" using same_size [OF assms] by simp
  have "(\<forall>j < ?n. bit_dat a ! j AND bit_dat b ! j = bit_dat b ! j) \<longleftrightarrow>
      (\<forall>j < ?n. \<forall>k < 8. bit (bit_dat b ! j) k \<longrightarrow> bit (bit_dat a ! j) k)"
    by (simp add: byte_contains)
  also have "\<dots> \<longleftrightarrow> (\<forall>i < 8 * ?n. vbit (bit_dat b) i \<longrightarrow> vbit (bit_dat a) i)"
    unfolding vbit_def by (rule all_bits [symmetric])
  also have "\<dots> \<longleftrightarrow> elems b \<subseteq> elems a"
    using n by (auto simp: vb_ok_elems assms)
  finally show ?thesis using n assms(3) by (simp add: bitsetContains_def contains_bytes_iff)
qed

lemma bitsetEqual_iff:
  assumes "vb_ok a" "vb_ok b" "bit_len a = bit_len b"
  shows "bitsetEqual a b = Inr (elems a = elems b)"
proof -
  let ?n = "length (bit_dat a)"
  have n: "length (bit_dat b) = ?n" using same_size [OF assms] by simp
  have "(\<forall>j < ?n. bit_dat a ! j = bit_dat b ! j) \<longleftrightarrow>
      (\<forall>j < ?n. \<forall>k < 8. bit (bit_dat a ! j) k = bit (bit_dat b ! j) k)"
    by (simp add: byte_eq)
  also have "\<dots> \<longleftrightarrow> (\<forall>i < 8 * ?n. vbit (bit_dat a) i = vbit (bit_dat b) i)"
    unfolding vbit_def by (rule all_bits [symmetric])
  also have "\<dots> \<longleftrightarrow> elems a = elems b"
    using n by (auto simp: vb_ok_elems assms)
  finally show ?thesis using n assms(3) by (simp add: bitsetEqual_def equal_bytes_iff)
qed

lemma varBitOr_elems:
  assumes "vb_ok a" "vb_ok b" "bit_len a = bit_len b"
  shows "\<exists>c. varBitOr a b = Inr c \<and> vb_ok c \<and> bit_len c = bit_len a \<and> elems c = elems a \<union> elems b"
proof -
  let ?n = "length (bit_dat a)"
  have n: "length (bit_dat b) = ?n" using same_size [OF assms] by simp
  then obtain zs where zs: "or_bytes (bit_dat a) (bit_dat b) = Inr zs" "length zs = ?n"
    "\<forall>j < ?n. zs ! j = bit_dat a ! j OR bit_dat b ! j" using or_bytes_vbit [of "bit_dat a" "bit_dat b"] by auto
  let ?c = "a\<lparr>bit_dat := zs\<rparr>"
  have v: "vbit zs i \<longleftrightarrow> vbit (bit_dat a) i \<or> vbit (bit_dat b) i" if "i < 8 * ?n" for i
  proof -
    have "i div 8 < ?n" using that by auto
    with zs(3) show ?thesis by (simp add: vbit_def bit_or_iff)
  qed
  have ok: "vb_ok ?c" using assms zs(2) n v by (auto simp: vb_ok_def)
  moreover have "elems ?c = elems a \<union> elems b"
    using zs(2) n v by (auto simp: vb_ok_elems ok assms)
  ultimately show ?thesis using zs(1) by (auto simp: varBitOr_def)
qed

text \<open>Clearing the padding of a well-formed bit string changes nothing.\<close>

lemma clear_padding_ok:
  assumes "vb_ok v"
  shows "clear_padding v = v"
proof (cases "bit_dat v = []")
  case False
  let ?bs = "bit_dat v" and ?p = "nat (VARBITPAD v)"
  have p: "?p < 8" "int ?p = 8 * int (length ?bs) - bit_len v"
    using vb_ok_bytes [OF assms] by (auto simp: VARBITPAD_def VARBITBYTES_def)
  have "last ?bs AND pad_mask v = last ?bs"
  proof (rule bit_word_eqI)
    fix k
    assume "k < LENGTH(8)"
    then have k: "k < 8" by simp
    have "k \<ge> ?p" if "bit (last ?bs) k"
    proof -
      let ?i = "8 * (length ?bs - 1) + (7 - k)"
      have "?i div 8 = length ?bs - 1" "7 - ?i mod 8 = k" using byte_index [OF k] by blast+
      then have "vbit ?bs ?i" using that by (simp only: vbit_def last_conv_nth [OF False])
      moreover have "?i < 8 * length ?bs" using False k by (cases ?bs) auto
      ultimately have "int ?i < bit_len v" using assms unfolding vb_ok_def by blast
      moreover have "int ?i = 8 * int (length ?bs) - 8 + (7 - int k)" using False k by (cases ?bs) auto
      ultimately have "int ?p \<le> int k" using p(2) by linarith
      then show ?thesis by (simp only: of_nat_le_iff)
    qed
    moreover have "bit (0xFF :: bits8) (k - ?p)" if "k \<ge> ?p"
    proof -
      have "(0xFF :: bits8) = mask 8" by (simp add: mask_eq_exp_minus_1)
      then show ?thesis using k by (simp only: bit_mask_iff) simp
    qed
    ultimately show "bit (last ?bs AND pad_mask v) k = bit (last ?bs) k"
      using k by (auto simp: bit_and_iff pad_mask_def bit_push_bit_iff)
  qed
  with False show ?thesis by (simp add: clear_padding_def)
qed (simp add: clear_padding_def)

lemma bitor_with_null_elems:
  assumes "vb_ok a" "vb_ok b" "bit_len a = bit_len b"
  shows "\<exists>c. bitor_with_null (Some a) (Some b) = Inr (Some c) \<and> vb_ok c \<and> bit_len c = bit_len a \<and>
           elems c = elems a \<union> elems b"
proof -
  from varBitOr_elems [OF assms] obtain zs where
    "or_bytes (bit_dat a) (bit_dat b) = Inr zs" "vb_ok (a\<lparr>bit_dat := zs\<rparr>)"
    "elems (a\<lparr>bit_dat := zs\<rparr>) = elems a \<union> elems b"
    by (auto simp: varBitOr_def res_iff)
  with assms(3) show ?thesis by (simp add: bitor_with_null_def clear_padding_ok)
qed

lemma bitor_with_null_None:
  "vb_ok a \<Longrightarrow> bitor_with_null (Some a) None = Inr (Some a) \<and> bitor_with_null None (Some a) = Inr (Some a)"
  by (simp add: bitor_with_null_def clear_padding_ok)

lemma generateEmptyBitset_elems:
  "0 \<le> n \<Longrightarrow> vb_ok (generateEmptyBitset n) \<and> elems (generateEmptyBitset n) = {}"
  by (auto simp: generateEmptyBitset_def vb_ok_def elems_def vbit_def varbit_data_bytes_def)

text \<open>The bytes with the one bit \<open>i\<close> set.\<close>

definition one_hot :: "nat \<Rightarrow> nat \<Rightarrow> bits8 list" where
  "one_hot len i = (replicate len 0)[i div 8 := push_bit (7 - i mod 8) 1]"

lemma vbit_one_hot: "i < 8 * len \<Longrightarrow> k < 8 * len \<Longrightarrow> vbit (one_hot len i) k \<longleftrightarrow> k = i"
proof -
  assume i: "i < 8 * len" and k: "k < 8 * len"
  then have "i div 8 < len" "k div 8 < len" by auto
  then have "vbit (one_hot len i) k \<longleftrightarrow> k div 8 = i div 8 \<and> 7 - k mod 8 = 7 - i mod 8"
    by (auto simp: vbit_def one_hot_def nth_list_update bit_exp_iff possible_bit_word)
  also have "\<dots> \<longleftrightarrow> k = i"
  proof -
    have "k mod 8 = i mod 8" if "7 - k mod 8 = 7 - i mod 8"
    proof -
      have "k mod 8 \<le> 7" "i mod 8 \<le> 7" by simp_all
      with that show ?thesis by linarith
    qed
    then show ?thesis by (metis div_mult_mod_eq)
  qed
  finally show ?thesis .
qed

lemma shift_byte: "r < 8 \<Longrightarrow> drop_bit 1 (push_bit (7 - r) 1 :: bits8) = (if r = 7 then 0 else push_bit (7 - Suc r) 1)"
  by (rule bit_word_eqI) (auto simp: bit_drop_bit_eq bit_exp_iff possible_bit_word)

lemma set_elem_loop_one_hot:
  "i + v < 8 * len \<Longrightarrow> set_elem_loop v (one_hot len i) (i div 8) = Inr (one_hot len (i + v))"
proof (induction v arbitrary: i)
  case (Suc v)
  let ?c = "i div 8"
  have c: "?c < len" "i mod 8 < 8" using Suc.prems by auto
  have cur: "drop_bit 1 (one_hot len i ! ?c) = (if i mod 8 = 7 then 0 else push_bit (7 - Suc (i mod 8)) 1)"
    using shift_byte [OF c(2)] c(1) by (simp add: one_hot_def)
  show ?case
  proof (cases "i mod 8 = 7")
    case True
    then have s: "Suc i div 8 = Suc ?c" "Suc i mod 8 = 0" by (simp_all add: div_Suc mod_Suc)
    have "Suc ?c < len" using Suc.prems s(1) by auto
    moreover have "(one_hot len i)[?c := 0, Suc ?c := 0x80] = one_hot len (Suc i)"
    proof -
      have "(replicate len 0)[?c := 0] = replicate len (0 :: bits8)"
        using c(1) by (metis list_update_id nth_replicate)
      then show ?thesis using s by (simp add: one_hot_def)
    qed
    ultimately show ?thesis using Suc.IH [of "Suc i"] Suc.prems cur True s(1)
      by (simp add: one_hot_def)
  next
    case False
    then have s: "Suc i div 8 = ?c" "Suc i mod 8 = Suc (i mod 8)" by (simp_all add: div_Suc mod_Suc)
    have "(push_bit (7 - Suc (i mod 8)) 1 :: bits8) \<noteq> 0"
    proof -
      have "bit (push_bit (7 - Suc (i mod 8)) 1 :: bits8) (7 - Suc (i mod 8))"
        by (simp add: bit_exp_iff possible_bit_word)
      then show ?thesis by (metis bit_0_eq bot_apply bot_bool_def)
    qed
    moreover have "(one_hot len i)[?c := push_bit (7 - Suc (i mod 8)) 1] = one_hot len (Suc i)"
      using s by (simp add: one_hot_def)
    ultimately show ?thesis using Suc.IH [of "Suc i"] Suc.prems cur False s(1) by simp
  qed
qed simp

lemma generateVarbitSetElem_elems:
  assumes "1 \<le> v" "v \<le> n"
  shows "\<exists>b. generateVarbitSetElem n v = Inr b \<and> vb_ok b \<and> bit_len b = n \<and> elems b = {nat (v - 1)}"
proof -
  let ?len = "varbit_data_bytes n" and ?i = "nat (v - 1)"
  have len: "0 < ?len" "n \<le> 8 * int ?len" using assms by (auto simp: varbit_data_bytes_def)
  have i: "?i < 8 * ?len" using assms len by auto
  have "(replicate ?len 0)[0 := 0x80] = one_hot ?len 0" by (simp add: one_hot_def)
  then have "generateVarbitSetElem n v = Inr \<lparr>bit_len = n, bit_dat = one_hot ?len ?i\<rparr>"
    using set_elem_loop_one_hot [of 0 ?i ?len] i len assms by (simp add: generateVarbitSetElem_def)
  moreover have l: "length (one_hot ?len ?i) = ?len" by (simp add: one_hot_def)
  moreover have "vb_ok \<lparr>bit_len = n, bit_dat = one_hot ?len ?i\<rparr>"
    using assms l vbit_one_hot [OF i] by (auto simp: vb_ok_def)
  moreover have "elems \<lparr>bit_len = n, bit_dat = one_hot ?len ?i\<rparr> = {?i}"
    using vb_ok_elems [OF \<open>vb_ok _\<close>] l vbit_one_hot [OF i] i by auto
  ultimately show ?thesis by auto
qed

text \<open>
  \<open>bitset_nonzero_repeat\<close>: after \<open>i\<close> rounds \<open>temp\<close> holds the current byte shifted so that bit
  \<open>i\<close> is on top, and \<open>foundOne\<close> says whether the current block has had a bit set.
\<close>

definition block_hit :: "bits8 list \<Rightarrow> nat \<Rightarrow> nat \<Rightarrow> bool" where
  "block_hit bs k m \<longleftrightarrow> (\<exists>i. m * k \<le> i \<and> i < Suc m * k \<and> vbit bs i)"

lemma nonzero_loop_iff:
  assumes "0 < k" "i + n < 8 * length bs"
    and "temp = push_bit (i mod 8) (bs ! (i div 8))"
    and "found \<longleftrightarrow> (\<exists>j. i div k * k \<le> j \<and> j < i \<and> vbit bs j)"
  shows "nonzero_loop n (int (Suc i)) bs (i div 8) temp found (int k) =
           Inr (\<forall>m. i div k \<le> m \<and> Suc m * k \<le> i + n \<longrightarrow> block_hit bs k m)"
  using assms
proof (induction n arbitrary: i temp found)
  case 0
  have "\<not> Suc m * k \<le> i" if "i div k \<le> m" for m
  proof -
    have "i < Suc (i div k) * k" using 0(1) by (metis dividend_less_div_times mult_Suc add.commute)
    also have "\<dots> \<le> Suc m * k" using that by simp
    finally show ?thesis by simp
  qed
  then show ?case by auto
next
  case (Suc n)
  let ?q = "i div k" and ?f = "found \<or> bit temp 7"
  have "i div 8 < length bs" using Suc.prems(2) by auto
  have "i mod 8 \<le> 7" by (simp add: less_Suc_eq_le [symmetric])
  then have top: "bit temp 7 \<longleftrightarrow> vbit bs i"
    using Suc.prems(3) by (simp add: vbit_def bit_push_bit_iff)
  have f: "?f \<longleftrightarrow> (\<exists>j. ?q * k \<le> j \<and> j < Suc i \<and> vbit bs j)"
  proof -
    have "?q * k \<le> i" by (rule div_times_less_eq_dividend)
    then show ?thesis unfolding Suc.prems(4) top by (metis less_Suc_eq)
  qed
  have m8: "int (Suc i) mod 8 = 0 \<longleftrightarrow> Suc i mod 8 = 0" and mk: "int (Suc i) mod int k = 0 \<longleftrightarrow> Suc i mod k = 0"
    by (metis of_nat_0_eq_iff of_nat_mod of_nat_numeral)+
  let ?t = "if Suc i mod 8 = 0 then bs ! Suc (i div 8) else push_bit 1 temp"
  have t: "?t = push_bit (Suc i mod 8) (bs ! (Suc i div 8))"
    using Suc.prems(3) by (simp add: div_Suc mod_Suc)
  have rnd: "nonzero_loop (Suc n) (int (Suc i)) bs (i div 8) temp found (int k) =
      (if Suc i mod k = 0 \<and> \<not> ?f then Inr False
       else nonzero_loop n (int (Suc (Suc i))) bs (Suc i div 8) ?t (if Suc i mod k = 0 then False else ?f) (int k))"
  proof -
    have "Suc i div 8 < length bs" using Suc.prems(2) by auto
    then have b: "Suc i mod 8 = 0 \<Longrightarrow> Suc (i div 8) < length bs" by (simp add: div_Suc)
    have s: "int (Suc i) + 1 = int (Suc (Suc i))" and k: "(int k = 0) = False" using Suc.prems(1) by simp_all
    show ?thesis
    proof (cases "Suc i mod 8 = 0")
      case True
      then have "Suc i div 8 = Suc (i div 8)" by (simp add: div_Suc)
      with True b show ?thesis by (simp only: nonzero_loop.simps Let_def s k m8 mk if_True if_False simp_thms)
    next
      case False
      then have "Suc i div 8 = i div 8" by (simp add: div_Suc)
      with False show ?thesis by (simp only: nonzero_loop.simps Let_def s k m8 mk if_True if_False simp_thms)
    qed
  qed
  show ?case
  proof (cases "Suc i mod k = 0")
    case True
    then have q1: "Suc i div k = Suc ?q" by (simp add: div_Suc)
    then have q: "Suc i div k = Suc ?q" "Suc i = Suc ?q * k"
      using True by (metis add_0_right div_mult_mod_eq)+
    have hit: "?f \<longleftrightarrow> block_hit bs k ?q" using f q(2) by (auto simp: block_hit_def)
    show ?thesis
    proof (cases "?f")
      case False
      have "Suc ?q * k \<le> i + Suc n" using q(2) by simp
      then have "\<not> (\<forall>m. ?q \<le> m \<and> Suc m * k \<le> i + Suc n \<longrightarrow> block_hit bs k m)" using False hit by blast
      then show ?thesis using True False by (simp only: rnd simp_thms if_True)
    next
      case yes: True
      have "nonzero_loop n (int (Suc (Suc i))) bs (Suc i div 8) ?t False (int k) =
          Inr (\<forall>m. Suc i div k \<le> m \<and> Suc m * k \<le> Suc i + n \<longrightarrow> block_hit bs k m)"
        using Suc.prems(1,2) t q by (intro Suc.IH) auto
      moreover have "(\<forall>m. Suc ?q \<le> m \<and> Suc m * k \<le> Suc i + n \<longrightarrow> block_hit bs k m) \<longleftrightarrow>
          (\<forall>m. ?q \<le> m \<and> Suc m * k \<le> i + Suc n \<longrightarrow> block_hit bs k m)"
      proof -
        have "?q \<le> m \<longleftrightarrow> m = ?q \<or> Suc ?q \<le> m" for m by auto
        with hit yes show ?thesis by (simp only: add_Suc add_Suc_right) blast
      qed
      ultimately show ?thesis using True yes by (simp only: rnd q(1) simp_thms if_True if_False)
    qed
  next
    case False
    then have q: "Suc i div k = ?q" by (simp add: div_Suc)
    have "nonzero_loop n (int (Suc (Suc i))) bs (Suc i div 8) ?t ?f (int k) =
        Inr (\<forall>m. Suc i div k \<le> m \<and> Suc m * k \<le> Suc i + n \<longrightarrow> block_hit bs k m)"
      using Suc.prems(1,2) t q f by (intro Suc.IH) auto
    then show ?thesis using False by (simp only: rnd q simp_thms if_False add_Suc add_Suc_right)
  qed
qed

lemma bitset_nonzero_repeat_iff:
  assumes "vb_ok v" "0 < k" "bit_len v mod 8 \<noteq> 0"
  shows "bitset_nonzero_repeat (Some v) (Some (int k)) =
           Inr (\<forall>m. Suc m * k \<le> nat (bit_len v) \<longrightarrow> (\<exists>i \<in> elems v. m * k \<le> i \<and> i < Suc m * k))"
proof -
  let ?bs = "bit_dat v" and ?n = "nat (bit_len v)"
  have "bit_len v \<noteq> 8 * int (length ?bs)" using assms(3) by auto
  then have "bit_len v < int (8 * length ?bs)" using vb_ok_bytes [OF assms(1)] by simp
  moreover have "0 \<le> bit_len v" using assms(1) by (simp add: vb_ok_def)
  ultimately have n: "?n < 8 * length ?bs" "0 \<le> bit_len v" by linarith+
  then have nz: "?bs \<noteq> []" by auto
  have "bitset_nonzero_repeat (Some v) (Some (int k)) =
      Inr (\<forall>m. 0 \<le> m \<and> Suc m * k \<le> ?n \<longrightarrow> block_hit ?bs k m)"
    using nonzero_loop_iff [OF assms(2), of 0 ?n ?bs "?bs ! 0" False] n nz
    by (simp add: bitset_nonzero_repeat_def)
  moreover have "block_hit ?bs k m \<longleftrightarrow> (\<exists>i \<in> elems v. m * k \<le> i \<and> i < Suc m * k)" if "Suc m * k \<le> ?n" for m
    using that n(2) by (auto simp: block_hit_def elems_def) (metis less_le_trans of_nat_less_iff nat_0_le)
  ultimately show ?thesis by auto
qed

end
