(* ===== verification/TransRep.thy ===== *)
theory TransRep
  imports VarBits PgListApi
begin

text \<open>
  The text of the transformation provenance of a tuple: \<open>generateTransProvRep\<close>,
  \<open>generateMapRep\<close> and the table of query representations they read, from
  \<open>src/backend/provrewrite/adt/prov_trans_bitset.c\<close>, with \<open>postprocessRanges\<close> of
  \<open>src/backend/provrewrite/transformationp/prov_trans_parse_back.c\<close>, which builds a
  representation, and the fill loop of \<open>prov_trans_map.c\<close>.  Strings are the characters before
  the terminating nul; array and buffer accesses are checked.
\<close>

section \<open>Representations of queries\<close>

record TransParseRange =
  range_set :: VarBit
  range_begin :: int
  range_end :: int

record TransRepQueryInfo =
  info_queryId :: int
  info_string :: "string option"
  sets :: "VarBit list"
  begins :: "int list"
  ends :: "int list"
  stringPointers :: "string list"
  numRanges :: nat
  hold :: bool
  cusorName :: "string option"

definition aget :: "'a list \<Rightarrow> nat \<Rightarrow> 'a res" where
  "aget xs i = (if i < length xs then Inr (xs ! i) else Inl OutOfBounds)"

text \<open>The string at an offset into a buffer.\<close>

definition string_at :: "string \<Rightarrow> int \<Rightarrow> string res" where
  "string_at s i = (if 0 \<le> i \<and> i \<le> int (length s) then Inr (drop (nat i) s) else Inl OutOfBounds)"

text \<open>
  \<open>memcpy(partPointer, src, n); partPointer += n\<close>: \<open>out\<close> is what the buffer of \<open>cap\<close> bytes
  holds before \<open>partPointer\<close>.
\<close>

definition memcpy_part :: "nat \<Rightarrow> string \<Rightarrow> string \<Rightarrow> int \<Rightarrow> string res" where
  "memcpy_part cap out src n =
     (if n < 0 \<or> int (length src) + 1 < n \<or> int cap < int (length out) + n then Inl OutOfBounds
      else Inr (out @ take (nat n) (src @ [CHR 0x00])))"

text \<open>\<open>*partPointer = 0\<close> at the end.\<close>

definition terminate :: "nat \<Rightarrow> string \<Rightarrow> string res" where
  "terminate cap out = (if length out < cap then Inr out else Inl OutOfBounds)"

definition postprocessRanges :: "TransParseRange list \<Rightarrow> string \<Rightarrow> TransRepQueryInfo \<Rightarrow> TransRepQueryInfo res" where
  "postprocessRanges ranges str info =
     res_bind (if \<forall>r \<in> set ranges. 0 \<le> range_begin r \<and> range_begin r \<le> int (length str)
               then Inr () else Inl OutOfBounds) (\<lambda>_.
       Inr (info\<lparr>numRanges := length ranges, begins := map range_begin ranges,
                 ends := map range_end ranges,
                 stringPointers := map (\<lambda>r. drop (nat (range_begin r)) str) ranges,
                 info_string := Some str, sets := map range_set ranges\<rparr>))"

text \<open>The loop of \<open>generateMapString\<close>: one range per annotation, with its bit set.\<close>

definition fill_map_info :: "string list \<Rightarrow> VarBit list \<Rightarrow> TransRepQueryInfo \<Rightarrow> TransRepQueryInfo" where
  "fill_map_info annotations bitSets info =
     (let ps = zip annotations bitSets in
      info\<lparr>numRanges := length bitSets, begins := map (\<lambda>_. 0) ps,
           stringPointers := map fst ps, ends := map (\<lambda>p. int (length (fst p))) ps,
           sets := map snd ps, info_string := None\<rparr>)"

section \<open>Generating the text\<close>

definition NOT_STRING :: string where
  "NOT_STRING = ''<NOT>''"

definition CLOSE_NOT_STRING :: string where
  "CLOSE_NOT_STRING = ''</NOT>''"

text \<open>
  The search for the representation: the loop stops at a match or after the last entry, and
  leaves \<open>queryInfo\<close> unset when there is none.
\<close>

fun find_info :: "TransRepQueryInfo list \<Rightarrow> int \<Rightarrow> TransRepQueryInfo option" where
  "find_info [] qid = None"
| "find_info (x # xs) qid = (if info_queryId x = qid \<or> xs = [] then Some x else find_info xs qid)"

definition lookup_info :: "TransRepQueryInfo list \<Rightarrow> VarBit option \<Rightarrow> int \<Rightarrow> string \<Rightarrow> (VarBit \<times> TransRepQueryInfo) res" where
  "lookup_info infos bitset qid missing =
     (case bitset of
        None \<Rightarrow> Inl (Elog ''a NULL value was passed to the transformationprovenance representation generation!'')
      | Some b \<Rightarrow>
          case find_info infos qid of
            None \<Rightarrow> Inl NullDeref
          | Some info \<Rightarrow> if info_queryId info = qid then Inr (b, info) else Inl (Elog missing))"

fun map_length_loop :: "VarBit \<Rightarrow> TransRepQueryInfo \<Rightarrow> nat list \<Rightarrow> int \<Rightarrow> int res" where
  "map_length_loop bitset info [] len = Inr len"
| "map_length_loop bitset info (i # is) len =
     res_bind (aget (sets info) i) (\<lambda>s.
     res_bind (bitsetEqual s bitset) (\<lambda>eq.
       if eq then
         res_bind (aget (ends info) i) (\<lambda>e.
         res_bind (aget (begins info) i) (\<lambda>b.
           map_length_loop bitset info is (len + (e - b))))
       else map_length_loop bitset info is len))"

fun map_copy_loop :: "nat \<Rightarrow> VarBit \<Rightarrow> TransRepQueryInfo \<Rightarrow> nat list \<Rightarrow> string \<Rightarrow> string res" where
  "map_copy_loop cap bitset info [] out = Inr out"
| "map_copy_loop cap bitset info (i # is) out =
     res_bind (aget (sets info) i) (\<lambda>s.
     res_bind (bitsetEqual s bitset) (\<lambda>eq.
       if eq then
         res_bind (aget (ends info) i) (\<lambda>e.
         res_bind (aget (begins info) i) (\<lambda>b.
         res_bind (aget (stringPointers info) i) (\<lambda>p.
         res_bind (memcpy_part cap out p (e - b)) (\<lambda>out.
           map_copy_loop cap bitset info is out))))
       else map_copy_loop cap bitset info is out))"

text \<open>The index \<open>i\<close> of the two loops runs through \<open>[0..<numRanges]\<close>.\<close>

definition generateMapRep :: "TransRepQueryInfo list \<Rightarrow> VarBit option \<Rightarrow> int \<Rightarrow> string res" where
  "generateMapRep infos bitset qid =
     res_bind (lookup_info infos bitset qid ''did not find TransRepQueryInfo needed for mapping provenance generation!'')
       (\<lambda>(bitset, info).
     res_bind (map_length_loop bitset info [0..<numRanges info] 0) (\<lambda>resultLength.
       if resultLength + 1 < 0 then Inl OutOfBounds
       else
         res_bind (map_copy_loop (nat (resultLength + 1)) bitset info [0..<numRanges info] []) (\<lambda>out.
           terminate (nat (resultLength + 1)) out)))"

text \<open>The inner \<open>while\<close> loops: skip the ranges that end no later than range \<open>cur\<close>.\<close>

function skip_subsumed :: "int list \<Rightarrow> nat \<Rightarrow> nat \<Rightarrow> nat \<Rightarrow> nat res" where
  "skip_subsumed es n cur i =
     (if Suc i < n then
        res_bind (aget es (Suc i)) (\<lambda>e1.
        res_bind (aget es cur) (\<lambda>e.
          if e1 \<le> e then skip_subsumed es n cur (Suc i) else Inr i))
      else Inr i)"
  by pat_completeness auto
termination
  by (relation "measure (\<lambda>(es, n, cur, i). n - i)") auto

declare skip_subsumed.simps [simp del]

lemma skip_subsumed_ge: "skip_subsumed es n cur i = Inr j \<Longrightarrow> i \<le> j"
proof (induction es n cur i rule: skip_subsumed.induct)
  case (1 es n cur i)
  then show ?case
    by (subst (asm) skip_subsumed.simps [of es n cur i])
      (auto simp: res_iff split: if_splits dest: Suc_leD)
qed

function rep_length_loop :: "VarBit \<Rightarrow> TransRepQueryInfo \<Rightarrow> nat \<Rightarrow> int \<Rightarrow> int res" where
  "rep_length_loop bitset info i len =
     (if i < numRanges info then
        res_bind (aget (sets info) i) (\<lambda>s.
        res_bind (bitsetContains bitset s) (\<lambda>c.
          if \<not> c then
            res_bind (skip_subsumed (ends info) (numRanges info) i i) (\<lambda>j.
              rep_length_loop bitset info (Suc j)
                (len + int (length NOT_STRING + length CLOSE_NOT_STRING)))
          else rep_length_loop bitset info (Suc i) len))
      else Inr len)"
  by pat_completeness auto
termination
  by (relation "measure (\<lambda>(b, info, i, len). numRanges info - i)") (auto dest: skip_subsumed_ge)

declare rep_length_loop.simps [simp del]

text \<open>The main loop; the result is the text written and the value of \<open>before\<close>.\<close>

function rep_copy_loop ::
    "nat \<Rightarrow> VarBit \<Rightarrow> TransRepQueryInfo \<Rightarrow> string \<Rightarrow> nat \<Rightarrow> nat \<Rightarrow> string \<Rightarrow> (string \<times> nat) res" where
  "rep_copy_loop cap bitset info str i before out =
     (if i < numRanges info then
        res_bind (aget (sets info) i) (\<lambda>s.
        res_bind (bitsetContains bitset s) (\<lambda>c.
        res_bind (aget (begins info) i) (\<lambda>b.
        res_bind (aget (stringPointers info) i) (\<lambda>p.
          if c then
            res_bind (if Suc i \<noteq> numRanges info
                      then res_bind (aget (begins info) (Suc i)) (\<lambda>b1. Inr (b1 - b))
                      else Inr (int (length str) - b)) (\<lambda>partLength.
            res_bind (memcpy_part cap out p partLength) (\<lambda>out.
              rep_copy_loop cap bitset info str (Suc i) i out))
          else
            res_bind (memcpy_part cap out NOT_STRING (int (length NOT_STRING))) (\<lambda>out.
            res_bind (aget (ends info) i) (\<lambda>e.
            res_bind (memcpy_part cap out p (e - b)) (\<lambda>out.
            res_bind (memcpy_part cap out CLOSE_NOT_STRING (int (length CLOSE_NOT_STRING))) (\<lambda>out.
            res_bind (skip_subsumed (ends info) (numRanges info) i i) (\<lambda>j.
            res_bind (if Suc j < numRanges info then
                        res_bind (aget (begins info) (Suc j)) (\<lambda>b1.
                          if e < b1
                          then res_bind (string_at str e) (\<lambda>q. memcpy_part cap out q (b1 - e))
                          else Inr out)
                      else Inr out) (\<lambda>out.
              rep_copy_loop cap bitset info str (Suc j) i out))))))))))
      else Inr (out, before))"
  by pat_completeness auto
termination
  by (relation "measure (\<lambda>(cap, b, info, str, i, before, out). numRanges info - i)")
    (auto dest: skip_subsumed_ge)

declare rep_copy_loop.simps [simp del]

definition generateTransProvRep :: "TransRepQueryInfo list \<Rightarrow> VarBit option \<Rightarrow> int \<Rightarrow> string res" where
  "generateTransProvRep infos bitset qid =
     res_bind (lookup_info infos bitset qid ''did not find TransRepQueryInfo needed for transformation provenance generation!'')
       (\<lambda>(bitset, info).
     res_bind (case info_string info of None \<Rightarrow> Inl NullDeref | Some s \<Rightarrow> Inr s) (\<lambda>str.
     res_bind (rep_length_loop bitset info 0 (int (length str))) (\<lambda>resultLength.
       let cap = nat (resultLength + 1) in
       res_bind (rep_copy_loop cap bitset info str 0 0 []) (\<lambda>(out, before).
       res_bind (if int (length out) < resultLength then
                   res_bind (aget (ends info) before) (\<lambda>e.
                   res_bind (string_at str e) (\<lambda>q. memcpy_part cap out q (int (length str) - e)))
                 else Inr out) (\<lambda>out.
         terminate cap out)))))"

text \<open>The functions called from SQL; a null result is \<open>None\<close>.\<close>

definition reconstructTransToSQL :: "TransRepQueryInfo list \<Rightarrow> VarBit option \<Rightarrow> int \<Rightarrow> string res" where
  "reconstructTransToSQL infos arg0 arg1 = generateTransProvRep infos arg0 arg1"

definition reconstructMap :: "TransRepQueryInfo list \<Rightarrow> VarBit option \<Rightarrow> int \<Rightarrow> string res" where
  "reconstructMap infos arg0 arg1 = generateMapRep infos arg0 arg1"

end
