(* ===== verification/TransRepSpec.thy ===== *)
theory TransRepSpec
  imports TransRep
begin

text \<open>
  What the annotated query text is: the text of the query with a \<open><NOT>\<close> element around every
  outermost range whose set is not contained in the set of the tuple.
\<close>

section \<open>Ranges as lists\<close>

text \<open>A range with its verdict: begin, end, and whether it is in the provenance.\<close>

type_synonym range = "nat \<times> nat \<times> bool"

abbreviation r_begin :: "range \<Rightarrow> nat" where "r_begin r \<equiv> fst r"
abbreviation r_end :: "range \<Rightarrow> nat" where "r_end r \<equiv> fst (snd r)"
abbreviation r_in :: "range \<Rightarrow> bool" where "r_in r \<equiv> snd (snd r)"

text \<open>
  The ranges of a text of length \<open>n\<close> in the order in which a recursive printer opens them:
  a later range begins no earlier, and lies within an earlier one or after it.
\<close>

definition nested :: "nat \<Rightarrow> range list \<Rightarrow> bool" where
  "nested n rs \<longleftrightarrow>
     (\<forall>r \<in> set rs. r_begin r \<le> r_end r \<and> r_end r \<le> n) \<and>
     sorted_wrt (\<lambda>r r'. r_begin r \<le> r_begin r' \<and> (r_end r' \<le> r_end r \<or> r_end r \<le> r_begin r')) rs"

text \<open>The outermost ranges that are not in the provenance.\<close>

function excluded :: "range list \<Rightarrow> (nat \<times> nat) list" where
  "excluded [] = []"
| "excluded (r # rs) =
     (if r_in r then excluded rs
      else (r_begin r, r_end r) # excluded (dropWhile (\<lambda>r'. r_end r' \<le> r_end r) rs))"
  by pat_completeness auto
termination
  by (relation "measure length") (auto simp: length_dropWhile_le less_Suc_eq_le)

text \<open>The text from position \<open>p\<close> on with these ranges marked.\<close>

fun annotate :: "string \<Rightarrow> nat \<Rightarrow> (nat \<times> nat) list \<Rightarrow> string" where
  "annotate s p [] = drop p s"
| "annotate s p ((b, e) # ivs) =
     take (b - p) (drop p s) @ NOT_STRING @ take (e - b) (drop b s) @ CLOSE_NOT_STRING @ annotate s e ivs"

text \<open>The same text as a sequence of characters and marks.\<close>

datatype token = Ch char | Open | Close

fun tokens :: "string \<Rightarrow> nat \<Rightarrow> (nat \<times> nat) list \<Rightarrow> token list" where
  "tokens s p [] = map Ch (drop p s)"
| "tokens s p ((b, e) # ivs) =
     map Ch (take (b - p) (drop p s)) @ [Open] @ map Ch (take (e - b) (drop b s)) @ [Close] @ tokens s e ivs"

fun render :: "token list \<Rightarrow> string" where
  "render [] = []"
| "render (Ch c # ts) = c # render ts"
| "render (Open # ts) = NOT_STRING @ render ts"
| "render (Close # ts) = CLOSE_NOT_STRING @ render ts"

fun strip :: "token list \<Rightarrow> string" where
  "strip [] = []"
| "strip (Ch c # ts) = c # strip ts"
| "strip (_ # ts) = strip ts"

text \<open>The characters with whether they stand inside a mark.\<close>

fun marks :: "bool \<Rightarrow> token list \<Rightarrow> bool list" where
  "marks m [] = []"
| "marks m (Ch c # ts) = m # marks m ts"
| "marks m (Open # ts) = marks True ts"
| "marks m (Close # ts) = marks False ts"

lemma render_append: "render (xs @ ys) = render xs @ render ys"
  by (induction xs rule: render.induct) auto

lemma render_Ch: "render (map Ch s) = s"
  by (induction s) auto

lemma strip_append: "strip (xs @ ys) = strip xs @ strip ys"
  by (induction xs rule: strip.induct) auto

lemma strip_Ch: "strip (map Ch s) = s"
  by (induction s) auto

lemma marks_Ch: "marks m (map Ch s @ ts) = replicate (length s) m @ marks m ts"
  by (induction s) auto

lemma annotate_tokens: "annotate s p ivs = render (tokens s p ivs)"
  by (induction s p ivs rule: annotate.induct) (simp_all add: render_append render_Ch)

section \<open>Facts about nested ranges\<close>

lemma nested_Cons:
  "nested n (r # rs) \<longleftrightarrow>
     nested n rs \<and> r_begin r \<le> r_end r \<and> r_end r \<le> n \<and>
     (\<forall>r' \<in> set rs. r_begin r \<le> r_begin r' \<and> (r_end r' \<le> r_end r \<or> r_end r \<le> r_begin r'))"
  by (auto simp: nested_def)

lemma nested_dropWhile: "nested n rs \<Longrightarrow> nested n (dropWhile P rs)"
  by (induction rs) (auto simp: nested_Cons)

lemma dropWhile_begin:
  assumes "nested n (r # rs)" "dropWhile (\<lambda>r'. r_end r' \<le> r_end r) rs = r1 # rs1"
  shows "r_end r \<le> r_begin r1" "\<not> r_end r1 \<le> r_end r"
proof -
  have "r1 \<in> set rs" using assms(2) by (metis list.set_intros(1) set_dropWhileD)
  moreover show "\<not> r_end r1 \<le> r_end r" using assms(2) by (metis hd_dropWhile list.distinct(1) list.sel(1))
  ultimately show "r_end r \<le> r_begin r1" using assms(1) by (auto simp: nested_Cons)
qed

text \<open>The outermost excluded ranges are disjoint and ascending, starting from the first range.\<close>

fun ascending :: "nat \<Rightarrow> nat \<Rightarrow> (nat \<times> nat) list \<Rightarrow> bool" where
  "ascending n p [] \<longleftrightarrow> p \<le> n"
| "ascending n p ((b, e) # ivs) \<longleftrightarrow> p \<le> b \<and> b \<le> e \<and> ascending n e ivs"

lemma ascending_mono: "ascending n p ivs \<Longrightarrow> q \<le> p \<Longrightarrow> ascending n q ivs"
  by (cases ivs) (auto simp: case_prod_beta)

lemma ascending_le: "ascending n p ivs \<Longrightarrow> p \<le> n"
  by (induction n p ivs rule: ascending.induct) auto

lemma excluded_ascending:
  "nested n rs \<Longrightarrow> p \<le> n \<Longrightarrow> (rs \<noteq> [] \<Longrightarrow> p \<le> r_begin (hd rs)) \<Longrightarrow> ascending n p (excluded rs)"
proof (induction rs arbitrary: p rule: excluded.induct)
  case (2 r rs)
  show ?case
  proof (cases "r_in r")
    case True
    have "p \<le> r_begin (hd rs)" if "rs \<noteq> []"
      using "2.prems" that by (cases rs) (auto simp: nested_Cons intro: order_trans)
    with True "2.IH"(1) [OF True, of p] "2.prems"(1,2) show ?thesis by (auto simp: nested_Cons)
  next
    case False
    let ?rs = "dropWhile (\<lambda>r'. r_end r' \<le> r_end r) rs"
    have "r_end r \<le> r_begin (hd ?rs)" if "?rs \<noteq> []"
      using dropWhile_begin(1) [OF "2.prems"(1)] that by (cases ?rs) auto
    with False "2.IH"(2) [OF False, of "r_end r"] "2.prems" nested_dropWhile show ?thesis
      by (auto simp: nested_Cons)
  qed
qed simp

lemma take_drop_join: "p \<le> b \<Longrightarrow> take (b - p) (drop p s) @ drop b s = drop p s"
  by (metis append_take_drop_id drop_drop le_add_diff_inverse2)

lemma strip_tokens: "ascending (length s) p ivs \<Longrightarrow> strip (tokens s p ivs) = drop p s"
  by (induction s p ivs rule: tokens.induct)
    (auto simp: strip_append strip_Ch take_drop_join)

lemma length_annotate:
  "ascending (length s) p ivs \<Longrightarrow>
     length (annotate s p ivs) = length s - p + length ivs * (length NOT_STRING + length CLOSE_NOT_STRING)"
proof (induction s p ivs rule: annotate.induct)
  case (2 s p b e ivs)
  then have "p \<le> b" "b \<le> e" "e \<le> length s" using ascending_le by auto
  then have "length (take (b - p) (drop p s)) = b - p" "length (take (e - b) (drop b s)) = e - b" by auto
  with 2 \<open>p \<le> b\<close> \<open>b \<le> e\<close> \<open>e \<le> length s\<close> show ?case by (simp del: length_take length_drop)
qed simp

text \<open>A position is inside a mark if and only if some excluded range covers it.\<close>

lemma marks_tokens:
  "ascending (length s) p ivs \<Longrightarrow> p + k < length s \<Longrightarrow>
     marks False (tokens s p ivs) ! k \<longleftrightarrow> (\<exists>(b, e) \<in> set ivs. b \<le> p + k \<and> p + k < e)"
proof (induction s p ivs arbitrary: k rule: tokens.induct)
  case (1 s p)
  then show ?case using marks_Ch [of False "drop p s" "[]"] by simp
next
  case (2 s p b e ivs)
  then have o: "p \<le> b" "b \<le> e" "e \<le> length s" using ascending_le by auto
  have eq: "marks False (tokens s p ((b, e) # ivs)) =
      replicate (b - p) False @ replicate (e - b) True @ marks False (tokens s e ivs)"
    using o by (simp add: marks_Ch)
  have later: "\<not> (b' \<le> q \<and> q < e')" if "(b', e') \<in> set ivs" "q < e" "ascending (length s) e ivs" for b' e' q ivs
    using that
  proof (induction ivs arbitrary: e)
    case (Cons iv ivs)
    then show ?case by (cases iv) (auto, metis order_trans less_le_trans linorder_not_less)
  qed simp
  have asc: "ascending (length s) e ivs" using "2.prems"(1) by simp
  consider (before) "p + k < b" | (inside) "b \<le> p + k" "p + k < e" | (after) "e \<le> p + k" by linarith
  then show ?case
  proof cases
    case before
    then have "k < b - p" by linarith
    then have "marks False (tokens s p ((b, e) # ivs)) ! k = False"
      unfolding eq by (simp add: nth_append)
    moreover have "\<not> (\<exists>(b', e') \<in> set ((b, e) # ivs). b' \<le> p + k \<and> p + k < e')"
      using before later [OF _ _ asc] o by fastforce
    ultimately show ?thesis by blast
  next
    case inside
    then show ?thesis unfolding eq by (auto simp: nth_append)
  next
    case after
    then have k: "\<not> k < b - p" "\<not> k - (b - p) < e - b" "k - (b - p) - (e - b) = p + k - e"
      using o by linarith+
    have "marks False (tokens s p ((b, e) # ivs)) ! k = marks False (tokens s e ivs) ! (p + k - e)"
      unfolding eq using k by (simp only: nth_append length_replicate if_False)
    also have "\<dots> \<longleftrightarrow> (\<exists>(b', e') \<in> set ivs. b' \<le> p + k \<and> p + k < e')"
      using "2.IH" [OF asc, of "p + k - e"] "2.prems"(2) after by simp
    finally show ?thesis using after by auto
  qed
qed

text \<open>The outermost excluded ranges cover what all excluded ranges cover.\<close>

lemma excluded_covers:
  assumes "nested n rs"
  shows "(\<exists>(b, e) \<in> set (excluded rs). b \<le> q \<and> q < e) \<longleftrightarrow>
           (\<exists>r \<in> set rs. \<not> r_in r \<and> r_begin r \<le> q \<and> q < r_end r)"
  using assms
proof (induction rs rule: excluded.induct)
  case (2 r rs)
  show ?case
  proof (cases "r_in r")
    case True
    with 2 show ?thesis by (auto simp: nested_Cons)
  next
    case False
    let ?P = "\<lambda>r'. r_end r' \<le> r_end r"
    have n: "nested n rs" "\<forall>r' \<in> set rs. r_begin r \<le> r_begin r'" using "2.prems" by (auto simp: nested_Cons)
    have "(\<exists>r' \<in> set rs. \<not> r_in r' \<and> r_begin r' \<le> q \<and> q < r_end r') \<Longrightarrow>
        (r_begin r \<le> q \<and> q < r_end r) \<or>
        (\<exists>r' \<in> set (dropWhile ?P rs). \<not> r_in r' \<and> r_begin r' \<le> q \<and> q < r_end r')"
    proof -
      assume "\<exists>r' \<in> set rs. \<not> r_in r' \<and> r_begin r' \<le> q \<and> q < r_end r'"
      then obtain r' where r': "r' \<in> set rs" "\<not> r_in r'" "r_begin r' \<le> q" "q < r_end r'" by blast
      then have "r' \<in> set (takeWhile ?P rs) \<or> r' \<in> set (dropWhile ?P rs)"
        by (metis Un_iff set_append takeWhile_dropWhile_id)
      then show ?thesis
      proof
        assume "r' \<in> set (takeWhile ?P rs)"
        then have "r_end r' \<le> r_end r" by (metis set_takeWhileD)
        with r' n(2) show ?thesis by (metis order_trans less_le_trans)
      qed (use r' in blast)
    qed
    moreover have "r' \<in> set rs" if "r' \<in> set (dropWhile ?P rs)" for r' using that by (metis set_dropWhileD)
    ultimately show ?thesis using "2.IH"(2) [OF False nested_dropWhile [OF n(1)]] False by auto
  qed
qed simp

end
