(* ===== verification/TransRepCorrect.thy ===== *)
theory TransRepCorrect
  imports TransRepSpec
begin

text \<open>
  The loops of \<open>generateTransProvRep\<close> compute the annotated text, within the buffer whose
  size the first loop has computed.
\<close>

section \<open>Representations that stand for nested ranges\<close>

definition info_for :: "TransRepQueryInfo \<Rightarrow> VarBit \<Rightarrow> string \<Rightarrow> range list \<Rightarrow> bool" where
  "info_for info bitset s rs \<longleftrightarrow>
     info_string info = Some s \<and> numRanges info = length rs \<and>
     begins info = map (\<lambda>r. int (r_begin r)) rs \<and> ends info = map (\<lambda>r. int (r_end r)) rs \<and>
     stringPointers info = map (\<lambda>r. drop (r_begin r) s) rs \<and> length (sets info) = length rs \<and>
     (\<forall>i < length rs. bitsetContains bitset (sets info ! i) = Inr (r_in (rs ! i))) \<and>
     nested (length s) rs \<and> rs \<noteq> [] \<and> r_begin (hd rs) = 0"

lemma info_for_fields:
  assumes "info_for info bitset s rs"
  shows "numRanges info = length rs"
    and "i < length rs \<Longrightarrow> aget (begins info) i = Inr (int (r_begin (rs ! i)))"
    and "i < length rs \<Longrightarrow> aget (ends info) i = Inr (int (r_end (rs ! i)))"
    and "i < length rs \<Longrightarrow> aget (stringPointers info) i = Inr (drop (r_begin (rs ! i)) s)"
    and "i < length rs \<Longrightarrow> \<exists>v. aget (sets info) i = Inr v \<and> bitsetContains bitset v = Inr (r_in (rs ! i))"
    and "nested (length s) rs"
  using assms by (auto simp: info_for_def aget_def)

lemma memcpy_ok:
  "k \<le> length src \<Longrightarrow> length out + k \<le> cap \<Longrightarrow> memcpy_part cap out src (int k) = Inr (out @ take k src)"
  by (simp add: memcpy_part_def)

lemma annotate_from:
  assumes "p \<le> q" "ascending n q ivs"
  shows "annotate s p ivs = take (q - p) (drop p s) @ annotate s q ivs"
proof (cases ivs)
  case Nil
  with assms show ?thesis by (simp add: take_drop_join)
next
  case (Cons iv ivs')
  obtain b e where iv: "iv = (b, e)" by (cases iv)
  with Cons assms have "q \<le> b" by simp
  with assms(1) have "b - p = (q - p) + (b - q)" "q - p + p = q" by simp_all
  then have "take (b - p) (drop p s) = take (q - p) (drop p s) @ take (b - q) (drop q s)"
    by (simp only: take_add drop_drop)
  with Cons iv show ?thesis by simp
qed

lemma nested_drop: "nested n rs \<Longrightarrow> nested n (drop i rs)"
  by (auto simp: nested_def sorted_wrt_drop dest: in_set_dropD)

lemma excluded_drop_ascending:
  assumes "nested n rs" "i < length rs"
  shows "ascending n (r_begin (rs ! i)) (excluded (drop i rs))"
proof (rule excluded_ascending [OF nested_drop [OF assms(1)]])
  show "r_begin (rs ! i) \<le> n" using assms by (auto simp: nested_def dest!: nth_mem)
  show "r_begin (rs ! i) \<le> r_begin (hd (drop i rs))" using assms(2) by (simp add: hd_drop_conv_nth)
qed

section \<open>The loops\<close>

abbreviation later_part :: "range list \<Rightarrow> nat \<Rightarrow> range list" where
  "later_part rs i \<equiv> dropWhile (\<lambda>r. r_end r \<le> r_end (rs ! i)) (drop (Suc i) rs)"

lemma skip_subsumed_from:
  assumes "info_for info bitset s rs" "cur < length rs" "i < length rs"
  shows "\<exists>j. skip_subsumed (ends info) (length rs) cur i = Inr j \<and> i \<le> j \<and> j < length rs \<and>
           drop (Suc j) rs = dropWhile (\<lambda>r. r_end r \<le> r_end (rs ! cur)) (drop (Suc i) rs)"
  using assms(3)
proof (induction "length rs - i" arbitrary: i rule: less_induct)
  case less
  show ?case
  proof (cases "Suc i < length rs")
    case False
    then have "skip_subsumed (ends info) (length rs) cur i = Inr i" by (subst skip_subsumed.simps) simp
    with False less.prems show ?thesis by auto
  next
    case True
    then have d: "drop (Suc i) rs = rs ! Suc i # drop (Suc (Suc i)) rs" by (simp add: Cons_nth_drop_Suc)
    have s: "skip_subsumed (ends info) (length rs) cur i =
        (if r_end (rs ! Suc i) \<le> r_end (rs ! cur) then skip_subsumed (ends info) (length rs) cur (Suc i) else Inr i)"
      using True assms(2) info_for_fields(3) [OF assms(1)] by (subst skip_subsumed.simps) simp
    show ?thesis
    proof (cases "r_end (rs ! Suc i) \<le> r_end (rs ! cur)")
      case yes: True
      from True have "length rs - Suc i < length rs - i" by simp
      from less.hyps [OF this True] obtain j where
        "skip_subsumed (ends info) (length rs) cur (Suc i) = Inr j" "Suc i \<le> j" "j < length rs"
        "drop (Suc j) rs = dropWhile (\<lambda>r. r_end r \<le> r_end (rs ! cur)) (drop (Suc (Suc i)) rs)" by blast
      with s yes d show ?thesis by auto
    next
      case False
      with s d less.prems show ?thesis by auto
    qed
  qed
qed

lemma rep_length_loop_from:
  assumes "info_for info bitset s rs" "i \<le> length rs"
  shows "rep_length_loop bitset info i len =
           Inr (len + int (length (excluded (drop i rs)) * (length NOT_STRING + length CLOSE_NOT_STRING)))"
  using assms(2)
proof (induction "length rs - i" arbitrary: i len rule: less_induct)
  case less
  note f = info_for_fields [OF assms(1)]
  show ?case
  proof (cases "i < length rs")
    case False
    with less.prems f(1) show ?thesis by (subst rep_length_loop.simps) simp
  next
    case True
    have d: "drop i rs = rs ! i # drop (Suc i) rs" using True by (simp add: Cons_nth_drop_Suc)
    from f(5) [OF True] obtain v where v: "aget (sets info) i = Inr v" "bitsetContains bitset v = Inr (r_in (rs ! i))"
      by blast
    show ?thesis
    proof (cases "r_in (rs ! i)")
      case yes: True
      have "rep_length_loop bitset info i len = rep_length_loop bitset info (Suc i) len"
        using True yes v f(1) by (subst rep_length_loop.simps) simp
      moreover have "length rs - Suc i < length rs - i" "Suc i \<le> length rs" using True by simp_all
      ultimately show ?thesis using less.hyps [of "Suc i" len] yes d by simp
    next
      case no: False
      from skip_subsumed_from [OF assms(1) True True] obtain j where
        j: "skip_subsumed (ends info) (length rs) i i = Inr j" "i \<le> j" "j < length rs" "drop (Suc j) rs = later_part rs i"
        by blast
      have "rep_length_loop bitset info i len =
          rep_length_loop bitset info (Suc j) (len + int (length NOT_STRING + length CLOSE_NOT_STRING))"
        using True no v f(1) j(1) by (subst rep_length_loop.simps) simp
      moreover have "length (excluded (drop i rs)) = Suc (length (excluded (drop (Suc j) rs)))"
        using no d j(4) by simp
      moreover have "length rs - Suc j < length rs - i" "Suc j \<le> length rs" using j True by simp_all
      ultimately show ?thesis using less.hyps [of "Suc j"] by (simp add: algebra_simps)
    qed
  qed
qed

lemma nested_nth:
  assumes "nested n rs" "i < length rs"
  shows "r_begin (rs ! i) \<le> r_end (rs ! i)" "r_end (rs ! i) \<le> n"
    and "i \<le> j \<Longrightarrow> j < length rs \<Longrightarrow> r_begin (rs ! i) \<le> r_begin (rs ! j)"
proof -
  show "r_begin (rs ! i) \<le> r_end (rs ! i)" "r_end (rs ! i) \<le> n"
    using assms nth_mem [of i rs] by (auto simp: nested_def)
  show "r_begin (rs ! i) \<le> r_begin (rs ! j)" if "i \<le> j" "j < length rs"
  proof (cases "i = j")
    case False
    with that have "i < j" by simp
    from assms(1) have "sorted_wrt (\<lambda>r r'. r_begin r \<le> r_begin r' \<and> (r_end r' \<le> r_end r \<or> r_end r \<le> r_begin r')) rs"
      by (simp add: nested_def)
    from sorted_wrt_nth_less [OF this \<open>i < j\<close> that(2)] show ?thesis by simp
  qed simp
qed

lemma copy_round_in:
  assumes "info_for info bitset s rs" "i < length rs" "r_in (rs ! i)"
    and "part = (if Suc i < length rs then take (r_begin (rs ! Suc i) - r_begin (rs ! i)) (drop (r_begin (rs ! i)) s)
                 else drop (r_begin (rs ! i)) s)"
    and "length out + length part \<le> cap"
  shows "rep_copy_loop cap bitset info s i before out =
           rep_copy_loop cap bitset info s (Suc i) i (out @ part)"
proof -
  note f = info_for_fields [OF assms(1)]
  let ?b = "r_begin (rs ! i)"
  from f(5) [OF assms(2)] assms(3) obtain v where
    v: "aget (sets info) i = Inr v" "bitsetContains bitset v = Inr True" by auto
  have bl: "?b \<le> length s" using nested_nth(1,2) [OF f(6) assms(2)] by simp
  show ?thesis
  proof (cases "Suc i < length rs")
    case True
    let ?n = "r_begin (rs ! Suc i) - ?b"
    have le: "?b \<le> r_begin (rs ! Suc i)" "r_begin (rs ! Suc i) \<le> length s"
      using nested_nth(3) [OF f(6) assms(2), of "Suc i"] nested_nth(1,2) [OF f(6) True] True by auto
    have "memcpy_part cap out (drop ?b s) (int (r_begin (rs ! Suc i)) - int ?b) = Inr (out @ part)"
      using memcpy_ok [of ?n "drop ?b s" out cap] assms(4,5) True le by (simp add: of_nat_diff)
    then show ?thesis using True assms(2) v f(1) f(2) [OF assms(2)] f(2) [OF True] f(4) [OF assms(2)]
      by (subst rep_copy_loop.simps) simp
  next
    case False
    have "memcpy_part cap out (drop ?b s) (int (length s) - int ?b) = Inr (out @ part)"
      using memcpy_ok [of "length s - ?b" "drop ?b s" out cap] assms(4,5) False bl by (simp add: of_nat_diff)
    moreover have "Suc i = numRanges info" using False assms(2) f(1) by simp
    ultimately show ?thesis using assms(2) v f(1) f(2) [OF assms(2)] f(4) [OF assms(2)]
      by (subst rep_copy_loop.simps) simp
  qed
qed

lemma copy_round_out:
  assumes "info_for info bitset s rs" "i < length rs" "\<not> r_in (rs ! i)"
    and "skip_subsumed (ends info) (length rs) i i = Inr j" "i \<le> j"
    and "part = NOT_STRING @ take (r_end (rs ! i) - r_begin (rs ! i)) (drop (r_begin (rs ! i)) s) @ CLOSE_NOT_STRING"
    and "gap = (if Suc j < length rs then take (r_begin (rs ! Suc j) - r_end (rs ! i)) (drop (r_end (rs ! i)) s) else [])"
    and "Suc j < length rs \<Longrightarrow> r_end (rs ! i) \<le> r_begin (rs ! Suc j)"
    and "length out + length (part @ gap) \<le> cap"
  shows "rep_copy_loop cap bitset info s i before out =
           rep_copy_loop cap bitset info s (Suc j) i (out @ part @ gap)"
proof -
  note f = info_for_fields [OF assms(1)]
  let ?b = "r_begin (rs ! i)" and ?e = "r_end (rs ! i)"
  let ?mid = "take (?e - ?b) (drop ?b s)"
  from f(5) [OF assms(2)] assms(3) obtain v where
    v: "aget (sets info) i = Inr v" "bitsetContains bitset v = Inr False" by auto
  have be: "?b \<le> ?e" "?e \<le> length s" using nested_nth(1,2) [OF f(6) assms(2)] by auto
  have len: "length out + (length NOT_STRING + ((?e - ?b) + (length CLOSE_NOT_STRING + length gap))) \<le> cap"
    using assms(6,9) be by simp
  have c1: "memcpy_part cap out NOT_STRING (int (length NOT_STRING)) = Inr (out @ NOT_STRING)"
    using memcpy_ok [of "length NOT_STRING" NOT_STRING out cap] len by simp
  have c2: "memcpy_part cap (out @ NOT_STRING) (drop ?b s) (int ?e - int ?b) = Inr (out @ NOT_STRING @ ?mid)"
    using memcpy_ok [of "?e - ?b" "drop ?b s" "out @ NOT_STRING" cap] len be by (simp add: of_nat_diff)
  have c3: "memcpy_part cap (out @ NOT_STRING @ ?mid) CLOSE_NOT_STRING (int (length CLOSE_NOT_STRING)) = Inr (out @ part)"
    using memcpy_ok [of "length CLOSE_NOT_STRING" CLOSE_NOT_STRING "out @ NOT_STRING @ ?mid" cap] len be assms(6)
    by simp
  have c4: "(if Suc j < length rs then
        res_bind (aget (begins info) (Suc j)) (\<lambda>b1.
          if int ?e < b1 then res_bind (string_at s (int ?e)) (\<lambda>q. memcpy_part cap (out @ part) q (b1 - int ?e))
          else Inr (out @ part)) else Inr (out @ part)) = Inr (out @ part @ gap)"
  proof (cases "Suc j < length rs \<and> ?e < r_begin (rs ! Suc j)")
    case True
    let ?n = "r_begin (rs ! Suc j) - ?e"
    have "r_begin (rs ! Suc j) \<le> length s"
      using nested_nth(1,2) [OF f(6), of "Suc j"] True by auto
    then have "memcpy_part cap (out @ part) (drop ?e s) (int (r_begin (rs ! Suc j)) - int ?e) = Inr ((out @ part) @ gap)"
      using memcpy_ok [of ?n "drop ?e s" "out @ part" cap] assms(7,9) True by (simp add: of_nat_diff)
    then show ?thesis using True f(2) [of "Suc j"] be by (simp add: string_at_def)
  next
    case False
    then have "gap = []" using assms(7,8) by auto
    with False f(2) [of "Suc j"] show ?thesis by auto
  qed
  show ?thesis
    using assms(2,4) v f(1) f(2) [OF assms(2)] f(3) [OF assms(2)] f(4) [OF assms(2)] c1 c2 c3 c4
    by (subst rep_copy_loop.simps) simp
qed

text \<open>
  From range \<open>i\<close> on, the main loop writes the annotated w from the begin of this range on,
  up to its end or up to the end of the last excluded range.
\<close>

lemma rep_copy_loop_from:
  assumes info: "info_for info bitset s rs" and "i < length rs"
    and "length out + length (annotate s (r_begin (rs ! i)) (excluded (drop i rs))) \<le> cap"
  shows "\<exists>w l. rep_copy_loop cap bitset info s i before out = Inr (out @ w, l) \<and> l < length rs \<and>
           (w = annotate s (r_begin (rs ! i)) (excluded (drop i rs)) \<or>
            w @ drop (r_end (rs ! l)) s = annotate s (r_begin (rs ! i)) (excluded (drop i rs)))"
  using assms(2,3)
proof (induction "length rs - i" arbitrary: i before out rule: less_induct)
  case less
  note f = info_for_fields [OF info]
  let ?b = "r_begin (rs ! i)" and ?e = "r_end (rs ! i)"
  have d: "drop i rs = rs ! i # drop (Suc i) rs" using less.prems by (simp add: Cons_nth_drop_Suc)
  have stop: "rep_copy_loop cap bitset info s (length rs) k o' = Inr (o', k)" for k o'
    using f(1) by (subst rep_copy_loop.simps) simp
  show ?case
  proof (cases "r_in (rs ! i)")
    case yes: True
    define part where "part = (if Suc i < length rs
      then take (r_begin (rs ! Suc i) - ?b) (drop ?b s) else drop ?b s)"
    show ?thesis
    proof (cases "Suc i < length rs")
      case True
      have "?b \<le> r_begin (rs ! Suc i)" using nested_nth(3) [OF f(6) less.prems(1)] True by simp
      from annotate_from [OF this excluded_drop_ascending [OF f(6) True]]
      have a: "annotate s ?b (excluded (drop i rs)) =
          part @ annotate s (r_begin (rs ! Suc i)) (excluded (drop (Suc i) rs))"
        using d yes True by (simp add: part_def)
      have fit: "length (out @ part) + length (annotate s (r_begin (rs ! Suc i)) (excluded (drop (Suc i) rs))) \<le> cap"
        using less.prems(2) a by simp
      have "length rs - Suc i < length rs - i" using less.prems(1) by simp
      from less.hyps [OF this True fit, of i] obtain w l where
        "rep_copy_loop cap bitset info s (Suc i) i (out @ part) = Inr ((out @ part) @ w, l)" "l < length rs"
        "w = annotate s (r_begin (rs ! Suc i)) (excluded (drop (Suc i) rs)) \<or>
         w @ drop (r_end (rs ! l)) s = annotate s (r_begin (rs ! Suc i)) (excluded (drop (Suc i) rs))"
        by blast
      then show ?thesis
        using copy_round_in [OF info less.prems(1) yes part_def, of out cap before] fit a
        by (intro exI [of _ "part @ w"] exI [of _ l]) auto
    next
      case False
      then have n: "Suc i = length rs" using less.prems(1) by simp
      then have a: "annotate s ?b (excluded (drop i rs)) = part" using d yes by (simp add: part_def)
      then show ?thesis
        using copy_round_in [OF info less.prems(1) yes part_def, of out cap before] less.prems n stop
        by (intro exI [of _ part] exI [of _ i]) simp
    qed
  next
    case no: False
    from skip_subsumed_from [OF info less.prems(1) less.prems(1)] obtain j where
      j: "skip_subsumed (ends info) (length rs) i i = Inr j" "i \<le> j" "j < length rs" "drop (Suc j) rs = later_part rs i"
      by blast
    define part where "part = NOT_STRING @ take (?e - ?b) (drop ?b s) @ CLOSE_NOT_STRING"
    define gap where "gap = (if Suc j < length rs then take (r_begin (rs ! Suc j) - ?e) (drop ?e s) else [])"
    have a0: "annotate s ?b (excluded (drop i rs)) = part @ annotate s ?e (excluded (drop (Suc j) rs))"
      using d no j(4) by (simp add: part_def)
    show ?thesis
    proof (cases "Suc j < length rs")
      case True
      have "drop (Suc j) rs = rs ! Suc j # drop (Suc (Suc j)) rs" using True by (simp add: Cons_nth_drop_Suc)
      moreover have "nested (length s) (rs ! i # drop (Suc i) rs)" using nested_drop [OF f(6), of i] d by simp
      ultimately have le: "?e \<le> r_begin (rs ! Suc j)" using dropWhile_begin(1) j(4) by metis
      from annotate_from [OF le excluded_drop_ascending [OF f(6) True]] a0 True
      have a: "annotate s ?b (excluded (drop i rs)) =
          part @ gap @ annotate s (r_begin (rs ! Suc j)) (excluded (drop (Suc j) rs))" by (simp add: gap_def)
      have fit: "length (out @ part @ gap) +
          length (annotate s (r_begin (rs ! Suc j)) (excluded (drop (Suc j) rs))) \<le> cap"
        using less.prems(2) a by simp
      have "length rs - Suc j < length rs - i" using less.prems(1) j by simp
      from less.hyps [OF this True fit, of i] obtain w l where
        "rep_copy_loop cap bitset info s (Suc j) i (out @ part @ gap) = Inr ((out @ part @ gap) @ w, l)" "l < length rs"
        "w = annotate s (r_begin (rs ! Suc j)) (excluded (drop (Suc j) rs)) \<or>
         w @ drop (r_end (rs ! l)) s = annotate s (r_begin (rs ! Suc j)) (excluded (drop (Suc j) rs))"
        by blast
      then show ?thesis
        using copy_round_out [OF info less.prems(1) no j(1,2) part_def gap_def le, of out cap before] fit a
        by (intro exI [of _ "part @ gap @ w"] exI [of _ l]) auto
    next
      case False
      then have "gap = []" "Suc j = length rs" using j(3) by (simp_all add: gap_def)
      moreover from this have "annotate s ?b (excluded (drop i rs)) = part @ drop ?e s" using a0 by simp
      ultimately show ?thesis
        using copy_round_out [OF info less.prems(1) no j(1,2) part_def gap_def, of out cap before]
          less.prems False stop
        by (intro exI [of _ part] exI [of _ i]) simp
    qed
  qed
qed

lemma generateTransProvRep_text:
  assumes info: "info_for info bitset s rs" and "find_info infos qid = Some info" "info_queryId info = qid"
  shows "generateTransProvRep infos (Some bitset) qid = Inr (annotate s 0 (excluded rs))"
proof -
  note f = info_for_fields [OF info]
  have nz: "rs \<noteq> []" "r_begin (hd rs) = 0" "info_string info = Some s" using info by (auto simp: info_for_def)
  then have b0: "0 < length rs" "r_begin (rs ! 0) = 0" by (auto simp: hd_conv_nth)
  let ?t = "annotate s 0 (excluded rs)"
  let ?k = "length (excluded rs) * (length NOT_STRING + length CLOSE_NOT_STRING)"
  have asc: "ascending (length s) 0 (excluded rs)" using excluded_drop_ascending [OF f(6) b0(1)] b0(2) by simp
  have lt: "length ?t = length s + ?k" using length_annotate [OF asc] by simp
  have r: "rep_length_loop bitset info 0 (int (length s)) = Inr (int (length ?t))"
    using rep_length_loop_from [OF info, of 0 "int (length s)"] lt by simp
  have "length [] + length (annotate s (r_begin (rs ! 0)) (excluded (drop 0 rs))) \<le> nat (int (length ?t) + 1)"
    using b0(2) by simp
  from rep_copy_loop_from [OF info b0(1) this, of 0] obtain w l where
    c: "rep_copy_loop (nat (int (length ?t) + 1)) bitset info s 0 0 [] = Inr (w, l)" "l < length rs"
      "w = ?t \<or> w @ drop (r_end (rs ! l)) s = ?t" unfolding b0(2) drop_0 append_Nil by blast
  show ?thesis
  proof (cases "length w < length ?t")
    case True
    then have t: "w @ drop (r_end (rs ! l)) s = ?t" using c(3) by auto
    have e: "r_end (rs ! l) \<le> length s" using nested_nth(1,2) [OF f(6) c(2)] by simp
    have "length w + (length s - r_end (rs ! l)) \<le> nat (int (length ?t) + 1)"
      using arg_cong [OF t, of length] by simp
    from memcpy_ok [OF _ this, of "drop (r_end (rs ! l)) s"] t e
    have "memcpy_part (nat (int (length ?t) + 1)) w (drop (r_end (rs ! l)) s) (int (length s) - int (r_end (rs ! l))) = Inr ?t"
      by (simp add: of_nat_diff)
    then show ?thesis using True r c f(3) [OF c(2)] assms(2,3) nz(3) e
      by (simp add: generateTransProvRep_def lookup_info_def string_at_def terminate_def of_nat_diff)
  next
    case False
    have "w = ?t" using c(3)
    proof
      assume t: "w @ drop (r_end (rs ! l)) s = ?t"
      have "length (drop (r_end (rs ! l)) s) = 0" using arg_cong [OF t, of length] False by simp
      with t show ?thesis by simp
    qed
    then show ?thesis using r c assms(2,3) nz(3)
      by (simp add: generateTransProvRep_def lookup_info_def terminate_def)
  qed
qed

section \<open>From the ranges of the printer to the text\<close>

definition range_of :: "VarBit \<Rightarrow> TransParseRange \<Rightarrow> range" where
  "range_of bitset r =
     (nat (range_begin r), nat (range_end r), elems (range_set r) \<subseteq> elems bitset)"

text \<open>What the printer promises of the ranges it opens and closes while it prints \<open>s\<close>.\<close>

definition printed_ranges :: "int \<Rightarrow> string \<Rightarrow> TransParseRange list \<Rightarrow> bool" where
  "printed_ranges n s ranges \<longleftrightarrow>
     ranges \<noteq> [] \<and> range_begin (hd ranges) = 0 \<and>
     (\<forall>r \<in> set ranges. vb_ok (range_set r) \<and> bit_len (range_set r) = n \<and> 0 \<le> range_begin r \<and>
        range_begin r \<le> range_end r \<and> range_end r \<le> int (length s)) \<and>
     sorted_wrt (\<lambda>r r'. range_begin r \<le> range_begin r' \<and>
        (range_end r' \<le> range_end r \<or> range_end r \<le> range_begin r')) ranges"

lemma printed_nested:
  assumes "printed_ranges n s ranges"
  shows "nested (length s) (map (range_of bitset) ranges)"
proof -
  have r: "0 \<le> range_begin r \<and> range_begin r \<le> range_end r \<and> range_end r \<le> int (length s)" if "r \<in> set ranges" for r
    using that assms by (auto simp: printed_ranges_def)
  then have "\<forall>r \<in> set (map (range_of bitset) ranges). r_begin r \<le> r_end r \<and> r_end r \<le> length s"
    by (fastforce simp: range_of_def)
  moreover have "sorted_wrt (\<lambda>r r'. r_begin r \<le> r_begin r' \<and> (r_end r' \<le> r_end r \<or> r_end r \<le> r_begin r'))
      (map (range_of bitset) ranges)"
    unfolding sorted_wrt_map
  proof (rule sorted_wrt_mono_rel)
    show "sorted_wrt (\<lambda>r r'. range_begin r \<le> range_begin r' \<and>
        (range_end r' \<le> range_end r \<or> range_end r \<le> range_begin r')) ranges"
      using assms by (simp add: printed_ranges_def)
    fix x y
    assume "x \<in> set ranges" "y \<in> set ranges" "range_begin x \<le> range_begin y \<and>
        (range_end y \<le> range_end x \<or> range_end x \<le> range_begin y)"
    with r show "r_begin (range_of bitset x) \<le> r_begin (range_of bitset y) \<and>
        (r_end (range_of bitset y) \<le> r_end (range_of bitset x) \<or> r_end (range_of bitset x) \<le> r_begin (range_of bitset y))"
      by (auto simp: range_of_def nat_mono)
  qed
  ultimately show ?thesis by (simp add: nested_def)
qed

lemma postprocessRanges_info:
  assumes "printed_ranges n s ranges" "vb_ok bitset" "bit_len bitset = n"
  shows "\<exists>info'. postprocessRanges ranges s info = Inr info' \<and>
           info_for info' bitset s (map (range_of bitset) ranges) \<and>
           info_queryId info' = info_queryId info \<and> hold info' = hold info \<and> cusorName info' = cusorName info"
proof -
  have r: "vb_ok (range_set r) \<and> bit_len (range_set r) = n \<and> 0 \<le> range_begin r \<and>
      range_begin r \<le> range_end r \<and> range_end r \<le> int (length s)" if "r \<in> set ranges" for r
    using that assms(1) by (auto simp: printed_ranges_def)
  have ne: "ranges \<noteq> []" "range_begin (hd ranges) = 0" using assms(1) by (auto simp: printed_ranges_def)
  have b: "\<forall>r \<in> set ranges. 0 \<le> range_begin r \<and> range_begin r \<le> int (length s)"
    using r by (meson order_trans)
  let ?info = "info\<lparr>numRanges := length ranges, begins := map range_begin ranges,
                 ends := map range_end ranges,
                 stringPointers := map (\<lambda>r. drop (nat (range_begin r)) s) ranges,
                 info_string := Some s, sets := map range_set ranges\<rparr>"
  have "bitsetContains bitset (range_set r) = Inr (elems (range_set r) \<subseteq> elems bitset)" if "r \<in> set ranges" for r
    using bitsetContains_iff [OF assms(2)] r [OF that] assms(3) by simp
  moreover have "int (nat (range_begin r)) = range_begin r" "int (nat (range_end r)) = range_end r"
    if "r \<in> set ranges" for r using r [OF that] by auto
  ultimately have "info_for ?info bitset s (map (range_of bitset) ranges)"
    using printed_nested [OF assms(1), of bitset] ne
    by (auto simp: info_for_def range_of_def hd_map)
  moreover have "postprocessRanges ranges s info = Inr ?info"
    using b by (simp add: postprocessRanges_def)
  ultimately show ?thesis by auto
qed

lemma annotated_text:
  assumes "printed_ranges n s ranges" "vb_ok bitset" "bit_len bitset = n"
  shows "\<exists>ts. annotate s 0 (excluded (map (range_of bitset) ranges)) = render ts \<and> strip ts = s \<and>
           (\<forall>k < length s. marks False ts ! k \<longleftrightarrow>
              (\<exists>r \<in> set ranges. \<not> elems (range_set r) \<subseteq> elems bitset \<and>
                 range_begin r \<le> int k \<and> int k < range_end r))"
proof -
  let ?rs = "map (range_of bitset) ranges"
  have nst: "nested (length s) ?rs" by (rule printed_nested [OF assms(1)])
  have "ranges \<noteq> []" "range_begin (hd ranges) = 0" using assms(1) by (auto simp: printed_ranges_def)
  then have "ascending (length s) 0 (excluded ?rs)"
    using excluded_ascending [OF nst, of 0] by simp
  then have "strip (tokens s 0 (excluded ?rs)) = s"
    "\<And>k. k < length s \<Longrightarrow> marks False (tokens s 0 (excluded ?rs)) ! k \<longleftrightarrow>
       (\<exists>(b, e) \<in> set (excluded ?rs). b \<le> k \<and> k < e)"
    using strip_tokens marks_tokens [of s 0 "excluded ?rs"] by auto
  moreover have "(\<exists>r \<in> set ?rs. \<not> r_in r \<and> r_begin r \<le> k \<and> k < r_end r) \<longleftrightarrow>
      (\<exists>r \<in> set ranges. \<not> elems (range_set r) \<subseteq> elems bitset \<and> range_begin r \<le> int k \<and> int k < range_end r)" for k
    by (auto simp: range_of_def nat_le_iff zless_nat_eq_int_zless)
  ultimately show ?thesis using excluded_covers [OF nst] annotate_tokens by metis
qed

section \<open>Mapping provenance\<close>

definition map_info :: "TransRepQueryInfo \<Rightarrow> (string \<times> VarBit) list \<Rightarrow> bool" where
  "map_info info ps \<longleftrightarrow>
     numRanges info = length ps \<and> sets info = map snd ps \<and> begins info = map (\<lambda>_. 0) ps \<and>
     stringPointers info = map fst ps \<and> ends info = map (\<lambda>p. int (length (fst p))) ps"

lemma fill_map_info_rep:
  "length as = length bs \<Longrightarrow> map_info (fill_map_info as bs info) (zip as bs)"
  by (simp add: map_info_def fill_map_info_def Let_def)

definition chosen :: "VarBit \<Rightarrow> (string \<times> VarBit) list \<Rightarrow> nat list \<Rightarrow> string" where
  "chosen b ps is = concat (map (\<lambda>i. if elems (snd (ps ! i)) = elems b then fst (ps ! i) else []) is)"

lemma map_length_loop_chosen:
  assumes "map_info info ps" "\<And>p. p \<in> set ps \<Longrightarrow> bitsetEqual (snd p) b = Inr (elems (snd p) = elems b)"
  shows "\<forall>i \<in> set is. i < length ps \<Longrightarrow> map_length_loop b info is len = Inr (len + int (length (chosen b ps is)))"
  by (induction "is" arbitrary: len) (use assms in \<open>auto simp: chosen_def map_info_def aget_def\<close>)

lemma map_copy_loop_chosen:
  assumes "map_info info ps" "\<And>p. p \<in> set ps \<Longrightarrow> bitsetEqual (snd p) b = Inr (elems (snd p) = elems b)"
  shows "\<forall>i \<in> set is. i < length ps \<Longrightarrow> length out + length (chosen b ps is) \<le> cap \<Longrightarrow>
           map_copy_loop cap b info is out = Inr (out @ chosen b ps is)"
  by (induction "is" arbitrary: out) (use assms in \<open>auto simp: chosen_def map_info_def aget_def memcpy_part_def\<close>)

lemma generateMapRep_chosen:
  assumes "map_info info ps" "find_info infos (info_queryId info) = Some info" "vb_ok b"
    "\<And>p. p \<in> set ps \<Longrightarrow> vb_ok (snd p) \<and> bit_len (snd p) = bit_len b"
  shows "generateMapRep infos (Some b) (info_queryId info) =
           Inr (concat (map fst (filter (\<lambda>p. elems (snd p) = elems b) ps)))"
proof -
  have eq: "bitsetEqual (snd p) b = Inr (elems (snd p) = elems b)" if "p \<in> set ps" for p
    using assms(3,4) that by (simp add: bitsetEqual_iff)
  have n: "numRanges info = length ps" using assms(1) by (simp add: map_info_def)
  have all: "\<forall>i \<in> set [0..<length ps]. i < length ps" by simp
  let ?c = "chosen b ps [0..<length ps]"
  have "?c = concat (map (\<lambda>p. if elems (snd p) = elems b then fst p else []) (map ((!) ps) [0..<length ps]))"
    unfolding chosen_def map_map comp_def ..
  also have "\<dots> = concat (map fst (filter (\<lambda>p. elems (snd p) = elems b) ps))"
    unfolding map_nth by (induction ps) auto
  finally have c: "?c = \<dots>" .
  have "map_length_loop b info [0..<numRanges info] 0 = Inr (int (length ?c))"
    using map_length_loop_chosen [OF assms(1) eq all, of 0] n by simp
  moreover have "map_copy_loop (nat (int (length ?c) + 1)) b info [0..<numRanges info] [] = Inr ?c"
    using map_copy_loop_chosen [OF assms(1) eq all, of "[]"] n by simp
  ultimately show ?thesis
    using assms(2) c by (simp add: generateMapRep_def lookup_info_def terminate_def)
qed

end
