(* ===== verification/TransIndex.thy ===== *)
theory TransIndex
  imports TransRepCorrect ProvStack
begin

text \<open>
  The table of query representations: \<open>transProvQueryIndex\<close> and the functions of
  \<open>prov_trans_bitset.c\<close> that fill and clear it.  The table is a \<open>List\<close> of pointers to
  \<open>TransRepQueryInfo\<close> structures; the pointers and cells live in the store of \<open>list.c\<close>, the
  structures in a map beside it.  The printers that produce text and ranges of a query
  (\<open>parseBackTrans\<close>, \<open>generateMappingBitsets\<close>) are parameters: what they return is an argument.
\<close>

section \<open>State\<close>

record transState =
  theap :: heap
  tindex :: "addr option" \<comment> \<open>\<open>transProvQueryIndex\<close>: the list in it, or \<open>NULL\<close>\<close>
  tinfos :: "addr \<rightharpoonup> TransRepQueryInfo"
  nextQueryId :: "32 word" \<comment> \<open>the counter \<open>queryId\<close>, an \<open>int\<close> that is incremented and wraps\<close>

definition get_info :: "transState \<Rightarrow> addr \<Rightarrow> TransRepQueryInfo res" where
  "get_info st a = (case tinfos st a of None \<Rightarrow> Inl NullDeref | Some i \<Rightarrow> Inr i)"

definition put_info :: "transState \<Rightarrow> addr \<Rightarrow> TransRepQueryInfo \<Rightarrow> transState" where
  "put_info st a i = st\<lparr>tinfos := (tinfos st)(a \<mapsto> i)\<rparr>"

definition the_index :: "transState \<Rightarrow> addr res" where
  "the_index st = (case tindex st of None \<Rightarrow> Inl NullDeref | Some l \<Rightarrow> Inr l)"

section \<open>Releasing representations\<close>

text \<open>
  All storage of the structure is given back.  The loop over \<open>sets\<close> also reads the word after
  the array, into a variable that is not used afterwards; this read is left out.
\<close>

definition freeQueryRepInfo :: "transState \<Rightarrow> addr \<Rightarrow> transState res" where
  "freeQueryRepInfo st info =
     (if tinfos st info = None then Inl BadFree
      else Inr (st\<lparr>tinfos := (tinfos st)(info := None),
                   theap := (theap st)\<lparr>objs := objs (theap st) - {info}\<rparr>\<rparr>))"

definition listRemoveQueryInfoCell :: "transState \<Rightarrow> addr \<Rightarrow> addr \<Rightarrow> addr \<Rightarrow> transState res" where
  "listRemoveQueryInfoCell st list cell before =
     res_bind (list_length (theap st) list) (\<lambda>len.
       if len = 1 then
         res_bind (head_field (theap st) list) (\<lambda>hd.
         res_bind (lfirst (theap st) hd) (\<lambda>info.
         res_bind (freeQueryRepInfo st info) (\<lambda>st.
         res_bind (pfree (theap st) list) (\<lambda>h.
           Inr (st\<lparr>theap := h, tindex := Some NIL\<rparr>)))))
       else
         res_bind (get_list (theap st) list) (\<lambda>L.
         res_bind (if cell = lhead L then
                     res_bind (lnext (theap st) cell) (\<lambda>n. Inr (theap st, L\<lparr>lhead := n\<rparr>))
                   else if cell \<noteq> ltail L then
                     res_bind (set_next (theap st) before 0) (\<lambda>h. Inr (h, L\<lparr>ltail := before\<rparr>))
                   else
                     res_bind (lnext (theap st) cell) (\<lambda>n.
                     res_bind (set_next (theap st) before n) (\<lambda>h. Inr (h, L)))) (\<lambda>(h, L).
           let h = put_list h list (L\<lparr>llength := llength L - 1\<rparr>) in
           res_bind (lfirst h cell) (\<lambda>info.
           res_bind (freeQueryRepInfo (st\<lparr>theap := h\<rparr>) info) (\<lambda>st.
           res_bind (pfree (theap st) cell) (\<lambda>h. Inr (st\<lparr>theap := h\<rparr>)))))))"

text \<open>
  The loop \<open>foreachwithbefore\<close> of \<open>dropTransProvQueryIndex\<close>.  After a removal the loop
  variable is set to \<open>before\<close>, and the loop goes on with \<open>before->next\<close>.
\<close>

fun drop_loop :: "nat \<Rightarrow> transState \<Rightarrow> addr \<Rightarrow> addr \<Rightarrow> transState res" where
  "drop_loop 0 st lc before = Inl Diverges"
| "drop_loop (Suc fuel) st lc before =
     (if lc = 0 then Inr st
      else
        res_bind (lfirst (theap st) lc) (\<lambda>p.
        res_bind (get_info st p) (\<lambda>info.
          if \<not> hold info then
            res_bind (the_index st) (\<lambda>list.
            res_bind (listRemoveQueryInfoCell st list lc before) (\<lambda>st.
              if tindex st = Some NIL then Inr st
              else res_bind (lnext (theap st) before) (\<lambda>lc. drop_loop fuel st lc before)))
          else res_bind (lnext (theap st) lc) (\<lambda>n. drop_loop fuel st n lc))))"

definition dropTransProvQueryIndex :: "transState \<Rightarrow> transState res" where
  "dropTransProvQueryIndex st =
     (let st = (if tindex st = None then st\<lparr>nextQueryId := 0, tindex := Some NIL\<rparr> else st) in
      res_bind (the_index st) (\<lambda>list.
      res_bind (list_head (theap st) list) (\<lambda>lc. drop_loop (brk (theap st)) st lc 0)))"

fun release_loop :: "nat \<Rightarrow> (TransRepQueryInfo \<Rightarrow> bool res) \<Rightarrow> transState \<Rightarrow> addr \<Rightarrow> transState res" where
  "release_loop 0 test st lc = Inl Diverges"
| "release_loop (Suc fuel) test st lc =
     (if lc = 0 then Inr st
      else
        res_bind (lfirst (theap st) lc) (\<lambda>p.
        res_bind (get_info st p) (\<lambda>info.
        res_bind (test info) (\<lambda>match.
          let st = (if match then put_info st p (info\<lparr>hold := False\<rparr>) else st) in
          res_bind (lnext (theap st) lc) (\<lambda>lc. release_loop fuel test st lc)))))"

definition releaseAllHolds :: "transState \<Rightarrow> transState res" where
  "releaseAllHolds st =
     (case tindex st of
        None \<Rightarrow> Inr st
      | Some list \<Rightarrow>
          res_bind (list_head (theap st) list) (\<lambda>lc.
            release_loop (brk (theap st)) (\<lambda>_. Inr True) st lc))"

text \<open>\<open>strcmp(cursorName, info->cusorName) == 0\<close>; the name is \<open>NULL\<close> for a query without a cursor.\<close>

definition cursor_matches :: "string \<Rightarrow> TransRepQueryInfo \<Rightarrow> bool res" where
  "cursor_matches cursorName info =
     (case cusorName info of None \<Rightarrow> Inl NullDeref | Some n \<Rightarrow> Inr (n = cursorName))"

definition releaseHold :: "transState \<Rightarrow> string \<Rightarrow> transState res" where
  "releaseHold st cursorName =
     res_bind (the_index st) (\<lambda>list.
     res_bind (list_head (theap st) list) (\<lambda>lc.
       release_loop (brk (theap st)) (cursor_matches cursorName) st lc))"

section \<open>Adding representations\<close>

definition blank_info :: "int \<Rightarrow> string option \<Rightarrow> TransRepQueryInfo" where
  "blank_info qid cursorName =
     \<lparr>info_queryId = qid, info_string = None, sets = [], begins = [], ends = [], stringPointers = [],
      numRanges = 0, hold = (cursorName \<noteq> None), cusorName = cursorName\<rparr>"

text \<open>
  The part the three functions share; \<open>fill\<close> is the call that prints the query.  The field
  \<open>queryId\<close> is an \<open>Index\<close>, so it holds the counter's bits read as an unsigned number.
\<close>

definition generate_index ::
    "transState \<Rightarrow> (TransRepQueryInfo \<Rightarrow> TransRepQueryInfo res) \<Rightarrow> string option \<Rightarrow> (32 word \<times> transState) res" where
  "generate_index st fill cursorName =
     (let (newInfo, h) = palloc_obj (theap st);
          qid = nextQueryId st;
          info = blank_info (uint qid) cursorName;
          st = st\<lparr>theap := h, nextQueryId := qid + 1\<rparr>
      in res_bind (the_index st) (\<lambda>list.
         res_bind (lappend (theap st) list newInfo) (\<lambda>(list, h).
         res_bind (fill info) (\<lambda>info.
           Inr (qid, put_info (st\<lparr>theap := h, tindex := Some list\<rparr>) newInfo info)))))"

definition generateTransProvQueryIndex ::
    "transState \<Rightarrow> TransParseRange list \<Rightarrow> string \<Rightarrow> string option \<Rightarrow> (32 word \<times> transState) res" where
  "generateTransProvQueryIndex st ranges str cursorName =
     generate_index st (postprocessRanges ranges str) cursorName"

definition generateTransXmlQueryIndex ::
    "transState \<Rightarrow> TransParseRange list \<Rightarrow> string \<Rightarrow> string option \<Rightarrow> (32 word \<times> transState) res" where
  "generateTransXmlQueryIndex st ranges str cursorName =
     generate_index st (postprocessRanges ranges str) cursorName"

definition generateMapQueryIndex ::
    "transState \<Rightarrow> string list \<Rightarrow> VarBit list \<Rightarrow> string option \<Rightarrow> (32 word \<times> transState) res" where
  "generateMapQueryIndex st annotations bitSets cursorName =
     generate_index st (\<lambda>info. Inr (fill_map_info annotations bitSets info)) cursorName"

section \<open>Statements\<close>

text \<open>
  What \<open>provenanceRewriteQuery\<close> does to the table for one statement: a \<open>CLOSE\<close> releases its
  cursor, every statement drops what is not held, and each query of a \<open>SELECT\<close> that asks for
  its transformation provenance adds an entry, held when the statement declares a cursor.
\<close>

datatype statement =
    CloseStmt string
  | SelectStmt "string option" "(TransParseRange list \<times> string) list"
  | OtherStmt

fun rewrite_queries ::
    "transState \<Rightarrow> string option \<Rightarrow> (TransParseRange list \<times> string) list \<Rightarrow> transState res" where
  "rewrite_queries st cur [] = Inr st"
| "rewrite_queries st cur ((ranges, str) # qs) =
     res_bind (generateTransProvQueryIndex st ranges str cur) (\<lambda>(qid, st). rewrite_queries st cur qs)"

definition rewrite_statement :: "transState \<Rightarrow> statement \<Rightarrow> transState res" where
  "rewrite_statement st s =
     res_bind (case s of CloseStmt name \<Rightarrow> releaseHold st name | _ \<Rightarrow> Inr st) (\<lambda>st.
     res_bind (dropTransProvQueryIndex st) (\<lambda>st.
       case s of SelectStmt cur qs \<Rightarrow> rewrite_queries st cur qs | _ \<Rightarrow> Inr st))"

fun rewrite_session :: "transState \<Rightarrow> statement list \<Rightarrow> transState res" where
  "rewrite_session st [] = Inr st"
| "rewrite_session st (s # ss) = res_bind (rewrite_statement st s) (\<lambda>st. rewrite_session st ss)"

text \<open>A backend before its first statement.\<close>

definition fresh_state :: "transState \<Rightarrow> bool" where
  "fresh_state st \<longleftrightarrow>
     tindex st = None \<and> heap_ok (theap st) \<and> tinfos st = Map.empty"

section \<open>The invariant of the table\<close>

text \<open>
  The entries of the table in order; every entry is a structure of its own, and the identifiers
  are distinct and have all been handed out.
\<close>

definition index_ok :: "transState \<Rightarrow> addr list \<Rightarrow> bool" where
  "index_ok st ps \<longleftrightarrow>
     heap_ok (theap st) \<and> dom (tinfos st) \<subseteq> objs (theap st) \<and>
     (\<exists>l xs. tindex st = Some l \<and> list_rep (theap st) T_List l xs \<and> vals xs = map PtrVal ps) \<and>
     distinct ps \<and> set ps \<subseteq> dom (tinfos st) \<and>
     distinct (map (\<lambda>p. info_queryId (the (tinfos st p))) ps) \<and>
     (\<forall>p \<in> set ps. info_queryId (the (tinfos st p)) < uint (nextQueryId st))"

definition infos_of :: "transState \<Rightarrow> addr list \<Rightarrow> TransRepQueryInfo list" where
  "infos_of st ps = map (\<lambda>p. the (tinfos st p)) ps"

end
