(* ===== verification/TransIndexSpec.thy ===== *)
theory TransIndexSpec
  imports TransIndex PgListSets
begin

text \<open>
  What the functions of the table do on a table that satisfies \<open>index_ok\<close>: adding keeps the
  invariant and returns an identifier that finds the new entry, releasing changes the \<open>hold\<close>
  fields only, and dropping is correct when there is nothing to drop or one entry.
\<close>

section \<open>Lookup\<close>

lemma find_info_unique:
  "distinct (map info_queryId xs) \<Longrightarrow> i \<in> set xs \<Longrightarrow> find_info xs (info_queryId i) = Some i"
proof (induction xs)
  case (Cons x xs)
  show ?case
  proof (cases "i = x")
    case False
    then have m: "i \<in> set xs" using Cons.prems(2) by simp
    then have "info_queryId x \<noteq> info_queryId i" using Cons.prems(1) by force
    then show ?thesis using Cons m by auto
  qed simp
qed simp

lemma infos_of_append: "infos_of st (ps @ qs) = infos_of st ps @ infos_of st qs"
  by (simp add: infos_of_def)

lemma index_ok_lookup:
  assumes "index_ok st ps" "i \<in> set (infos_of st ps)"
  shows "find_info (infos_of st ps) (info_queryId i) = Some i"
  using assms by (intro find_info_unique) (auto simp: index_ok_def infos_of_def comp_def)

section \<open>Adding an entry\<close>

lemma next_id: "q \<noteq> - 1 \<Longrightarrow> uint (q + 1) = uint q + 1" for q :: "32 word"
proof -
  assume "q \<noteq> - 1"
  moreover have "uint (- 1 :: 32 word) = 4294967295" by (simp add: unsigned_minus_1_eq_mask mask_eq_exp_minus_1)
  ultimately have "uint q \<noteq> 4294967295" by (metis word_uint_eqI)
  then show ?thesis
    using uint_lt2p [of q] by (simp add: uint_word_ariths)
qed

lemma heap_ok_palloc_obj: "heap_ok h \<Longrightarrow> heap_ok (h\<lparr>objs := insert (brk h) (objs h), brk := Suc (brk h)\<rparr>)"
  by (auto simp: heap_ok_def less_Suc_eq)

lemma generate_index_step:
  assumes ok: "index_ok st ps" and q: "nextQueryId st \<noteq> - 1"
    and fill: "fill (blank_info (uint (nextQueryId st)) cn) = Inr info" "info_queryId info = uint (nextQueryId st)"
  shows "\<exists>st' p. generate_index st fill cn = Inr (nextQueryId st, st') \<and> index_ok st' (ps @ [p]) \<and>
           infos_of st' (ps @ [p]) = infos_of st ps @ [info]"
proof -
  obtain l xs where l: "tindex st = Some l" "list_rep (theap st) T_List l xs" "vals xs = map PtrVal ps"
    using ok by (auto simp: index_ok_def)
  let ?p = "brk (theap st)"
  let ?h = "(theap st)\<lparr>objs := insert ?p (objs (theap st)), brk := Suc ?p\<rparr>"
  have hok: "heap_ok (theap st)" using ok by (simp add: index_ok_def)
  have new: "?p \<notin> objs (theap st)" using hok by (auto simp: heap_ok_def)
  have "heap_ok ?h" using hok by (rule heap_ok_palloc_obj)
  moreover have "list_rep ?h T_List l xs"
    using l(2) lseg_frame [of xs ?h "theap st"] by (simp add: list_rep_def)
  ultimately obtain l' h' a where s: "lappend_gen T_List ?h l (PtrVal ?p) = Inr (l', h')"
      "list_step ?h T_List l xs h' l' (xs @ [(a, PtrVal ?p)])"
    using lappend_gen_step [of ?h T_List l xs "PtrVal ?p"] by auto
  let ?st = "put_info (st\<lparr>theap := h', nextQueryId := nextQueryId st + 1, tindex := Some l'\<rparr>) ?p info"
  have g: "generate_index st fill cn = Inr (nextQueryId st, ?st)"
    using s(1) l(1) fill(1)
    by (simp add: generate_index_def palloc_obj_def the_index_def lappend_def put_info_def Let_def)
  have ps: "?p \<notin> set ps" using ok new unfolding index_ok_def by blast
  have same: "infos_of ?st ps = infos_of st ps"
    using ps by (auto simp: infos_of_def put_info_def)
  have last: "infos_of ?st [?p] = [info]" by (simp add: infos_of_def put_info_def)
  have old: "distinct (map info_queryId (infos_of st ps))"
    "\<forall>i \<in> set (infos_of st ps). info_queryId i < uint (nextQueryId st)"
    using ok by (simp_all add: index_ok_def infos_of_def comp_def)
  have "\<exists>l xs. tindex ?st = Some l \<and> list_rep (theap ?st) T_List l xs \<and> vals xs = map PtrVal (ps @ [?p])"
    using s(2) l(3) by (intro exI [of _ l'] exI [of _ "xs @ [(a, PtrVal ?p)]"]) (simp add: list_step_def put_info_def)
  moreover have "distinct (map info_queryId (infos_of ?st (ps @ [?p])))"
    using old fill(2) unfolding infos_of_append same last by force
  moreover have "\<forall>i \<in> set (infos_of ?st (ps @ [?p])). info_queryId i < uint (nextQueryId ?st)"
    using old(2) fill(2) next_id [OF q] unfolding infos_of_append same last by (force simp: put_info_def)
  ultimately have "index_ok ?st (ps @ [?p])"
    using s(2) ok ps
    by (auto simp: index_ok_def put_info_def list_step_def infos_of_def comp_def)
  then show ?thesis
    using g same last by (intro exI [of _ ?st] exI [of _ ?p]) (simp only: infos_of_append simp_thms)
qed

section \<open>Releasing\<close>

definition released :: "transState \<Rightarrow> (addr \<Rightarrow> bool) \<Rightarrow> addr list \<Rightarrow> transState" where
  "released st b ps =
     st\<lparr>tinfos := (\<lambda>a. if a \<in> set ps \<and> b a then Some (the (tinfos st a)\<lparr>hold := False\<rparr>) else tinfos st a)\<rparr>"

lemma release_loop_seg:
  assumes "lseg (theap st) lc xs 0" "vals xs = map PtrVal ps" "set ps \<subseteq> dom (tinfos st)" "distinct ps"
    "length xs < fuel" "\<And>p. p \<in> set ps \<Longrightarrow> test (the (tinfos st p)) = Inr (b p)"
  shows "release_loop fuel test st lc = Inr (released st b ps)"
  using assms
proof (induction xs arbitrary: fuel st lc ps)
  case Nil
  then show ?case by (cases fuel) (auto simp: released_def)
next
  case (Cons x xs)
  then obtain p qs k n i where v: "ps = p # qs" "fuel = Suc k" "snd x = PtrVal p"
      "cells (theap st) lc = Some \<lparr>cdata = snd x, cnext = n\<rparr>" "lc \<noteq> 0"
      "lseg (theap st) n xs 0" "tinfos st p = Some i"
    by (cases ps; cases fuel) auto
  let ?st = "if b p then put_info st p (i\<lparr>hold := False\<rparr>) else st"
  have "release_loop k test ?st n = Inr (released ?st b qs)"
    using Cons.prems v by (intro Cons.IH) (auto simp: put_info_def)
  moreover have "released ?st b qs = released st b ps"
    using Cons.prems(4) v(1,7) by (auto simp: released_def put_info_def fun_eq_iff)
  moreover have "test i = Inr (b p)" using Cons.prems(6) [of p] v(1,7) by simp
  ultimately show ?case
    using v by (simp add: lfirst_def lnext_def get_cell_def get_info_def put_info_def Let_def split: if_splits)
qed

lemma index_ok_released:
  assumes "index_ok st ps"
  shows "index_ok (released st b ps) ps"
proof -
  have "info_queryId (the (tinfos (released st b ps) p)) = info_queryId (the (tinfos st p))" for p
    by (simp add: released_def)
  moreover have "dom (tinfos (released st b ps)) = dom (tinfos st)"
    using assms by (auto simp: released_def index_ok_def dom_def split: if_splits)
  moreover have "theap (released st b ps) = theap st" "tindex (released st b ps) = tindex st"
    "nextQueryId (released st b ps) = nextQueryId st"
    by (simp_all add: released_def)
  ultimately show ?thesis using assms by (simp add: index_ok_def)
qed

lemma infos_of_released:
  "infos_of (released st b ps) ps =
     map (\<lambda>p. if b p then the (tinfos st p)\<lparr>hold := False\<rparr> else the (tinfos st p)) ps"
  by (auto simp: infos_of_def released_def)

lemma index_ok_list:
  assumes "index_ok st ps"
  shows "\<exists>l xs lc. tindex st = Some l \<and> list_rep (theap st) T_List l xs \<and> vals xs = map PtrVal ps \<and>
           list_head (theap st) l = Inr lc \<and> lseg (theap st) lc xs 0 \<and> length xs < brk (theap st)"
proof -
  obtain l xs where l: "tindex st = Some l" "list_rep (theap st) T_List l xs" "vals xs = map PtrVal ps"
    using assms by (auto simp: index_ok_def)
  have "heap_ok (theap st)" using assms by (simp add: index_ok_def)
  then have "length xs < brk (theap st)" using l(2) by (rule list_rep_length)
  moreover have "list_head (theap st) l = Inr (if xs = [] then 0 else fst (hd xs))"
    using l(2) by (rule list_head_rep)
  moreover have "lseg (theap st) (if xs = [] then 0 else fst (hd xs)) xs 0"
    using l(2) by (auto simp: list_rep_def split: if_splits)
  ultimately show ?thesis using l by blast
qed

lemma releaseAllHolds_step:
  assumes "index_ok st ps"
  shows "releaseAllHolds st = Inr (released st (\<lambda>_. True) ps)"
proof -
  from index_ok_list [OF assms] obtain l xs lc where
    "tindex st = Some l" "list_head (theap st) l = Inr lc" "lseg (theap st) lc xs 0"
    "vals xs = map PtrVal ps" "length xs < brk (theap st)" by blast
  then show ?thesis
    using release_loop_seg [of st lc xs ps "brk (theap st)" "\<lambda>_. Inr True" "\<lambda>_. True"] assms
    by (simp add: releaseAllHolds_def index_ok_def)
qed

lemma releaseHold_step:
  assumes "index_ok st ps" "\<And>i. i \<in> set (infos_of st ps) \<Longrightarrow> cusorName i \<noteq> None"
  shows "releaseHold st c = Inr (released st (\<lambda>p. cusorName (the (tinfos st p)) = Some c) ps)"
proof -
  from index_ok_list [OF assms(1)] obtain l xs lc where
    "tindex st = Some l" "list_head (theap st) l = Inr lc" "lseg (theap st) lc xs 0"
    "vals xs = map PtrVal ps" "length xs < brk (theap st)" by blast
  moreover have "cursor_matches c (the (tinfos st p)) = Inr (cusorName (the (tinfos st p)) = Some c)"
    if "p \<in> set ps" for p
    using assms(2) [of "the (tinfos st p)"] that by (auto simp: cursor_matches_def infos_of_def)
  ultimately show ?thesis
    using release_loop_seg [of st lc xs ps "brk (theap st)" "cursor_matches c"
        "\<lambda>p. cusorName (the (tinfos st p)) = Some c"] assms(1)
    by (simp add: releaseHold_def the_index_def index_ok_def)
qed

text \<open>The comparison with the name of an entry without a cursor reads through a null pointer.\<close>

lemma release_loop_null:
  assumes "lseg (theap st) lc xs 0" "vals xs = map PtrVal ps" "set ps \<subseteq> dom (tinfos st)" "distinct ps"
    "length xs < fuel" "\<exists>p \<in> set ps. cusorName (the (tinfos st p)) = None"
  shows "release_loop fuel (cursor_matches c) st lc = Inl NullDeref"
  using assms
proof (induction xs arbitrary: fuel st lc ps)
  case (Cons x xs)
  then obtain p qs k n i where v: "ps = p # qs" "fuel = Suc k" "snd x = PtrVal p"
      "cells (theap st) lc = Some \<lparr>cdata = snd x, cnext = n\<rparr>" "lc \<noteq> 0"
      "lseg (theap st) n xs 0" "tinfos st p = Some i"
    by (cases ps; cases fuel) auto
  show ?case
  proof (cases "cusorName i")
    case None
    then show ?thesis using v by (simp add: lfirst_def get_cell_def get_info_def cursor_matches_def)
  next
    case (Some m)
    let ?st = "if m = c then put_info st p (i\<lparr>hold := False\<rparr>) else st"
    have "\<exists>q \<in> set qs. cusorName (the (tinfos ?st q)) = None"
      using Cons.prems(6,4) v(1,7) Some by (auto simp: put_info_def)
    then have "release_loop k (cursor_matches c) ?st n = Inl NullDeref"
      using Cons.prems v by (intro Cons.IH) (auto simp: put_info_def)
    moreover have "cursor_matches c i = Inr (m = c)" using Some by (simp add: cursor_matches_def)
    ultimately show ?thesis using v
      by (simp add: lfirst_def lnext_def get_cell_def get_info_def put_info_def Let_def split: if_splits)
  qed
qed auto

lemma releaseHold_null:
  assumes "index_ok st ps" "i \<in> set (infos_of st ps)" "cusorName i = None"
  shows "releaseHold st c = Inl NullDeref"
proof -
  from index_ok_list [OF assms(1)] obtain l xs lc where
    l: "tindex st = Some l" "list_head (theap st) l = Inr lc" "lseg (theap st) lc xs 0"
    "vals xs = map PtrVal ps" "length xs < brk (theap st)" by blast
  have "\<exists>p \<in> set ps. cusorName (the (tinfos st p)) = None" using assms(2,3) by (auto simp: infos_of_def)
  with l show ?thesis
    using release_loop_null [of st lc xs ps "brk (theap st)" c] assms(1)
    by (simp add: releaseHold_def the_index_def index_ok_def)
qed

section \<open>Dropping\<close>

lemma drop_loop_skip:
  assumes "lseg (theap st) lc xs m" "vals xs = map PtrVal ps" "set ps \<subseteq> dom (tinfos st)"
    "\<And>p. p \<in> set ps \<Longrightarrow> hold (the (tinfos st p))"
  shows "drop_loop (length xs + k) st lc before =
           drop_loop k st m (if xs = [] then before else fst (last xs))"
  using assms
proof (induction xs arbitrary: lc ps before)
  case (Cons x xs)
  then obtain p qs n i where v: "ps = p # qs" "snd x = PtrVal p" "lc = fst x"
      "cells (theap st) lc = Some \<lparr>cdata = snd x, cnext = n\<rparr>" "lc \<noteq> 0"
      "lseg (theap st) n xs m" "tinfos st p = Some i"
    by (cases ps) auto
  have "drop_loop (length xs + k) st n lc = drop_loop k st m (if xs = [] then lc else fst (last xs))"
    using Cons.prems v by (intro Cons.IH) auto
  moreover have "hold i" using Cons.prems(4) [of p] v(1,7) by simp
  ultimately show ?case
    using v by (simp add: lfirst_def lnext_def get_cell_def get_info_def)
qed simp

lemma drop_all_held:
  assumes "index_ok st ps" "\<And>i. i \<in> set (infos_of st ps) \<Longrightarrow> hold i"
  shows "dropTransProvQueryIndex st = Inr st"
proof -
  from index_ok_list [OF assms(1)] obtain l xs lc where
    l: "tindex st = Some l" "list_head (theap st) l = Inr lc" "lseg (theap st) lc xs 0"
    "vals xs = map PtrVal ps" "length xs < brk (theap st)" by blast
  then obtain k where k: "brk (theap st) = length xs + Suc k" by (metis less_imp_Suc_add add_Suc_right)
  have "drop_loop (length xs + Suc k) st lc 0 = drop_loop (Suc k) st 0 (if xs = [] then 0 else fst (last xs))"
    using l(3,4) assms by (intro drop_loop_skip) (auto simp: index_ok_def infos_of_def)
  then show ?thesis
    using l k by (simp add: dropTransProvQueryIndex_def the_index_def)
qed

lemma index_header:
  assumes "list_rep (theap st) T_List l xs" "xs \<noteq> []"
  shows "l \<noteq> NIL" "lists (theap st) l = Some (header T_List xs)" "list_head (theap st) l = Inr (fst (hd xs))"
    "list_length (theap st) l = Inr (int (length xs))" "get_list (theap st) l = Inr (header T_List xs)"
  using assms list_head_rep [OF assms(1)] list_length_rep [OF assms(1)]
  by (auto simp: list_rep_def get_list_def split: if_splits)

lemma drop_only_entry:
  assumes "index_ok st [p]" "\<not> hold (the (tinfos st p))"
  shows "\<exists>st'. dropTransProvQueryIndex st = Inr st' \<and> index_ok st' [] \<and> tinfos st' = (tinfos st)(p := None) \<and>
           nextQueryId st' = nextQueryId st"
proof -
  from index_ok_list [OF assms(1)] obtain l xs lc where
    l: "tindex st = Some l" "list_rep (theap st) T_List l xs" "list_head (theap st) l = Inr lc"
    "lseg (theap st) lc xs 0" "vals xs = [PtrVal p]" "length xs < brk (theap st)" by auto
  then obtain a where xs: "xs = [(a, PtrVal p)]" by (cases xs) auto
  note r = index_header [OF l(2)]
  have p: "p \<in> dom (tinfos st)" "p \<in> objs (theap st)" and ok: "heap_ok (theap st)"
    and d: "dom (tinfos st) \<subseteq> objs (theap st)"
    using assms(1) by (auto simp: index_ok_def)
  obtain i where i: "tinfos st p = Some i" "\<not> hold i" using p(1) assms(2) by auto
  obtain k where k: "brk (theap st) = Suc k" using l(6) by (cases "brk (theap st)") auto
  have c: "cells (theap st) a = Some \<lparr>cdata = PtrVal p, cnext = 0\<rparr>" "a \<noteq> 0" "lc = a"
    using l(4) xs by auto
  have nc: "cells (theap st) l = None" using ok r(2) xs by (force simp: heap_ok_def)
  let ?h = "(theap st)\<lparr>objs := objs (theap st) - {p}, lists := (lists (theap st))(l := None)\<rparr>"
  let ?st = "st\<lparr>tinfos := (tinfos st)(p := None), theap := ?h, tindex := Some NIL\<rparr>"
  have "dropTransProvQueryIndex st = Inr ?st"
    using l(1,3) c i k r xs nc
    by (simp add: dropTransProvQueryIndex_def the_index_def lfirst_def get_cell_def get_info_def
        listRemoveQueryInfoCell_def head_field_def freeQueryRepInfo_def pfree_def header_def Let_def)
  moreover have "heap_ok ?h" using ok by (auto simp: heap_ok_def)
  then have "index_ok ?st []" using d by (auto simp: index_ok_def)
  ultimately show ?thesis by (intro exI [of _ ?st]) simp
qed

lemma drop_head_crashes:
  assumes "index_ok st (p # q # ps)" "\<not> hold (the (tinfos st p))"
  shows "dropTransProvQueryIndex st = Inl NullDeref"
proof -
  from index_ok_list [OF assms(1)] obtain l xs lc where
    l: "tindex st = Some l" "list_rep (theap st) T_List l xs" "list_head (theap st) l = Inr lc"
    "lseg (theap st) lc xs 0" "vals xs = PtrVal p # PtrVal q # map PtrVal ps" "length xs < brk (theap st)" by auto
  then obtain a b ys where xs: "xs = (a, PtrVal p) # (b, PtrVal q) # ys" by (cases xs; cases "tl xs") auto
  note r = index_header [OF l(2)]
  have p: "p \<in> dom (tinfos st)" and ok: "heap_ok (theap st)" using assms(1) by (auto simp: index_ok_def)
  obtain i where i: "tinfos st p = Some i" "\<not> hold i" using p assms(2) by auto
  obtain k where k: "brk (theap st) = Suc k" using l(6) by (cases "brk (theap st)") auto
  have c: "cells (theap st) a = Some \<lparr>cdata = PtrVal p, cnext = b\<rparr>" "a \<noteq> 0" "lc = a"
    using l(4) xs by auto
  have "cells (theap st) 0 = None" using heap_ok_0 [OF ok] by simp
  then show ?thesis
    using l(1,3) c i k r xs
    by (simp add: dropTransProvQueryIndex_def the_index_def lfirst_def lnext_def get_cell_def get_info_def
        listRemoveQueryInfoCell_def freeQueryRepInfo_def pfree_def header_def put_list_def Let_def)
qed

text \<open>
  Removing the last of several entries leaves the \<open>tail\<close> of the list at the freed cell, and the
  next entry is appended through it.
\<close>

lemma remove_last:
  assumes rep: "list_rep (theap st) T_List l (ys @ [(a, PtrVal p)])" and ys: "ys \<noteq> []"
    and i: "tinfos st p = Some i" and ok: "heap_ok (theap st)"
  shows "\<exists>st' H. listRemoveQueryInfoCell st l a (fst (last ys)) = Inr st' \<and>
           tindex st' = tindex st \<and> tinfos st' = (tinfos st)(p := None) \<and>
           lists (theap st') l = Some H \<and> ltype H = T_List \<and> ltail H = a \<and> cells (theap st') a = None \<and>
           lnext (theap st') (fst (last ys)) = Inr 0 \<and> brk (theap st') = brk (theap st)"
proof -
  let ?xs = "ys @ [(a, PtrVal p)]" and ?b = "fst (last ys)"
  note r = index_header [OF rep]
  from rep r have seg: "lseg (theap st) (fst (hd ?xs)) ?xs 0" by (auto simp: list_rep_def)
  then have "distinct (map fst ?xs)" by (rule lseg_distinct)
  then have na: "a \<notin> addrs ys" by force
  have "?b \<in> addrs ys" "fst (hd ys) \<in> addrs ys" using ys by auto
  then have ne: "?b \<noteq> a" "fst (hd ys) \<noteq> a" using na by blast+
  from seg have s: "lseg (theap st) (fst (hd ys)) ys a" "cells (theap st) a = Some \<lparr>cdata = PtrVal p, cnext = 0\<rparr>"
    using ys by (auto simp: lseg_append)
  have b: "cells (theap st) ?b = Some \<lparr>cdata = snd (last ys), cnext = a\<rparr>"
    using lseg_last [OF s(1) ys] by simp
  let ?h = "(theap st)\<lparr>cells := (cells (theap st))(?b \<mapsto> \<lparr>cdata = snd (last ys), cnext = 0\<rparr>, a := None),
       lists := (lists (theap st))(l \<mapsto> (header T_List ?xs)\<lparr>llength := int (length ys)\<rparr>),
       objs := objs (theap st) - {p}\<rparr>"
  have "listRemoveQueryInfoCell st l a ?b = Inr (st\<lparr>tinfos := (tinfos st)(p := None), theap := ?h\<rparr>)"
    using r ys ne s(2) b i
    by (simp add: listRemoveQueryInfoCell_def header_def set_next_def lnext_def lfirst_def get_cell_def
        put_cell_def put_list_def freeQueryRepInfo_def pfree_def Let_def fun_upd_twist)
  then show ?thesis
    using ne by (intro exI [of _ "st\<lparr>tinfos := (tinfos st)(p := None), theap := ?h\<rparr>"]
        exI [of _ "(header T_List ?xs)\<lparr>llength := int (length ys)\<rparr>"])
      (simp add: header_def lnext_def get_cell_def)
qed

lemma drop_last_dangles:
  assumes "index_ok st (ps @ [p])" "ps \<noteq> []" "\<And>i. i \<in> set (infos_of st ps) \<Longrightarrow> hold i"
    "\<not> hold (the (tinfos st p))"
  shows "\<exists>st'. dropTransProvQueryIndex st = Inr st' \<and> tinfos st' = (tinfos st)(p := None) \<and>
           generate_index st' fill cn = Inl NullDeref"
proof -
  from index_ok_list [OF assms(1)] obtain l xs lc where
    l: "tindex st = Some l" "list_rep (theap st) T_List l xs" "list_head (theap st) l = Inr lc"
    "lseg (theap st) lc xs 0" "vals xs = map PtrVal ps @ [PtrVal p]" "length xs < brk (theap st)" by auto
  define ys where "ys = butlast xs"
  have "xs \<noteq> []" using l(5) by auto
  then have xs: "xs = ys @ [(fst (last xs), PtrVal p)]" and v: "vals ys = map PtrVal ps"
    using l(5) by (metis append_butlast_last_id butlast_snoc last_map last_snoc map_butlast prod.collapse ys_def)+
  then obtain a where xs: "xs = ys @ [(a, PtrVal p)]" by blast
  have ys: "ys \<noteq> []" using v assms(2) by auto
  have inf: "set (ps @ [p]) \<subseteq> dom (tinfos st)" and ok: "heap_ok (theap st)"
    using assms(1) by (auto simp: index_ok_def)
  then obtain i where i: "tinfos st p = Some i" "\<not> hold i" using assms(4) by auto
  obtain k where k: "brk (theap st) = length ys + Suc (Suc k)"
    using l(6) xs by (metis add_Suc_right add_Suc length_append_singleton less_imp_Suc_add)
  from l(4) xs have s: "lseg (theap st) lc ys a" "a \<noteq> 0" "cells (theap st) a = Some \<lparr>cdata = PtrVal p, cnext = 0\<rparr>"
    by (auto simp: lseg_append)
  have "drop_loop (length ys + Suc (Suc k)) st lc 0 = drop_loop (Suc (Suc k)) st a (if ys = [] then 0 else fst (last ys))"
    using s(1) v inf assms(3) by (intro drop_loop_skip) (auto simp: infos_of_def)
  moreover from l(2) xs have "list_rep (theap st) T_List l (ys @ [(a, PtrVal p)])" by simp
  from remove_last [OF this ys i(1) ok] obtain st' H where r: "listRemoveQueryInfoCell st l a (fst (last ys)) = Inr st'"
    "tindex st' = tindex st" "tinfos st' = (tinfos st)(p := None)"
    "lists (theap st') l = Some H" "ltype H = T_List" "ltail H = a" "cells (theap st') a = None"
    "lnext (theap st') (fst (last ys)) = Inr 0" "brk (theap st') = brk (theap st)"
    by (elim exE conjE)
  moreover have "l \<noteq> NIL" using index_header(1) [OF l(2) \<open>xs \<noteq> []\<close>] .
  ultimately have "dropTransProvQueryIndex st = Inr st'"
    using l(1,3) k s(2,3) i ys
    by (simp add: dropTransProvQueryIndex_def the_index_def lfirst_def get_cell_def get_info_def)
  moreover have "a < brk (theap st)" using ok s(3) by (force simp: heap_ok_def)
  then have "generate_index st' fill cn = Inl NullDeref"
    using r l(1) \<open>l \<noteq> NIL\<close>
    by (simp add: generate_index_def palloc_obj_def the_index_def lappend_def lappend_gen_def
        assert_is_list_def new_tail_cell_def heap_defs Let_def)
  ultimately show ?thesis using r(3) by blast
qed

section \<open>Sessions\<close>

text \<open>
  A session without cursors in which every statement asks for at most one transformation
  provenance keeps at most one entry in the table, which the next statement drops.
\<close>

definition quiet :: "statement \<Rightarrow> bool" where
  "quiet s \<longleftrightarrow>
     (case s of
        CloseStmt name \<Rightarrow> False
      | SelectStmt cur qs \<Rightarrow> cur = None \<and> length qs \<le> 1 \<and> (\<forall>(ranges, str) \<in> set qs. \<exists>n. printed_ranges n str ranges)
      | OtherStmt \<Rightarrow> True)"

definition idle :: "transState \<Rightarrow> bool" where
  "idle st \<longleftrightarrow> (\<exists>ps. index_ok st ps \<and> length ps \<le> 1 \<and> (\<forall>i \<in> set (infos_of st ps). \<not> hold i))"

lemma drop_fresh:
  assumes "fresh_state st"
  shows "\<exists>st'. dropTransProvQueryIndex st = Inr st' \<and> index_ok st' [] \<and> nextQueryId st' = 0"
proof -
  obtain k where "brk (theap st) = Suc k"
    using assms by (cases "brk (theap st)") (auto simp: fresh_state_def heap_ok_def)
  then show ?thesis using assms
    by (auto simp: fresh_state_def dropTransProvQueryIndex_def the_index_def list_head_def index_ok_def)
qed

lemma drop_idle:
  assumes "idle st"
  shows "\<exists>st'. dropTransProvQueryIndex st = Inr st' \<and> index_ok st' [] \<and> nextQueryId st' = nextQueryId st"
proof -
  obtain ps where ps: "index_ok st ps" "length ps \<le> 1" "\<forall>i \<in> set (infos_of st ps). \<not> hold i"
    using assms by (auto simp: idle_def)
  show ?thesis
  proof (cases ps)
    case Nil
    then show ?thesis using drop_all_held [OF ps(1)] ps(1) by (auto simp: infos_of_def)
  next
    case (Cons p qs)
    then have "ps = [p]" using ps(2) by simp
    then show ?thesis using drop_only_entry [of st p] ps by (auto simp: infos_of_def)
  qed
qed

lemma postprocess_fill:
  assumes "printed_ranges n s ranges"
  shows "\<exists>info'. postprocessRanges ranges s info = Inr info' \<and> info_queryId info' = info_queryId info \<and>
           hold info' = hold info \<and> cusorName info' = cusorName info"
  using assms by (auto simp: postprocessRanges_def printed_ranges_def)

lemma generate_entry:
  assumes "index_ok st ps" "nextQueryId st \<noteq> - 1" "printed_ranges n s ranges"
  shows "\<exists>st' p info. generateTransProvQueryIndex st ranges s cn = Inr (nextQueryId st, st') \<and>
           postprocessRanges ranges s (blank_info (uint (nextQueryId st)) cn) = Inr info \<and>
           index_ok st' (ps @ [p]) \<and> infos_of st' (ps @ [p]) = infos_of st ps @ [info] \<and>
           info_queryId info = uint (nextQueryId st) \<and> hold info = (cn \<noteq> None) \<and> cusorName info = cn \<and>
           nextQueryId st' = nextQueryId st + 1"
proof -
  obtain info where i: "postprocessRanges ranges s (blank_info (uint (nextQueryId st)) cn) = Inr info"
    "info_queryId info = uint (nextQueryId st)" "hold info = (cn \<noteq> None)" "cusorName info = cn"
    using postprocess_fill [OF assms(3), of "blank_info (uint (nextQueryId st)) cn"] by (auto simp: blank_info_def)
  from generate_index_step [where fill = "postprocessRanges ranges s", OF assms(1,2) i(1,2)] obtain st' p where
    g: "generate_index st (postprocessRanges ranges s) cn = Inr (nextQueryId st, st')" "index_ok st' (ps @ [p])"
      "infos_of st' (ps @ [p]) = infos_of st ps @ [info]" by blast
  have "nextQueryId st' = nextQueryId st + 1"
    using g(1) by (auto simp: generate_index_def res_iff Let_def put_info_def split: prod.splits)
  with g i show ?thesis by (auto simp: generateTransProvQueryIndex_def)
qed

lemma rewrite_quiet:
  assumes drop: "dropTransProvQueryIndex st = Inr st1" "index_ok st1 []" and q: "quiet s"
    and id: "nextQueryId st1 \<noteq> - 1"
  shows "\<exists>st'. rewrite_statement st s = Inr st' \<and> idle st' \<and>
           (nextQueryId st' = nextQueryId st1 \<or> nextQueryId st' = nextQueryId st1 + 1)"
proof (cases "\<exists>cur ranges str. s = SelectStmt cur [(ranges, str)]")
  case True
  then obtain ranges str n where s: "s = SelectStmt None [(ranges, str)]" "printed_ranges n str ranges"
    using q by (auto simp: quiet_def)
  from generate_entry [OF drop(2) id s(2), of None] obtain st' p info where
    g: "generateTransProvQueryIndex st1 ranges str None = Inr (nextQueryId st1, st')" "index_ok st' [p]"
      "infos_of st' [p] = [info]" "\<not> hold info" "nextQueryId st' = nextQueryId st1 + 1"
    by (auto simp: infos_of_def)
  have "idle st'" unfolding idle_def using g(2-4) by (intro exI [of _ "[p]"]) simp
  then show ?thesis using g(1,5) s(1) drop(1) by (simp add: rewrite_statement_def)
next
  case False
  have "idle st1" unfolding idle_def using drop(2) by (intro exI [of _ "[]"]) (simp add: infos_of_def)
  moreover have "rewrite_statement st s = Inr st1"
    using False q drop(1)
    by (cases s) (auto simp: quiet_def rewrite_statement_def le_Suc_eq length_Suc_conv)
  ultimately show ?thesis by simp
qed

lemma session_idle:
  assumes "idle st" "\<forall>s \<in> set ss. quiet s" "uint (nextQueryId st) + int (length ss) < 2 ^ 32"
  shows "\<exists>st'. rewrite_session st ss = Inr st' \<and> idle st'"
  using assms
proof (induction ss arbitrary: st)
  case (Cons s ss)
  obtain st1 where d: "dropTransProvQueryIndex st = Inr st1" "index_ok st1 []" "nextQueryId st1 = nextQueryId st"
    using drop_idle [OF Cons.prems(1)] by blast
  have id: "nextQueryId st1 \<noteq> - 1"
    using Cons.prems(3) d(3) by (auto simp: unsigned_minus_1_eq_mask mask_eq_exp_minus_1)
  obtain st2 where r: "rewrite_statement st s = Inr st2" "idle st2"
      "nextQueryId st2 = nextQueryId st1 \<or> nextQueryId st2 = nextQueryId st1 + 1"
    using rewrite_quiet [OF d(1,2) _ id, of s] Cons.prems(2) by auto
  have "uint (nextQueryId st2) \<le> uint (nextQueryId st) + 1"
    using r(3) next_id [OF id] d(3) by auto
  then have "uint (nextQueryId st2) + int (length ss) < 2 ^ 32" using Cons.prems(3) by simp
  with Cons.IH [OF r(2)] Cons.prems(2) r(1) show ?case by simp
qed simp

lemma session_from_fresh:
  assumes "fresh_state st" "\<forall>s \<in> set ss. quiet s" "length ss < 2 ^ 32" "ss \<noteq> []"
  shows "\<exists>st'. rewrite_session st ss = Inr st' \<and> idle st'"
proof -
  obtain s ss' where ss: "ss = s # ss'" using assms(4) by (cases ss) auto
  obtain st1 where d: "dropTransProvQueryIndex st = Inr st1" "index_ok st1 []" "nextQueryId st1 = 0"
    using drop_fresh [OF assms(1)] by blast
  have id: "nextQueryId st1 \<noteq> - 1" using d(3) by simp
  obtain st2 where r: "rewrite_statement st s = Inr st2" "idle st2"
      "nextQueryId st2 = nextQueryId st1 \<or> nextQueryId st2 = nextQueryId st1 + 1"
    using rewrite_quiet [OF d(1,2) _ id, of s] assms(2) ss by auto
  have "uint (nextQueryId st2) \<le> 1" using r(3) d(3) by auto
  then have "uint (nextQueryId st2) + int (length ss') < 2 ^ 32" using assms(3) ss by simp
  with session_idle [OF r(2)] assms(2) r(1) ss show ?thesis by auto
qed

end
