(* ===== verification/TransStatic.thy ===== *)
theory TransStatic
  imports VarBits
begin

text \<open>
  Static analysis of a query tree for transformation provenance:
  \<open>src/backend/provrewrite/transformationp/prov_trans_staticana.c\<close>, with the tests of
  \<open>util/prov_algmap.c\<close> it calls on aggregations and \<open>getRootSubForNode\<close> of
  \<open>prov_trans_util.c\<close>.  The analysis gives every operation of a query an identifier, decides
  which operations have the same transformation provenance for every tuple, and computes the
  bit sets of identifiers.

  The C functions receive the node \<open>cur\<close> they append to.  Here they return the nodes they
  append, and the caller puts them below \<open>cur\<close>.  The operations a query node starts with form
  a chain, of which \<open>info->root\<close> is the first and \<open>cur\<close> the last.  The function
  \<open>isProjection\<close>, which needs the catalog, is a parameter.
\<close>

section \<open>Loops over lists\<close>

fun map_res :: "('a \<Rightarrow> 'b res) \<Rightarrow> 'a list \<Rightarrow> 'b list res" where
  "map_res f [] = Inr []"
| "map_res f (x # xs) = res_bind (f x) (\<lambda>y. res_bind (map_res f xs) (\<lambda>ys. Inr (y # ys)))"

lemma map_res_cong [fundef_cong]:
  "xs = ys \<Longrightarrow> (\<And>x. x \<in> set ys \<Longrightarrow> f x = g x) \<Longrightarrow> map_res f xs = map_res g ys"
  by (induction ys arbitrary: xs) auto

fun any_res :: "('a \<Rightarrow> bool res) \<Rightarrow> 'a list \<Rightarrow> bool res" where
  "any_res f [] = Inr False"
| "any_res f (x # xs) = res_bind (f x) (\<lambda>b. if b then Inr True else any_res f xs)"

section \<open>Query trees\<close>

datatype Expr =
    Var nat nat
  | Const
  | Aggref bool "Expr list" \<comment> \<open>\<open>aggstar\<close> and \<open>args\<close>\<close>
  | OtherExpr "Expr list"

datatype JoinType = JOIN_INNER | JOIN_LEFT | JOIN_FULL | JOIN_RIGHT | JOIN_IN | JOIN_REVERSE_IN
  | JOIN_UNIQUE_OUTER | JOIN_UNIQUE_INNER

datatype SetOperation = SETOP_NONE | SETOP_UNION | SETOP_INTERSECT | SETOP_EXCEPT

datatype FromNode =
    JoinExpr JoinType int FromNode FromNode
  | RangeTblRef nat

datatype SetNode =
    SetOperationStmt SetOperation SetNode SetNode
  | SetRangeTblRef nat

datatype 'q RangeTblEntry =
    RTE_RELATION | RTE_SUBQUERY 'q | RTE_JOIN | RTE_SPECIAL | RTE_FUNCTION | RTE_VALUES

datatype Query =
  Query (targetList: "Expr list") (hasAggs: bool) (havingQual: bool) (quals: "Expr option")
    (fromlist: "FromNode list") (setOperations: "SetNode option") (rtable: "Query RangeTblEntry list")

text \<open>\<open>rt_fetch\<close>: range table indexes start at 1.\<close>

definition rt_fetch :: "nat \<Rightarrow> 'a list \<Rightarrow> 'a res" where
  "rt_fetch i rts = (if 0 < i \<and> i \<le> length rts then Inr (rts ! (i - 1)) else Inl OutOfBounds)"

section \<open>Nodes of the analysis\<close>

datatype SubOperationType =
    SUBOP_Aggregation | SUBOP_Projection | SUBOP_Having | SUBOP_Selection
  | SUBOP_Join_Inner | SUBOP_Join_Left | SUBOP_Join_Right | SUBOP_Join_Full | SUBOP_Join_Cross
  | SUBOP_BaseRel | SUBOP_SetOp_Union | SUBOP_SetOp_Diff | SUBOP_SetOp_Intersect

datatype TransNode =
    is_TransSubInfo: TransSubInfo (sub_id: int) (isStatic: bool) (opType: SubOperationType) (children: "TransNode list")
      (setForNode: "VarBit option") (rtIndex: int) (annot: "string list")
  | is_TransProvInfo: TransProvInfo (isStatic: bool) (prov_root: TransNode) (rtIndex: int)

definition TRANS_NO_RTINDEX :: int where
  "TRANS_NO_RTINDEX = -1"

definition makeTransSubInfo :: "int \<Rightarrow> SubOperationType \<Rightarrow> TransNode list \<Rightarrow> int \<Rightarrow> TransNode" where
  "makeTransSubInfo i op cs rti = TransSubInfo i False op cs None rti []"

fun getRootSubForNode :: "TransNode \<Rightarrow> TransNode" where
  "getRootSubForNode (TransProvInfo s r i) = getRootSubForNode r"
| "getRootSubForNode (TransSubInfo i s op cs st rti an) = TransSubInfo i s op cs st rti an"

section \<open>Projections around an aggregation\<close>

fun getAggrExprs :: "Expr \<Rightarrow> Expr list" where
  "getAggrExprs (Aggref star args) = [Aggref star args]"
| "getAggrExprs (OtherExpr args) = concat (map getAggrExprs args)"
| "getAggrExprs (Var n a) = []"
| "getAggrExprs Const = []"

fun is_var :: "Expr \<Rightarrow> bool" where
  "is_var (Var n a) = True"
| "is_var e = False"

fun is_aggref :: "Expr \<Rightarrow> bool" where
  "is_aggref (Aggref star args) = True"
| "is_aggref e = False"

fun projected_arg :: "Expr \<Rightarrow> bool res" where
  "projected_arg (Aggref star args) =
     (if star then Inr False
      else case args of [] \<Rightarrow> Inl NullDeref | a # as \<Rightarrow> Inr (\<not> is_var a))"
| "projected_arg e = Inr False"

definition isProjectionUnderAgg :: "Query \<Rightarrow> bool res" where
  "isProjectionUnderAgg query = any_res (\<lambda>te. any_res projected_arg (getAggrExprs te)) (targetList query)"

definition isProjectionOverAgg :: "Query \<Rightarrow> bool" where
  "isProjectionOverAgg query \<longleftrightarrow> (\<exists>te \<in> set (targetList query). \<not> (is_aggref te \<or> is_var te))"

section \<open>Identifiers\<close>

type_synonym chain = "(int \<times> SubOperationType) list"

text \<open>\<open>ADD_NODE_TO_TRANS\<close> with a new node.\<close>

definition add_node :: "SubOperationType \<Rightarrow> int \<times> chain \<Rightarrow> int \<times> chain" where
  "add_node op s = (fst s + 1, snd s @ [(fst s, op)])"

definition analyseSelection :: "Query \<Rightarrow> int \<times> chain \<Rightarrow> int \<times> chain" where
  "analyseSelection query s =
     (if quals query \<noteq> None \<and> quals query \<noteq> Some Const then add_node SUBOP_Selection s else s)"

definition analyseProjection :: "(Query \<Rightarrow> bool) \<Rightarrow> Query \<Rightarrow> int \<times> chain \<Rightarrow> (int \<times> chain) res" where
  "analyseProjection isProjection query s =
     res_bind (if \<not> hasAggs query \<and> isProjection query then Inr True else isProjectionUnderAgg query)
       (\<lambda>p. Inr (analyseSelection query (if p then add_node SUBOP_Projection s else s)))"

definition analyseAgg :: "(Query \<Rightarrow> bool) \<Rightarrow> Query \<Rightarrow> int \<Rightarrow> (int \<times> chain) res" where
  "analyseAgg isProjection query curId =
     analyseProjection isProjection query
       (let s = (curId, []) in
        if hasAggs query then
          let s = (if isProjectionOverAgg query then add_node SUBOP_Projection s else s);
              s = (if havingQual query then add_node SUBOP_Having s else s)
          in add_node SUBOP_Aggregation s
        else s)"

text \<open>An analysed range table entry: the call on its subquery, from \<open>curId\<close> and \<open>rtIndex\<close>.\<close>

type_synonym analysis = "int \<Rightarrow> int \<Rightarrow> (int \<times> TransNode) res"

definition analyseRte :: "analysis RangeTblEntry \<Rightarrow> int \<Rightarrow> int \<Rightarrow> (int \<times> TransNode list) res" where
  "analyseRte rte curId rti =
     (case rte of
        RTE_RELATION \<Rightarrow> Inr (curId + 1, [makeTransSubInfo curId SUBOP_BaseRel [] rti])
      | RTE_SUBQUERY sub \<Rightarrow> res_bind (sub curId rti) (\<lambda>(curId, info). Inr (curId, [info]))
      | _ \<Rightarrow> Inr (curId, []))"

text \<open>For other join types and for \<open>SETOP_NONE\<close> the variable \<open>next\<close> is used without a value.\<close>

fun join_op :: "JoinType \<Rightarrow> SubOperationType res" where
  "join_op JOIN_INNER = Inr SUBOP_Join_Inner"
| "join_op JOIN_LEFT = Inr SUBOP_Join_Left"
| "join_op JOIN_RIGHT = Inr SUBOP_Join_Right"
| "join_op JOIN_FULL = Inr SUBOP_Join_Full"
| "join_op _ = Inl NullDeref"

fun set_op :: "SetOperation \<Rightarrow> SubOperationType res" where
  "set_op SETOP_UNION = Inr SUBOP_SetOp_Union"
| "set_op SETOP_INTERSECT = Inr SUBOP_SetOp_Intersect"
| "set_op SETOP_EXCEPT = Inr SUBOP_SetOp_Diff"
| "set_op SETOP_NONE = Inl NullDeref"

fun analyseJoinTreeNode :: "analysis RangeTblEntry list \<Rightarrow> FromNode \<Rightarrow> int \<Rightarrow> (int \<times> TransNode list) res" where
  "analyseJoinTreeNode rts (JoinExpr jt rti larg rarg) curId =
     res_bind (join_op jt) (\<lambda>op.
     res_bind (analyseJoinTreeNode rts larg (curId + 1)) (\<lambda>(curId1, ls).
     res_bind (analyseJoinTreeNode rts rarg curId1) (\<lambda>(curId2, rs).
       Inr (curId2, [makeTransSubInfo curId op (ls @ rs) rti]))))"
| "analyseJoinTreeNode rts (RangeTblRef i) curId =
     res_bind (rt_fetch i rts) (\<lambda>rte. analyseRte rte curId (int i))"

fun analyseOneSetOp :: "analysis RangeTblEntry list \<Rightarrow> SetNode \<Rightarrow> int \<Rightarrow> (int \<times> TransNode list) res" where
  "analyseOneSetOp rts (SetOperationStmt op larg rarg) curId =
     res_bind (set_op op) (\<lambda>op.
     res_bind (analyseOneSetOp rts larg (curId + 1)) (\<lambda>(curId1, ls).
     res_bind (analyseOneSetOp rts rarg curId1) (\<lambda>(curId2, rs).
       Inr (curId2, [makeTransSubInfo curId op (ls @ rs) TRANS_NO_RTINDEX]))))"
| "analyseOneSetOp rts (SetRangeTblRef i) curId =
     res_bind (rt_fetch i rts) (\<lambda>rte. analyseRte rte curId (int i))"

fun from_loop :: "analysis RangeTblEntry list \<Rightarrow> FromNode list \<Rightarrow> int \<Rightarrow> (int \<times> TransNode list) res" where
  "from_loop rts [] curId = Inr (curId, [])"
| "from_loop rts (n # ns) curId =
     res_bind (analyseJoinTreeNode rts n curId) (\<lambda>(curId, ls).
     res_bind (from_loop rts ns curId) (\<lambda>(curId, rs). Inr (curId, ls @ rs)))"

text \<open>The chain as a tree: each node has the next as its only child, the last the given ones.\<close>

fun nest :: "chain \<Rightarrow> TransNode list \<Rightarrow> TransNode list" where
  "nest [] cs = cs"
| "nest ((i, op) # ch) cs = [makeTransSubInfo i op (nest ch cs) TRANS_NO_RTINDEX]"

definition analyseJoinTree ::
    "analysis RangeTblEntry list \<Rightarrow> FromNode list \<Rightarrow> int \<times> chain \<Rightarrow> (int \<times> TransNode list) res" where
  "analyseJoinTree rts froms s =
     (let s = (if snd s = [] \<and> length froms > 1 then add_node SUBOP_Join_Cross s else s) in
      res_bind (from_loop rts froms (fst s)) (\<lambda>(curId, cs). Inr (curId, nest (snd s) cs)))"

text \<open>
  The root of a query node.  A subquery that is the whole query is not set as \<open>info->root\<close> while
  the join tree is traversed; \<open>handleDummyQueryNode\<close> takes it from range table entry 1.  The
  other cases leave the root unset or read through an unset pointer.
\<close>

definition handleDummyQueryNode :: "TransNode list \<Rightarrow> TransNode res" where
  "handleDummyQueryNode ns =
     (case ns of
        [TransProvInfo s r i] \<Rightarrow> if i = 1 then Inr (TransProvInfo s r i) else Inl NullDeref
      | _ \<Rightarrow> Inl NullDeref)"

definition query_root :: "TransNode list \<Rightarrow> TransNode res" where
  "query_root ns =
     (case ns of
        [TransSubInfo i s op cs st rti an] \<Rightarrow> Inr (TransSubInfo i s op cs st rti an)
      | _ \<Rightarrow> handleDummyQueryNode ns)"

primrec analyseOneQueryNode :: "(Query \<Rightarrow> bool) \<Rightarrow> Query \<Rightarrow> analysis" where
  "analyseOneQueryNode isProjection (Query tes agg hav qs froms setop rts) =
     (\<lambda>curId rti.
        let infos = map (map_RangeTblEntry (analyseOneQueryNode isProjection)) rts in
        res_bind (case setop of
                    Some node \<Rightarrow> analyseOneSetOp infos node curId
                  | None \<Rightarrow>
                      res_bind (analyseAgg isProjection (Query tes agg hav qs froms setop rts) curId)
                        (analyseJoinTree infos froms)) (\<lambda>(curId, ns).
        res_bind (query_root ns) (\<lambda>r. Inr (curId, TransProvInfo False r rti))))"

section \<open>Static operations\<close>

fun static_op :: "SubOperationType \<Rightarrow> bool" where
  "static_op op \<longleftrightarrow> op \<in> {SUBOP_Selection, SUBOP_Projection, SUBOP_Join_Inner, SUBOP_Aggregation,
     SUBOP_Having, SUBOP_BaseRel, SUBOP_SetOp_Intersect, SUBOP_Join_Cross}"

text \<open>
  \<open>checkStaticTreeNode\<close> below the root of a query node, with \<open>checkStatic\<close> on the query nodes it
  meets: the C code has set their \<open>isStatic\<close> before, in its pass over the range table.
\<close>

fun checkStaticTreeNode :: "TransNode \<Rightarrow> TransNode res" where
  "checkStaticTreeNode (TransProvInfo s r rti) =
     res_bind (checkStaticTreeNode r) (\<lambda>r. Inr (TransProvInfo (isStatic r) r rti))"
| "checkStaticTreeNode (TransSubInfo i s op cs st rti an) =
     res_bind (map_res checkStaticTreeNode cs) (\<lambda>cs.
         if op = SUBOP_SetOp_Diff then
           (case cs of a # b # _ \<Rightarrow> Inr (TransSubInfo i (isStatic a) op cs st rti an) | _ \<Rightarrow> Inl NullDeref)
         else Inr (TransSubInfo i (static_op op \<and> (\<forall>c \<in> set cs. isStatic c)) op cs st rti an))"

definition checkStatic :: "TransNode \<Rightarrow> TransNode res" where
  "checkStatic info = checkStaticTreeNode info"

section \<open>Bit sets\<close>

text \<open>The set of the node a child pointer leads to.\<close>

definition set_of_child :: "TransNode \<Rightarrow> VarBit res" where
  "set_of_child c = (case setForNode (getRootSubForNode c) of None \<Rightarrow> Inl NullDeref | Some v \<Rightarrow> Inr v)"

text \<open>The second half of a round of the loop; \<open>first\<close> tells whether \<open>lc == list_head(node->children)\<close>.\<close>

definition join_child ::
    "bool \<Rightarrow> SubOperationType \<Rightarrow> bool \<Rightarrow> TransNode \<Rightarrow> VarBit \<times> string list \<Rightarrow> (VarBit \<times> string list) res" where
  "join_child static op first c s =
     (if static \<and> (op \<noteq> SUBOP_SetOp_Diff \<or> first) then
        res_bind (set_of_child c) (\<lambda>v.
        res_bind (varBitOr (fst s) v) (\<lambda>w. Inr (w, snd s @ annot (getRootSubForNode c))))
      else Inr s)"

fun computeSets :: "int \<Rightarrow> TransNode \<Rightarrow> TransNode res"
  and computeSets_loop ::
    "int \<Rightarrow> bool \<Rightarrow> SubOperationType \<Rightarrow> bool \<Rightarrow> TransNode list \<Rightarrow> VarBit \<times> string list \<Rightarrow>
      (TransNode list \<times> VarBit \<times> string list) res" where
  "computeSets numNodes (TransProvInfo s r rti) =
     res_bind (computeSets numNodes r) (\<lambda>r. Inr (TransProvInfo s r rti))"
| "computeSets numNodes (TransSubInfo i s op cs st rti an) =
     res_bind (generateVarbitSetElem numNodes i) (\<lambda>v.
     res_bind (computeSets_loop numNodes s op True cs (v, an)) (\<lambda>(cs, v, an).
       Inr (TransSubInfo i s op cs (Some v) rti an)))"
| "computeSets_loop numNodes s op first [] acc = Inr ([], acc)"
| "computeSets_loop numNodes s op first (c # cs) acc =
     res_bind (computeSets numNodes c) (\<lambda>c.
     res_bind (join_child s op first c acc) (\<lambda>acc.
     res_bind (computeSets_loop numNodes s op False cs acc) (\<lambda>(cs, acc). Inr (c # cs, acc))))"

definition analyseStaticTransProv :: "(Query \<Rightarrow> bool) \<Rightarrow> Query \<Rightarrow> TransNode res" where
  "analyseStaticTransProv isProjection query =
     res_bind (analyseOneQueryNode isProjection query 1 TRANS_NO_RTINDEX) (\<lambda>(numNodes, info).
     res_bind (checkStatic info) (computeSets (numNodes - 1)))"

end
