(* ===== verification/Bitset.thy ===== *)
theory Bitset
  imports VarBits
begin

text \<open>
  What the static analysis and the text generation rely on when they use bit strings as sets:
  a locale with the operations and their laws, and its interpretation on the functions of
  \<open>prov_trans_bitset.c\<close> for every bit length.
\<close>

fun fold_res :: "('a \<Rightarrow> 'b \<Rightarrow> 'a res) \<Rightarrow> 'b list \<Rightarrow> 'a \<Rightarrow> 'a res" where
  "fold_res f [] s = Inr s"
| "fold_res f (x # xs) s = res_bind (f s x) (fold_res f xs)"

locale bit_sets =
  fixes universe :: "nat set" and wf :: "'b \<Rightarrow> bool" and members :: "'b \<Rightarrow> nat set"
    and empty :: 'b and singleton :: "nat \<Rightarrow> 'b res" and union :: "'b \<Rightarrow> 'b \<Rightarrow> 'b res"
    and contains :: "'b \<Rightarrow> 'b \<Rightarrow> bool res" and same :: "'b \<Rightarrow> 'b \<Rightarrow> bool res"
  assumes members_universe: "wf a \<Longrightarrow> members a \<subseteq> universe"
    and empty: "wf empty \<and> members empty = {}"
    and singleton: "i \<in> universe \<Longrightarrow> \<exists>a. singleton i = Inr a \<and> wf a \<and> members a = {i}"
    and union: "wf a \<Longrightarrow> wf b \<Longrightarrow> \<exists>c. union a b = Inr c \<and> wf c \<and> members c = members a \<union> members b"
    and contains: "wf a \<Longrightarrow> wf b \<Longrightarrow> contains a b = Inr (members b \<subseteq> members a)"
    and same: "wf a \<Longrightarrow> wf b \<Longrightarrow> same a b = Inr (members a = members b)"
begin

lemma union_all:
  "wf a \<Longrightarrow> (\<And>b. b \<in> set bs \<Longrightarrow> wf b) \<Longrightarrow>
     \<exists>c. fold_res union bs a = Inr c \<and> wf c \<and> members c = members a \<union> \<Union> (members ` set bs)"
proof (induction bs arbitrary: a)
  case (Cons b bs)
  then obtain c where c: "union a b = Inr c" "wf c" "members c = members a \<union> members b"
    using union [of a b] by auto
  with Cons.IH [of c] Cons.prems(2) show ?case by (auto simp: Un_assoc)
qed simp

lemma contains_singleton:
  assumes "wf a" "i \<in> universe"
  shows "\<exists>s. singleton i = Inr s \<and> contains a s = Inr (i \<in> members a)"
  using singleton [OF assms(2)] contains [OF assms(1)] by force

lemma contains_parts:
  assumes "wf a" "wf b" "union a b = Inr c"
  shows "contains c a = Inr True \<and> contains c b = Inr True"
  using union [OF assms(1,2)] contains assms by auto

lemma same_iff_contains:
  assumes "wf a" "wf b"
  shows "same a b = Inr True \<longleftrightarrow> contains a b = Inr True \<and> contains b a = Inr True"
  using same [OF assms] contains assms by auto

lemma union_absorbs:
  assumes "wf a" "wf b" "contains a b = Inr True"
  shows "\<exists>c. union a b = Inr c \<and> same c a = Inr True"
  using union [OF assms(1,2)] contains [OF assms(1,2)] same assms by force

end

text \<open>Bit strings of \<open>n\<close> bits; \<open>generateVarbitSetElem\<close> numbers the bits from 1.\<close>

definition vb_wf :: "nat \<Rightarrow> VarBit \<Rightarrow> bool" where
  "vb_wf n v \<longleftrightarrow> vb_ok v \<and> bit_len v = int n"

interpretation varbits: bit_sets "{..<n}" "vb_wf n" elems "generateEmptyBitset (int n)"
    "\<lambda>i. generateVarbitSetElem (int n) (int i + 1)" varBitOr bitsetContains bitsetEqual
  for n :: nat
proof
  show "elems a \<subseteq> {..<n}" if "vb_wf n a" for a
    using that by (auto simp: vb_wf_def elems_def)
  show "vb_wf n (generateEmptyBitset (int n)) \<and> elems (generateEmptyBitset (int n)) = {}"
    using generateEmptyBitset_elems [of "int n"] by (simp add: vb_wf_def generateEmptyBitset_def)
  show "\<exists>a. generateVarbitSetElem (int n) (int i + 1) = Inr a \<and> vb_wf n a \<and> elems a = {i}" if "i \<in> {..<n}" for i
    using that generateVarbitSetElem_elems [of "int i + 1" "int n"] by (auto simp: vb_wf_def)
  show "\<exists>c. varBitOr a b = Inr c \<and> vb_wf n c \<and> elems c = elems a \<union> elems b"
    if "vb_wf n a" "vb_wf n b" for a b
    using that varBitOr_elems [of a b] by (auto simp: vb_wf_def)
  show "bitsetContains a b = Inr (elems b \<subseteq> elems a)" if "vb_wf n a" "vb_wf n b" for a b
    using that bitsetContains_iff [of a b] by (simp add: vb_wf_def)
  show "bitsetEqual a b = Inr (elems a = elems b)" if "vb_wf n a" "vb_wf n b" for a b
    using that bitsetEqual_iff [of a b] by (simp add: vb_wf_def)
qed

end
