(* ===== verification/TransStaticSpec.thy ===== *)
theory TransStaticSpec
  imports TransStatic Bitset
begin

text \<open>
  Correctness of the static analysis: the identifiers number the operations of the query from 1
  in the order a traversal meets them, an operation is static exactly when no union and no outer
  join contributes to it, and its bit set holds the operations that contribute to every tuple.
\<close>

section \<open>Identifiers\<close>

fun ids :: "TransNode \<Rightarrow> int list" where
  "ids (TransProvInfo s r rti) = ids r"
| "ids (TransSubInfo i s op cs st rti an) = i # concat (map ids cs)"

definition all_ids :: "TransNode list \<Rightarrow> int list" where
  "all_ids ns = concat (map ids ns)"

lemma all_ids_simps [simp]:
  "all_ids [] = []" "all_ids (n # ns) = ids n @ all_ids ns" "all_ids (ns @ ms) = all_ids ns @ all_ids ms"
  by (simp_all add: all_ids_def)

lemma ids_make [simp]: "ids (makeTransSubInfo i op cs rti) = i # all_ids cs"
  by (simp add: makeTransSubInfo_def all_ids_def)

text \<open>A call that takes the identifiers from \<open>c\<close> on and gives them to the nodes it makes.\<close>

definition numbered :: "int \<Rightarrow> int \<Rightarrow> TransNode list \<Rightarrow> bool" where
  "numbered c c' ns \<longleftrightarrow> c \<le> c' \<and> all_ids ns = [c..c' - 1]"

lemma upto_split: "a \<le> b \<Longrightarrow> b \<le> c \<Longrightarrow> [a..c - 1] = [a..b - 1] @ [b..c - 1]" for a :: int
proof -
  assume "a \<le> b" "b \<le> c"
  then show ?thesis using upto_split1 [of a b "c - 1"] by (cases "b \<le> c - 1") simp_all
qed

lemma numbered_append: "numbered a b ns \<Longrightarrow> numbered b c ms \<Longrightarrow> numbered a c (ns @ ms)"
  using upto_split [of a b c] by (simp add: numbered_def)

lemma numbered_node: "numbered (a + 1) b ns \<Longrightarrow> numbered a b [makeTransSubInfo a op ns rti]"
  using upto_rec1 [of a "b - 1"] by (simp add: numbered_def)

definition good_analysis :: "analysis \<Rightarrow> bool" where
  "good_analysis f \<longleftrightarrow> (\<forall>c rti c' t. f c rti = Inr (c', t) \<longrightarrow> numbered c c' [t])"

definition good_table :: "analysis RangeTblEntry list \<Rightarrow> bool" where
  "good_table rts \<longleftrightarrow> (\<forall>rte \<in> set rts. \<forall>f \<in> set_RangeTblEntry rte. good_analysis f)"

lemma analyseRte_numbered:
  "good_table rts \<Longrightarrow> rt_fetch i rts = Inr rte \<Longrightarrow> analyseRte rte c rti = Inr (c', ns) \<Longrightarrow> numbered c c' ns"
proof -
  assume g: "good_table rts" and r: "rt_fetch i rts = Inr rte" and a: "analyseRte rte c rti = Inr (c', ns)"
  have "rte \<in> set rts" using r by (auto simp: rt_fetch_def split: if_splits)
  then have "\<forall>f \<in> set_RangeTblEntry rte. good_analysis f" using g by (simp add: good_table_def)
  then show ?thesis using a
    by (auto simp: analyseRte_def res_iff numbered_def good_analysis_def split: RangeTblEntry.splits)
qed

lemma analyseJoinTreeNode_numbered:
  "good_table rts \<Longrightarrow> analyseJoinTreeNode rts n c = Inr (c', ns) \<Longrightarrow> numbered c c' ns"
proof (induction n arbitrary: c c' ns)
  case (JoinExpr jt rti l r)
  from JoinExpr.prems obtain op c1 ls rs where
    "analyseJoinTreeNode rts l (c + 1) = Inr (c1, ls)" "analyseJoinTreeNode rts r c1 = Inr (c', rs)"
    "ns = [makeTransSubInfo c op (ls @ rs) rti]"
    by (auto simp: res_iff)
  with JoinExpr.IH [OF JoinExpr.prems(1)] show ?case
    by (metis numbered_node numbered_append)
qed (auto simp: res_iff intro: analyseRte_numbered)

lemma analyseOneSetOp_numbered:
  "good_table rts \<Longrightarrow> analyseOneSetOp rts n c = Inr (c', ns) \<Longrightarrow> numbered c c' ns"
proof (induction n arbitrary: c c' ns)
  case (SetOperationStmt so l r)
  from SetOperationStmt.prems obtain op c1 ls rs where
    "analyseOneSetOp rts l (c + 1) = Inr (c1, ls)" "analyseOneSetOp rts r c1 = Inr (c', rs)"
    "ns = [makeTransSubInfo c op (ls @ rs) TRANS_NO_RTINDEX]"
    by (auto simp: res_iff)
  with SetOperationStmt.IH [OF SetOperationStmt.prems(1)] show ?case
    by (metis numbered_node numbered_append)
qed (auto simp: res_iff intro: analyseRte_numbered)

lemma from_loop_numbered:
  "good_table rts \<Longrightarrow> from_loop rts froms c = Inr (c', ns) \<Longrightarrow> numbered c c' ns"
proof (induction froms arbitrary: c c' ns)
  case (Cons n froms)
  then show ?case
    by (fastforce simp: res_iff intro: numbered_append analyseJoinTreeNode_numbered)
qed (simp add: numbered_def)

text \<open>The identifiers of a chain are the ones from its start on.\<close>

definition chain_from :: "int \<Rightarrow> int \<times> chain \<Rightarrow> bool" where
  "chain_from c s \<longleftrightarrow> c \<le> fst s \<and> map fst (snd s) = [c..fst s - 1]"

lemma chain_from_Nil [simp]: "chain_from c (c, [])"
  by (simp add: chain_from_def)

lemma chain_from_add [simp]: "chain_from c s \<Longrightarrow> chain_from c (add_node op s)"
  using upto_rec2 [of c "fst s"] by (simp add: chain_from_def add_node_def)

lemma nest_ids: "all_ids (nest ch cs) = map fst ch @ all_ids cs"
  by (induction ch cs rule: nest.induct) auto

lemma analyseAgg_chain: "analyseAgg isP q c = Inr s \<Longrightarrow> chain_from c s"
  by (auto simp: analyseAgg_def analyseProjection_def analyseSelection_def res_iff Let_def split: if_splits)

lemma analyseJoinTree_numbered:
  assumes "good_table rts" "chain_from c s" "analyseJoinTree rts froms s = Inr (c', ns)"
  shows "numbered c c' ns"
proof -
  let ?s = "if snd s = [] \<and> length froms > 1 then add_node SUBOP_Join_Cross s else s"
  have ch: "chain_from c ?s" using assms(2) by simp
  from assms(3) obtain cs where cs: "from_loop rts froms (fst ?s) = Inr (c', cs)" "ns = nest (snd ?s) cs"
    by (auto simp: analyseJoinTree_def res_iff Let_def)
  have "numbered (fst ?s) c' cs" using from_loop_numbered [OF assms(1) cs(1)] .
  then show ?thesis using ch upto_split [of c "fst ?s" c']
    unfolding cs(2) numbered_def chain_from_def nest_ids by simp
qed

lemma query_root_ids: "query_root ns = Inr r \<Longrightarrow> ns = [r]"
  by (auto simp: query_root_def handleDummyQueryNode_def split: list.splits TransNode.splits if_splits)

lemma analyseOneQueryNode_numbered: "good_analysis (analyseOneQueryNode isP q)"
proof (induction q)
  case (Query tes agg hav qs froms setop rts)
  let ?q = "Query tes agg hav qs froms setop rts"
  let ?rts = "map (map_RangeTblEntry (analyseOneQueryNode isP)) rts"
  have g: "good_table ?rts"
    using Query by (fastforce simp: good_table_def RangeTblEntry.set_map)
  have "numbered c c' [t]" if a: "analyseOneQueryNode isP ?q c rti = Inr (c', t)" for c rti c' t
  proof -
    from a obtain ns r where
      n: "(case setop of Some node \<Rightarrow> analyseOneSetOp ?rts node c
           | None \<Rightarrow> res_bind (analyseAgg isP ?q c) (analyseJoinTree ?rts froms)) = Inr (c', ns)"
      and r: "query_root ns = Inr r" "t = TransProvInfo False r rti"
      by (auto simp: res_iff Let_def)
    have "numbered c c' ns"
    proof (cases setop)
      case None
      with n obtain s where "analyseAgg isP ?q c = Inr s" "analyseJoinTree ?rts froms s = Inr (c', ns)"
        by (auto simp: res_iff)
      with g show ?thesis by (blast intro: analyseJoinTree_numbered analyseAgg_chain)
    next
      case (Some node)
      with n g show ?thesis by (simp add: analyseOneSetOp_numbered)
    qed
    with query_root_ids [OF r(1)] r(2) show ?thesis by (simp add: numbered_def)
  qed
  then show ?case by (simp add: good_analysis_def)
qed

section \<open>Queries the analysis accepts\<close>

text \<open>References lead to relations and subqueries, and join and set operations are the ones it knows.\<close>

fun ref_ok :: "nat \<Rightarrow> 'q RangeTblEntry list \<Rightarrow> bool" where
  "ref_ok i rts \<longleftrightarrow> 0 < i \<and> i \<le> length rts \<and> (rts ! (i - 1) = RTE_RELATION \<or> set_RangeTblEntry (rts ! (i - 1)) \<noteq> {})"

fun from_ok :: "'q RangeTblEntry list \<Rightarrow> FromNode \<Rightarrow> bool" where
  "from_ok rts (JoinExpr jt rti l r) \<longleftrightarrow>
     jt \<in> {JOIN_INNER, JOIN_LEFT, JOIN_RIGHT, JOIN_FULL} \<and> from_ok rts l \<and> from_ok rts r"
| "from_ok rts (RangeTblRef i) \<longleftrightarrow> ref_ok i rts"

fun set_ok :: "'q RangeTblEntry list \<Rightarrow> SetNode \<Rightarrow> bool" where
  "set_ok rts (SetOperationStmt op l r) \<longleftrightarrow> op \<noteq> SETOP_NONE \<and> set_ok rts l \<and> set_ok rts r"
| "set_ok rts (SetRangeTblRef i) \<longleftrightarrow> ref_ok i rts"

definition aggs_ok :: "Expr list \<Rightarrow> bool" where
  "aggs_ok tes \<longleftrightarrow> (\<forall>te \<in> set tes. \<forall>a \<in> set (getAggrExprs te). projected_arg a \<noteq> Inl NullDeref)"

text \<open>
  A query node that consists of one subquery finds it as range table entry 1 only.  \<open>plain\<close> says
  that the query has no aggregation, projection or selection of its own.
\<close>

definition lone_ok :: "bool \<Rightarrow> FromNode list \<Rightarrow> 'q RangeTblEntry list \<Rightarrow> bool" where
  "lone_ok plain froms rts \<longleftrightarrow>
     (plain \<longrightarrow> froms \<noteq> [] \<and>
        (\<forall>i. froms = [RangeTblRef i] \<longrightarrow> rts ! (i - 1) = RTE_RELATION \<or> i = 1))"

definition plain :: "(Query \<Rightarrow> bool) \<Rightarrow> Query \<Rightarrow> bool" where
  "plain isP q \<longleftrightarrow>
     \<not> hasAggs q \<and> \<not> isP q \<and> isProjectionUnderAgg q = Inr False \<and> (quals q = None \<or> quals q = Some Const)"

fun is_setop :: "SetNode \<Rightarrow> bool" where
  "is_setop (SetOperationStmt op l r) = True"
| "is_setop (SetRangeTblRef i) = False"

primrec query_ok :: "(Query \<Rightarrow> bool) \<Rightarrow> Query \<Rightarrow> bool" where
  "query_ok isP (Query tes agg hav qs froms setop rts) \<longleftrightarrow>
     (\<forall>rte \<in> set (map (map_RangeTblEntry (query_ok isP)) rts). \<forall>b \<in> set_RangeTblEntry rte. b) \<and>
     (case setop of
        Some node \<Rightarrow> is_setop node \<and> set_ok rts node
      | None \<Rightarrow> aggs_ok tes \<and> (\<forall>n \<in> set froms. from_ok rts n) \<and>
                lone_ok (plain isP (Query tes agg hav qs froms setop rts)) froms rts)"

section \<open>The analysis returns\<close>

fun subs :: "TransNode \<Rightarrow> TransNode list" where
  "subs (TransProvInfo s r rti) = subs r"
| "subs (TransSubInfo i s op cs st rti an) = TransSubInfo i s op cs st rti an # concat (map subs cs)"

definition every :: "(TransNode \<Rightarrow> bool) \<Rightarrow> TransNode \<Rightarrow> bool" where
  "every P t \<longleftrightarrow> (\<forall>m \<in> set (subs t). P m)"

lemma every_simps [simp]:
  "every P (TransProvInfo s r rti) \<longleftrightarrow> every P r"
  "every P (TransSubInfo i s op cs st rti an) \<longleftrightarrow>
     P (TransSubInfo i s op cs st rti an) \<and> (\<forall>c \<in> set cs. every P c)"
  by (auto simp: every_def)

text \<open>A set difference has two inputs.\<close>

definition diff_ok :: "TransNode \<Rightarrow> bool" where
  "diff_ok m \<longleftrightarrow> (opType m = SUBOP_SetOp_Diff \<longrightarrow> length (children m) = 2)"

lemma diff_ok_sub [simp]:
  "diff_ok (TransSubInfo i s op cs st rti an) \<longleftrightarrow> (op = SUBOP_SetOp_Diff \<longrightarrow> length cs = 2)"
  by (simp add: diff_ok_def)

definition total_analysis :: "analysis \<Rightarrow> bool" where
  "total_analysis f \<longleftrightarrow>
     (\<forall>c rti. \<exists>c' s r. f c rti = Inr (c', TransProvInfo s r rti) \<and> every diff_ok r)"

definition total_table :: "analysis RangeTblEntry list \<Rightarrow> bool" where
  "total_table rts \<longleftrightarrow> (\<forall>rte \<in> set rts. \<forall>f \<in> set_RangeTblEntry rte. total_analysis f)"

lemma analyseRte_total:
  assumes "total_table rts" "ref_ok i rts"
  shows "\<exists>rte c' m. rt_fetch i rts = Inr rte \<and> analyseRte rte c (int i) = Inr (c', [m]) \<and> every diff_ok m \<and>
           (is_TransProvInfo m \<longrightarrow> rtIndex m = int i) \<and> (is_TransProvInfo m \<longleftrightarrow> rts ! (i - 1) \<noteq> RTE_RELATION)"
proof -
  let ?rte = "rts ! (i - 1)"
  have "i - 1 < length rts" using assms(2) by auto
  then have r: "rt_fetch i rts = Inr ?rte" "?rte \<in> set rts"
    using assms(2) by (auto simp: rt_fetch_def simp del: One_nat_def)
  show ?thesis
  proof (cases ?rte)
    case RTE_RELATION
    then show ?thesis using r(1) by (simp add: analyseRte_def makeTransSubInfo_def)
  next
    case (RTE_SUBQUERY f)
    then have "total_analysis f" using assms(1) r(2) by (force simp: total_table_def)
    then obtain c' s t where "f c (int i) = Inr (c', TransProvInfo s t (int i))" "every diff_ok t"
      unfolding total_analysis_def by meson
    then show ?thesis using r(1) RTE_SUBQUERY by (simp add: analyseRte_def)
  qed (use assms(2) in auto)
qed

lemma analyseJoinTreeNode_total:
  assumes "total_table rts"
  shows "from_ok rts n \<Longrightarrow>
     \<exists>c' m. analyseJoinTreeNode rts n c = Inr (c', [m]) \<and> every diff_ok m \<and>
       (is_TransProvInfo m \<longrightarrow> (\<exists>i. n = RangeTblRef i \<and> rtIndex m = int i \<and> rts ! (i - 1) \<noteq> RTE_RELATION))"
proof (induction n arbitrary: c)
  case (JoinExpr jt rti l r)
  from JoinExpr.prems obtain op where op: "join_op jt = Inr op" "op \<noteq> SUBOP_SetOp_Diff" by auto
  from JoinExpr obtain c1 m where l: "analyseJoinTreeNode rts l (c + 1) = Inr (c1, [m])" "every diff_ok m"
    by (metis from_ok.simps(1))
  from JoinExpr obtain c2 k where r: "analyseJoinTreeNode rts r c1 = Inr (c2, [k])" "every diff_ok k"
    by (metis from_ok.simps(1))
  show ?case using op l r by (simp add: makeTransSubInfo_def)
next
  case (RangeTblRef i)
  then have "ref_ok i rts" by simp
  from analyseRte_total [OF assms this, of c] show ?case by force
qed

lemma analyseOneSetOp_total:
  assumes "total_table rts"
  shows "set_ok rts n \<Longrightarrow>
     \<exists>c' m. analyseOneSetOp rts n c = Inr (c', [m]) \<and> every diff_ok m \<and> (is_setop n \<longrightarrow> is_TransSubInfo m)"
proof (induction n arbitrary: c)
  case (SetOperationStmt so l r)
  from SetOperationStmt.prems obtain op where op: "set_op so = Inr op" by (cases so) auto
  from SetOperationStmt obtain c1 m where l: "analyseOneSetOp rts l (c + 1) = Inr (c1, [m])" "every diff_ok m"
    by (metis set_ok.simps(1))
  from SetOperationStmt obtain c2 k where r: "analyseOneSetOp rts r c1 = Inr (c2, [k])" "every diff_ok k"
    by (metis set_ok.simps(1))
  show ?case using op l r by (simp add: makeTransSubInfo_def)
next
  case (SetRangeTblRef i)
  then have "ref_ok i rts" by simp
  from analyseRte_total [OF assms this, of c] show ?case by force
qed

lemma from_loop_total:
  assumes "total_table rts"
  shows "\<forall>n \<in> set froms. from_ok rts n \<Longrightarrow>
     \<exists>c' ns. from_loop rts froms c = Inr (c', ns) \<and> length ns = length froms \<and> (\<forall>m \<in> set ns. every diff_ok m)"
proof (induction froms arbitrary: c)
  case (Cons n froms)
  obtain c1 m where n: "analyseJoinTreeNode rts n c = Inr (c1, [m])" "every diff_ok m"
    using analyseJoinTreeNode_total [OF assms, of n c] Cons.prems by auto
  obtain c2 ns where "from_loop rts froms c1 = Inr (c2, ns)" "length ns = length froms" "\<forall>m \<in> set ns. every diff_ok m"
    using Cons.IH [of c1] Cons.prems by (metis list.set_intros(2))
  with n show ?case by simp
qed simp

definition chain_ok :: "chain \<Rightarrow> bool" where
  "chain_ok ch \<longleftrightarrow> (\<forall>(i, op) \<in> set ch. op \<noteq> SUBOP_SetOp_Diff)"

lemma chain_ok_Nil [simp]: "chain_ok []"
  by (simp add: chain_ok_def)

lemma chain_ok_add [simp]: "chain_ok (snd (add_node op s)) \<longleftrightarrow> op \<noteq> SUBOP_SetOp_Diff \<and> chain_ok (snd s)"
  by (auto simp: chain_ok_def add_node_def)

lemma add_node_ne [simp]: "snd (add_node op s) \<noteq> []"
  by (simp add: add_node_def)

lemma nest_diff_ok:
  "chain_ok ch \<Longrightarrow> \<forall>c \<in> set cs. every diff_ok c \<Longrightarrow> \<forall>c \<in> set (nest ch cs). every diff_ok c"
  by (induction ch cs rule: nest.induct) (auto simp: chain_ok_def makeTransSubInfo_def)

lemma nest_root: "ch \<noteq> [] \<Longrightarrow> \<exists>m. nest ch cs = [m] \<and> is_TransSubInfo m"
  by (cases "(ch, cs)" rule: nest.cases) (auto simp: makeTransSubInfo_def)

lemma any_res_total: "(\<And>x. x \<in> set xs \<Longrightarrow> \<exists>b. f x = Inr b) \<Longrightarrow> \<exists>b. any_res f xs = Inr b"
proof (induction xs)
  case (Cons x xs)
  then obtain b c where "f x = Inr b" "any_res f xs = Inr c" by fastforce
  then have "any_res f (x # xs) = Inr (b \<or> c)" by simp
  then show ?case ..
qed (rule exI [of _ False], simp)

lemma isProjectionUnderAgg_total: "aggs_ok (targetList q) \<Longrightarrow> \<exists>b. isProjectionUnderAgg q = Inr b"
proof -
  assume ok: "aggs_ok (targetList q)"
  have "\<exists>b. projected_arg e = Inr b" if "projected_arg e \<noteq> Inl NullDeref" for e
    using that by (cases e rule: projected_arg.cases) (auto split: list.splits if_splits)
  then have "\<exists>b. any_res projected_arg (getAggrExprs te) = Inr b" if "te \<in> set (targetList q)" for te
    using ok that by (intro any_res_total) (auto simp: aggs_ok_def)
  then show ?thesis unfolding isProjectionUnderAgg_def by (rule any_res_total)
qed

lemma analyseAgg_total:
  assumes "aggs_ok (targetList q)"
  shows "\<exists>s. analyseAgg isP q c = Inr s \<and> chain_ok (snd s) \<and> (snd s = [] \<longrightarrow> plain isP q)"
proof -
  obtain b where "isProjectionUnderAgg q = Inr b" using isProjectionUnderAgg_total [OF assms] by blast
  then show ?thesis
    by (auto simp: analyseAgg_def analyseProjection_def analyseSelection_def plain_def chain_ok_def Let_def
        add_node_def)
qed

lemma query_root_sub: "is_TransSubInfo m \<Longrightarrow> query_root [m] = Inr m"
  by (cases m) (auto simp: query_root_def)

lemma query_root_prov: "is_TransProvInfo m \<Longrightarrow> rtIndex m = 1 \<Longrightarrow> query_root [m] = Inr m"
  by (cases m) (auto simp: query_root_def handleDummyQueryNode_def)

lemma analyseJoinTree_total:
  assumes t: "total_table rts" and f: "\<forall>n \<in> set froms. from_ok rts n"
    and s: "chain_ok (snd s)" "snd s = [] \<longrightarrow> lone_ok True froms rts"
  shows "\<exists>c' m. analyseJoinTree rts froms s = Inr (c', [m]) \<and> every diff_ok m \<and> query_root [m] = Inr m"
proof -
  let ?s = "if snd s = [] \<and> length froms > 1 then add_node SUBOP_Join_Cross s else s"
  obtain c' cs where cs: "from_loop rts froms (fst ?s) = Inr (c', cs)" "length cs = length froms"
    "\<forall>m \<in> set cs. every diff_ok m"
    using from_loop_total [OF t f] by blast
  have ch: "chain_ok (snd ?s)" using s(1) by simp
  have j: "analyseJoinTree rts froms s = Inr (c', nest (snd ?s) cs)"
    using cs(1) by (simp add: analyseJoinTree_def Let_def)
  show ?thesis
  proof (cases "snd ?s = []")
    case False
    then show ?thesis using j nest_root [OF False, of cs] nest_diff_ok [OF ch cs(3)] query_root_sub by auto
  next
    case True
    then have e: "snd s = []" "length froms \<le> 1" "?s = s" by (auto split: if_splits)
    with s(2) have lone: "lone_ok True froms rts" by simp
    then obtain n where n: "froms = [n]" using e(2) by (cases froms) (auto simp: lone_ok_def)
    then obtain c1 m where m: "analyseJoinTreeNode rts n (fst s) = Inr (c1, [m])" "every diff_ok m"
      "is_TransProvInfo m \<longrightarrow> (\<exists>i. n = RangeTblRef i \<and> rtIndex m = int i \<and> rts ! (i - 1) \<noteq> RTE_RELATION)"
      using analyseJoinTreeNode_total [OF t, of n "fst s"] f by auto
    have "query_root [m] = Inr m"
    proof (cases "is_TransProvInfo m")
      case True
      then have "rtIndex m = 1" using m(3) lone n by (auto simp: lone_ok_def)
      with True show ?thesis by (rule query_root_prov)
    qed (cases m, auto simp: query_root_sub)
    with m n e j cs(1) show ?thesis by (auto simp: analyseJoinTree_def)
  qed
qed

lemma ref_ok_map: "ref_ok i (map (map_RangeTblEntry g) rts) \<longleftrightarrow> ref_ok i rts"
proof -
  have "map_RangeTblEntry g rte = RTE_RELATION \<longleftrightarrow> rte = RTE_RELATION" for rte by (cases rte) auto
  then show ?thesis by (auto simp: RangeTblEntry.set_map)
qed

lemma from_ok_map: "from_ok (map (map_RangeTblEntry g) rts) n \<longleftrightarrow> from_ok rts n"
  by (induction n) (simp_all add: ref_ok_map del: ref_ok.simps)

lemma set_ok_map: "set_ok (map (map_RangeTblEntry g) rts) n \<longleftrightarrow> set_ok rts n"
  by (induction n) (simp_all add: ref_ok_map del: ref_ok.simps)

lemma lone_ok_map:
  assumes "lone_ok p froms rts" "\<forall>n \<in> set froms. from_ok rts n"
  shows "lone_ok p froms (map (map_RangeTblEntry g) rts)"
proof -
  have "map (map_RangeTblEntry g) rts ! (i - 1) = RTE_RELATION" if "rts ! (i - 1) = RTE_RELATION" "froms = [RangeTblRef i]" for i
    using that assms(2) by auto
  with assms(1) show ?thesis by (auto simp: lone_ok_def)
qed

lemma analyseOneQueryNode_total: "query_ok isP q \<Longrightarrow> total_analysis (analyseOneQueryNode isP q)"
proof (induction q)
  case (Query tes agg hav qs froms setop rts)
  let ?q = "Query tes agg hav qs froms setop rts"
  let ?rts = "map (map_RangeTblEntry (analyseOneQueryNode isP)) rts"
  have t: "total_table ?rts"
    using Query by (fastforce simp: total_table_def RangeTblEntry.set_map)
  have "\<exists>c' m. (case setop of Some node \<Rightarrow> analyseOneSetOp ?rts node c
           | None \<Rightarrow> res_bind (analyseAgg isP ?q c) (analyseJoinTree ?rts froms)) = Inr (c', [m]) \<and>
           every diff_ok m \<and> query_root [m] = Inr m" for c
  proof (cases setop)
    case None
    with Query.prems have ok: "aggs_ok tes" "\<forall>n \<in> set froms. from_ok rts n" "lone_ok (plain isP ?q) froms rts"
      by auto
    obtain s where s: "analyseAgg isP ?q c = Inr s" "chain_ok (snd s)" "snd s = [] \<longrightarrow> plain isP ?q"
      using analyseAgg_total [of ?q isP c] ok(1) by auto
    have "\<forall>n \<in> set froms. from_ok ?rts n" using ok(2) by (simp add: from_ok_map)
    moreover have "snd s = [] \<longrightarrow> lone_ok True froms ?rts"
      using s(3) lone_ok_map [OF ok(3,2)] by auto
    ultimately show ?thesis
      using analyseJoinTree_total [OF t _ s(2)] s(1) None by simp
  next
    case (Some node)
    with Query.prems have "set_ok ?rts node" "is_setop node" by (auto simp: set_ok_map)
    then show ?thesis using analyseOneSetOp_total [OF t, of node c] Some query_root_sub by fastforce
  qed
  then have "\<exists>c' m. analyseOneQueryNode isP ?q c rti = Inr (c', TransProvInfo False m rti) \<and> every diff_ok m" for c rti
    by (metis (mono_tags, lifting) analyseOneQueryNode.simps case_prod_conv res_bind_Inr)
  then show ?case unfolding total_analysis_def by blast
qed

section \<open>Static operations\<close>

text \<open>The operations that contribute to a tuple: all but the second input of a set difference.\<close>

fun left_nodes :: "TransNode \<Rightarrow> (int \<times> SubOperationType) list" where
  "left_nodes (TransProvInfo s r rti) = left_nodes r"
| "left_nodes (TransSubInfo i s op cs st rti an) =
     (i, op) # (if op = SUBOP_SetOp_Diff then (case cs of [] \<Rightarrow> [] | c # _ \<Rightarrow> left_nodes c)
                else concat (map left_nodes cs))"

definition all_static :: "TransNode \<Rightarrow> bool" where
  "all_static t \<longleftrightarrow> (\<forall>(i, op) \<in> set (left_nodes t). static_op op \<or> op = SUBOP_SetOp_Diff)"

definition static_right :: "TransNode \<Rightarrow> bool" where
  "static_right m \<longleftrightarrow> isStatic m = all_static m"

lemma map_res_Inr:
  "(\<And>x. x \<in> set xs \<Longrightarrow> f x = Inr (g x)) \<Longrightarrow> map_res f xs = Inr (map g xs)"
  by (induction xs) auto

fun with_flags :: "TransNode \<Rightarrow> TransNode" where
  "with_flags (TransProvInfo s r rti) = TransProvInfo (all_static r) (with_flags r) rti"
| "with_flags (TransSubInfo i s op cs st rti an) =
     TransSubInfo i (all_static (TransSubInfo i s op cs st rti an)) op (map with_flags cs) st rti an"

lemma left_nodes_flags [simp]: "left_nodes (with_flags t) = left_nodes t"
  by (induction t rule: with_flags.induct) (auto split: list.splits simp: comp_def cong: map_cong)

lemma all_static_flags [simp]: "all_static (with_flags t) = all_static t"
  by (simp add: all_static_def)

lemma isStatic_flags [simp]: "isStatic (with_flags t) = all_static t"
  by (cases t) (auto simp: all_static_def)

lemma ids_flags [simp]: "ids (with_flags t) = ids t"
  by (induction t rule: with_flags.induct) (auto simp: comp_def cong: map_cong)

lemma every_flags: "every diff_ok t \<Longrightarrow> every (\<lambda>m. diff_ok m \<and> static_right m) (with_flags t)"
proof (induction t rule: with_flags.induct)
  case (2 i s op cs st rti an)
  have "static_right (with_flags (TransSubInfo i s op cs st rti an))"
    unfolding static_right_def by (simp del: with_flags.simps)
  with 2 show ?case by auto
qed simp

lemma checkStaticTreeNode_flags: "every diff_ok t \<Longrightarrow> checkStaticTreeNode t = Inr (with_flags t)"
proof (induction t rule: with_flags.induct)
  case (2 i s op cs st rti an)
  then have m: "map_res checkStaticTreeNode cs = Inr (map with_flags cs)"
    by (intro map_res_Inr) auto
  show ?case
  proof (cases "op = SUBOP_SetOp_Diff")
    case True
    with 2 obtain a b where "cs = [a, b]" by (auto simp: length_Suc_conv numeral_2_eq_2)
    with True m show ?thesis by (auto simp: all_static_def)
  next
    case False
    then show ?thesis using m by (auto simp: all_static_def)
  qed
qed simp

section \<open>Bit sets\<close>

definition bits_of :: "int set \<Rightarrow> nat set" where
  "bits_of I = (\<lambda>i. nat (i - 1)) ` I"

text \<open>The operations in the set of a node.\<close>

definition included :: "TransNode \<Rightarrow> int set" where
  "included m = (if isStatic m then fst ` set (left_nodes m) else {sub_id m})"

definition set_right :: "nat \<Rightarrow> TransNode \<Rightarrow> bool" where
  "set_right n m \<longleftrightarrow> (\<exists>v. setForNode m = Some v \<and> vb_wf n v \<and> elems v = bits_of (included m))"

definition ids_in :: "nat \<Rightarrow> TransNode \<Rightarrow> bool" where
  "ids_in n t \<longleftrightarrow> set (ids t) \<subseteq> {1..int n}"

text \<open>The same tree up to sets and annotations.\<close>

fun shape :: "TransNode \<Rightarrow> TransNode" where
  "shape (TransProvInfo s r rti) = TransProvInfo s (shape r) rti"
| "shape (TransSubInfo i s op cs st rti an) = TransSubInfo i s op (map shape cs) None rti []"

lemma left_nodes_shape: "left_nodes (shape t) = left_nodes t"
  by (induction t rule: shape.induct) (auto split: list.splits simp: comp_def cong: map_cong)

lemma ids_shape: "ids (shape t) = ids t"
  by (induction t rule: shape.induct) (auto simp: comp_def cong: map_cong)

lemma isStatic_shape: "isStatic (shape t) = isStatic t"
  by (cases t) auto

lemma shape_eqD: "shape t = shape u \<Longrightarrow> left_nodes t = left_nodes u \<and> isStatic t = isStatic u \<and> ids t = ids u"
  by (metis left_nodes_shape isStatic_shape ids_shape)

lemma root_shape: "shape (getRootSubForNode t) = getRootSubForNode (shape t)"
  by (induction t rule: shape.induct) auto

lemma root_facts:
  "left_nodes (getRootSubForNode t) = left_nodes t" "getRootSubForNode t \<in> set (subs t)"
  "is_TransSubInfo (getRootSubForNode t)"
  by (induction t rule: getRootSubForNode.induct) auto

text \<open>What one round of the loop adds.\<close>

definition joined :: "bool \<Rightarrow> SubOperationType \<Rightarrow> bool \<Rightarrow> TransNode list \<Rightarrow> int set" where
  "joined s op first cs =
     (if \<not> s then {}
      else if op = SUBOP_SetOp_Diff then (if first \<and> cs \<noteq> [] then fst ` set (left_nodes (hd cs)) else {})
      else \<Union> ((\<lambda>c. fst ` set (left_nodes c)) ` set cs))"

lemma bits_of_Un [simp]: "bits_of (A \<union> B) = bits_of A \<union> bits_of B"
  by (auto simp: bits_of_def)

lemma bits_of_empty [simp]: "bits_of {} = {}"
  by (simp add: bits_of_def)

lemma bits_of_if: "bits_of (if P then A else {}) = (if P then bits_of A else {})"
  by simp

lemma joined_Nil [simp]: "joined s op first [] = {}"
  by (simp add: joined_def)

lemma joined_Cons:
  "joined s op first (c # cs) =
     (if s \<and> (op \<noteq> SUBOP_SetOp_Diff \<or> first) then fst ` set (left_nodes c) else {}) \<union> joined s op False cs"
  by (auto simp: joined_def)

lemma join_child_set:
  assumes v: "vb_wf n v" and c: "every (set_right n) c"
    and s: "s \<and> (op \<noteq> SUBOP_SetOp_Diff \<or> first) \<longrightarrow> isStatic (getRootSubForNode c)"
  shows "\<exists>w an'. join_child s op first c (v, an) = Inr (w, an') \<and> vb_wf n w \<and>
           elems w = elems v \<union>
             (if s \<and> (op \<noteq> SUBOP_SetOp_Diff \<or> first) then bits_of (fst ` set (left_nodes c)) else {})"
proof (cases "s \<and> (op \<noteq> SUBOP_SetOp_Diff \<or> first)")
  case True
  have "set_right n (getRootSubForNode c)" using c root_facts(2) by (auto simp: every_def)
  then obtain u where u: "setForNode (getRootSubForNode c) = Some u" "vb_wf n u"
    "elems u = bits_of (fst ` set (left_nodes c))"
    using s True root_facts(1) [of c] by (auto simp: set_right_def included_def)
  obtain w where "varBitOr v u = Inr w" "vb_wf n w" "elems w = elems v \<union> elems u"
    using varbits.union [OF v u(2)] by auto
  then show ?thesis using True u by (simp add: join_child_def set_of_child_def)
next
  case False
  then show ?thesis using v by (auto simp: join_child_def)
qed

lemma children_static:
  assumes "all_static (TransSubInfo i s op cs st rti an)" "c \<in> set cs" "op \<noteq> SUBOP_SetOp_Diff \<or> c = hd cs"
  shows "all_static c"
  using assms by (cases cs) (auto simp: all_static_def simp del: static_op.simps split: if_splits)

lemma included_sub [simp]:
  "included (TransSubInfo i s op cs st rti an) = insert i (joined s op True cs)"
  by (cases cs) (auto simp: included_def joined_def)

lemma root_static:
  assumes "every (\<lambda>m. diff_ok m \<and> static_right m) c" "shape c' = shape c"
  shows "isStatic (getRootSubForNode c') = all_static c"
proof -
  have "isStatic (getRootSubForNode c') = isStatic (getRootSubForNode c)"
    using assms(2) by (metis isStatic_shape root_shape)
  also have "\<dots> = all_static (getRootSubForNode c)"
    using assms(1) root_facts(2) [of c] by (auto simp: every_def static_right_def)
  also have "\<dots> = all_static c" by (simp add: all_static_def root_facts)
  finally show ?thesis .
qed

lemma joined_left_nodes:
  "joined s op f cs =
     (if \<not> s then {}
      else if op = SUBOP_SetOp_Diff then
        (if f \<and> map left_nodes cs \<noteq> [] then fst ` set (hd (map left_nodes cs)) else {})
      else \<Union> ((\<lambda>l. fst ` set l) ` set (map left_nodes cs)))"
  by (simp add: joined_def hd_map image_image)

lemma joined_shape: "map shape cs = map shape cs' \<Longrightarrow> joined s op f cs = joined s op f cs'"
proof -
  assume e: "map shape cs = map shape cs'"
  have "map left_nodes cs = map left_nodes (map shape cs)" for cs
    by (simp add: left_nodes_shape)
  with e have "map left_nodes cs = map left_nodes cs'" by metis
  then show ?thesis unfolding joined_left_nodes by (simp only:)
qed

lemma computeSets_right:
  fixes n :: nat
  assumes N: "N = int n"
  shows "every (\<lambda>m. diff_ok m \<and> static_right m) t \<Longrightarrow> ids_in n t \<Longrightarrow>
     \<exists>t'. computeSets N t = Inr t' \<and> shape t' = shape t \<and> every (set_right n) t'"
  and "(\<forall>c \<in> set cs. every (\<lambda>m. diff_ok m \<and> static_right m) c \<and> ids_in n c) \<Longrightarrow>
   (\<forall>c \<in> set cs. s \<and> (op \<noteq> SUBOP_SetOp_Diff \<or> first \<and> c = hd cs) \<longrightarrow> all_static c) \<Longrightarrow>
   vb_wf n (fst acc) \<Longrightarrow>
     \<exists>cs' v an. computeSets_loop N s op first cs acc = Inr (cs', v, an) \<and> map shape cs' = map shape cs \<and>
       (\<forall>c \<in> set cs'. every (set_right n) c) \<and> vb_wf n v \<and>
       elems v = elems (fst acc) \<union> bits_of (joined s op first cs)"
  using N
proof (induction N t and N s op first cs acc rule: computeSets_computeSets_loop.induct)
  case (1 N s r rti)
  then show ?case by (auto simp: ids_in_def)
next
  case (2 N i s op cs st rti an)
  let ?m = "TransSubInfo i s op cs st rti an"
  have i: "1 \<le> i" "i \<le> int n" using 2(3) by (auto simp: ids_in_def)
  then obtain v where v: "generateVarbitSetElem N i = Inr v" "vb_wf n v" "elems v = {nat (i - 1)}"
    using generateVarbitSetElem_elems [of i "int n"] 2(4) by (auto simp: vb_wf_def)
  have st: "static_right ?m" using 2(2) by simp
  have a: "\<forall>c \<in> set cs. every (\<lambda>m. diff_ok m \<and> static_right m) c \<and> ids_in n c"
    using 2(2,3) by (auto simp: ids_in_def)
  have b: "\<forall>c \<in> set cs. s \<and> (op \<noteq> SUBOP_SetOp_Diff \<or> True \<and> c = hd cs) \<longrightarrow> all_static c"
    using st children_static [of i s op cs st rti an] by (auto simp: static_right_def)
  from 2(1) [OF v(1) a b] v(2) 2(4) obtain cs' w an' where
    w: "computeSets_loop N s op True cs (v, an) = Inr (cs', w, an')" "map shape cs' = map shape cs"
    "\<forall>c \<in> set cs'. every (set_right n) c" "vb_wf n w" "elems w = elems v \<union> bits_of (joined s op True cs)"
    by auto
  have "set_right n (TransSubInfo i s op cs' (Some w) rti an')"
    using w(4,5) v(3) joined_shape [OF w(2)] by (simp add: set_right_def bits_of_def)
  then show ?case using v(1) w(1-3) by auto
next
  case (3 N s op first acc)
  then show ?case by (cases acc) simp
next
  case (4 N s op first c cs acc)
  have c0: "every (\<lambda>m. diff_ok m \<and> static_right m) c" "ids_in n c"
    and cs: "\<forall>c \<in> set cs. every (\<lambda>m. diff_ok m \<and> static_right m) c \<and> ids_in n c"
    using "4.prems"(1) by simp_all
  from "4.IH"(1) [OF c0 "4.prems"(4)] obtain c' where
    c: "computeSets N c = Inr c'" "shape c' = shape c" "every (set_right n) c'" by blast
  obtain v an where acc: "acc = (v, an)" by (cases acc)
  have st: "s \<and> (op \<noteq> SUBOP_SetOp_Diff \<or> first) \<longrightarrow> isStatic (getRootSubForNode c')"
    using "4.prems"(2) root_static [OF c0(1) c(2)] by simp
  have "vb_wf n v" using "4.prems"(3) acc by simp
  have l: "left_nodes c' = left_nodes c" using shape_eqD [OF c(2)] by simp
  from join_child_set [OF \<open>vb_wf n v\<close> c(3) st, of an, unfolded l] obtain w an' where
    w: "join_child s op first c' (v, an) = Inr (w, an')" "vb_wf n w"
      "elems w = elems v \<union> (if s \<and> (op \<noteq> SUBOP_SetOp_Diff \<or> first) then bits_of (fst ` set (left_nodes c)) else {})"
    by (elim exE conjE)
  have wf: "vb_wf n (fst (w, an'))" using w(2) by simp
  have st': "\<forall>c \<in> set cs. s \<and> (op \<noteq> SUBOP_SetOp_Diff \<or> False \<and> c = hd cs) \<longrightarrow> all_static c"
    using "4.prems"(2) by simp
  from "4.IH"(2) [OF c(1) w(1) [folded acc] cs st' wf "4.prems"(4)] obtain cs' u an2 where
    u: "computeSets_loop N s op False cs (w, an') = Inr (cs', u, an2)" "map shape cs' = map shape cs"
      "\<forall>c \<in> set cs'. every (set_right n) c" "vb_wf n u"
      "elems u = elems (fst (w, an')) \<union> bits_of (joined s op False cs)"
    by (elim exE conjE)
  have "computeSets_loop N s op first (c # cs) acc = Inr (c' # cs', u, an2)"
    using c(1) w(1) u(1) acc by simp
  moreover have "elems u = elems (fst acc) \<union> bits_of (joined s op first (c # cs))"
    by (simp only: u(5) w(3) acc joined_Cons fst_conv bits_of_Un bits_of_if Un_assoc)
  ultimately show ?case using c(2,3) u(2-4) by (intro exI [of _ "c' # cs'"] exI [of _ u] exI [of _ an2]) simp
qed

lemma subs_shape: "subs (shape t) = map shape (subs t)"
  by (induction t rule: shape.induct) (auto simp: map_concat comp_def cong: map_cong)

lemma every_static_shape: "shape t = shape u \<Longrightarrow> every static_right t = every static_right u"
proof -
  have "static_right (shape m) = static_right m" for m
    by (simp add: static_right_def all_static_def left_nodes_shape isStatic_shape)
  then have "every static_right t = (\<forall>m \<in> set (subs (shape t)). static_right m)" for t
    by (auto simp: every_def subs_shape)
  then show "shape t = shape u \<Longrightarrow> ?thesis" by metis
qed

lemma analyseStaticTransProv_right:
  assumes "query_ok isP q"
  shows "\<exists>t n. analyseStaticTransProv isP q = Inr t \<and> ids t = [1..int n] \<and>
           every (\<lambda>m. static_right m \<and> set_right n m) t"
proof -
  obtain c s r where a: "analyseOneQueryNode isP q 1 TRANS_NO_RTINDEX = Inr (c, TransProvInfo s r TRANS_NO_RTINDEX)"
    "every diff_ok r"
    using analyseOneQueryNode_total [OF assms] unfolding total_analysis_def by blast
  let ?t = "TransProvInfo s r TRANS_NO_RTINDEX"
  from a(1) have num: "1 \<le> c" "ids ?t = [1..c - 1]"
    using analyseOneQueryNode_numbered [of isP q] unfolding good_analysis_def numbered_def
    by (metis all_ids_simps(1,2) append_Nil2)+
  obtain n where n: "c - 1 = int n" using num(1) nonneg_int_cases [of "c - 1"] by auto
  let ?u = "with_flags ?t"
  have u: "checkStatic ?t = Inr ?u" "every (\<lambda>m. diff_ok m \<and> static_right m) ?u"
    using a(2) checkStaticTreeNode_flags [of ?t] every_flags [of ?t] by (simp_all add: checkStatic_def)
  have "ids_in n ?u" using num(2) n by (simp only: ids_in_def ids_flags) auto
  from computeSets_right(1) [OF n u(2) this] obtain v where
    v: "computeSets (c - 1) ?u = Inr v" "shape v = shape ?u" "every (set_right n) v" by blast
  have "every static_right v"
    using every_static_shape [OF v(2)] u(2) by (auto simp: every_def)
  moreover have "ids v = [1..int n]"
    using shape_eqD [OF v(2)] num(2) n by (simp only: ids_flags)
  moreover have "analyseStaticTransProv isP q = Inr v"
    using a(1) u(1) v(1) by (simp add: analyseStaticTransProv_def)
  ultimately show ?thesis using v(3) by (auto simp: every_def)
qed

end
