(* ===== verification/TransProps.thy ===== *)
theory TransProps
  imports TransIndexSpec TransStaticSpec
begin

text \<open>
  Properties of transformation provenance: the static analysis of a query, the bit sets, the
  table of query representations and the texts made from them, with witnesses.
\<close>

section \<open>Example states\<close>

definition ex_empty :: transState where
  "ex_empty = \<lparr>theap = \<lparr>cells = Map.empty, lists = Map.empty, objs = {}, brk = 1\<rparr>, tindex = Some NIL,
     tinfos = Map.empty, nextQueryId = 0\<rparr>"

lemma ex_empty_ok: "index_ok ex_empty []"
  by (simp add: index_ok_def ex_empty_def heap_ok_def)

definition ex_info :: "int \<Rightarrow> string option \<Rightarrow> TransRepQueryInfo" where
  "ex_info q c = (blank_info q c)\<lparr>info_string := Some ''q''\<rparr>"

definition ex_table :: "string option \<Rightarrow> string option \<Rightarrow> transState" where
  "ex_table c d = \<lparr>theap = \<lparr>cells = [2 \<mapsto> \<lparr>cdata = PtrVal 4, cnext = 3\<rparr>, 3 \<mapsto> \<lparr>cdata = PtrVal 5, cnext = 0\<rparr>],
       lists = [1 \<mapsto> \<lparr>ltype = T_List, llength = 2, lhead = 2, ltail = 3\<rparr>], objs = {4, 5}, brk = 6\<rparr>,
     tindex = Some 1, tinfos = [4 \<mapsto> ex_info 0 c, 5 \<mapsto> ex_info 1 d], nextQueryId = 2\<rparr>"

lemma ex_table_ok: "index_ok (ex_table c d) [4, 5]"
proof -
  have "list_rep (theap (ex_table c d)) T_List 1 [(2, PtrVal 4), (3, PtrVal 5)]"
    by (simp add: ex_table_def list_rep_def header_def)
  then have "\<exists>l xs. tindex (ex_table c d) = Some l \<and> list_rep (theap (ex_table c d)) T_List l xs \<and>
      vals xs = map PtrVal [4, 5]"
    by (intro exI [of _ 1] exI [of _ "[(2, PtrVal 4), (3, PtrVal 5)]"]) (simp add: ex_table_def)
  then show ?thesis
    by (auto simp: index_ok_def ex_table_def heap_ok_def ex_info_def blank_info_def)
qed

lemma ex_table_infos: "infos_of (ex_table c d) [4, 5] = [ex_info 0 c, ex_info 1 d]"
  by (simp add: infos_of_def ex_table_def)

lemma ex_next [simp]: "nextQueryId (ex_table c d) = 2" "nextQueryId ex_empty = 0"
  by (simp_all add: ex_table_def ex_empty_def)

lemma ex_info_fields [simp]:
  "info_queryId (ex_info q c) = q" "cusorName (ex_info q c) = c" "hold (ex_info q c) = (c \<noteq> None)"
  by (simp_all add: ex_info_def blank_info_def)

definition ex_bits :: VarBit where
  "ex_bits = \<lparr>bit_len = 2, bit_dat = [0x80]\<rparr>"

definition ex_bits2 :: VarBit where
  "ex_bits2 = \<lparr>bit_len = 2, bit_dat = [0x40]\<rparr>"

definition ex_ranges :: "TransParseRange list" where
  "ex_ranges = [\<lparr>range_set = ex_bits, range_begin = 0, range_end = 2\<rparr>,
     \<lparr>range_set = ex_bits2, range_begin = 1, range_end = 2\<rparr>]"

lemma ex_bits_ok: "vb_ok ex_bits" "elems ex_bits = {0}"
proof -
  have "generateVarbitSetElem 2 1 = Inr ex_bits" by code_simp
  then show "vb_ok ex_bits" "elems ex_bits = {0}" using generateVarbitSetElem_elems [of 1 2] by auto
qed

lemma ex_bits2_ok: "vb_ok ex_bits2" "elems ex_bits2 = {1}"
proof -
  have "generateVarbitSetElem 2 2 = Inr ex_bits2" by code_simp
  then show "vb_ok ex_bits2" "elems ex_bits2 = {1}" using generateVarbitSetElem_elems [of 2 2] by auto
qed

lemma ex_bits_len [simp]: "bit_len ex_bits = 2" "bit_len ex_bits2 = 2"
  by (simp_all add: ex_bits_def ex_bits2_def)

lemma ex_ranges_ok: "printed_ranges 2 ''ab'' ex_ranges"
  by (simp add: printed_ranges_def ex_ranges_def ex_bits_ok ex_bits2_ok)

section \<open>Text of a transformation provenance\<close>

text \<open>C6: A query representation that \<open>generateTransProvQueryIndex\<close> adds to the table is found under
  the identifier it returns, and \<open>reconstructTransToSQL\<close> gives the printed text of the query in
  which exactly the characters of the parts whose bits are not all in the bit set are marked as
  not contributing.  No buffer is overrun.\<close>

theorem reconstruct_after_generate:
  assumes "index_ok st ps" "nextQueryId st \<noteq> - 1" "printed_ranges n s ranges" "vb_ok bitset" "bit_len bitset = n"
  shows "\<exists>st' p ts. generateTransProvQueryIndex st ranges s cursorName = Inr (nextQueryId st, st') \<and>
           index_ok st' (ps @ [p]) \<and>
           reconstructTransToSQL (infos_of st' (ps @ [p])) (Some bitset) (uint (nextQueryId st)) = Inr (render ts) \<and>
           strip ts = s \<and>
           (\<forall>k < length s. marks False ts ! k \<longleftrightarrow>
              (\<exists>r \<in> set ranges. \<not> elems (range_set r) \<subseteq> elems bitset \<and>
                 range_begin r \<le> int k \<and> int k < range_end r))"
proof -
  from generate_entry [OF assms(1-3), of cursorName] obtain st' p info where
    g: "generateTransProvQueryIndex st ranges s cursorName = Inr (nextQueryId st, st')"
      "postprocessRanges ranges s (blank_info (uint (nextQueryId st)) cursorName) = Inr info"
      "index_ok st' (ps @ [p])" "infos_of st' (ps @ [p]) = infos_of st ps @ [info]"
      "info_queryId info = uint (nextQueryId st)"
    by (elim exE conjE)
  have "find_info (infos_of st' (ps @ [p])) (uint (nextQueryId st)) = Some info"
    using index_ok_lookup [OF g(3), of info] g(4,5) by simp
  moreover have "info_for info bitset s (map (range_of bitset) ranges)"
    using postprocessRanges_info [OF assms(3-5), of "blank_info (uint (nextQueryId st)) cursorName"] g(2) by auto
  ultimately have "reconstructTransToSQL (infos_of st' (ps @ [p])) (Some bitset) (uint (nextQueryId st)) =
      Inr (annotate s 0 (excluded (map (range_of bitset) ranges)))"
    using generateTransProvRep_text g(5) by (simp add: reconstructTransToSQL_def)
  with annotated_text [OF assms(3-5)] g(1,3) show ?thesis by fastforce
qed

theorem reconstruct_after_generate_witness:
  "\<exists>st' p ts. generateTransProvQueryIndex ex_empty ex_ranges ''ab'' None = Inr (0, st') \<and>
     reconstructTransToSQL (infos_of st' [p]) (Some ex_bits) 0 = Inr (render ts) \<and> strip ts = ''ab'' \<and>
     marks False ts ! 1"
proof -
  have r: "\<exists>r \<in> set ex_ranges. \<not> elems (range_set r) \<subseteq> elems ex_bits \<and> range_begin r \<le> int 1 \<and> int 1 < range_end r"
    by (simp add: ex_ranges_def ex_bits_ok ex_bits2_ok)
  have "nextQueryId ex_empty \<noteq> - 1" by simp
  from reconstruct_after_generate [OF ex_empty_ok this ex_ranges_ok ex_bits_ok(1) ex_bits_len(1), of None]
  obtain st' p ts where g: "generateTransProvQueryIndex ex_empty ex_ranges ''ab'' None = Inr (nextQueryId ex_empty, st')"
    "reconstructTransToSQL (infos_of st' ([] @ [p])) (Some ex_bits) (uint (nextQueryId ex_empty)) = Inr (render ts)"
    "strip ts = ''ab''" "\<forall>k < length ''ab''. marks False ts ! k \<longleftrightarrow>
       (\<exists>r \<in> set ex_ranges. \<not> elems (range_set r) \<subseteq> elems ex_bits \<and> range_begin r \<le> int k \<and> int k < range_end r)"
    by (elim exE conjE)
  from g(4) r have "marks False ts ! 1" by simp
  with g(1-3) show ?thesis by (intro exI [of _ st'] exI [of _ p] exI [of _ ts]) simp
qed

text \<open>C9: A mapping representation that \<open>generateMapQueryIndex\<close> adds to the table is found under the
  identifier it returns, and \<open>reconstructMap\<close> gives the annotations whose bit set equals the given
  one, in order.\<close>

theorem reconstructMap_after_generate:
  assumes "index_ok st ps" "nextQueryId st \<noteq> - 1" "length annotations = length bitSets" "vb_ok bitset"
    and "\<forall>b \<in> set bitSets. vb_ok b \<and> bit_len b = bit_len bitset"
  shows "\<exists>st' p. generateMapQueryIndex st annotations bitSets cursorName = Inr (nextQueryId st, st') \<and>
           index_ok st' (ps @ [p]) \<and>
           reconstructMap (infos_of st' (ps @ [p])) (Some bitset) (uint (nextQueryId st)) =
             Inr (concat (map fst (filter (\<lambda>p. elems (snd p) = elems bitset) (zip annotations bitSets))))"
proof -
  let ?fill = "\<lambda>info. Inr (fill_map_info annotations bitSets info)"
  let ?info = "fill_map_info annotations bitSets (blank_info (uint (nextQueryId st)) cursorName)"
  have q: "info_queryId ?info = uint (nextQueryId st)"
    by (simp add: fill_map_info_def blank_info_def Let_def)
  from generate_index_step [of st ps ?fill cursorName ?info, OF assms(1,2) refl q] obtain st' p where
    g: "generate_index st ?fill cursorName = Inr (nextQueryId st, st')" "index_ok st' (ps @ [p])"
      "infos_of st' (ps @ [p]) = infos_of st ps @ [?info]"
    by blast
  have "find_info (infos_of st' (ps @ [p])) (info_queryId ?info) = Some ?info"
    using index_ok_lookup [OF g(2), of ?info] g(3) by simp
  moreover have "vb_ok (snd z) \<and> bit_len (snd z) = bit_len bitset" if "z \<in> set (zip annotations bitSets)" for z
    using set_zip_rightD [of "fst z" "snd z" annotations bitSets] that assms(5) by simp
  ultimately have "generateMapRep (infos_of st' (ps @ [p])) (Some bitset) (info_queryId ?info) =
      Inr (concat (map fst (filter (\<lambda>p. elems (snd p) = elems bitset) (zip annotations bitSets))))"
    by (intro generateMapRep_chosen [OF fill_map_info_rep [OF assms(3)] _ assms(4)])
  with g(1,2) q show ?thesis by (auto simp: generateMapQueryIndex_def reconstructMap_def)
qed

theorem reconstructMap_after_generate_witness:
  "\<exists>st' p. generateMapQueryIndex ex_empty [''a'', ''b''] [ex_bits, generateEmptyBitset 2] None = Inr (0, st') \<and>
     reconstructMap (infos_of st' [p]) (Some ex_bits) 0 = Inr ''a''"
proof -
  have "elems (generateEmptyBitset 2) \<noteq> elems ex_bits"
    using generateEmptyBitset_elems [of 2] ex_bits_ok(2) by auto
  moreover have "vb_ok (generateEmptyBitset 2)" "bit_len (generateEmptyBitset 2) = bit_len ex_bits"
    using generateEmptyBitset_elems [of 2] by (auto simp: generateEmptyBitset_def)
  ultimately show ?thesis
    using reconstructMap_after_generate [OF ex_empty_ok, of "[''a'', ''b'']" "[ex_bits, generateEmptyBitset 2]" ex_bits None]
      ex_bits_ok by (auto simp: ex_empty_def)
qed

text \<open>Adding a representation keeps the invariant of the table: the identifiers stay distinct, and
  every entry that was in the table is still found under its own identifier.\<close>

theorem generate_keeps_entries:
  assumes "index_ok st ps" "nextQueryId st \<noteq> - 1" "printed_ranges n s ranges"
  shows "\<exists>st' p. generateTransXmlQueryIndex st ranges s cursorName = Inr (nextQueryId st, st') \<and>
           index_ok st' (ps @ [p]) \<and>
           (\<forall>i \<in> set (infos_of st ps). find_info (infos_of st' (ps @ [p])) (info_queryId i) = Some i)"
proof -
  from generate_entry [OF assms, of cursorName] obtain st' p info where
    g: "generateTransProvQueryIndex st ranges s cursorName = Inr (nextQueryId st, st')"
      "index_ok st' (ps @ [p])" "infos_of st' (ps @ [p]) = infos_of st ps @ [info]"
    by (elim exE conjE)
  have "find_info (infos_of st' (ps @ [p])) (info_queryId i) = Some i" if "i \<in> set (infos_of st ps)" for i
    using index_ok_lookup [OF g(2), of i] that g(3) by simp
  with g(1,2) show ?thesis by (auto simp: generateTransXmlQueryIndex_def generateTransProvQueryIndex_def)
qed

theorem generate_keeps_entries_witness:
  "\<exists>st' p. generateTransXmlQueryIndex (ex_table None None) ex_ranges ''ab'' None = Inr (2, st') \<and>
     find_info (infos_of st' [4, 5, p]) 1 = Some (ex_info 1 None)"
  using generate_keeps_entries [OF ex_table_ok [of None None] _ ex_ranges_ok, of None]
  by (auto simp: ex_table_infos)

section \<open>Lifetime of the representations\<close>




text \<open>When all entries are held, \<open>dropTransProvQueryIndex\<close> leaves the table as it is, so the
  representations of open cursors survive every statement.\<close>

theorem drop_keeps_held:
  assumes "index_ok st ps" "\<forall>i \<in> set (infos_of st ps). hold i"
  shows "dropTransProvQueryIndex st = Inr st"
  using drop_all_held [OF assms(1)] assms(2) by blast

theorem drop_keeps_held_witness:
  "dropTransProvQueryIndex (ex_table (Some ''c'') (Some ''d'')) = Inr (ex_table (Some ''c'') (Some ''d''))"
  using drop_keeps_held [OF ex_table_ok [of "Some ''c''" "Some ''d''"]]
  by (simp add: ex_table_infos ex_info_def blank_info_def)

text \<open>C27: When the first of several entries is not held, \<open>dropTransProvQueryIndex\<close> frees it and then
  reads through the null pointer \<open>before\<close>.\<close>

theorem drop_first_of_several_crashes:
  assumes "index_ok st (p # q # ps)" "\<not> hold (the (tinfos st p))"
  shows "dropTransProvQueryIndex st = Inl NullDeref"
  using assms by (rule drop_head_crashes)

theorem drop_first_of_several_crashes_witness:
  "dropTransProvQueryIndex (ex_table None None) = Inl NullDeref"
  using drop_first_of_several_crashes [OF ex_table_ok [of None None]]
  by (simp add: ex_table_def ex_info_def blank_info_def)

text \<open>C28: When the last of several entries is the only one not held, \<open>dropTransProvQueryIndex\<close> frees
  its cell but leaves the tail of the list at it: adding the next representation writes to freed
  memory.\<close>

theorem drop_last_then_append_crashes:
  assumes "index_ok st (ps @ [p])" "ps \<noteq> []" "\<forall>i \<in> set (infos_of st ps). hold i"
    and "\<not> hold (the (tinfos st p))"
  shows "\<exists>st'. dropTransProvQueryIndex st = Inr st' \<and>
           generateTransProvQueryIndex st' ranges s cursorName = Inl NullDeref"
  using drop_last_dangles [OF assms(1,2) _ assms(4), of "postprocessRanges ranges s" cursorName] assms(3)
  by (auto simp: generateTransProvQueryIndex_def)

theorem drop_last_then_append_crashes_witness:
  "\<exists>st'. dropTransProvQueryIndex (ex_table (Some ''c'') None) = Inr st' \<and>
     generateTransProvQueryIndex st' ex_ranges ''ab'' None = Inl NullDeref"
  using drop_last_then_append_crashes [of "ex_table (Some ''c'') None" "[4]" 5 ex_ranges "''ab''" None]
    ex_table_ok [of "Some ''c''" None]
  by (simp add: ex_table_def ex_info_def blank_info_def infos_of_def)

text \<open>\<open>releaseHold\<close> clears the hold of the entries of the named cursor and changes nothing else in
  the table, provided every entry belongs to a cursor.\<close>

theorem releaseHold_named_only:
  assumes "index_ok st ps" "\<forall>i \<in> set (infos_of st ps). cusorName i \<noteq> None"
  shows "\<exists>st'. releaseHold st c = Inr st' \<and> index_ok st' ps \<and>
           infos_of st' ps = map (\<lambda>i. if cusorName i = Some c then i\<lparr>hold := False\<rparr> else i) (infos_of st ps)"
  using releaseHold_step [OF assms(1)] assms(2) index_ok_released [OF assms(1)]
    infos_of_released [of st "\<lambda>p. cusorName (the (tinfos st p)) = Some c" ps]
  by (simp add: infos_of_def comp_def)

theorem releaseHold_named_only_witness:
  "\<exists>st'. releaseHold (ex_table (Some ''c'') (Some ''d'')) ''d'' = Inr st' \<and>
     infos_of st' [4, 5] = [ex_info 0 (Some ''c''), (ex_info 1 (Some ''d''))\<lparr>hold := False\<rparr>]"
  using releaseHold_named_only [OF ex_table_ok [of "Some ''c''" "Some ''d''"], of "''d''"]
  by (auto simp: ex_table_infos ex_info_def blank_info_def)

text \<open>C29: \<open>releaseHold\<close> compares the cursor name with a null pointer as soon as the table holds the
  representation of a query without a cursor.\<close>

theorem releaseHold_plain_query_crashes:
  assumes "index_ok st ps" "i \<in> set (infos_of st ps)" "cusorName i = None"
  shows "releaseHold st c = Inl NullDeref"
  using assms by (rule releaseHold_null)

theorem releaseHold_plain_query_crashes_witness:
  "releaseHold (ex_table (Some ''c'') None) ''c'' = Inl NullDeref"
  using releaseHold_plain_query_crashes [OF ex_table_ok [of "Some ''c''" None], of "ex_info 1 None" "''c''"]
  by (simp add: ex_table_infos ex_info_def blank_info_def)

section \<open>Static analysis\<close>

text \<open>C8: The analysis of an accepted query returns, and the identifiers of its operations are
  1, 2, ..., n in the order of a traversal, so no two operations share a bit.\<close>

theorem analyseStaticTransProv_ids:
  assumes "query_ok isProjection query"
  shows "\<exists>t n. analyseStaticTransProv isProjection query = Inr t \<and> ids t = [1..int n]"
  using analyseStaticTransProv_right [OF assms] by blast

definition ex_query :: Query where
  "ex_query = Query [] False False None []
     (Some (SetOperationStmt SETOP_EXCEPT (SetRangeTblRef 1) (SetRangeTblRef 2)))
     [RTE_RELATION, RTE_SUBQUERY (Query [Var 1 1] False False (Some (OtherExpr []))
        [JoinExpr JOIN_LEFT 3 (RangeTblRef 1) (RangeTblRef 2)] None [RTE_RELATION, RTE_RELATION, RTE_JOIN])]"

lemma ex_query_ok: "query_ok (\<lambda>_. False) ex_query"
  by (simp add: ex_query_def aggs_ok_def lone_ok_def plain_def nth_Cons')

theorem analyseStaticTransProv_ids_witness:
  "\<exists>t n. analyseStaticTransProv (\<lambda>_. False) ex_query = Inr t \<and> ids t = [1..int n]"
  using analyseStaticTransProv_ids [OF ex_query_ok] .



section \<open>Bit sets\<close>

text \<open>The SQL function \<open>bitor_with_null\<close> is the union of sets, and a null argument the empty set.\<close>

theorem bitor_with_null_union:
  assumes "vb_wf n a" "vb_wf n b"
  shows "(\<exists>c. bitor_with_null (Some a) (Some b) = Inr (Some c) \<and> vb_wf n c \<and> elems c = elems a \<union> elems b) \<and>
         bitor_with_null (Some a) None = Inr (Some a) \<and> bitor_with_null None (Some b) = Inr (Some b) \<and>
         bitor_with_null None None = Inr None"
  using assms bitor_with_null_elems [of a b] bitor_with_null_None by (auto simp: vb_wf_def bitor_with_null_def)

theorem bitor_with_null_union_witness:
  "bitor_with_null (Some ex_bits) None = Inr (Some ex_bits) \<and>
     (\<exists>c. bitor_with_null (Some ex_bits) (Some ex_bits) = Inr (Some c) \<and> elems c = elems ex_bits)"
  using bitor_with_null_union [of 2 ex_bits ex_bits] ex_bits_ok by (auto simp: vb_wf_def)

text \<open>\<open>bitset_nonzero_repeat\<close> tells whether every full block of \<open>k\<close> bits has a bit set, when the
  length of the bit string is not a multiple of eight.\<close>

theorem bitset_nonzero_repeat_blocks:
  assumes "vb_ok v" "0 < k" "bit_len v mod 8 \<noteq> 0"
  shows "bitset_nonzero_repeat (Some v) (Some (int k)) =
           Inr (\<forall>m. Suc m * k \<le> nat (bit_len v) \<longrightarrow> (\<exists>i \<in> elems v. m * k \<le> i \<and> i < Suc m * k))"
  using assms by (rule bitset_nonzero_repeat_iff)

theorem bitset_nonzero_repeat_blocks_witness:
  "bitset_nonzero_repeat (Some ex_bits) (Some (int 1)) =
     Inr (\<forall>m. Suc m * 1 \<le> nat (bit_len ex_bits) \<longrightarrow> (\<exists>i \<in> elems ex_bits. m * 1 \<le> i \<and> i < Suc m * 1))"
  using bitset_nonzero_repeat_blocks [OF ex_bits_ok(1), of 1] by simp

text \<open>A singleton set is contained in a bit set exactly when its element is a member, and two bit
  sets are equal exactly when each contains the other.\<close>

theorem bitset_membership:
  assumes "vb_wf n a" "vb_wf n b" "i < n"
  shows "(\<exists>s. generateVarbitSetElem (int n) (int i + 1) = Inr s \<and> bitsetContains a s = Inr (i \<in> elems a)) \<and>
         (bitsetEqual a b = Inr True \<longleftrightarrow> bitsetContains a b = Inr True \<and> bitsetContains b a = Inr True)"
  using varbits.contains_singleton [OF assms(1), of i] varbits.same_iff_contains [OF assms(1,2)] assms(3) by simp

theorem bitset_membership_witness:
  "\<exists>s. generateVarbitSetElem (int 2) (int 0 + 1) = Inr s \<and> bitsetContains ex_bits s = Inr (0 \<in> elems ex_bits)"
  using bitset_membership [of 2 ex_bits ex_bits 0] ex_bits_ok by (simp add: vb_wf_def)

end
