(* ===== verification/CString.thy ===== *)
theory CString
  imports Prelude
begin

text \<open>
  The functions of \<open>string.h\<close> and \<open>stdio.h\<close> that the LDV client library uses, on the characters
  before the terminating nul: \<open>strchr\<close>, \<open>strcasestr\<close>, \<open>strncasecmp\<close>, \<open>strncmp\<close> with a literal,
  copies into buffers of a fixed size, and \<open>fgets\<close> on the rest of a file.
\<close>

section \<open>Comparison and search\<close>

definition tolower :: "char \<Rightarrow> char" where
  "tolower c = (let n = of_char c :: nat in if 65 \<le> n \<and> n \<le> 90 then char_of (n + 32) else c)"

text \<open>\<open>strncmp(s, lit, strlen(lit)) == 0\<close>\<close>

definition starts_with :: "string \<Rightarrow> string \<Rightarrow> bool" where
  "starts_with lit s \<longleftrightarrow> take (length lit) s = lit"

text \<open>\<open>strncasecmp(s, lit, n) == 0\<close> for a literal of at least \<open>n\<close> characters\<close>

definition strncaseeq :: "string \<Rightarrow> string \<Rightarrow> nat \<Rightarrow> bool" where
  "strncaseeq s lit n \<longleftrightarrow> map tolower (take n s) = map tolower (take n lit)"

text \<open>Positions of the first match.\<close>

fun strchr :: "string \<Rightarrow> char \<Rightarrow> nat option" where
  "strchr [] c = None"
| "strchr (x # xs) c = (if x = c then Some 0 else map_option Suc (strchr xs c))"

fun strcasestr :: "string \<Rightarrow> string \<Rightarrow> nat option" where
  "strcasestr s pat =
     (if strncaseeq s pat (length pat) then Some 0
      else case s of [] \<Rightarrow> None | x # xs \<Rightarrow> map_option Suc (strcasestr xs pat))"

declare strcasestr.simps [simp del]

text \<open>\<open>strchr(s, c) + 1\<close>: the string after the first \<open>c\<close>; without one the result is used as a pointer near null.\<close>

definition after_char :: "string \<Rightarrow> char \<Rightarrow> string res" where
  "after_char s c = (case strchr s c of None \<Rightarrow> Inl NullDeref | Some i \<Rightarrow> Inr (drop (Suc i) s))"

text \<open>A string stored in a buffer of \<open>cap\<close> bytes, with its nul.\<close>

definition in_buffer :: "nat \<Rightarrow> string \<Rightarrow> string res" where
  "in_buffer cap s = (if length s < cap then Inr s else Inl OutOfBounds)"

text \<open>\<open>s + n\<close> as a string\<close>

definition str_at :: "string \<Rightarrow> nat \<Rightarrow> string res" where
  "str_at s n = (if n \<le> length s then Inr (drop n s) else Inl OutOfBounds)"

lemma strchr_append_none: "c \<notin> set s \<Longrightarrow> strchr (s @ c # r) c = Some (length s)"
  by (induction s) auto

lemma strchr_None_iff: "strchr s c = None \<longleftrightarrow> c \<notin> set s"
  by (induction s) auto

lemma after_char_append [simp]: "c \<notin> set s \<Longrightarrow> after_char (s @ c # r) c = Inr r"
  by (simp add: after_char_def strchr_append_none)

lemma starts_with_append [simp]: "starts_with lit (lit @ s)"
  by (simp add: starts_with_def)

lemma in_buffer_iff [res_iff]: "in_buffer cap s = Inr t \<longleftrightarrow> t = s \<and> length s < cap"
  by (auto simp: in_buffer_def)

section \<open>Reading lines\<close>

definition newline :: char where
  "newline = CHR 0x0A"

definition tab :: char where
  "tab = CHR 0x09"

text \<open>
  \<open>fgets(line, size, f)\<close> on what is left of the file: at most \<open>size - 1\<close> characters, up to and
  with the first newline; \<open>None\<close> at the end of the file.
\<close>

definition fgets :: "nat \<Rightarrow> string \<Rightarrow> (string \<times> string) option" where
  "fgets sz input =
     (if input = [] then None
      else
        let l = takeWhile (\<lambda>c. c \<noteq> newline) input;
            n = min (sz - 1) (Suc (length l))
        in Some (take n input, drop n input))"

lemma fgets_shorter: "fgets sz input = Some (line, rest) \<Longrightarrow> 1 < sz \<Longrightarrow> length rest < length input"
  by (cases input) (auto simp: fgets_def Let_def split: if_splits)

lemma takeWhile_line: "newline \<notin> set l \<Longrightarrow> takeWhile (\<lambda>c. c \<noteq> newline) (l @ newline # r) = l"
  by (induction l) auto

lemma fgets_line:
  "newline \<notin> set l \<Longrightarrow> Suc (length l) < sz \<Longrightarrow> fgets sz (l @ newline # r) = Some (l @ [newline], r)"
  by (simp add: fgets_def Let_def takeWhile_line)

lemma fgets_Nil [simp]: "fgets sz [] = None"
  by (simp add: fgets_def)

text \<open>A file all of whose lines fit into the buffer.\<close>

definition line_of :: "string \<Rightarrow> string" where
  "line_of l = l @ [newline]"

definition lines_fit :: "nat \<Rightarrow> string list \<Rightarrow> bool" where
  "lines_fit sz ls \<longleftrightarrow> (\<forall>l \<in> set ls. newline \<notin> set l \<and> Suc (length l) < sz)"

lemma fgets_line_of:
  "newline \<notin> set l \<Longrightarrow> Suc (length l) < sz \<Longrightarrow> fgets sz (line_of l @ r) = Some (line_of l, r)"
  using fgets_line [of l sz r] by (simp add: line_of_def)

section \<open>Digits\<close>

lemma is_digit_plain: "is_digit c \<Longrightarrow> c \<noteq> newline \<and> c \<noteq> tab \<and> c \<noteq> CHR ''-''"
  by (auto simp: is_digit_def newline_def tab_def)

lemma show_nat_plain [simp]: "newline \<notin> set (show_nat n)" "tab \<notin> set (show_nat n)"
  using show_nat_digits is_digit_plain by blast+

lemma show_int_plain [simp]: "newline \<notin> set (show_int i)" "tab \<notin> set (show_int i)"
proof -
  have "newline \<noteq> CHR ''-''" "tab \<noteq> CHR ''-''" by (simp_all add: newline_def tab_def)
  then show "newline \<notin> set (show_int i)" "tab \<notin> set (show_int i)" by (simp_all add: show_int_def)
qed

lemma show_int_length: "\<bar>i\<bar> < 10 ^ Suc k \<Longrightarrow> length (show_int i) \<le> Suc (Suc k)"
proof -
  assume "\<bar>i\<bar> < 10 ^ Suc k"
  then have "nat \<bar>i\<bar> < 10 ^ Suc k" by (simp add: nat_less_iff)
  then have "length (show_nat (nat \<bar>i\<bar>)) \<le> Suc k" by (rule show_nat_length)
  then show ?thesis by (auto simp: show_int_def abs_if split: if_splits)
qed

end
