(* ===== verification/LdvHash.thy ===== *)
theory LdvHash
  imports Prelude
begin

text \<open>
  The hash function of the LDV client library and the table of hashes that remembers for which
  tables a statement has been issued (\<open>prv_hash\<close>, \<open>prv_hashInit\<close>, \<open>prv_hashPut\<close> and
  \<open>prv_hashContains\<close> of \<open>src/interfaces/libpq/fe-exec.c\<close>).
\<close>

unbundle bit_operations_syntax

type_synonym sll = "64 word"

section \<open>Hash function\<close>

text \<open>A \<open>char\<close> is signed and is extended to the width of the hash.\<close>

definition char_int :: "char \<Rightarrow> int" where
  "char_int c = (let n = of_char c :: int in if n < 128 then n else n - 256)"

fun hash_loop :: "sll \<Rightarrow> string \<Rightarrow> sll" where
  "hash_loop h [] = h"
| "hash_loop h (c # s) = hash_loop ((push_bit 5 h + h) XOR word_of_int (char_int c)) s"

definition prv_hash :: "string \<Rightarrow> sll" where
  "prv_hash s = (let h = hash_loop 5381 s in if sint h < 0 then - h else h)"

section \<open>Table of hashes\<close>

definition HASH_LEN :: nat where
  "HASH_LEN = 10"

record hashtbl =
  hsize :: nat
  hash_of :: "sll list"

definition prv_hashInit :: hashtbl where
  "prv_hashInit = \<lparr>hsize = 0, hash_of = replicate HASH_LEN 0\<rparr>"

text \<open>When the table is full, the call only logs an error.\<close>

definition prv_hashPut :: "hashtbl \<Rightarrow> string \<Rightarrow> hashtbl" where
  "prv_hashPut dict s =
     (if hsize dict < HASH_LEN
      then dict\<lparr>hash_of := (hash_of dict)[hsize dict := prv_hash s], hsize := Suc (hsize dict)\<rparr>
      else dict)"

fun contains_loop :: "sll list \<Rightarrow> nat \<Rightarrow> sll \<Rightarrow> bool" where
  "contains_loop hs 0 h = False"
| "contains_loop [] (Suc n) h = False"
| "contains_loop (x # hs) (Suc n) h = (h = x \<or> contains_loop hs n h)"

definition prv_hashContains :: "hashtbl \<Rightarrow> string \<Rightarrow> bool" where
  "prv_hashContains dict s = contains_loop (hash_of dict) (hsize dict) (prv_hash s)"

section \<open>Interface: names seen before\<close>

locale name_cache =
  fixes wf :: "'d \<Rightarrow> bool" and full :: "'d \<Rightarrow> bool" and put :: "'d \<Rightarrow> string \<Rightarrow> 'd"
    and contains :: "'d \<Rightarrow> string \<Rightarrow> bool"
  assumes wf_put: "wf d \<Longrightarrow> wf (put d s)"
    and contains_put: "wf d \<Longrightarrow> \<not> full d \<Longrightarrow> contains (put d s) s"
    and put_keeps: "wf d \<Longrightarrow> contains d t \<Longrightarrow> contains (put d s) t"
    and put_full: "wf d \<Longrightarrow> full d \<Longrightarrow> put d s = d"
begin

lemma foldl_wf: "wf d \<Longrightarrow> wf (foldl put d ss)"
  by (induction ss arbitrary: d) (auto simp: wf_put)

lemma foldl_keeps: "wf d \<Longrightarrow> contains d t \<Longrightarrow> contains (foldl put d ss) t"
  by (induction ss arbitrary: d) (auto simp: wf_put put_keeps)

text \<open>A name put before the cache was full is found from then on.\<close>

lemma put_then_found:
  assumes "wf d" "\<not> full (foldl put d ss)"
  shows "contains (foldl put d (ss @ s # ts)) s"
proof -
  have "contains (put (foldl put d ss) s) s" using assms foldl_wf contains_put by blast
  then show ?thesis using foldl_keeps [of "put (foldl put d ss) s" s ts] assms(1) foldl_wf wf_put by simp
qed

lemma full_frozen: "wf d \<Longrightarrow> full d \<Longrightarrow> foldl put d ss = d"
  by (induction ss) (auto simp: put_full)

end

definition dict_ok :: "hashtbl \<Rightarrow> bool" where
  "dict_ok dict \<longleftrightarrow> hsize dict \<le> HASH_LEN \<and> length (hash_of dict) = HASH_LEN"

definition dict_full :: "hashtbl \<Rightarrow> bool" where
  "dict_full dict \<longleftrightarrow> hsize dict = HASH_LEN"

definition dict_hashes :: "hashtbl \<Rightarrow> sll list" where
  "dict_hashes dict = take (hsize dict) (hash_of dict)"

lemma contains_loop_iff: "contains_loop hs n h \<longleftrightarrow> h \<in> set (take n hs)"
  by (induction hs n h rule: contains_loop.induct) auto

lemma prv_hashContains_iff: "prv_hashContains dict s \<longleftrightarrow> prv_hash s \<in> set (dict_hashes dict)"
  by (simp add: prv_hashContains_def contains_loop_iff dict_hashes_def)

lemma prv_hashPut_hashes:
  "dict_ok dict \<Longrightarrow>
     dict_hashes (prv_hashPut dict s) = (if dict_full dict then dict_hashes dict else dict_hashes dict @ [prv_hash s])"
  by (auto simp: dict_ok_def dict_full_def dict_hashes_def prv_hashPut_def take_Suc_conv_app_nth)

lemma prv_hashPut_ok: "dict_ok dict \<Longrightarrow> dict_ok (prv_hashPut dict s)"
  by (auto simp: dict_ok_def prv_hashPut_def)

lemma prv_hashInit_ok [simp]: "dict_ok prv_hashInit" "dict_hashes prv_hashInit = []"
  by (simp_all add: dict_ok_def prv_hashInit_def dict_hashes_def)

interpretation dict: name_cache dict_ok dict_full prv_hashPut prv_hashContains
proof
  show "dict_ok (prv_hashPut d s)" if "dict_ok d" for d s
    using that by (rule prv_hashPut_ok)
  show "prv_hashContains (prv_hashPut d s) s" if "dict_ok d" "\<not> dict_full d" for d s
    using that by (simp add: prv_hashContains_iff prv_hashPut_hashes)
  show "prv_hashContains (prv_hashPut d s) t" if "dict_ok d" "prv_hashContains d t" for d s t
    using that by (simp add: prv_hashContains_iff prv_hashPut_hashes)
  show "prv_hashPut d s = d" if "dict_ok d" "dict_full d" for d s
    using that by (simp add: prv_hashPut_def dict_full_def)
qed

lemma foldl_put_hashes: "dict_ok d \<Longrightarrow>
    dict_hashes (foldl prv_hashPut d ss) =
      dict_hashes d @ map prv_hash (take (HASH_LEN - length (dict_hashes d)) ss)"
proof (induction ss arbitrary: d)
  case (Cons s ss)
  have l: "length (dict_hashes d) = hsize d" using Cons.prems by (simp add: dict_ok_def dict_hashes_def)
  show ?case
  proof (cases "dict_full d")
    case True
    then show ?thesis using Cons.prems dict.full_frozen [of d "s # ss"] l by (simp add: dict_full_def)
  next
    case False
    then have "hsize d < HASH_LEN" using Cons.prems by (simp add: dict_full_def dict_ok_def)
    then have "HASH_LEN - hsize d = Suc (HASH_LEN - Suc (hsize d))" by simp
    then show ?thesis
      using Cons.IH [OF prv_hashPut_ok [OF Cons.prems], of s] False Cons.prems l
      by (simp add: prv_hashPut_hashes)
  qed
qed simp

lemma prv_hash_sign: "0 \<le> sint (prv_hash s) \<or> prv_hash s = push_bit 63 1"
proof -
  have "0 \<le> sint (- h) \<or> - h = push_bit 63 1" if neg: "sint h < 0" for h :: sll
  proof -
    have h: "- h = word_of_int (- sint h)" by simp
    have ge: "- (2 ^ 63) \<le> sint h" using sint_ge [of h] by simp
    show ?thesis
    proof (cases "sint h = - (2 ^ 63)")
      case True
      with h have "- h = word_of_int (2 ^ 63)" by (simp del: of_int_sint)
      then show ?thesis by simp
    next
      case False
      with ge neg have "sint (word_of_int (- sint h) :: sll) = - sint h"
        unfolding sint_sbintrunc' by (intro signed_take_bit_int_eq_self) simp_all
      with h neg show ?thesis by (metis neg_0_less_iff_less order_less_le)
    qed
  qed
  then show ?thesis by (auto simp: prv_hash_def Let_def)
qed

end
