(* ===== verification/LdvSql.thy ===== *)
theory LdvSql
  imports CString LdvHash
begin

text \<open>
  How the LDV client library takes SQL statements apart and adds provenance to them:
  \<open>prv_getStart\<close>, \<open>prv_parseRest\<close>, \<open>prv_assembleQuery\<close> and \<open>prv_createQuery\<close> of
  \<open>src/interfaces/libpq/fe-exec.c\<close>, with the log entries they write.  Every copy into one of the
  buffers of fixed size is checked against it.
\<close>

section \<open>Log entries of statements\<close>

record sql_env =
  env_pid :: int
  sessionid :: int
  timeus :: nat

definition tabbed :: "string list \<Rightarrow> string" where
  "tabbed fs = (case fs of [] \<Rightarrow> [] | f # fs \<Rightarrow> f @ concat (map (\<lambda>g. tab # g) fs))"

definition prv_storeTuple :: "sql_env \<Rightarrow> string \<Rightarrow> string \<Rightarrow> string \<Rightarrow> string" where
  "prv_storeTuple env queryid tupleid tuple =
     line_of (tabbed [''prv_store_tuple'', show_int (env_pid env), queryid, tupleid, tuple])"

definition prv_storeInsert :: "sql_env \<Rightarrow> string \<Rightarrow> int \<Rightarrow> string \<Rightarrow> string" where
  "prv_storeInsert env insertid version sql =
     line_of (tabbed [''prv_store_insert'', show_int (env_pid env), insertid, show_int version,
       show_nat (timeus env), sql])"

definition prv_storeUpdate :: "sql_env \<Rightarrow> string \<Rightarrow> int \<Rightarrow> string \<Rightarrow> string" where
  "prv_storeUpdate env insertid version sql =
     line_of (tabbed [''prv_store_update'', show_int (env_pid env), insertid, show_int version,
       show_nat (timeus env), sql])"

definition prv_storeSelect :: "sql_env \<Rightarrow> string \<Rightarrow> string \<Rightarrow> string \<Rightarrow> string" where
  "prv_storeSelect env selectid insertids sql =
     line_of (tabbed [''prv_store_select'', show_int (env_pid env), selectid, insertids,
       show_nat (timeus env), sql])"

section \<open>Taking a statement apart\<close>

definition smt :: "string list" where
  "smt = [''select'', ''insert into'', ''update'', ''delete from'', ''bypass'']"

text \<open>The kind of statement and the text after its first words; \<open>None\<close> when no kind matches.\<close>

fun prv_getStart :: "string \<Rightarrow> string list \<Rightarrow> int \<Rightarrow> (int \<times> string res) option" where
  "prv_getStart str [] i = None"
| "prv_getStart str (s # ss) i =
     (if strncaseeq str s 6 then Some (i, str_at str (length s + 1)) else prv_getStart str ss (i + 1))"

text \<open>
  The arguments after \<open>size\<close>: for each the capacity of the buffer, \<open>None\<close> for a null pointer.
  Their contents are \<open>None\<close> until something is stored.
\<close>

definition put_arg :: "nat option list \<Rightarrow> nat \<Rightarrow> string \<Rightarrow> string option list \<Rightarrow> string option list res" where
  "put_arg caps k s out =
     (case caps ! k of
        None \<Rightarrow> Inr out
      | Some cap \<Rightarrow> res_bind (in_buffer cap s) (\<lambda>s. Inr (out[k := Some s])))"

text \<open>
  The loop over the markers: \<open>k\<close> is the argument that \<open>s\<close> points to, \<open>i\<close> the number of the marker.
  A marker at the very start gives the length -1 to \<open>strncpy\<close>.
\<close>

fun parse_loop ::
    "nat option list \<Rightarrow> string list \<Rightarrow> string \<Rightarrow> nat \<Rightarrow> nat \<Rightarrow> string option list \<Rightarrow>
      (string \<times> nat \<times> string option list) res" where
  "parse_loop caps [] str k i out = Inr (str, k, out)"
| "parse_loop caps (m # ms) str k i out =
     (case strcasestr str m of
        Some p \<Rightarrow>
          res_bind (if p = 0 \<and> caps ! k \<noteq> None then Inl OutOfBounds else put_arg caps k (take (p - 1) str) out) (\<lambda>out.
            parse_loop caps ms (drop (p + length m) str) (Suc i) (Suc i) out)
      | None \<Rightarrow>
          res_bind (put_arg caps (Suc i) [] out) (\<lambda>out. parse_loop caps ms str k (Suc i) out))"

text \<open>The rest of the statement without a semicolon; the test of the last character needs one.\<close>

definition parse_last :: "nat option list \<Rightarrow> string \<Rightarrow> nat \<Rightarrow> string option list \<Rightarrow> string option list res" where
  "parse_last caps str k out =
     (if caps ! k = None then Inr out
      else if str = [] then Inl OutOfBounds
      else res_bind (put_arg caps k str out) (\<lambda>out.
        Inr (if last str = CHR '';'' then out[k := Some (butlast str)] else out)))"

definition prv_parseRest :: "nat option list \<Rightarrow> string list \<Rightarrow> string \<Rightarrow> string option list res" where
  "prv_parseRest caps markers str =
     res_bind (parse_loop caps markers str 0 0 (map (\<lambda>_. None) caps)) (\<lambda>(str, k, out).
       parse_last caps str k out)"

definition arg :: "string option list \<Rightarrow> nat \<Rightarrow> string" where
  "arg out k = (case out ! k of None \<Rightarrow> [] | Some s \<Rightarrow> s)"

section \<open>Adding provenance\<close>

definition SELECT_STMT :: int where "SELECT_STMT = 0"
definition INSERT_STMT :: int where "INSERT_STMT = 1"
definition UPDATE_STMT :: int where "UPDATE_STMT = 2"
definition DELETE_STMT :: int where "DELETE_STMT = 3"
definition BYPASS_STMT :: int where "BYPASS_STMT = 4"

definition STR_MAX_LEN :: nat where "STR_MAX_LEN = 1000"

text \<open>The size of the caller's buffer for the table names.\<close>

definition TABLE_LEN :: nat where "TABLE_LEN = 256"

text \<open>What a call produces: the new statement if any, the kind, the table names and the log entries.\<close>

record assembled =
  asm_query :: "string option"
  stmt_type :: int
  stmt_tables :: string
  new_log :: string

definition with_where :: "string \<Rightarrow> string \<Rightarrow> string" where
  "with_where sql where = (if where \<noteq> [] then sql @ '' WHERE '' @ where else sql)"

definition assemble_select :: "string \<Rightarrow> assembled res" where
  "assemble_select start =
     res_bind (prv_parseRest [Some STR_MAX_LEN, Some TABLE_LEN, Some STR_MAX_LEN] [''from'', ''where''] start) (\<lambda>out.
     res_bind (in_buffer STR_MAX_LEN
       (with_where (''SELECT PROVENANCE '' @ arg out 0 @ '' FROM '' @ arg out 1) (arg out 2))) (\<lambda>sql.
       Inr \<lparr>asm_query = Some sql, stmt_type = SELECT_STMT, stmt_tables = arg out 1, new_log = []\<rparr>))"

text \<open>\<open>value[strlen(value)-1]\<close> with an empty value is the byte before the buffer.\<close>

definition assemble_insert :: "sql_env \<Rightarrow> string \<Rightarrow> string \<Rightarrow> int \<Rightarrow> string \<Rightarrow> assembled res" where
  "assemble_insert env query queryid version start =
     res_bind (prv_parseRest [Some TABLE_LEN, Some STR_MAX_LEN, Some STR_MAX_LEN] [''values'', ''returning''] start) (\<lambda>out.
     res_bind (if arg out 1 = [] then Inl OutOfBounds else Inr (butlast (arg out 1))) (\<lambda>value.
     res_bind (in_buffer STR_MAX_LEN
       (let sql = ''INSERT INTO '' @ arg out 0 @ '' VALUES '' @ value @ '', '' @ queryid @ '', '' @
                  show_int (sessionid env) @ '', now())''
        in if arg out 2 \<noteq> [] then sql @ '' RETURNING '' @ arg out 2 else sql)) (\<lambda>sql.
       Inr \<lparr>asm_query = Some sql, stmt_type = INSERT_STMT, stmt_tables = arg out 0,
            new_log = prv_storeInsert env queryid version query\<rparr>)))"

definition assemble_update :: "sql_env \<Rightarrow> string \<Rightarrow> string \<Rightarrow> int \<Rightarrow> string \<Rightarrow> assembled res" where
  "assemble_update env query queryid version start =
     res_bind (prv_parseRest [Some TABLE_LEN, None, None, Some STR_MAX_LEN] [''set'', ''from'', ''where''] start) (\<lambda>out.
     res_bind (in_buffer STR_MAX_LEN (with_where (''SELECT PROVENANCE * FROM '' @ arg out 0) (arg out 3))) (\<lambda>sql.
       Inr \<lparr>asm_query = Some sql, stmt_type = UPDATE_STMT, stmt_tables = arg out 0,
            new_log = prv_storeUpdate env queryid version query\<rparr>))"

definition assemble_delete :: "string \<Rightarrow> assembled res" where
  "assemble_delete start =
     res_bind (prv_parseRest [Some TABLE_LEN, None, Some STR_MAX_LEN, None] [''using'', ''where'', ''returning''] start) (\<lambda>out.
     res_bind (in_buffer STR_MAX_LEN (with_where (''SELECT PROVENANCE * FROM '' @ arg out 0) (arg out 2))) (\<lambda>sql.
       Inr \<lparr>asm_query = Some sql, stmt_type = DELETE_STMT, stmt_tables = arg out 0, new_log = []\<rparr>))"

text \<open>The initial value of \<open>type\<close> in the caller is -1.\<close>

definition prv_assembleQuery :: "sql_env \<Rightarrow> string \<Rightarrow> string \<Rightarrow> int \<Rightarrow> assembled res" where
  "prv_assembleQuery env query queryid version =
     (case prv_getStart query smt 0 of
        None \<Rightarrow> Inr \<lparr>asm_query = None, stmt_type = -1, stmt_tables = [], new_log = []\<rparr>
      | Some (type, start) \<Rightarrow>
          if type = BYPASS_STMT
          then Inr \<lparr>asm_query = None, stmt_type = BYPASS_STMT, stmt_tables = [], new_log = []\<rparr>
          else res_bind start (\<lambda>start.
            if type = SELECT_STMT then assemble_select start
            else if type = INSERT_STMT then assemble_insert env query queryid version start
            else if type = UPDATE_STMT then assemble_update env query queryid version start
            else assemble_delete start))"

text \<open>The identifier of the statement is the hash of the process, its text and the time.\<close>

definition query_id :: "sql_env \<Rightarrow> string \<Rightarrow> string res" where
  "query_id env query =
     res_bind (in_buffer 1000 (show_int (env_pid env) @ ''.'' @ query @ ''.'' @ show_nat (timeus env))) (\<lambda>astr.
       Inr (show_int (sint (prv_hash astr))))"

definition prv_createQuery :: "sql_env \<Rightarrow> string \<Rightarrow> (string \<times> assembled) res" where
  "prv_createQuery env query =
     res_bind (query_id env query) (\<lambda>queryid.
     res_bind (prv_assembleQuery env query queryid 1) (\<lambda>a. Inr (queryid, a)))"

section \<open>Markers\<close>

text \<open>A text in which a marker does not occur, even across its end.\<close>

definition no_marker :: "string \<Rightarrow> string \<Rightarrow> bool" where
  "no_marker m s \<longleftrightarrow> strcasestr s m = None"

lemma strcasestr_here: "strncaseeq s m (length m) \<Longrightarrow> strcasestr s m = Some 0"
  by (subst strcasestr.simps) simp

lemma strcasestr_step:
  "\<not> strncaseeq (c # s) m (length m) \<Longrightarrow> strcasestr (c # s) m = map_option Suc (strcasestr s m)"
  by (subst strcasestr.simps) simp

lemma strncaseeq_self [simp]: "strncaseeq (m @ r) m (length m)"
  by (simp add: strncaseeq_def)

lemma tolower_space: "tolower c = CHR '' '' \<longleftrightarrow> c = CHR '' ''"
proof -
  have "char_of (n + 32 :: nat) \<noteq> CHR '' ''" if "65 \<le> n" "n \<le> 90" for n
  proof
    assume "char_of (n + 32 :: nat) = CHR '' ''"
    then have "of_char (char_of (n + 32 :: nat) :: char) = (32 :: nat)" by simp
    with that show False by (simp add: take_bit_nat_eq_self)
  qed
  then show ?thesis by (auto simp: tolower_def Let_def)
qed

text \<open>The first occurrence of a marker after a text that has none.\<close>

lemma strcasestr_marker:
  assumes "no_marker m s" "CHR '' '' \<notin> set m" "m \<noteq> []" "map tolower kw = map tolower m"
  shows "strcasestr (s @ CHR '' '' # kw @ r) m = Some (Suc (length s))"
  using assms(1)
proof (induction s)
  case Nil
  have here: "strcasestr (kw @ r) m = Some 0"
    using assms(4) map_eq_imp_length_eq [OF assms(4)] by (intro strcasestr_here) (simp add: strncaseeq_def)
  obtain x xs where m: "m = x # xs" "x \<noteq> CHR '' ''" using assms(2,3) by (cases m) auto
  have "\<not> strncaseeq (CHR '' '' # kw @ r) m (length m)"
    using m tolower_space [of x] by (auto simp: strncaseeq_def tolower_space [THEN iffD2])
  then show ?case using here by (simp add: strcasestr_step)
next
  case (Cons c s)
  have none: "\<not> strncaseeq (c # s) m (length m)"
    using Cons.prems strcasestr_here [of "c # s" m] by (auto simp: no_marker_def)
  have rest: "no_marker m s" using Cons.prems strcasestr_step [OF none] by (simp add: no_marker_def)
  have "\<not> strncaseeq ((c # s) @ CHR '' '' # kw @ r) m (length m)"
  proof
    assume e: "strncaseeq ((c # s) @ CHR '' '' # kw @ r) m (length m)"
    show False
    proof (cases "length m \<le> length (c # s)")
      case True
      then have "take (length m) ((c # s) @ CHR '' '' # kw @ r) = take (length m) (c # s)"
        by (subst take_append) simp
      with e none show False by (simp only: strncaseeq_def) simp
    next
      case False
      then have l: "length (c # s) < length m" by simp
      have "map tolower (take (length m) ((c # s) @ CHR '' '' # kw @ r)) = map tolower m"
        using e by (simp add: strncaseeq_def)
      then have "map tolower (take (length m) ((c # s) @ CHR '' '' # kw @ r)) ! length (c # s) = map tolower m ! length (c # s)"
        by simp
      then have "tolower (m ! length (c # s)) = tolower (CHR '' '')"
        using l by (simp add: nth_append)
      then have "m ! length (c # s) = CHR '' ''" by (metis tolower_space)
      then show False using l assms(2) by (metis nth_mem)
    qed
  qed
  then show ?case using Cons.IH [OF rest] by (simp add: strcasestr_step)
qed

section \<open>Statements in the expected form\<close>

definition without_semicolon :: "string \<Rightarrow> string" where
  "without_semicolon s = (if last s = CHR '';'' then butlast s else s)"

lemma parse_found:
  assumes "no_marker m s" "CHR '' '' \<notin> set m" "m \<noteq> []" "map tolower kw = map tolower m"
    and "k < length caps" "caps ! k = Some cap" "length s < cap"
  shows "parse_loop caps (m # ms) (s @ CHR '' '' # kw @ r) k i out =
           parse_loop caps ms r (Suc i) (Suc i) (out[k := Some s])"
proof -
  have "length kw = length m" using assms(4) by (metis length_map)
  then show ?thesis
    using strcasestr_marker [OF assms(1-4), of r] assms(6,7) by (simp add: put_arg_def in_buffer_def)
qed

lemma parse_found_null:
  assumes "no_marker m s" "CHR '' '' \<notin> set m" "m \<noteq> []" "map tolower kw = map tolower m" "caps ! k = None"
  shows "parse_loop caps (m # ms) (s @ CHR '' '' # kw @ r) k i out = parse_loop caps ms r (Suc i) (Suc i) out"
proof -
  have "length kw = length m" using assms(4) by (metis length_map)
  then show ?thesis
    using strcasestr_marker [OF assms(1-4), of r] assms(5) by (simp add: put_arg_def)
qed

lemma parse_missing:
  assumes "no_marker m s" "caps ! Suc i = Some cap" "0 < cap"
  shows "parse_loop caps (m # ms) s k i out = parse_loop caps ms s k (Suc i) (out[Suc i := Some []])"
  using assms by (simp add: no_marker_def put_arg_def in_buffer_def)

lemma parse_missing_null:
  assumes "no_marker m s" "caps ! Suc i = None"
  shows "parse_loop caps (m # ms) s k i out = parse_loop caps ms s k (Suc i) out"
  using assms by (simp add: no_marker_def put_arg_def)

lemma parse_last_store:
  assumes "s \<noteq> []" "caps ! k = Some cap" "length s < cap" "k < length out"
  shows "parse_last caps s k out = Inr (out[k := Some (without_semicolon s)])"
  using assms by (simp add: parse_last_def put_arg_def in_buffer_def without_semicolon_def)

lemmas parse_steps = parse_found parse_found_null parse_missing parse_missing_null

lemma without_semicolon_length: "length (without_semicolon s) \<le> length s"
  by (simp add: without_semicolon_def)

lemma assemble_select_where:
  assumes f: "no_marker ''from'' f" "length f < STR_MAX_LEN" and t: "no_marker ''where'' t" "length t < TABLE_LEN"
    and w: "w \<noteq> []" "w \<noteq> '';''" "length f + length t + length w < 960"
    and kf: "map tolower kf = ''from''" and kw: "map tolower kw = ''where''"
  shows "assemble_select (f @ CHR '' '' # kf @ t @ CHR '' '' # kw @ w) =
           Inr \<lparr>asm_query = Some (''SELECT PROVENANCE '' @ f @ '' FROM '' @ t @ '' WHERE '' @ without_semicolon w),
                stmt_type = SELECT_STMT, stmt_tables = t, new_log = []\<rparr>"
proof -
  let ?caps = "[Some STR_MAX_LEN, Some TABLE_LEN, Some STR_MAX_LEN]"
  have k: "map tolower kf = map tolower ''from''" "map tolower kw = map tolower ''where''"
    unfolding kf kw by code_simp+
  have "prv_parseRest ?caps [''from'', ''where''] (f @ CHR '' '' # kf @ t @ CHR '' '' # kw @ w) =
      Inr [Some f, Some t, Some (without_semicolon w)]"
    using parse_found [OF f(1) _ _ k(1), of 0 ?caps STR_MAX_LEN] parse_found [OF t(1) _ _ k(2), of 1 ?caps TABLE_LEN] f(2) t(2)
      parse_last_store [OF w(1), of ?caps "Suc (Suc 0)" STR_MAX_LEN] w(3)
    by (simp add: prv_parseRest_def STR_MAX_LEN_def)
  moreover have "without_semicolon w \<noteq> []" using w(1,2) by (cases w rule: rev_cases) (auto simp: without_semicolon_def)
  ultimately show ?thesis
    using w(3) without_semicolon_length [of w]
    by (simp add: assemble_select_def arg_def with_where_def in_buffer_def STR_MAX_LEN_def)
qed

lemma assemble_insert_values:
  assumes t: "no_marker ''values'' t" "length t < TABLE_LEN" and v: "no_marker ''returning'' v" "v \<noteq> []" "v \<noteq> '';''"
    and len: "length t + length v + length queryid + length (show_int (sessionid env)) < 950"
    and kv: "map tolower kv = ''values''"
  shows "assemble_insert env query queryid version (t @ CHR '' '' # kv @ v) =
           Inr \<lparr>asm_query = Some (''INSERT INTO '' @ t @ '' VALUES '' @ butlast (without_semicolon v) @ '', '' @ queryid @
                  '', '' @ show_int (sessionid env) @ '', now())''),
                stmt_type = INSERT_STMT, stmt_tables = t, new_log = prv_storeInsert env queryid version query\<rparr>"
proof -
  let ?caps = "[Some TABLE_LEN, Some STR_MAX_LEN, Some STR_MAX_LEN]"
  have k: "map tolower kv = map tolower ''values''" unfolding kv by code_simp
  have "prv_parseRest ?caps [''values'', ''returning''] (t @ CHR '' '' # kv @ v) =
      Inr [Some t, Some (without_semicolon v), Some []]"
    using parse_found [OF t(1) _ _ k, of 0 ?caps TABLE_LEN] t(2) parse_missing [OF v(1), of ?caps 1 STR_MAX_LEN]
      parse_last_store [OF v(2), of ?caps 1 STR_MAX_LEN] len
    by (simp add: prv_parseRest_def STR_MAX_LEN_def numeral_2_eq_2)
  moreover have "without_semicolon v \<noteq> []" using v(2,3) by (cases v rule: rev_cases) (auto simp: without_semicolon_def)
  ultimately show ?thesis
    using len without_semicolon_length [of v]
    by (simp add: assemble_insert_def arg_def in_buffer_def STR_MAX_LEN_def)
qed

lemma parse_loop_faults:
  "parse_loop caps ms str k i out = Inl e \<Longrightarrow> e = OutOfBounds"
proof (induction ms arbitrary: str k i out)
  case (Cons m ms)
  then show ?case
    by (auto simp: res_bind_Inl_iff put_arg_def in_buffer_def split: option.splits if_splits)
qed simp

lemma parse_loop_keeps:
  "parse_loop caps ms str k i out = Inr (str', k', out') \<Longrightarrow> j < Suc i \<Longrightarrow> j \<noteq> k \<Longrightarrow> k \<noteq> j \<Longrightarrow> out' ! j = out ! j"
proof (induction ms arbitrary: str k i out)
  case (Cons m ms)
  show ?case
  proof (cases "strcasestr str m")
    case None
    with Cons.prems obtain o1 where "put_arg caps (Suc i) [] out = Inr o1"
      "parse_loop caps ms str k (Suc i) o1 = Inr (str', k', out')" by (auto simp: res_iff)
    with Cons.IH [OF this(2)] Cons.prems show ?thesis
      by (auto simp: put_arg_def res_iff split: option.splits)
  next
    case (Some p)
    with Cons.prems obtain o1 where o: "o1 = out \<or> (\<exists>s. o1 = out[k := Some s])"
      "parse_loop caps ms (drop (p + length m) str) (Suc i) (Suc i) o1 = Inr (str', k', out')"
      by (auto simp: res_iff put_arg_def split: option.splits if_splits)
    with Cons.IH [OF this(2)] Cons.prems show ?thesis by auto
  qed
qed simp

text \<open>Without the word \<open>VALUES\<close> the value buffer stays empty, and the byte before it is overwritten.\<close>

lemma assemble_insert_no_values:
  assumes "no_marker ''values'' start"
  shows "assemble_insert env query queryid version start = Inl OutOfBounds"
proof -
  let ?caps = "[Some TABLE_LEN, Some STR_MAX_LEN, Some STR_MAX_LEN]"
  have first: "parse_loop ?caps [''values'', ''returning''] start 0 0 (map (\<lambda>_. None) ?caps) =
      parse_loop ?caps [''returning''] start 0 1 [None, Some [], None]"
    using parse_missing [OF assms, of ?caps 0 STR_MAX_LEN] by (simp add: STR_MAX_LEN_def)
  show ?thesis
  proof (cases "prv_parseRest ?caps [''values'', ''returning''] start")
    case (Inl e)
    then have "e = OutOfBounds"
      using parse_loop_faults first
      by (auto simp: prv_parseRest_def res_bind_Inl_iff parse_last_def put_arg_def in_buffer_def
          split: if_splits option.splits)
    with Inl show ?thesis by (simp add: assemble_insert_def)
  next
    case (Inr out)
    then obtain str k o1 where p: "parse_loop ?caps [''returning''] start 0 1 [None, Some [], None] = Inr (str, k, o1)"
      "parse_last ?caps str k o1 = Inr out"
      using first by (auto simp: prv_parseRest_def res_iff)
    have k: "k = 0 \<or> k = 2" using p(1) by (auto simp: res_iff split: option.splits)
    have "o1 ! 1 = Some []" using parse_loop_keeps [OF p(1), of 1] by simp
    then have "arg out 1 = []"
      using p(2) k by (auto simp: arg_def parse_last_def put_arg_def res_iff split: if_splits option.splits)
    with Inr show ?thesis by (simp add: assemble_insert_def)
  qed
qed

end
