(* ===== verification/LdvClient.thy ===== *)
theory LdvClient
  imports LdvSql
begin

text \<open>
  Executing statements in the LDV client library: \<open>PQexec\<close> and the functions of
  \<open>src/interfaces/libpq/fe-exec.c\<close> it calls to add the provenance columns to tables, to record
  table definitions and tuples, and to record what a statement read and wrote.

  The server is a parameter: a function from its state and the text of a statement to a result and
  a new state.  A connection records the statements it has sent.
\<close>

section \<open>State\<close>

datatype ExecStatus =
    PGRES_EMPTY_QUERY | PGRES_COMMAND_OK | PGRES_TUPLES_OK | PGRES_COPY_OUT | PGRES_COPY_IN
  | PGRES_BAD_RESPONSE | PGRES_NONFATAL_ERROR | PGRES_FATAL_ERROR

record PGresult =
  res_status :: ExecStatus
  res_rows :: "string list list" \<comment> \<open>the values of each tuple; a null value is the empty string\<close>

record 'db client =
  mode :: int
  cenv :: sql_env
  dict_tblmod :: hashtbl
  dict_tblstore :: hashtbl
  dblog :: string
  db :: 'db
  sent :: "string list"

type_synonym 'db server = "'db \<Rightarrow> string \<Rightarrow> PGresult \<times> 'db"

definition PQexecSingle :: "'db server \<Rightarrow> 'db client \<Rightarrow> string \<Rightarrow> PGresult \<times> 'db client" where
  "PQexecSingle srv st query =
     (let (r, d) = srv (db st) query in (r, st\<lparr>db := d, sent := sent st @ [query]\<rparr>))"

text \<open>\<open>PQgetvalue\<close> gives a null pointer for a column that does not exist.\<close>

definition PQgetvalue :: "string list \<Rightarrow> nat \<Rightarrow> string res" where
  "PQgetvalue row n = (if n < length row then Inr (row ! n) else Inl NullDeref)"

definition STR_LEN :: nat where "STR_LEN = 50"
definition STR_LONG_LEN :: nat where "STR_LONG_LEN = 1024000"

definition write_log :: "string \<Rightarrow> 'db client \<Rightarrow> 'db client" where
  "write_log s st = st\<lparr>dblog := dblog st @ s\<rparr>"

section \<open>Table definitions\<close>

definition columns_query :: "string \<Rightarrow> string" where
  "columns_query tablename =
     ''select column_name, data_type, character_maximum_length, column_default '' @
     ''from INFORMATION_SCHEMA.COLUMNS where table_name = '' @ [CHR 0x27] @ tablename @ [CHR 0x27] @ '' '' @
     '' and table_schema = '' @ [CHR 0x27] @ ''public'' @ [CHR 0x27]"

fun column_defs :: "string list list \<Rightarrow> string res" where
  "column_defs [] = Inr []"
| "column_defs (row # rows) =
     res_bind (PQgetvalue row 0) (\<lambda>name.
     res_bind (PQgetvalue row 1) (\<lambda>type.
     res_bind (PQgetvalue row 2) (\<lambda>len.
     res_bind (PQgetvalue row 3) (\<lambda>default.
     res_bind (column_defs rows) (\<lambda>rest.
       Inr (name @ '' '' @ type @ (if len \<noteq> [] then ''('' @ len @ '')'' else []) @
            (if default \<noteq> [] then '' DEFAULT '' @ default else []) @
            (if rows \<noteq> [] then '', '' else '');'') @ rest))))))"

definition prv_storeTable :: "'db server \<Rightarrow> 'db client \<Rightarrow> string \<Rightarrow> 'db client res" where
  "prv_storeTable srv st tablename =
     (if prv_hashContains (dict_tblstore st) tablename then Inr st
      else
        let st = st\<lparr>dict_tblstore := prv_hashPut (dict_tblstore st) tablename\<rparr>;
            (result, st) = PQexecSingle srv st (columns_query tablename)
        in res_bind (column_defs (res_rows result)) (\<lambda>cols.
           res_bind (in_buffer STR_LONG_LEN (''CREATE TABLE '' @ tablename @ '' ('' @ cols)) (\<lambda>sql.
             Inr (write_log (line_of (tabbed [''prv_store_table'', sql])) st))))"

section \<open>Tuples\<close>

text \<open>
  The loop over the values of a tuple: the text of all values, the log entry of the values before
  the provenance columns, and the row identifier, which is unset when there are fewer columns.
\<close>

fun row_loop ::
    "sql_env \<Rightarrow> string \<Rightarrow> string list \<Rightarrow> string list \<Rightarrow> nat \<Rightarrow> string \<times> string \<times> string option \<Rightarrow>
      string \<times> string \<times> string option" where
  "row_loop env queryid row [] n s = s"
| "row_loop env queryid row (v # vs) n (vals, lg, rowid) =
     (let vals = vals @ v;
          (lg, rowid) =
            (if n + 5 = length row
             then (lg @ prv_storeTuple env queryid (last row) (vals @ [CHR 0x27, CHR '')'']), Some (last row))
             else (lg, rowid));
          vals = vals @ (if n + 1 < length row then [CHR 0x27] @ '', '' @ [CHR 0x27] else [CHR 0x27, CHR '')''])
      in row_loop env queryid row vs (n + 1) (vals, lg, rowid))"

definition insert_sql :: "string \<Rightarrow> string \<Rightarrow> string" where
  "insert_sql tablename vals = ''INSERT INTO '' @ tablename @ '' VALUES '' @ vals @ '';''"

definition store_row_log :: "sql_env \<Rightarrow> string \<Rightarrow> string \<Rightarrow> bool \<Rightarrow> string list \<Rightarrow> string res" where
  "store_row_log env tablename queryid storeRow row =
     (let (vals, lg, rowid) = row_loop env queryid row row 0 ([CHR ''('', CHR 0x27], [], None) in
      res_bind (in_buffer STR_LONG_LEN vals) (\<lambda>vals.
        if storeRow then
          (case rowid of
             None \<Rightarrow> Inl NullDeref
           | Some rowid \<Rightarrow> Inr (lg @ line_of (tabbed [''prv_store_row'', rowid, tablename, insert_sql tablename vals])))
        else Inr lg))"

fun store_rows_log :: "sql_env \<Rightarrow> string \<Rightarrow> string \<Rightarrow> bool \<Rightarrow> string list list \<Rightarrow> string res" where
  "store_rows_log env tablename queryid storeRow [] = Inr []"
| "store_rows_log env tablename queryid storeRow (row # rows) =
     res_bind (store_row_log env tablename queryid storeRow row) (\<lambda>l.
     res_bind (store_rows_log env tablename queryid storeRow rows) (\<lambda>ls. Inr (l @ ls)))"

definition prv_storeTupleFromResult ::
    "'db client \<Rightarrow> string \<Rightarrow> PGresult \<Rightarrow> string \<Rightarrow> bool \<Rightarrow> 'db client res" where
  "prv_storeTupleFromResult st tablename result queryid storeRow =
     res_bind (store_rows_log (cenv st) tablename queryid storeRow (res_rows result)) (\<lambda>l. Inr (write_log l st))"

text \<open>A view that could not be created is a null pointer, which \<open>sprintf\<close> prints as \<open>(null)\<close>.\<close>

definition view_name :: "string option \<Rightarrow> string" where
  "view_name view = (case view of None \<Rightarrow> ''(null)'' | Some v \<Rightarrow> v)"

definition extract_sql :: "int \<Rightarrow> string \<Rightarrow> string \<Rightarrow> string" where
  "extract_sql sess t v =
     ''UPDATE '' @ t @ '' SET _prov_insertedby = '' @ show_int sess @ '' FROM '' @ v @
     '' WHERE '' @ t @ ''._prov_rowid = '' @ v @ ''.prov_public_'' @ t @ ''___prov__rowid '' @
     ''AND '' @ t @ ''._prov_insertedby = 0 RETURNING '' @ t @ ''.*;''"

definition prv_extractTuple :: "'db server \<Rightarrow> 'db client \<Rightarrow> string \<Rightarrow> string \<Rightarrow> string option \<Rightarrow> 'db client res" where
  "prv_extractTuple srv st queryid tablename view =
     res_bind (in_buffer STR_LONG_LEN (extract_sql (sessionid (cenv st)) tablename (view_name view))) (\<lambda>sql.
       let (result, st) = PQexecSingle srv st sql in
       if res_status result = PGRES_TUPLES_OK
       then prv_storeTupleFromResult st tablename result queryid True
       else Inr st)"

section \<open>Provenance columns\<close>

definition alter_sql :: "string \<Rightarrow> string" where
  "alter_sql tablename =
     ''ALTER TABLE '' @ tablename @ '' ADD COLUMN _prov_p varchar(40) DEFAULT '' @ [CHR 0x27] @ ''0000'' @ [CHR 0x27] @
     '', ADD COLUMN _prov_insertedby integer DEFAULT 0, ADD COLUMN _prov_v timestamp DEFAULT now(), '' @
     ''ADD COLUMN _prov_rowid varchar(32);''"

definition prv_modifyTable :: "'db server \<Rightarrow> 'db client \<Rightarrow> string \<Rightarrow> 'db client res" where
  "prv_modifyTable srv st tablename =
     (if prv_hashContains (dict_tblmod st) tablename then Inr st
      else
        let st = st\<lparr>dict_tblmod := prv_hashPut (dict_tblmod st) tablename\<rparr> in
        res_bind (in_buffer STR_LONG_LEN (alter_sql tablename)) (\<lambda>sql.
          let (result, st) = PQexecSingle srv st sql in
          if res_status result = PGRES_COMMAND_OK \<or> res_status result = PGRES_TUPLES_OK
          then Inr (snd (PQexecSingle srv st (''UPDATE '' @ tablename @ '' SET _prov_rowid=OID;'')))
          else Inr st))"

section \<open>Lists of tables\<close>

text \<open>The names between the commas, each up to a space, in a buffer of \<open>STR_LEN\<close> bytes.\<close>

definition name_end :: "string \<Rightarrow> nat" where
  "name_end s =
     (case strchr s (CHR '','') of
        None \<Rightarrow> (case strchr s (CHR '' '') of None \<Rightarrow> length s | Some i \<Rightarrow> i)
      | Some c \<Rightarrow> (case strchr s (CHR '' '') of None \<Rightarrow> c | Some i \<Rightarrow> if i > c then c else i))"

lemma strchr_length: "strchr s c = Some i \<Longrightarrow> i < length s"
  by (induction s arbitrary: i) (auto split: if_splits)

function table_names :: "string \<Rightarrow> string list res" where
  "table_names tablelist =
     (let s = dropWhile (\<lambda>c. c = CHR '' '') tablelist in
      res_bind (in_buffer STR_LEN (take (name_end s) s)) (\<lambda>name.
        case strchr s (CHR '','') of
          None \<Rightarrow> Inr [name]
        | Some c \<Rightarrow> res_bind (table_names (drop (Suc c) s)) (\<lambda>names. Inr (name # names))))"
  by pat_completeness auto
termination
proof (relation "measure length")
  fix tablelist s name c
  assume s: "s = dropWhile (\<lambda>c. c = CHR '' '') tablelist" and c: "strchr s (CHR '','') = Some c"
  have "length s \<le> length tablelist" using s by (simp add: length_dropWhile_le)
  then show "(drop (Suc c) s, tablelist) \<in> measure length" using strchr_length [OF c] by simp
qed simp

declare table_names.simps [simp del]

fun each_table :: "('db client \<Rightarrow> string \<Rightarrow> 'db client res) \<Rightarrow> 'db client \<Rightarrow> string list \<Rightarrow> 'db client res" where
  "each_table f st [] = Inr st"
| "each_table f st (t # ts) = res_bind (f st t) (\<lambda>st. each_table f st ts)"

definition prv_modifyTableList :: "'db server \<Rightarrow> 'db client \<Rightarrow> string \<Rightarrow> 'db client res" where
  "prv_modifyTableList srv st tablelist =
     res_bind (table_names tablelist) (each_table (prv_modifyTable srv) st)"

section \<open>What a query read\<close>

definition prv_createView :: "'db server \<Rightarrow> 'db client \<Rightarrow> string \<Rightarrow> (string option \<times> 'db client) res" where
  "prv_createView srv st prov_query =
     (let view = ''_prov_view_'' @ show_int (sint (prv_hash prov_query)) in
      res_bind (in_buffer STR_LONG_LEN (''CREATE OR REPLACE TEMP VIEW '' @ view @ '' AS '' @ prov_query)) (\<lambda>sql.
        let (result, st) = PQexecSingle srv st sql in
        Inr (if res_status result = PGRES_COMMAND_OK then Some view else None, st)))"

definition prv_dropView :: "'db server \<Rightarrow> 'db client \<Rightarrow> string option \<Rightarrow> 'db client" where
  "prv_dropView srv st view = snd (PQexecSingle srv st (''DROP VIEW IF EXISTS '' @ view_name view))"

text \<open>Identifiers of inserted tuples, or once \<open>originalDB\<close> for the tuples that were there before.\<close>

fun insert_ids :: "string list list \<Rightarrow> string \<times> bool \<Rightarrow> (string \<times> bool) res" where
  "insert_ids [] s = Inr s"
| "insert_ids (row # rows) (ids, useDB) =
     res_bind (PQgetvalue row 0) (\<lambda>v.
       let sep = (if ids \<noteq> [] then ids @ ''.'' else ids) in
       insert_ids rows
         (if length v < 32 then (sep @ v, useDB)
          else if \<not> useDB then (sep @ ''originalDB'', True)
          else (ids, useDB)))"

definition prv_extractInsertIds ::
    "'db server \<Rightarrow> 'db client \<Rightarrow> string \<Rightarrow> string option \<Rightarrow> string \<times> bool \<Rightarrow> ((string \<times> bool) \<times> 'db client) res" where
  "prv_extractInsertIds srv st tablename view s =
     res_bind (in_buffer STR_LONG_LEN
       (''SELECT DISTINCT prov_public_'' @ tablename @ ''___prov__rowid FROM '' @ view_name view)) (\<lambda>sql.
       let (result, st) = PQexecSingle srv st sql in
       if res_status result = PGRES_TUPLES_OK
       then res_bind (insert_ids (res_rows result) s) (\<lambda>s.
            res_bind (in_buffer STR_LONG_LEN (fst s)) (\<lambda>_. Inr (s, st)))
       else Inr (s, st))"

fun extract_loop ::
    "'db server \<Rightarrow> string option \<Rightarrow> string list \<Rightarrow> string \<times> bool \<Rightarrow> 'db client \<Rightarrow> (string \<times> 'db client) res" where
  "extract_loop srv view [] s st = Inr (fst s, st)"
| "extract_loop srv view (t # ts) s st =
     res_bind (prv_storeTable srv st t) (\<lambda>st.
     res_bind (prv_extractTuple srv st ''originalDB'' t view) (\<lambda>st.
     res_bind (prv_extractInsertIds srv st t view s) (\<lambda>(s, st). extract_loop srv view ts s st)))"

definition prv_extractTuplesFromTable ::
    "'db server \<Rightarrow> 'db client \<Rightarrow> string \<Rightarrow> string \<Rightarrow> (string \<times> 'db client) res" where
  "prv_extractTuplesFromTable srv st tablelist provquery =
     res_bind (prv_createView srv st provquery) (\<lambda>(view, st).
     res_bind (table_names tablelist) (\<lambda>names.
     res_bind (extract_loop srv view names ([], False) st) (\<lambda>(insertids, st).
       Inr (insertids, prv_dropView srv st view))))"

section \<open>Executing a statement\<close>

text \<open>Spaces and tabs after a comma, and at the start, are removed from the list of tables.\<close>

fun squeeze :: "char \<Rightarrow> string \<Rightarrow> string" where
  "squeeze lastchar [] = []"
| "squeeze lastchar (c # s) =
     (if (c = tab \<or> c = CHR '' '') \<and> lastchar = CHR '','' then squeeze lastchar s else c # squeeze c s)"

definition rowid_sql :: "string \<Rightarrow> string \<Rightarrow> string" where
  "rowid_sql tablename queryid =
     ''UPDATE '' @ tablename @ '' SET _prov_rowid = OID WHERE _prov_p = '' @ [CHR 0x27] @ queryid @ [CHR 0x27] @
     '' returning *;''"

definition exec_insert ::
    "'db server \<Rightarrow> 'db client \<Rightarrow> string \<Rightarrow> string \<Rightarrow> string \<Rightarrow> (PGresult \<times> 'db client) res" where
  "exec_insert srv st tablename queryid prov_query =
     res_bind (prv_modifyTable srv st tablename) (\<lambda>st.
       let (result, st) = PQexecSingle srv st prov_query in
       res_bind (in_buffer STR_MAX_LEN (rowid_sql tablename queryid)) (\<lambda>sql.
         let (result_getid, st) = PQexecSingle srv st sql in
         res_bind (prv_storeTupleFromResult st tablename result_getid queryid False) (\<lambda>st.
           Inr (result, st))))"

definition exec_change ::
    "'db server \<Rightarrow> 'db client \<Rightarrow> string \<Rightarrow> string \<Rightarrow> string \<Rightarrow> (PGresult \<times> 'db client) res" where
  "exec_change srv st tablename prov_query query =
     res_bind (prv_modifyTableList srv st tablename) (\<lambda>st.
       let (_, st) = PQexecSingle srv st prov_query in Inr (PQexecSingle srv st query))"

definition exec_select ::
    "'db server \<Rightarrow> 'db client \<Rightarrow> string \<Rightarrow> string \<Rightarrow> string \<Rightarrow> string \<Rightarrow> (PGresult \<times> 'db client) res" where
  "exec_select srv st tablename queryid prov_query query =
     res_bind (prv_modifyTableList srv st tablename) (\<lambda>st.
     res_bind (prv_extractTuplesFromTable srv st tablename prov_query) (\<lambda>(insertids, st).
       let st = write_log (prv_storeSelect (cenv st) queryid insertids query) st in
       Inr (PQexecSingle srv st query)))"

definition PQexec :: "'db server \<Rightarrow> 'db client \<Rightarrow> string \<Rightarrow> (PGresult \<times> 'db client) res" where
  "PQexec srv st query =
     (if mode st \<in> {0, 11, 22, 31, 32} then Inr (PQexecSingle srv st query)
      else
        res_bind (prv_createQuery (cenv st) query) (\<lambda>(queryid, a).
          let st = write_log (new_log a) st in
          case asm_query a of
            None \<Rightarrow>
              if stmt_type a = BYPASS_STMT then
                res_bind (str_at query 7) (\<lambda>query. Inr (PQexecSingle srv st query))
              else Inr (PQexecSingle srv st query)
          | Some sql \<Rightarrow>
              let tablename = squeeze (CHR '','') (stmt_tables a) in
              if stmt_type a = INSERT_STMT then exec_insert srv st tablename queryid sql
              else if stmt_type a = UPDATE_STMT \<or> stmt_type a = DELETE_STMT
              then exec_change srv st tablename sql query
              else exec_select srv st tablename queryid sql query))"

end
