(* ===== verification/LdvLog.thy ===== *)
theory LdvLog
  imports CString
begin

text \<open>
  Packets in the log of the LDV client library: \<open>prv_store_read\<close> and \<open>prv_restore_read\<close> of
  \<open>src/interfaces/libpq/fe-exec.c\<close> and the read of \<open>fe-secure.c\<close> that calls them.  In mode 31
  what the server sends is written to the log as hexadecimal digits, in mode 32 it is read back
  from the log in place of the network.
\<close>

unbundle bit_operations_syntax

type_synonym byte = "8 word"

section \<open>Hexadecimal digits\<close>

definition getHex :: "nat \<Rightarrow> char" where
  "getHex ch = char_of (if ch > 9 then ch + 97 - 10 else ch + 48)"

text \<open>A \<open>char\<close> is signed: characters from 128 on are negative and so not above the digit nine.\<close>

definition getChar :: "char \<Rightarrow> byte" where
  "getChar ch =
     (let c = of_char ch :: nat in
      if 57 < c \<and> c < 128 then of_nat c - 97 + 10 else of_nat c - 48)"

definition hex_byte :: "byte \<Rightarrow> string" where
  "hex_byte b = [getHex (unat b div 16), getHex (unat b mod 16)]"

section \<open>Storing\<close>

record packet_log =
  out_log :: string \<comment> \<open>\<open>f_out_dblog\<close>\<close>
  pkg_counter :: int

definition read_fields :: "int \<Rightarrow> int \<Rightarrow> string \<Rightarrow> string" where
  "read_fields counter n hex =
     ''prv_store_read'' @ tab # show_int counter @ tab # show_int n @ tab # hex"

definition prv_store_read :: "packet_log \<Rightarrow> byte list \<Rightarrow> int \<Rightarrow> packet_log" where
  "prv_store_read st ptr n =
     st\<lparr>out_log := out_log st @ read_fields (pkg_counter st) n (concat (map hex_byte (take (nat n) ptr))) @ [newline],
        pkg_counter := pkg_counter st + 1\<rparr>"

section \<open>Restoring\<close>

text \<open>
  The inner loop: digits up to the newline, two at a time, into a buffer of \<open>len\<close> bytes that
  already holds \<open>out\<close>.  A line that was cut off has no newline, and the loop runs past its end.
\<close>

fun decode_hex :: "nat \<Rightarrow> string \<Rightarrow> byte list \<Rightarrow> byte list res" where
  "decode_hex len [] out = Inl OutOfBounds"
| "decode_hex len [c] out = (if c = newline then Inr out else Inl OutOfBounds)"
| "decode_hex len (c # d # rest) out =
     (if c = newline then Inr out
      else if length out < len
      then decode_hex len rest (out @ [push_bit 4 (getChar c) OR getChar d])
      else Inl OutOfBounds)"

text \<open>The result is the bytes read, or \<open>None\<close> when the log ends and \<open>*n\<close> is not set, and the rest of the log.\<close>

function prv_restore_read :: "nat \<Rightarrow> string \<Rightarrow> (byte list option \<times> string) res" where
  "prv_restore_read len input =
     (case fgets (2 * len + 100) input of
        None \<Rightarrow> Inr (None, [])
      | Some (line, rest) \<Rightarrow>
          if starts_with ''prv_store_read'' line then
            res_bind (after_char line tab) (\<lambda>start.
            res_bind (after_char start tab) (\<lambda>start.
            res_bind (after_char start tab) (\<lambda>start.
            res_bind (decode_hex len start []) (\<lambda>bs. Inr (Some bs, rest)))))
          else prv_restore_read len rest)"
  by pat_completeness auto
termination
  by (relation "measure (\<lambda>(len, input). length input)") (auto dest: fgets_shorter)

declare prv_restore_read.simps [simp del]

section \<open>Reading from a connection\<close>

text \<open>
  The switch of \<open>pqsecure_read\<close> without SSL.  \<open>recv\<close> is what the network call returns: a count
  that is negative on an error, and the bytes.
\<close>

record conn_state =
  DB_MODE :: int
  capture :: packet_log
  in_log :: string \<comment> \<open>what is left of \<open>f_in_dblog\<close>\<close>

definition pqsecure_read :: "conn_state \<Rightarrow> int \<times> byte list \<Rightarrow> nat \<Rightarrow> (int option \<times> byte list \<times> conn_state) res" where
  "pqsecure_read st recv len =
     (if DB_MODE st = 31 then
        Inr (Some (fst recv), snd recv, st\<lparr>capture := prv_store_read (capture st) (snd recv) (fst recv)\<rparr>)
      else if DB_MODE st = 32 then
        res_bind (prv_restore_read len (in_log st)) (\<lambda>(bs, rest).
          Inr (map_option (\<lambda>bs. int (length bs)) bs, (case bs of None \<Rightarrow> [] | Some bs \<Rightarrow> bs), st\<lparr>in_log := rest\<rparr>))
      else Inr (Some (fst recv), snd recv, st))"

section \<open>Digits round trip\<close>

lemma getChar_getHex: "n < 16 \<Longrightarrow> getChar (getHex n) = of_nat n"
  by (auto simp: getChar_def getHex_def Let_def of_char_of take_bit_nat_eq_self)

lemma getHex_plain: "n < 16 \<Longrightarrow> getHex n \<noteq> newline"
proof -
  assume n: "n < 16"
  have "(of_char (getHex n) :: nat) \<noteq> 10"
    using n by (auto simp: getHex_def take_bit_nat_eq_self)
  then show ?thesis by (auto simp: newline_def)
qed

lemma byte_bound: "unat b < 256" for b :: byte
proof -
  have "unat b < 2 ^ LENGTH(8)" by (rule unsigned_less)
  then show ?thesis by simp
qed

lemma nibbles: "push_bit 4 (of_nat (unat b div 16)) OR of_nat (unat b mod 16) = b" for b :: byte
proof (rule bit_word_eqI)
  fix i
  assume "i < LENGTH(8)"
  then have i: "i < 8" by simp
  have "unat b div 16 = drop_bit 4 (unat b)" "unat b mod 16 = take_bit 4 (unat b)"
    by (simp_all add: drop_bit_eq_div take_bit_eq_mod)
  then show "bit (push_bit 4 (of_nat (unat b div 16)) OR of_nat (unat b mod 16) :: byte) i = bit b i"
    using i by (auto simp: bit_simps bit_unsigned_iff possible_bit_word)
qed

lemma decode_hex_bytes:
  "length out + length bs \<le> len \<Longrightarrow>
     decode_hex len (concat (map hex_byte bs) @ [newline]) out = Inr (out @ bs)"
proof (induction bs arbitrary: out)
  case (Cons b bs)
  have u: "unat b div 16 < 16" "unat b mod 16 < 16" using byte_bound [of b] by auto
  then have "decode_hex len (concat (map hex_byte (b # bs)) @ [newline]) out =
      decode_hex len (concat (map hex_byte bs) @ [newline]) (out @ [b])"
    using Cons.prems by (simp add: hex_byte_def getHex_plain getChar_getHex nibbles)
  with Cons show ?case by simp
qed (simp add: newline_def)

lemma hex_plain: "newline \<notin> set (concat (map hex_byte bs))"
proof (induction bs)
  case (Cons b bs)
  have "unat b div 16 < 16" "unat b mod 16 < 16" using byte_bound [of b] by auto
  then have "getHex (unat b div 16) \<noteq> newline" "getHex (unat b mod 16) \<noteq> newline"
    by (simp_all only: getHex_plain not_False_eq_True)
  then show ?case using Cons by (auto simp: hex_byte_def)
qed simp

lemma hex_length [simp]: "length (concat (map hex_byte bs)) = 2 * length bs"
  by (induction bs) (auto simp: hex_byte_def)

section \<open>Packets round trip\<close>

definition packet_line :: "int \<Rightarrow> int \<Rightarrow> byte list \<Rightarrow> string" where
  "packet_line counter n bs = read_fields counter n (concat (map hex_byte bs))"

lemma packet_line_plain: "newline \<notin> set (packet_line c n bs)"
proof -
  have "newline \<notin> set ''prv_store_read''" "newline \<noteq> tab" by (simp_all add: newline_def tab_def)
  then show ?thesis using hex_plain [of bs]
    by (simp only: packet_line_def read_fields_def set_append list.set Un_iff insert_iff show_int_plain) simp
qed

lemma restore_line:
  assumes "newline \<notin> set l" "Suc (length l) < 2 * len + 100"
  shows "prv_restore_read len (line_of l @ r) =
     (if starts_with ''prv_store_read'' (line_of l) then
        res_bind (after_char (line_of l) tab) (\<lambda>start.
        res_bind (after_char start tab) (\<lambda>start.
        res_bind (after_char start tab) (\<lambda>start.
        res_bind (decode_hex len start []) (\<lambda>bs. Inr (Some bs, r)))))
      else prv_restore_read len r)"
  by (subst prv_restore_read.simps) (simp add: fgets_line_of [OF assms])

definition packet_ok :: "int \<Rightarrow> nat \<Rightarrow> byte list \<Rightarrow> bool" where
  "packet_ok c len bs \<longleftrightarrow> 0 \<le> c \<and> c < 2 ^ 63 \<and> length bs \<le> len \<and> len < 2 ^ 63"

lemma packet_line_length:
  assumes "packet_ok c len bs" "\<bar>n\<bar> \<le> int len"
  shows "Suc (length (packet_line c n bs)) < 2 * len + 100"
proof -
  have "length (show_int c) \<le> 20" "length (show_int n) \<le> 20"
    using assms show_int_length [of c 18] show_int_length [of n 18] by (auto simp: packet_ok_def)
  then show ?thesis using assms(1) by (simp add: packet_line_def read_fields_def packet_ok_def)
qed

lemma restore_packet:
  assumes ok: "packet_ok c len bs" and n: "\<bar>n\<bar> \<le> int len"
  shows "prv_restore_read len (line_of (packet_line c n bs) @ r) = Inr (Some bs, r)"
proof -
  let ?hex = "concat (map hex_byte bs) @ [newline]"
  have l: "line_of (packet_line c n bs) = ''prv_store_read'' @ tab # show_int c @ tab # show_int n @ tab # ?hex"
    by (simp add: line_of_def packet_line_def read_fields_def)
  have t: "tab \<notin> set ''prv_store_read''" by (simp add: tab_def)
  have "decode_hex len ?hex [] = Inr bs" using ok by (simp add: decode_hex_bytes packet_ok_def)
  then show ?thesis
    unfolding restore_line [OF packet_line_plain packet_line_length [OF ok n]] unfolding l
    by (simp only: starts_with_append if_True after_char_append [OF t] after_char_append [OF show_int_plain(2)]
        res_bind_Inr)
qed

lemma restore_other:
  assumes "newline \<notin> set l" "Suc (length l) < 2 * len + 100" "\<not> starts_with ''prv_store_read'' (line_of l)"
  shows "prv_restore_read len (line_of l @ r) = prv_restore_read len r"
  using restore_line [OF assms(1,2)] assms(3) by simp

lemma store_read_line:
  "out_log (prv_store_read st ptr n) = out_log st @ line_of (packet_line (pkg_counter st) n (take (nat n) ptr))"
  "pkg_counter (prv_store_read st ptr n) = pkg_counter st + 1"
  by (simp_all add: prv_store_read_def packet_line_def line_of_def)

text \<open>A sequence of reads, each with what the network has for it and the size of the buffer.\<close>

fun read_all ::
    "conn_state \<Rightarrow> ((int \<times> byte list) \<times> nat) list \<Rightarrow> ((int option \<times> byte list) list \<times> conn_state) res" where
  "read_all st [] = Inr ([], st)"
| "read_all st ((recv, len) # rs) =
     res_bind (pqsecure_read st recv len) (\<lambda>(n, bs, st).
     res_bind (read_all st rs) (\<lambda>(out, st). Inr ((n, bs) # out, st)))"

definition recv_ok :: "(int \<times> byte list) \<times> nat \<Rightarrow> bool" where
  "recv_ok r \<longleftrightarrow> fst (fst r) = int (length (snd (fst r))) \<and> length (snd (fst r)) \<le> snd r \<and> snd r < 2 ^ 63"

fun packet_lines :: "int \<Rightarrow> ((int \<times> byte list) \<times> nat) list \<Rightarrow> string" where
  "packet_lines c [] = []"
| "packet_lines c ((recv, len) # rs) = line_of (packet_line c (fst recv) (snd recv)) @ packet_lines (c + 1) rs"

lemma capture_lines:
  assumes "DB_MODE st = 31" "\<forall>r \<in> set rs. recv_ok r"
  shows "\<exists>st'. read_all st rs = Inr (map (\<lambda>r. (Some (fst (fst r)), snd (fst r))) rs, st') \<and>
           out_log (capture st') = out_log (capture st) @ packet_lines (pkg_counter (capture st)) rs"
  using assms
proof (induction rs arbitrary: st)
  case (Cons r rs)
  obtain n bs len where r: "r = ((n, bs), len)" by (metis surj_pair)
  have n: "take (nat n) bs = bs" using Cons.prems(2) r by (simp add: recv_ok_def)
  let ?st = "st\<lparr>capture := prv_store_read (capture st) bs n\<rparr>"
  obtain st' where "read_all ?st rs = Inr (map (\<lambda>r. (Some (fst (fst r)), snd (fst r))) rs, st')"
    "out_log (capture st') = out_log (capture ?st) @ packet_lines (pkg_counter (capture ?st)) rs"
    using Cons.IH [of ?st] Cons.prems by auto
  then show ?case using Cons.prems(1) r n by (simp add: pqsecure_read_def store_read_line)
qed simp

lemma replay_lines:
  assumes "DB_MODE st = 32" "\<forall>r \<in> set rs. recv_ok r" "in_log st = packet_lines c rs @ rest"
    and "0 \<le> c" "c + int (length rs) \<le> 2 ^ 63"
  shows "\<exists>st'. read_all st (map (\<lambda>r. (net, snd r)) rs) =
           Inr (map (\<lambda>r. (Some (fst (fst r)), snd (fst r))) rs, st') \<and> in_log st' = rest"
  using assms
proof (induction rs arbitrary: st c)
  case (Cons r rs)
  obtain n bs len where r: "r = ((n, bs), len)" by (metis surj_pair)
  have ok: "packet_ok c len bs" "\<bar>n\<bar> \<le> int len" "n = int (length bs)"
    using Cons.prems r by (auto simp: recv_ok_def packet_ok_def)
  let ?r = "packet_lines (c + 1) rs @ rest"
  have "prv_restore_read len (in_log st) = Inr (Some bs, ?r)"
    using restore_packet [OF ok(1,2), of ?r] Cons.prems(3) r by simp
  moreover obtain st' where "read_all (st\<lparr>in_log := ?r\<rparr>) (map (\<lambda>r. (net, snd r)) rs) =
      Inr (map (\<lambda>r. (Some (fst (fst r)), snd (fst r))) rs, st')" "in_log st' = rest"
    using Cons.IH [of "st\<lparr>in_log := ?r\<rparr>" "c + 1"] Cons.prems by auto
  ultimately show ?case using Cons.prems(1) r ok(3) by (simp add: pqsecure_read_def)
qed simp

end
