(* ===== verification/LdvReplay.thy ===== *)
theory LdvReplay
  imports LdvClient LdvLog
begin

text \<open>
  Starting a capture and restoring a database from its log: \<open>prv_init_pkg_capture\<close>,
  \<open>prv_storeConnection\<close>, \<open>prv_finish\<close>, \<open>prv_get_stored_dbname\<close>, \<open>prv_restoretable\<close>,
  \<open>prv_restoredb\<close> and \<open>prv_init_restore\<close> of \<open>src/interfaces/libpq/fe-exec.c\<close>.

  The server takes the connection string of each statement as well.  Files are their contents;
  a file that cannot be opened is \<open>None\<close>.
\<close>

section \<open>Capture\<close>

record session =
  is_init :: bool
  ses_mode :: int
  ses_id :: int
  ses_tblmod :: hashtbl
  ses_tblstore :: hashtbl
  out_file :: "(string \<times> string) option" \<comment> \<open>name and contents of the log that is open\<close>

text \<open>
  The first call reads the environment: the mode (\<open>atoi\<close> of \<open>PTU_DB_MODE\<close>, stored in a \<open>char\<close>) and
  the session; the file name has a buffer of 20 bytes.
\<close>

definition char_of_int :: "int \<Rightarrow> int" where
  "char_of_int i = (i + 128) mod 256 - 128"

definition prv_init_pkg_capture ::
    "int option \<Rightarrow> (string \<times> int) option \<Rightarrow> int \<Rightarrow> session \<Rightarrow> session res" where
  "prv_init_pkg_capture db_mode session pid st =
     (if is_init st then Inr st else
      let st = st\<lparr>is_init := True\<rparr>;
          st = (case db_mode of None \<Rightarrow> st | Some m \<Rightarrow> st\<lparr>ses_mode := char_of_int m\<rparr>)
      in
      if ses_mode st = 0 then Inr st
      else
        let st = st\<lparr>ses_tblmod := prv_hashInit, ses_tblstore := prv_hashInit\<rparr> in
        if ses_mode st = 21 \<or> ses_mode st = 31 then
          let st = (case session of None \<Rightarrow> st | Some (s, i) \<Rightarrow> st\<lparr>ses_id := i\<rparr>);
              text = (case session of None \<Rightarrow> ''(null)'' | Some (s, i) \<Rightarrow> s)
          in res_bind (in_buffer 20 (show_int (ses_id st) @ ''.'' @ show_int pid @ ''.dblog'')) (\<lambda>name.
               Inr (st\<lparr>out_file := Some (name, line_of (tabbed [''prv_init'', text]))\<rparr>))
        else Inr st)"

definition prv_storeConnection :: "string \<Rightarrow> string \<Rightarrow> session \<Rightarrow> session res" where
  "prv_storeConnection dbName pguser st =
     (if ses_mode st = 21 then
        (case out_file st of
           None \<Rightarrow> Inl NullDeref
         | Some (name, text) \<Rightarrow>
             Inr (st\<lparr>out_file := Some (name, text @ line_of (tabbed [''prv_store_dbname'', dbName]) @
                                            line_of (tabbed [''prv_store_user'', pguser]))\<rparr>))
      else Inr st)"

text \<open>\<open>fclose\<close>; a second call closes a stream that is closed already.\<close>

definition prv_finish :: "session \<Rightarrow> session res" where
  "prv_finish st =
     (if ses_mode st = 21 \<or> ses_mode st = 31
      then (case out_file st of None \<Rightarrow> Inl BadFree | Some _ \<Rightarrow> Inr (st\<lparr>out_file := None\<rparr>))
      else Inr st)"

section \<open>Restoring\<close>

record 'db cluster =
  cdb :: 'db
  trace :: "(string \<times> string) list" \<comment> \<open>connection and statement\<close>
  f_in_dblog :: "string option" \<comment> \<open>what is left of the log that is open for reading\<close>

type_synonym 'db cluster_server = "string \<Rightarrow> 'db server"

definition exec_on :: "'db cluster_server \<Rightarrow> string \<Rightarrow> 'db cluster \<Rightarrow> string \<Rightarrow> PGresult \<times> 'db cluster" where
  "exec_on srv conn st sql =
     (let (r, d) = srv conn (cdb st) sql in (r, st\<lparr>cdb := d, trace := trace st @ [(conn, sql)]\<rparr>))"

function prv_get_stored_dbname :: "string \<Rightarrow> (string option \<times> string) res" where
  "prv_get_stored_dbname f_in =
     (case fgets STR_LONG_LEN f_in of
        None \<Rightarrow> Inr (None, [])
      | Some (line, rest) \<Rightarrow>
          if starts_with ''prv_store_dbname'' line
          then res_bind (str_at line 17) (\<lambda>start. Inr (Some (butlast start), rest))
          else prv_get_stored_dbname rest)"
  by pat_completeness auto
termination
  by (relation "measure length") (auto simp: STR_LONG_LEN_def dest: fgets_shorter)

declare prv_get_stored_dbname.simps [simp del]

text \<open>
  The loop of \<open>prv_restoretable\<close>.  The flag \<open>iamtheone\<close> is set by the first table that could be
  created; before that, a failure ends the loop.
\<close>

function restore_loop ::
    "'db cluster_server \<Rightarrow> string \<Rightarrow> 'db cluster \<Rightarrow> bool \<Rightarrow> string \<Rightarrow> ('db cluster \<times> bool) res" where
  "restore_loop srv conn st iamtheone f_in =
     (case fgets STR_LONG_LEN f_in of
        None \<Rightarrow> Inr (st, iamtheone)
      | Some (line, rest) \<Rightarrow>
          if starts_with ''prv_store_table'' line then
            res_bind (after_char line tab) (\<lambda>start.
              let (result, st) = exec_on srv conn st start in
              if \<not> iamtheone \<and> res_status result \<noteq> PGRES_COMMAND_OK then Inr (st, iamtheone)
              else restore_loop srv conn st True rest)
          else if starts_with ''prv_store_row'' line then
            res_bind (after_char line tab) (\<lambda>start.
            res_bind (after_char start tab) (\<lambda>start.
            res_bind (after_char start tab) (\<lambda>start.
              restore_loop srv conn (snd (exec_on srv conn st start)) iamtheone rest)))
          else restore_loop srv conn st iamtheone rest)"
  by pat_completeness auto
termination
  by (relation "measure (\<lambda>(srv, conn, st, b, f_in). length f_in)")
    (auto simp: STR_LONG_LEN_def dest: fgets_shorter)

declare restore_loop.simps [simp del]

text \<open>\<open>prv_restoreDbState\<close> is empty.\<close>

definition prv_restoreDbState :: "'db cluster \<Rightarrow> 'db cluster" where
  "prv_restoreDbState st = st"

definition prv_restoretable :: "'db cluster_server \<Rightarrow> string \<Rightarrow> 'db cluster \<Rightarrow> string \<Rightarrow> 'db cluster res" where
  "prv_restoretable srv conn st f_in =
     res_bind (restore_loop srv conn st False f_in) (\<lambda>(st, iamtheone).
       Inr (if iamtheone then prv_restoreDbState st else st))"

text \<open>\<open>strstr\<close>: the position of the first occurrence.\<close>

fun strstr :: "string \<Rightarrow> string \<Rightarrow> nat option" where
  "strstr s pat =
     (if starts_with pat s then Some 0
      else case s of [] \<Rightarrow> None | x # xs \<Rightarrow> map_option Suc (strstr xs pat))"

declare strstr.simps [simp del]

text \<open>
  The connection string for the database \<open>postgres\<close> and the name of the database, each in a
  buffer of \<open>STR_LEN\<close> bytes.  \<open>start\<close> is the text after \<open>dbname=\<close>.
\<close>

definition split_conninfo :: "string \<Rightarrow> nat \<Rightarrow> (string \<times> string) res" where
  "split_conninfo conninfo pos =
     (let start = drop (pos + 7) conninfo;
          new_conninfo = take (pos + 7) conninfo @ ''postgres''
      in case strchr start (CHR '' '') of
           None \<Rightarrow>
             res_bind (in_buffer STR_LEN new_conninfo) (\<lambda>new_conninfo.
             res_bind (in_buffer STR_LEN start) (\<lambda>dbname. Inr (new_conninfo, dbname)))
         | Some e \<Rightarrow>
             res_bind (in_buffer STR_LEN (take e start)) (\<lambda>dbname.
             res_bind (in_buffer STR_LEN (new_conninfo @ drop e start)) (\<lambda>new_conninfo.
               Inr (new_conninfo, dbname))))"

text \<open>
  \<open>strncmp(stored_dbname, start, end - start) == 0\<close>.  Without a space \<open>end\<close> is null and the count
  larger than any string; with one, only as many characters as the given name has are compared.
\<close>

definition same_dbname :: "string \<Rightarrow> string \<Rightarrow> bool" where
  "same_dbname stored start =
     (case strchr start (CHR '' '') of
        None \<Rightarrow> stored = start
      | Some e \<Rightarrow> take e stored = take e start)"

definition prv_restoredb ::
    "'db cluster_server \<Rightarrow> int \<Rightarrow> string \<Rightarrow> string option option \<Rightarrow> 'db cluster \<Rightarrow> 'db cluster res" where
  "prv_restoredb srv md conninfo dbreplay st =
     (if md = 32 then (case dbreplay of None \<Rightarrow> Inl NullDeref | Some file \<Rightarrow> Inr (st\<lparr>f_in_dblog := file\<rparr>))
      else if md \<noteq> 22 then Inr st
      else case dbreplay of
        None \<Rightarrow> Inr st
      | Some file \<Rightarrow>
          (case strstr conninfo ''dbname='' of
             None \<Rightarrow> Inr st
           | Some pos \<Rightarrow>
               res_bind (split_conninfo conninfo pos) (\<lambda>(new_conninfo, dbname).
               res_bind (case file of None \<Rightarrow> Inl NullDeref | Some text \<Rightarrow> prv_get_stored_dbname text) (\<lambda>(stored, rest).
                 case stored of
                   None \<Rightarrow> Inl NullDeref
                 | Some stored_dbname \<Rightarrow>
                     if \<not> same_dbname stored_dbname (drop (pos + 7) conninfo) then Inr (st\<lparr>f_in_dblog := Some rest\<rparr>)
                     else
                       res_bind (in_buffer STR_LEN (''CREATE DATABASE '' @ dbname @ '';'')) (\<lambda>sql.
                         let (_, st) = exec_on srv new_conninfo st sql in
                         res_bind (prv_restoretable srv conninfo st rest) (\<lambda>st. Inr (st\<lparr>f_in_dblog := None\<rparr>)))))))"

definition prv_init_restore ::
    "'db cluster_server \<Rightarrow> int \<Rightarrow> string \<Rightarrow> string option option \<Rightarrow> 'db cluster \<Rightarrow> 'db cluster res" where
  "prv_init_restore srv md conninfo dbreplay st =
     (if md = 22 \<or> md = 32 then prv_restoredb srv md conninfo dbreplay st else Inr st)"

section \<open>Connecting\<close>

text \<open>\<open>connect\<close> is what the connection to the server reports: the names of the database and of the user.\<close>

record environment =
  PTU_DB_MODE :: "int option"
  PTU_DBSESSION_ID :: "(string \<times> int) option"
  PTU_DB_REPLAY :: "string option option"

definition PQconnectdb ::
    "'db cluster_server \<Rightarrow> (string \<Rightarrow> string \<times> string) \<Rightarrow> environment \<Rightarrow> int \<Rightarrow> string \<Rightarrow>
      session \<times> 'db cluster \<Rightarrow> (session \<times> 'db cluster) res" where
  "PQconnectdb srv connect env pid conninfo s =
     res_bind (prv_init_pkg_capture (PTU_DB_MODE env) (PTU_DBSESSION_ID env) pid (fst s)) (\<lambda>st.
     res_bind (prv_init_restore srv (ses_mode st) conninfo (PTU_DB_REPLAY env) (snd s)) (\<lambda>cl.
     res_bind (prv_storeConnection (fst (connect conninfo)) (snd (connect conninfo)) st) (\<lambda>st.
       Inr (st, cl))))"

definition PQfinish :: "session \<times> 'db cluster \<Rightarrow> (session \<times> 'db cluster) res" where
  "PQfinish s = res_bind (prv_finish (fst s)) (\<lambda>st. Inr (st, snd s))"

section \<open>Reading back what was stored\<close>

datatype entry =
    TableEntry string
  | RowEntry string string string
  | OtherEntry string

fun entry_line :: "entry \<Rightarrow> string" where
  "entry_line (TableEntry sql) = tabbed [''prv_store_table'', sql]"
| "entry_line (RowEntry rowid t sql) = tabbed [''prv_store_row'', rowid, t, sql]"
| "entry_line (OtherEntry l) = l"

fun entry_sql :: "entry \<Rightarrow> string list" where
  "entry_sql (TableEntry sql) = [line_of sql]"
| "entry_sql (RowEntry rowid t sql) = [line_of sql]"
| "entry_sql (OtherEntry l) = []"

definition entry_ok :: "entry \<Rightarrow> bool" where
  "entry_ok e \<longleftrightarrow>
     newline \<notin> set (entry_line e) \<and> Suc (length (entry_line e)) < STR_LONG_LEN \<and>
     (case e of
        TableEntry sql \<Rightarrow> True
      | RowEntry rowid t sql \<Rightarrow> tab \<notin> set rowid \<and> tab \<notin> set t
      | OtherEntry l \<Rightarrow> \<not> starts_with ''prv_store_table'' (line_of l) \<and> \<not> starts_with ''prv_store_row'' (line_of l))"

definition log_of :: "entry list \<Rightarrow> string" where
  "log_of es = concat (map (\<lambda>e. line_of (entry_line e)) es)"

lemma restore_line_step:
  assumes "newline \<notin> set l" "Suc (length l) < STR_LONG_LEN"
  shows "restore_loop srv conn st b (line_of l @ r) =
     (if starts_with ''prv_store_table'' (line_of l) then
        res_bind (after_char (line_of l) tab) (\<lambda>start.
          let (result, st) = exec_on srv conn st start in
          if \<not> b \<and> res_status result \<noteq> PGRES_COMMAND_OK then Inr (st, b)
          else restore_loop srv conn st True r)
      else if starts_with ''prv_store_row'' (line_of l) then
        res_bind (after_char (line_of l) tab) (\<lambda>start.
        res_bind (after_char start tab) (\<lambda>start.
        res_bind (after_char start tab) (\<lambda>start.
          restore_loop srv conn (snd (exec_on srv conn st start)) b r)))
      else restore_loop srv conn st b r)"
  by (subst restore_loop.simps) (simp add: fgets_line_of [OF assms])

lemma restore_table:
  assumes "entry_ok (TableEntry sql)"
  shows "restore_loop srv conn st b (line_of (entry_line (TableEntry sql)) @ r) =
     (let (result, st) = exec_on srv conn st (line_of sql) in
      if \<not> b \<and> res_status result \<noteq> PGRES_COMMAND_OK then Inr (st, b)
      else restore_loop srv conn st True r)"
proof -
  have l: "line_of (entry_line (TableEntry sql)) = ''prv_store_table'' @ tab # line_of sql"
    by (simp add: tabbed_def line_of_def)
  have t: "tab \<notin> set ''prv_store_table''" by (simp add: tab_def)
  have "newline \<notin> set (entry_line (TableEntry sql))" "Suc (length (entry_line (TableEntry sql))) < STR_LONG_LEN"
    using assms by (simp_all add: entry_ok_def)
  from restore_line_step [OF this, of srv conn st b r] show ?thesis
    unfolding l by (simp only: starts_with_append if_True after_char_append [OF t] res_bind_Inr)
qed

lemma restore_row:
  assumes "entry_ok (RowEntry rowid t sql)"
  shows "restore_loop srv conn st b (line_of (entry_line (RowEntry rowid t sql)) @ r) =
     restore_loop srv conn (snd (exec_on srv conn st (line_of sql))) b r"
proof -
  have l: "line_of (entry_line (RowEntry rowid t sql)) =
      ''prv_store_row'' @ tab # rowid @ tab # t @ tab # line_of sql"
    by (simp add: tabbed_def line_of_def)
  have n: "\<not> starts_with ''prv_store_table'' (''prv_store_row'' @ s)" for s by (simp add: starts_with_def)
  have t: "tab \<notin> set ''prv_store_row''" "tab \<notin> set rowid" "tab \<notin> set t"
    using assms by (simp_all add: tab_def entry_ok_def)
  have "newline \<notin> set (entry_line (RowEntry rowid t sql))"
    "Suc (length (entry_line (RowEntry rowid t sql))) < STR_LONG_LEN"
    using assms by (simp_all add: entry_ok_def)
  from restore_line_step [OF this, of srv conn st b r] show ?thesis
    unfolding l by (simp only: n starts_with_append if_True if_False after_char_append t not_False_eq_True res_bind_Inr)
qed

lemma restore_other_entry:
  assumes "entry_ok (OtherEntry l)"
  shows "restore_loop srv conn st b (line_of (entry_line (OtherEntry l)) @ r) = restore_loop srv conn st b r"
  using assms restore_line_step [of l srv conn st b r] by (simp add: entry_ok_def)

definition run_all :: "'db cluster_server \<Rightarrow> string \<Rightarrow> 'db cluster \<Rightarrow> string list \<Rightarrow> 'db cluster" where
  "run_all srv conn st sqls = foldl (\<lambda>st sql. snd (exec_on srv conn st sql)) st sqls"

text \<open>Once a table has been created, every stored statement is executed in the order of the log.\<close>

lemma restore_loop_all:
  assumes "\<forall>e \<in> set es. entry_ok e"
  shows "restore_loop srv conn st True (log_of es) = Inr (run_all srv conn st (concat (map entry_sql es)), True)"
  using assms
proof (induction es arbitrary: st)
  case Nil
  then show ?case by (simp add: log_of_def run_all_def restore_loop.simps)
next
  case (Cons e es)
  have l: "log_of (e # es) = line_of (entry_line e) @ log_of es" by (simp add: log_of_def)
  have IH: "restore_loop srv conn st True (log_of es) = Inr (run_all srv conn st (concat (map entry_sql es)), True)" for st
    using Cons by simp
  show ?case
  proof (cases e)
    case (TableEntry sql)
    with Cons.prems have "entry_ok (TableEntry sql)" by simp
    from restore_table [OF this, of srv conn st True "log_of es"] show ?thesis
      unfolding TableEntry l [unfolded TableEntry] by (simp add: IH run_all_def Let_def split_beta del: entry_line.simps)
  next
    case (RowEntry rowid t sql)
    with Cons.prems have "entry_ok (RowEntry rowid t sql)" by simp
    from restore_row [OF this, of srv conn st True "log_of es"] show ?thesis
      unfolding RowEntry l [unfolded RowEntry] by (simp add: IH run_all_def del: entry_line.simps)
  next
    case (OtherEntry o1)
    with Cons.prems have "entry_ok (OtherEntry o1)" by simp
    from restore_other_entry [OF this, of srv conn st True "log_of es"] show ?thesis
      unfolding OtherEntry l [unfolded OtherEntry] by (simp add: IH run_all_def del: entry_line.simps)
  qed
qed

lemma restoretable_from_first:
  assumes "\<forall>e \<in> set (os @ TableEntry sql # es). entry_ok e" "\<forall>e \<in> set os. \<exists>l. e = OtherEntry l"
    and "res_status (fst (srv conn (cdb st) (line_of sql))) = PGRES_COMMAND_OK"
  shows "prv_restoretable srv conn st (log_of (os @ TableEntry sql # es)) =
           Inr (run_all srv conn st (line_of sql # concat (map entry_sql es)))"
proof -
  have skip: "restore_loop srv conn st False (log_of (os @ TableEntry sql # es)) =
      restore_loop srv conn st False (log_of (TableEntry sql # es))"
    using assms(1,2)
  proof (induction os)
    case (Cons e os)
    then obtain l where "e = OtherEntry l" "entry_ok (OtherEntry l)" by auto
    with Cons restore_other_entry [of l srv conn st False "log_of (os @ TableEntry sql # es)"] show ?case
      by (simp add: log_of_def)
  qed simp
  have ok: "entry_ok (TableEntry sql)" "\<forall>e \<in> set es. entry_ok e" using assms(1) by auto
  have "restore_loop srv conn st False (log_of (TableEntry sql # es)) =
      Inr (run_all srv conn st (line_of sql # concat (map entry_sql es)), True)"
    using restore_table [OF ok(1), of srv conn st False "log_of es"] restore_loop_all [OF ok(2)] assms(3)
    by (simp add: log_of_def run_all_def exec_on_def Let_def split_beta)
  with skip show ?thesis by (simp add: prv_restoretable_def prv_restoreDbState_def)
qed

lemma run_all_trace: "trace (run_all srv conn st sqls) = trace st @ map (Pair conn) sqls"
  by (induction sqls arbitrary: st) (auto simp: run_all_def exec_on_def split_beta Let_def)

end
