(* ===== verification/LdvTuples.thy ===== *)
theory LdvTuples
  imports LdvReplay
begin

text \<open>
  What the LDV client library writes into its log for the tuples of a table, as the list of entries
  that \<open>prv_restoretable\<close> reads.
\<close>

section \<open>Tuples in the log\<close>

fun join_vals :: "string list \<Rightarrow> string" where
  "join_vals [] = []"
| "join_vals [v] = v"
| "join_vals (v # w # vs) = v @ [CHR 0x27] @ '', '' @ [CHR 0x27] @ join_vals (w # vs)"

definition tuple_text :: "string list \<Rightarrow> string" where
  "tuple_text vs = [CHR ''('', CHR 0x27] @ join_vals vs @ [CHR 0x27, CHR '')'']"

lemma drop_Cons_nth: "drop n row = v # vs \<Longrightarrow> drop (Suc n) row = vs \<and> n < length row"
  by (metis drop_eq_Nil2 drop_Suc drop_tl list.sel(3) list.simps(3) not_le)

lemma join_vals_Cons: "vs \<noteq> [] \<Longrightarrow> join_vals (v # vs) = v @ [CHR 0x27] @ '', '' @ [CHR 0x27] @ join_vals vs"
  by (cases vs) auto

lemma row_loop_step:
  "drop n row = v # vs \<Longrightarrow>
     row_loop env q row (v # vs) n (vals, lg, rid) =
       row_loop env q row vs (Suc n)
         ((vals @ v) @ (if vs = [] then [CHR 0x27, CHR '')''] else [CHR 0x27] @ '', '' @ [CHR 0x27]),
          (if n + 5 = length row then lg @ prv_storeTuple env q (last row) ((vals @ v) @ [CHR 0x27, CHR '')'']) else lg),
          (if n + 5 = length row then Some (last row) else rid))"
proof -
  assume d: "drop n row = v # vs"
  then have "vs = [] \<longleftrightarrow> \<not> Suc n < length row" using drop_Cons_nth [OF d] by auto
  then show ?thesis by (simp add: Let_def)
qed

lemma row_loop_rest:
  "length row < n + 5 \<Longrightarrow> drop n row = vs \<Longrightarrow> vs \<noteq> [] \<Longrightarrow>
     row_loop env q row vs n (vals, lg, rid) = (vals @ join_vals vs @ [CHR 0x27, CHR '')''], lg, rid)"
proof (induction vs arbitrary: n vals)
  case (Cons v vs)
  note step = row_loop_step [OF Cons.prems(2), of env q vals lg rid]
  have d: "drop (Suc n) row = vs" using drop_Cons_nth [OF Cons.prems(2)] by simp
  show ?case
  proof (cases "vs = []")
    case True
    with step Cons.prems(1) show ?thesis by simp
  next
    case False
    show ?thesis unfolding step join_vals_Cons [OF False]
      using Cons.IH [OF _ d False] Cons.prems(1) False by simp
  qed
qed simp

lemma row_loop_tuple:
  "n + 5 \<le> length row \<Longrightarrow> drop n row = vs \<Longrightarrow>
     row_loop env q row vs n (vals, lg, rid) =
       (vals @ join_vals vs @ [CHR 0x27, CHR '')''],
        lg @ prv_storeTuple env q (last row) (vals @ join_vals (take (length row - 4 - n) vs) @ [CHR 0x27, CHR '')'']),
        Some (last row))"
proof (induction vs arbitrary: n vals)
  case (Cons v vs)
  note step = row_loop_step [OF Cons.prems(2), of env q vals lg rid]
  have d: "drop (Suc n) row = vs" using drop_Cons_nth [OF Cons.prems(2)] by simp
  then have vs: "vs \<noteq> []" using Cons.prems(1) by auto
  show ?case
  proof (cases "n + 5 = length row")
    case True
    then have "length row - 4 - n = 1" "length row < Suc n + 5" by simp_all
    then show ?thesis unfolding step join_vals_Cons [OF vs] using row_loop_rest [OF _ d vs] True vs by simp
  next
    case False
    then have n: "Suc n + 5 \<le> length row" using Cons.prems(1) by simp
    then have k: "length row - 4 - n = Suc (length row - 4 - Suc n)" "take (length row - 4 - Suc n) vs \<noteq> []"
      using vs by simp_all
    show ?thesis unfolding step k(1) take_Suc_Cons join_vals_Cons [OF vs] join_vals_Cons [OF k(2)]
      using Cons.IH [OF n d] False vs by simp
  qed
qed simp

definition row_entries :: "sql_env \<Rightarrow> string \<Rightarrow> string \<Rightarrow> string list \<Rightarrow> entry list" where
  "row_entries env t q row =
     [OtherEntry (tabbed [''prv_store_tuple'', show_int (env_pid env), q, last row,
        tuple_text (take (length row - 4) row)]),
      RowEntry (last row) t (insert_sql t (tuple_text row))]"

lemma store_row_entries:
  assumes "5 \<le> length row" "length (tuple_text row) < STR_LONG_LEN"
  shows "store_row_log env t q True row = Inr (log_of (row_entries env t q row))"
  using assms row_loop_tuple [of 0 row row env q "[CHR ''('', CHR 0x27]" "[]" None]
  by (simp add: store_row_log_def row_entries_def log_of_def prv_storeTuple_def tuple_text_def in_buffer_def)

lemma log_of_append: "log_of (es @ fs) = log_of es @ log_of fs"
  by (simp add: log_of_def)

lemma store_rows_entries:
  "(\<And>row. row \<in> set rows \<Longrightarrow> 5 \<le> length row \<and> length (tuple_text row) < STR_LONG_LEN) \<Longrightarrow>
     store_rows_log env t q True rows = Inr (log_of (concat (map (row_entries env t q) rows)))"
proof (induction rows)
  case (Cons row rows)
  then have "store_row_log env t q True row = Inr (log_of (row_entries env t q row))"
    by (intro store_row_entries) auto
  with Cons show ?case by (simp add: log_of_append)
qed (simp add: log_of_def)

section \<open>Tuples that fit a line\<close>

definition storable :: "sql_env \<Rightarrow> string \<Rightarrow> string \<Rightarrow> string list \<Rightarrow> bool" where
  "storable env t q row \<longleftrightarrow>
     5 \<le> length row \<and> (\<forall>v \<in> set row. newline \<notin> set v) \<and> tab \<notin> set (last row) \<and>
     length (tuple_text row) + length (last row) + length q + 2 * length t + length (show_int (env_pid env)) + 100 < STR_LONG_LEN"

lemma join_vals_plain: "(\<And>v. v \<in> set vs \<Longrightarrow> newline \<notin> set v) \<Longrightarrow> newline \<notin> set (join_vals vs)"
  by (induction vs rule: join_vals.induct) (auto simp: newline_def)

lemma join_vals_take: "length (join_vals (take n vs)) \<le> length (join_vals vs)"
proof (induction vs arbitrary: n)
  case (Cons v vs)
  show ?case
  proof (cases n)
    case (Suc m)
    then show ?thesis using Cons.IH [of m]
      by (cases "vs = []"; cases "take m vs = []") (auto simp: join_vals_Cons)
  qed simp
qed simp

lemma row_entries_ok:
  assumes "storable env t q row" "newline \<notin> set q" "newline \<notin> set t" "tab \<notin> set t" "e \<in> set (row_entries env t q row)"
  shows "entry_ok e"
proof -
  have row: "5 \<le> length row" "\<And>v. v \<in> set row \<Longrightarrow> newline \<notin> set v" "tab \<notin> set (last row)"
    using assms(1) by (auto simp: storable_def)
  then have last: "newline \<notin> set (last row)" by (metis last_in_set list.size(3) not_numeral_le_zero)
  have plain: "newline \<notin> set (join_vals row)" "newline \<notin> set (join_vals (take n row))" for n
    using row(2) by (auto intro!: join_vals_plain dest: in_set_takeD)
  have len: "length (tuple_text (take (length row - 4) row)) \<le> length (tuple_text row)"
    using join_vals_take by (simp add: tuple_text_def)
  have "entry_ok (OtherEntry (tabbed [''prv_store_tuple'', show_int (env_pid env), q, last row,
      tuple_text (take (length row - 4) row)]))"
    using assms(1,2) last plain len
    by (simp add: entry_ok_def storable_def tabbed_def tuple_text_def starts_with_def line_of_def)
      (simp add: newline_def tab_def)
  moreover have "entry_ok (RowEntry (last row) t (insert_sql t (tuple_text row)))"
    using assms(1,3,4) last plain row(3)
    by (simp add: entry_ok_def storable_def tabbed_def tuple_text_def insert_sql_def) (simp add: newline_def tab_def)
  ultimately show ?thesis using assms(5) by (auto simp: row_entries_def)
qed

lemma row_entries_sql:
  "concat (map entry_sql (concat (map (row_entries env t q) rows))) = map (\<lambda>row. line_of (insert_sql t (tuple_text row))) rows"
  by (induction rows) (auto simp: row_entries_def)

lemma log_of_Cons: "log_of (e # es) = line_of (entry_line e) @ log_of es"
  by (simp add: log_of_def)

lemma storeTable_log:
  assumes "\<not> prv_hashContains (dict_tblstore st) t"
    and "column_defs (res_rows (fst (srv (db st) (columns_query t)))) = Inr cols"
    and "prv_storeTable srv st t = Inr st1"
  shows "dblog st1 = dblog st @ line_of (entry_line (TableEntry (''CREATE TABLE '' @ t @ '' ('' @ cols))) \<and> cenv st1 = cenv st"
  using assms by (auto simp: prv_storeTable_def PQexecSingle_def Let_def split_beta res_iff write_log_def)

lemma storeTupleFromResult_log:
  assumes "prv_storeTupleFromResult st t result q True = Inr st'"
    and "\<And>row. row \<in> set (res_rows result) \<Longrightarrow> storable (cenv st) t q row"
  shows "dblog st' = dblog st @ log_of (concat (map (row_entries (cenv st) t q) (res_rows result)))"
proof -
  have "store_rows_log (cenv st) t q True (res_rows result) =
      Inr (log_of (concat (map (row_entries (cenv st) t q) (res_rows result))))"
    using assms(2) by (intro store_rows_entries) (fastforce simp: storable_def)
  then show ?thesis using assms(1) by (auto simp: prv_storeTupleFromResult_def write_log_def)
qed

end
