(* ===== verification/LdvClientSpec.thy ===== *)
theory LdvClientSpec
  imports LdvClient
begin

text \<open>
  What every operation of the LDV client library keeps: statements are only added to those sent,
  the state of the server is the one they lead to, the log only grows, and a name that one of the
  tables of hashes contains stays there.
\<close>

section \<open>Steps of a connection\<close>

definition serve :: "'db server \<Rightarrow> 'db \<Rightarrow> string list \<Rightarrow> 'db" where
  "serve srv d sqls = foldl (\<lambda>d q. snd (srv d q)) d sqls"

definition dict_grows :: "hashtbl \<Rightarrow> hashtbl \<Rightarrow> bool" where
  "dict_grows d d' \<longleftrightarrow> (dict_ok d \<longrightarrow> dict_ok d' \<and> (\<forall>t. prv_hashContains d t \<longrightarrow> prv_hashContains d' t))"

definition follows :: "'db server \<Rightarrow> 'db client \<Rightarrow> 'db client \<Rightarrow> bool" where
  "follows srv st st' \<longleftrightarrow>
     (\<exists>sqls l. sent st' = sent st @ sqls \<and> db st' = serve srv (db st) sqls \<and> dblog st' = dblog st @ l) \<and>
     mode st' = mode st \<and> cenv st' = cenv st \<and>
     dict_grows (dict_tblmod st) (dict_tblmod st') \<and> dict_grows (dict_tblstore st) (dict_tblstore st')"

lemma dict_grows_refl [simp]: "dict_grows d d"
  by (simp add: dict_grows_def)

lemma dict_grows_put [simp]: "dict_grows d (prv_hashPut d s)"
  by (simp add: dict_grows_def dict.wf_put dict.put_keeps)

lemma dict_grows_trans: "dict_grows a b \<Longrightarrow> dict_grows b c \<Longrightarrow> dict_grows a c"
  by (auto simp: dict_grows_def)

lemma serve_append [simp]: "serve srv d (xs @ ys) = serve srv (serve srv d xs) ys"
  by (simp add: serve_def)

lemma serve_one [simp]: "serve srv d [q] = snd (srv d q)" "serve srv d [] = d"
  by (simp_all add: serve_def)

lemma followsI:
  assumes "sent st' = sent st @ sqls" "db st' = serve srv (db st) sqls" "dblog st' = dblog st @ l"
    "mode st' = mode st" "cenv st' = cenv st"
    "dict_grows (dict_tblmod st) (dict_tblmod st')" "dict_grows (dict_tblstore st) (dict_tblstore st')"
  shows "follows srv st st'"
  using assms by (auto simp: follows_def)

lemma follows_refl [simp]: "follows srv st st"
  by (rule followsI [where sqls = "[]" and l = "[]"]) simp_all

lemma follows_trans: "follows srv a b \<Longrightarrow> follows srv b c \<Longrightarrow> follows srv a c"
proof -
  assume ab: "follows srv a b" and bc: "follows srv b c"
  obtain s1 l1 where 1: "sent b = sent a @ s1" "db b = serve srv (db a) s1" "dblog b = dblog a @ l1"
    using ab by (auto simp: follows_def)
  obtain s2 l2 where 2: "sent c = sent b @ s2" "db c = serve srv (db b) s2" "dblog c = dblog b @ l2"
    using bc by (auto simp: follows_def)
  show ?thesis
    using ab bc 1 2 dict_grows_trans
    by (intro followsI [where sqls = "s1 @ s2" and l = "l1 @ l2"]) (auto simp: follows_def)
qed

lemma follows_write_log [simp]: "follows srv st (write_log l st)"
  by (rule followsI [where sqls = "[]" and l = l]) (simp_all add: write_log_def)

lemma follows_put [simp]:
  "follows srv st (st\<lparr>dict_tblmod := prv_hashPut (dict_tblmod st) t\<rparr>)"
  "follows srv st (st\<lparr>dict_tblstore := prv_hashPut (dict_tblstore st) t\<rparr>)"
  by (rule followsI [where sqls = "[]" and l = "[]"]; simp)+

lemma single_result: "PQexecSingle srv st q = (r, st') \<Longrightarrow> r = fst (srv (db st) q)"
  by (auto simp: PQexecSingle_def split: prod.splits)

lemma single_state: "PQexecSingle srv st q = (r, st') \<Longrightarrow> sent st' = sent st @ [q] \<and> db st' = snd (srv (db st) q)"
  by (auto simp: PQexecSingle_def split: prod.splits)

lemma single_tblmod: "dict_tblmod (snd (PQexecSingle srv st q)) = dict_tblmod st"
  by (simp add: PQexecSingle_def split_beta Let_def)

lemma follows_single: "PQexecSingle srv st q = (r, st') \<Longrightarrow> follows srv st st'"
  by (rule followsI [where sqls = "[q]" and l = "[]"])
    (auto simp: PQexecSingle_def split: prod.splits)

lemma follows_snd_single [simp]: "follows srv st (snd (PQexecSingle srv st q))"
  using follows_single [of srv st q] by (cases "PQexecSingle srv st q") simp

section \<open>Every operation is a step\<close>

lemma storeTupleFromResult_follows:
  "prv_storeTupleFromResult st t res q b = Inr st' \<Longrightarrow> follows srv st st'"
  by (auto simp: prv_storeTupleFromResult_def res_iff)

lemma storeTable_follows:
  assumes "prv_storeTable srv st t = Inr st'"
  shows "follows srv st st'"
proof (cases "prv_hashContains (dict_tblstore st) t")
  case False
  let ?st = "st\<lparr>dict_tblstore := prv_hashPut (dict_tblstore st) t\<rparr>"
  obtain r st1 where 1: "PQexecSingle srv ?st (columns_query t) = (r, st1)" by fastforce
  with False assms obtain l where "st' = write_log l st1"
    by (auto simp: prv_storeTable_def Let_def res_iff)
  then show ?thesis using follows_single [OF 1] follows_put(2) follows_write_log follows_trans by metis
qed (use assms in \<open>simp add: prv_storeTable_def\<close>)

lemma extractTuple_follows:
  assumes "prv_extractTuple srv st q t v = Inr st'"
  shows "follows srv st st'"
proof -
  let ?sql = "extract_sql (sessionid (cenv st)) t (view_name v)"
  obtain r st1 where 1: "PQexecSingle srv st ?sql = (r, st1)" by fastforce
  with assms have "prv_storeTupleFromResult st1 t r q True = Inr st' \<or> st' = st1"
    by (auto simp: prv_extractTuple_def Let_def res_iff split: if_splits)
  then show ?thesis using follows_single [OF 1] storeTupleFromResult_follows follows_trans by metis
qed

lemma modifyTable_follows:
  assumes "prv_modifyTable srv st t = Inr st'"
  shows "follows srv st st'"
proof (cases "prv_hashContains (dict_tblmod st) t")
  case False
  let ?st = "st\<lparr>dict_tblmod := prv_hashPut (dict_tblmod st) t\<rparr>"
  obtain r st1 where 1: "PQexecSingle srv ?st (alter_sql t) = (r, st1)" by fastforce
  with False assms have "st' = st1 \<or> (\<exists>q. st' = snd (PQexecSingle srv st1 q))"
    by (auto simp: prv_modifyTable_def Let_def res_iff split: if_splits)
  then show ?thesis using follows_single [OF 1] follows_put(1) follows_snd_single follows_trans by metis
qed (use assms in \<open>simp add: prv_modifyTable_def\<close>)

lemma each_table_follows:
  assumes "\<And>st t st'. f st t = Inr st' \<Longrightarrow> follows srv st st'"
  shows "each_table f st ts = Inr st' \<Longrightarrow> follows srv st st'"
proof (induction ts arbitrary: st)
  case (Cons t ts)
  then obtain st1 where "f st t = Inr st1" "each_table f st1 ts = Inr st'" by (auto simp: res_iff)
  then show ?case using assms Cons.IH follows_trans [of srv st st1 st'] by blast
qed simp

lemma modifyTableList_follows:
  "prv_modifyTableList srv st ts = Inr st' \<Longrightarrow> follows srv st st'"
  by (auto simp: prv_modifyTableList_def res_iff intro: each_table_follows modifyTable_follows)

lemma createView_follows: "prv_createView srv st q = Inr (v, st') \<Longrightarrow> follows srv st st'"
  by (auto simp: prv_createView_def Let_def res_iff split: prod.splits intro: follows_single)

lemma extractInsertIds_follows:
  "prv_extractInsertIds srv st t v s = Inr (s', st') \<Longrightarrow> follows srv st st'"
  by (auto simp: prv_extractInsertIds_def Let_def res_iff split: prod.splits if_splits intro: follows_single)

lemma extract_loop_follows:
  "extract_loop srv v ts s st = Inr (ids, st') \<Longrightarrow> follows srv st st'"
proof (induction ts arbitrary: s st)
  case (Cons t ts)
  then obtain st1 st2 s3 st3 where 1:
    "prv_storeTable srv st t = Inr st1" "prv_extractTuple srv st1 ''originalDB'' t v = Inr st2"
    "prv_extractInsertIds srv st2 t v s = Inr (s3, st3)" "extract_loop srv v ts s3 st3 = Inr (ids, st')"
    by (auto simp: res_iff)
  show ?case
    using storeTable_follows [OF 1(1)] extractTuple_follows [OF 1(2)] extractInsertIds_follows [OF 1(3)]
      Cons.IH [OF 1(4)] by (blast intro: follows_trans)
qed simp

lemma extractTuples_follows:
  assumes "prv_extractTuplesFromTable srv st ts q = Inr (ids, st')"
  shows "follows srv st st'"
proof -
  obtain v st1 ns st2 where 1: "prv_createView srv st q = Inr (v, st1)"
    "extract_loop srv v ns ([], False) st1 = Inr (ids, st2)" "st' = prv_dropView srv st2 v"
    using assms by (auto simp: prv_extractTuplesFromTable_def res_iff)
  have "follows srv st2 st'" unfolding 1(3) prv_dropView_def by (rule follows_snd_single)
  with createView_follows [OF 1(1)] extract_loop_follows [OF 1(2)] show ?thesis by (blast intro: follows_trans)
qed

section \<open>Executing a statement\<close>

text \<open>The result of the last of the statements that lead from one state to the next.\<close>

definition last_result :: "'db server \<Rightarrow> 'db client \<Rightarrow> string \<Rightarrow> PGresult \<Rightarrow> 'db client \<Rightarrow> bool" where
  "last_result srv st query r st' \<longleftrightarrow>
     (\<exists>st1 pre. follows srv st st1 \<and> sent st1 = sent st @ pre \<and> db st1 = serve srv (db st) pre \<and>
        PQexecSingle srv st1 query = (r, st'))"

lemma last_resultI: "follows srv st st1 \<Longrightarrow> PQexecSingle srv st1 query = (r, st') \<Longrightarrow> last_result srv st query r st'"
  by (auto simp: last_result_def follows_def)

lemma last_result_follows: "last_result srv st query r st' \<Longrightarrow> follows srv st st'"
  unfolding last_result_def by (elim exE conjE) (rule follows_trans, assumption, erule follows_single)

lemma exec_change_last:
  assumes "exec_change srv st t pq q = Inr (r, st')"
  shows "last_result srv st q r st'"
proof -
  obtain st1 r1 st2 where 1: "prv_modifyTableList srv st t = Inr st1" "PQexecSingle srv st1 pq = (r1, st2)"
    "PQexecSingle srv st2 q = (r, st')"
    using assms by (auto simp: exec_change_def Let_def res_iff split_beta prod_eq_iff)
  then show ?thesis using modifyTableList_follows follows_single follows_trans last_resultI by metis
qed

lemma exec_select_last:
  assumes "exec_select srv st t qid pq q = Inr (r, st')"
  shows "last_result srv st q r st'"
proof -
  obtain st1 ids st2 l where 1: "prv_modifyTableList srv st t = Inr st1"
    "prv_extractTuplesFromTable srv st1 t pq = Inr (ids, st2)" "PQexecSingle srv (write_log l st2) q = (r, st')"
    using assms by (auto simp: exec_select_def Let_def res_iff)
  have "follows srv st (write_log l st2)"
    using modifyTableList_follows [OF 1(1)] extractTuples_follows [OF 1(2)] follows_write_log follows_trans by metis
  then show ?thesis using 1(3) by (rule last_resultI)
qed

lemma exec_insert_follows:
  assumes "exec_insert srv st t qid pq = Inr (r, st')"
  shows "follows srv st st'"
proof -
  obtain st1 where 0: "prv_modifyTable srv st t = Inr st1" using assms by (auto simp: exec_insert_def res_iff)
  obtain r2 st2 r3 st3 where 1: "PQexecSingle srv st1 pq = (r2, st2)" "PQexecSingle srv st2 (rowid_sql t qid) = (r3, st3)"
    by fastforce
  with 0 assms have 2: "prv_storeTupleFromResult st3 t r3 qid False = Inr st'"
    by (auto simp: exec_insert_def res_iff)
  show ?thesis
    using modifyTable_follows [OF 0] follows_single [OF 1(1)] follows_single [OF 1(2)]
      storeTupleFromResult_follows [OF 2] follows_trans by metis
qed

text \<open>What the caller's statement is known as: an insertion, a bypass, or neither.\<close>

definition stmt_kind :: "string \<Rightarrow> int option" where
  "stmt_kind query = map_option fst (prv_getStart query smt 0)"

lemma assemble_types:
  "assemble_select s = Inr a \<Longrightarrow> stmt_type a = SELECT_STMT \<and> asm_query a \<noteq> None"
  "assemble_insert env q i v s = Inr a \<Longrightarrow> stmt_type a = INSERT_STMT \<and> asm_query a \<noteq> None"
  "assemble_update env q i v s = Inr a \<Longrightarrow> stmt_type a = UPDATE_STMT \<and> asm_query a \<noteq> None"
  "assemble_delete s = Inr a \<Longrightarrow> stmt_type a = DELETE_STMT \<and> asm_query a \<noteq> None"
  by (auto simp: assemble_select_def assemble_insert_def assemble_update_def assemble_delete_def res_iff)

lemma getStart_range: "prv_getStart q ss i = Some (k, s) \<Longrightarrow> i \<le> k \<and> k < i + int (length ss)"
  by (induction ss arbitrary: i) (fastforce split: if_splits)+

lemmas stmt_defs = SELECT_STMT_def INSERT_STMT_def UPDATE_STMT_def DELETE_STMT_def BYPASS_STMT_def

lemma assembleQuery_type:
  assumes "prv_assembleQuery env query qid v = Inr a"
  shows "stmt_type a = (case stmt_kind query of None \<Rightarrow> -1 | Some k \<Rightarrow> k) \<and>
    (asm_query a = None \<longleftrightarrow> stmt_kind query = None \<or> stmt_kind query = Some BYPASS_STMT)"
proof (cases "prv_getStart query smt 0")
  case None
  with assms show ?thesis by (auto simp: prv_assembleQuery_def stmt_kind_def)
next
  case (Some ks)
  obtain k s where ks: "ks = (k, s)" by fastforce
  then have kind: "stmt_kind query = Some k" using Some by (simp add: stmt_kind_def)
  have "0 \<le> k" "k < 5" using getStart_range [of query smt 0 k s] Some ks by (auto simp: smt_def)
  then consider "k = 0" | "k = 1" | "k = 2" | "k = 3" | "k = 4" by linarith
  then show ?thesis
  proof cases
    case 1
    then show ?thesis using assms Some ks kind assemble_types(1)
      by (force simp: prv_assembleQuery_def res_iff stmt_defs)
  next
    case 2
    then show ?thesis using assms Some ks kind assemble_types(2)
      by (force simp: prv_assembleQuery_def res_iff stmt_defs)
  next
    case 3
    then show ?thesis using assms Some ks kind assemble_types(3)
      by (force simp: prv_assembleQuery_def res_iff stmt_defs)
  next
    case 4
    then show ?thesis using assms Some ks kind assemble_types(4)
      by (force simp: prv_assembleQuery_def res_iff stmt_defs)
  next
    case 5
    then show ?thesis using assms Some ks kind by (auto simp: prv_assembleQuery_def stmt_defs)
  qed
qed

text \<open>The client in every mode: a step, which ends with the caller's statement unless that is an insertion or a bypass.\<close>

lemma PQexec_last:
  assumes "PQexec srv st query = Inr (r, st')"
  shows "follows srv st st'"
    and "mode st \<in> {0, 11, 22, 31, 32} \<or> stmt_kind query \<notin> {Some INSERT_STMT, Some BYPASS_STMT} \<Longrightarrow>
      last_result srv st query r st'"
proof -
  have "follows srv st st' \<and> (mode st \<in> {0, 11, 22, 31, 32} \<or>
    stmt_kind query \<notin> {Some INSERT_STMT, Some BYPASS_STMT} \<longrightarrow> last_result srv st query r st')"
  proof (cases "mode st \<in> {0, 11, 22, 31, 32}")
    case True
    then have "PQexecSingle srv st query = (r, st')" using assms by (simp add: PQexec_def)
    then show ?thesis using last_resultI [OF follows_refl] follows_single by blast
  next
    case False
    then obtain qid a where a: "prv_createQuery (cenv st) query = Inr (qid, a)"
      using assms by (auto simp: PQexec_def res_iff)
    then have type: "stmt_type a = (case stmt_kind query of None \<Rightarrow> -1 | Some k \<Rightarrow> k)"
      "asm_query a = None \<longleftrightarrow> stmt_kind query = None \<or> stmt_kind query = Some BYPASS_STMT"
      using assembleQuery_type by (auto simp: prv_createQuery_def res_iff)
    let ?st = "write_log (new_log a) st"
    have lift: "last_result srv ?st q r st' \<Longrightarrow> last_result srv st q r st'" for q
      using follows_trans [OF follows_write_log, of srv "new_log a" st] last_resultI
      by (metis last_result_def)
    show ?thesis
    proof (cases "asm_query a")
      case None
      then obtain q where "PQexecSingle srv ?st q = (r, st')" "stmt_kind query \<noteq> Some BYPASS_STMT \<Longrightarrow> q = query"
        using assms False a type
        by (auto simp: PQexec_def Let_def res_iff BYPASS_STMT_def split: if_splits option.splits)
      then have "last_result srv st q r st'" "stmt_kind query \<noteq> Some BYPASS_STMT \<Longrightarrow> q = query"
        using last_resultI [OF follows_write_log] by auto
      then show ?thesis using False last_result_follows by auto
    next
      case (Some sql)
      let ?t = "squeeze (CHR '','') (stmt_tables a)"
      have "exec_insert srv ?st ?t qid sql = Inr (r, st') \<and> stmt_kind query = Some INSERT_STMT \<or>
          exec_change srv ?st ?t sql query = Inr (r, st') \<or> exec_select srv ?st ?t qid sql query = Inr (r, st')"
        using assms False a type Some
        by (auto simp: PQexec_def Let_def stmt_defs split: if_splits option.splits)
      then have "follows srv ?st st' \<and> stmt_kind query = Some INSERT_STMT \<or> last_result srv ?st query r st'"
        using exec_insert_follows exec_change_last exec_select_last by metis
      then have "follows srv st st' \<and> stmt_kind query = Some INSERT_STMT \<or> last_result srv st query r st'"
        using lift follows_trans [OF follows_write_log] by metis
      then show ?thesis using False last_result_follows by auto
    qed
  qed
  then show "follows srv st st'" "mode st \<in> {0, 11, 22, 31, 32} \<or> stmt_kind query \<notin> {Some INSERT_STMT, Some BYPASS_STMT} \<Longrightarrow>
      last_result srv st query r st'" by blast+
qed

section \<open>Sequences of statements\<close>

fun exec_all :: "'db server \<Rightarrow> 'db client \<Rightarrow> string list \<Rightarrow> (PGresult list \<times> 'db client) res" where
  "exec_all srv st [] = Inr ([], st)"
| "exec_all srv st (q # qs) =
     res_bind (PQexec srv st q) (\<lambda>(r, st). res_bind (exec_all srv st qs) (\<lambda>(rs, st). Inr (r # rs, st)))"

lemma exec_all_follows: "exec_all srv st qs = Inr (rs, st') \<Longrightarrow> follows srv st st'"
proof (induction qs arbitrary: st rs)
  case (Cons q qs)
  then obtain r1 st1 rs1 where "PQexec srv st q = Inr (r1, st1)" "exec_all srv st1 qs = Inr (rs1, st')"
    by (auto simp: res_iff)
  then show ?case using PQexec_last(1) Cons.IH follows_trans by metis
qed simp

lemma modifyTable_remembers:
  assumes "prv_modifyTable srv st t = Inr st'" "dict_ok (dict_tblmod st)" "\<not> dict_full (dict_tblmod st)"
  shows "prv_hashContains (dict_tblmod st') t \<and> dict_ok (dict_tblmod st')"
proof (cases "prv_hashContains (dict_tblmod st) t")
  case True
  with assms show ?thesis by (simp add: prv_modifyTable_def)
next
  case False
  let ?st = "st\<lparr>dict_tblmod := prv_hashPut (dict_tblmod st) t\<rparr>"
  obtain r st1 where 1: "PQexecSingle srv ?st (alter_sql t) = (r, st1)" by fastforce
  with False assms(1) have "st' = st1 \<or> (\<exists>q. st' = snd (PQexecSingle srv st1 q))"
    by (auto simp: prv_modifyTable_def Let_def res_iff split: if_splits)
  then have "dict_tblmod st' = prv_hashPut (dict_tblmod st) t"
    using single_tblmod [of srv ?st "alter_sql t"] 1 by (auto simp: single_tblmod)
  then show ?thesis using assms(2,3) by (simp add: dict.contains_put dict.wf_put)
qed

end
