(* ===== verification/LdvProps.thy ===== *)
theory LdvProps
  imports LdvTuples LdvClientSpec
begin

text \<open>
  Properties of the LDV client library: packets and databases replay as they were captured, the
  statements it adds leave the results of the application alone, and the cases in which its fixed
  buffers and its comparison of names fail.
\<close>

section \<open>Packets\<close>



definition ex_conn :: conn_state where
  "ex_conn = \<lparr>DB_MODE = 31, capture = \<lparr>out_log = line_of (tabbed [''prv_init'', ''1'']), pkg_counter = 0\<rparr>, in_log = []\<rparr>"



text \<open>An error of the network is not replayed: a read that returned -1 is stored, and is read back as a
  read of no bytes, which is the end of the stream.\<close>

theorem read_error_replays_as_end:
  assumes "DB_MODE st = 31" "out_log (capture st) = []" "0 \<le> pkg_counter (capture st)" "pkg_counter (capture st) < 2 ^ 63"
    and "0 < len" "len < 2 ^ 63" "pqsecure_read st (-1, bs) len = Inr (n, bs', st1)"
    and "DB_MODE st2 = 32" "in_log st2 = out_log (capture st1)"
  shows "n = Some (-1) \<and> (\<exists>st3. pqsecure_read st2 net len = Inr (Some 0, [], st3))"
proof -
  have "in_log st2 = line_of (packet_line (pkg_counter (capture st)) (-1) []) @ []" "n = Some (-1)"
    using assms by (auto simp: pqsecure_read_def store_read_line)
  moreover have "prv_restore_read len (line_of (packet_line (pkg_counter (capture st)) (-1) []) @ []) = Inr (Some [], [])"
    using assms by (intro restore_packet) (auto simp: packet_ok_def)
  ultimately show ?thesis using assms(8) by (simp add: pqsecure_read_def)
qed

theorem read_error_replays_as_end_witness:
  "\<exists>st1 st3. pqsecure_read (ex_conn\<lparr>capture := \<lparr>out_log = [], pkg_counter = 0\<rparr>\<rparr>) (-1, []) 4 = Inr (Some (-1), [], st1) \<and>
     pqsecure_read (ex_conn\<lparr>DB_MODE := 32, in_log := out_log (capture st1)\<rparr>) (9, []) 4 = Inr (Some 0, [], st3)"
proof -
  let ?st = "ex_conn\<lparr>capture := \<lparr>out_log = [], pkg_counter = 0\<rparr>\<rparr>"
  obtain n bs st1 where r: "pqsecure_read ?st (-1, []) 4 = Inr (n, bs, st1)" "n = Some (-1)" "bs = []"
    by (simp add: pqsecure_read_def ex_conn_def)
  let ?st2 = "ex_conn\<lparr>DB_MODE := 32, in_log := out_log (capture st1)\<rparr>"
  have "DB_MODE ?st = 31" "out_log (capture ?st) = []" "0 \<le> pkg_counter (capture ?st)" "pkg_counter (capture ?st) < 2 ^ 63"
    "0 < (4 :: nat)" "(4 :: nat) < 2 ^ 63" "DB_MODE ?st2 = 32" "in_log ?st2 = out_log (capture st1)"
    by (simp_all add: ex_conn_def)
  from read_error_replays_as_end [OF this(1-6) r(1) this(7,8), of "(9, [])"] r show ?thesis by blast
qed

section \<open>Remembering tables\<close>

text \<open>The table of hashes finds exactly the names whose hash is that of one of the first ten names put
  into it; every later name is dropped.\<close>

theorem hash_table_first_ten:
  "prv_hashContains (foldl prv_hashPut prv_hashInit ss) t \<longleftrightarrow> prv_hash t \<in> prv_hash ` set (take 10 ss)"
  using foldl_put_hashes [of prv_hashInit ss] by (simp add: prv_hashContains_iff HASH_LEN_def)

definition ex_srv :: "unit server" where
  "ex_srv d q =
     (if starts_with ''select column_name'' q
      then \<lparr>res_status = PGRES_TUPLES_OK, res_rows = [[''a'', ''integer'', [], []]]\<rparr>
      else \<lparr>res_status = PGRES_COMMAND_OK, res_rows = []\<rparr>, d)"

definition ex_client :: "unit client" where
  "ex_client = \<lparr>mode = 21, cenv = \<lparr>env_pid = 7, sessionid = 3, timeus = 100\<rparr>, dict_tblmod = prv_hashInit,
     dict_tblstore = prv_hashInit, dblog = [], db = (), sent = []\<rparr>"

definition ran :: "'a res \<Rightarrow> bool" where
  "ran r = (case r of Inl _ \<Rightarrow> False | Inr _ \<Rightarrow> True)"

lemma ranE: "ran r \<Longrightarrow> \<exists>x. r = Inr x"
  by (cases r) (auto simp: ran_def)

text \<open>C14: As long as the table of hashes has room, provenance columns are added to a table once: after
  prv_modifyTable and any statements of the application, prv_modifyTable for the same table does nothing.\<close>

theorem modifyTable_once:
  assumes "dict_ok (dict_tblmod st)" "\<not> dict_full (dict_tblmod st)"
    and "prv_modifyTable srv st t = Inr st1" "exec_all srv st1 qs = Inr (rs, st2)"
  shows "prv_modifyTable srv st2 t = Inr st2"
  using modifyTable_remembers [OF assms(3,1,2)] exec_all_follows [OF assms(4)]
  by (simp add: follows_def dict_grows_def prv_modifyTable_def)

lemma ex_modifyTable: "\<not> prv_hashContains (dict_tblmod st) ''t'' \<Longrightarrow> ran (prv_modifyTable ex_srv st ''t'')"
  by (simp add: prv_modifyTable_def ran_def ex_srv_def PQexecSingle_def alter_sql_def in_buffer_def STR_LONG_LEN_def starts_with_def)

lemma ex_update: "\<exists>r st'. PQexec ex_srv ex_client ''update t set a=1 where b'' = Inr (r, st')"
proof -
  let ?q = "''update t set a=1 where b''"
  have "length (show_int 7 @ ''.'' @ ?q @ ''.'' @ show_nat 100) < 1000" by code_simp
  then obtain qid where qid: "query_id (cenv ex_client) ?q = Inr qid"
    by (simp add: query_id_def in_buffer_def ex_client_def)
  have p: "prv_getStart ?q smt 0 = Some (2, Inr ''t set a=1 where b'')"
    "prv_parseRest [Some TABLE_LEN, None, None, Some STR_MAX_LEN] [''set'', ''from'', ''where''] ''t set a=1 where b'' =
       Inr [Some ''t'', None, None, Some '' b'']"
    "in_buffer STR_MAX_LEN (with_where (''SELECT PROVENANCE * FROM '' @ ''t'') '' b'') = Inr ''SELECT PROVENANCE * FROM t WHERE  b''"
    "table_names (squeeze (CHR '','') ''t'') = Inr [''t'']"
    by code_simp+
  obtain a where a: "prv_createQuery (cenv ex_client) ?q = Inr (qid, a)" "stmt_type a = UPDATE_STMT" "stmt_tables a = ''t''"
    "asm_query a = Some ''SELECT PROVENANCE * FROM t WHERE  b''"
    using qid p(1-3) by (simp add: prv_createQuery_def prv_assembleQuery_def assemble_update_def arg_def stmt_defs)
  have "\<not> prv_hashContains (dict_tblmod (write_log (new_log a) ex_client)) ''t''"
    by (simp add: write_log_def ex_client_def prv_hashContains_iff)
  from ranE [OF ex_modifyTable [OF this]] obtain st1 where "prv_modifyTable ex_srv (write_log (new_log a) ex_client) ''t'' = Inr st1"
    by blast
  then have "exec_change ex_srv (write_log (new_log a) ex_client) (squeeze (CHR '','') ''t'') ''SELECT PROVENANCE * FROM t WHERE  b'' ?q =
      Inr (PQexecSingle ex_srv (snd (PQexecSingle ex_srv st1 ''SELECT PROVENANCE * FROM t WHERE  b'')) ?q)"
    using p(4) by (simp add: exec_change_def prv_modifyTableList_def split_beta Let_def del: squeeze.simps)
  then have "PQexec ex_srv ex_client ?q =
      Inr (PQexecSingle ex_srv (snd (PQexecSingle ex_srv st1 ''SELECT PROVENANCE * FROM t WHERE  b'')) ?q)"
    using a by (simp add: PQexec_def stmt_defs ex_client_def del: squeeze.simps)
  then show ?thesis by (metis surj_pair)
qed

theorem modifyTable_once_witness:
  "\<exists>st1 rs st2. prv_modifyTable ex_srv (ex_client\<lparr>mode := 11\<rparr>) ''t'' = Inr st1 \<and>
     exec_all ex_srv st1 [''select a from t''] = Inr (rs, st2) \<and> prv_modifyTable ex_srv st2 ''t'' = Inr st2"
proof -
  let ?st = "ex_client\<lparr>mode := 11\<rparr>"
  have no: "\<not> prv_hashContains (dict_tblmod ?st) ''t''" by (simp add: ex_client_def prv_hashContains_iff)
  obtain st1 where 1: "prv_modifyTable ex_srv ?st ''t'' = Inr st1" using ranE [OF ex_modifyTable [OF no]] by blast
  have "mode st1 = 11" using modifyTable_follows [OF 1] by (simp add: follows_def)
  then obtain rs st2 where 2: "exec_all ex_srv st1 [''select a from t''] = Inr (rs, st2)"
    by (simp add: PQexec_def split_beta)
  have "dict_ok (dict_tblmod ?st)" "\<not> dict_full (dict_tblmod ?st)"
    by (simp_all add: ex_client_def dict_full_def prv_hashInit_def HASH_LEN_def dict_ok_def)
  from 1 2 modifyTable_once [OF this 1 2] show ?thesis by blast
qed

text \<open>C30: When the table of hashes is full, a table that is not in it is altered on every use: the
  statement is sent and the table of hashes stays as it is.\<close>

theorem modifyTable_full_repeats:
  assumes "dict_ok (dict_tblmod st)" "dict_full (dict_tblmod st)" "\<not> prv_hashContains (dict_tblmod st) t"
    and "prv_modifyTable srv st t = Inr st'"
  shows "dict_tblmod st' = dict_tblmod st \<and> (\<exists>rest. sent st' = sent st @ alter_sql t # rest)"
proof -
  let ?st = "st\<lparr>dict_tblmod := prv_hashPut (dict_tblmod st) t\<rparr>"
  obtain r st1 where 1: "PQexecSingle srv ?st (alter_sql t) = (r, st1)" by fastforce
  with assms(3,4) have st': "st' = st1 \<or> (\<exists>q. st' = snd (PQexecSingle srv st1 q))"
    by (auto simp: prv_modifyTable_def Let_def res_iff split: if_splits)
  have "dict_tblmod st1 = dict_tblmod st" "sent st1 = sent st @ [alter_sql t]"
    using single_tblmod [of srv ?st "alter_sql t"] single_state [OF 1] 1 dict.put_full [OF assms(1,2)] by simp_all
  with st' show ?thesis by (auto simp: single_tblmod PQexecSingle_def split_beta Let_def)
qed

definition ex_full :: "unit client" where
  "ex_full = ex_client\<lparr>dict_tblmod := foldl prv_hashPut prv_hashInit
     [''a'', ''b'', ''c'', ''d'', ''e'', ''f'', ''g'', ''h'', ''i'', ''j'']\<rparr>"

lemma ex_full_dict: "dict_ok (dict_tblmod ex_full) \<and> dict_full (dict_tblmod ex_full) \<and> \<not> prv_hashContains (dict_tblmod ex_full) ''t''"
  using foldl_put_hashes [of prv_hashInit "[''a'', ''b'', ''c'', ''d'', ''e'', ''f'', ''g'', ''h'', ''i'', ''j'']"]
  by (simp add: ex_full_def dict_full_def dict_ok_def prv_hashContains_iff prv_hashPut_def prv_hashInit_def HASH_LEN_def
      dict_hashes_def prv_hash_def char_int_def)

theorem modifyTable_full_repeats_witness:
  "\<exists>st' rest. prv_modifyTable ex_srv ex_full ''t'' = Inr st' \<and> dict_tblmod st' = dict_tblmod ex_full \<and>
     sent st' = alter_sql ''t'' # rest"
proof -
  obtain st' where 1: "prv_modifyTable ex_srv ex_full ''t'' = Inr st'"
    using ranE [OF ex_modifyTable] ex_full_dict by blast
  have "sent ex_full = []" by (simp add: ex_full_def ex_client_def)
  then show ?thesis
    using 1 modifyTable_full_repeats [OF _ _ _ 1] ex_full_dict by (simp del: append.simps) (metis append_Nil)
qed

section \<open>Statements\<close>




text \<open>An INSERT statement without the word VALUES, such as INSERT INTO ... SELECT, makes the library write
  before the start of a buffer.\<close>

theorem assembleQuery_insert_no_values:
  assumes "map tolower ki = ''insert into''" "no_marker ''values'' rest"
  shows "prv_assembleQuery env (ki @ '' '' @ rest) queryid version = Inl OutOfBounds"
proof -
  have l: "length ki = 11" using arg_cong [OF assms(1), of length] by simp
  have low: "map tolower ''select'' = ''select''" "map tolower ''insert into'' = ''insert into''" by code_simp+
  have t: "map tolower (take 6 (ki @ '' '' @ rest)) = ''insert''"
    using arg_cong [OF assms(1), of "take 6"] l by (simp add: take_map)
  then have "prv_getStart (ki @ '' '' @ rest) smt 0 = Some (1, str_at (ki @ '' '' @ rest) (length ''insert into'' + 1))"
    using low by (simp add: smt_def strncaseeq_def)
  then show ?thesis
    using assemble_insert_no_values [OF assms(2)] l by (simp add: prv_assembleQuery_def str_at_def stmt_defs)
qed

theorem assembleQuery_insert_no_values_witness:
  "prv_assembleQuery (cenv ex_client) ''insert into t select * from u'' ''1'' 1 = Inl OutOfBounds"
proof -
  have "map tolower ''insert into'' = ''insert into''" "no_marker ''values'' ''t select * from u''" by code_simp+
  from assembleQuery_insert_no_values [OF this, of "cenv ex_client" "''1''" 1] show ?thesis by simp
qed

text \<open>C13: PQexec gives the application the result of its own statement, unless that is an insertion or a bypass:
  the statements the library adds are sent before it, the statement itself is sent last and unchanged, and in the modes
  without capture of tuples nothing is added.\<close>

theorem PQexec_own_result:
  assumes "PQexec srv st query = Inr (r, st')"
    and "mode st \<in> {0, 11, 22, 31, 32} \<or> stmt_kind query \<notin> {Some INSERT_STMT, Some BYPASS_STMT}"
  shows "\<exists>pre. sent st' = sent st @ pre @ [query] \<and> (r, db st') = srv (serve srv (db st) pre) query \<and>
           (mode st \<in> {0, 11, 22, 31, 32} \<longrightarrow> pre = [])"
proof (cases "mode st \<in> {0, 11, 22, 31, 32}")
  case True
  with assms(1) have "PQexecSingle srv st query = (r, st')" by (simp add: PQexec_def)
  then show ?thesis
    using single_result [of srv st query r st'] single_state [of srv st query r st'] by (intro exI [of _ "[]"]) (auto simp: prod_eq_iff)
next
  case False
  obtain st1 pre where 1: "sent st1 = sent st @ pre" "db st1 = serve srv (db st) pre" "PQexecSingle srv st1 query = (r, st')"
    using PQexec_last(2) [OF assms] by (auto simp: last_result_def)
  show ?thesis
    using False 1(1,2) single_result [OF 1(3)] single_state [OF 1(3)] by (intro exI [of _ pre]) (auto simp: prod_eq_iff)
qed

theorem PQexec_own_result_witness:
  "\<exists>r st' pre. PQexec ex_srv ex_client ''update t set a=1 where b'' = Inr (r, st') \<and>
     sent st' = pre @ [''update t set a=1 where b''] \<and> (r, db st') = ex_srv (serve ex_srv () pre) ''update t set a=1 where b''"
proof -
  obtain r st' where 1: "PQexec ex_srv ex_client ''update t set a=1 where b'' = Inr (r, st')" using ex_update by blast
  have "stmt_kind ''update t set a=1 where b'' \<notin> {Some INSERT_STMT, Some BYPASS_STMT}" by code_simp
  then have 2: "mode ex_client \<in> {0, 11, 22, 31, 32} \<or>
      stmt_kind ''update t set a=1 where b'' \<notin> {Some INSERT_STMT, Some BYPASS_STMT}" by (rule disjI2)
  have st: "sent ex_client = []" "db ex_client = ()" by (simp_all add: ex_client_def)
  show ?thesis using 1 PQexec_own_result [OF 1 2] unfolding st append_Nil by blast
qed

section \<open>Tables\<close>



section \<open>Databases\<close>

lemma stored_dbname_line:
  assumes "newline \<notin> set l" "Suc (length l) < STR_LONG_LEN"
  shows "prv_get_stored_dbname (line_of l @ r) =
     (if starts_with ''prv_store_dbname'' (line_of l)
      then res_bind (str_at (line_of l) 17) (\<lambda>start. Inr (Some (butlast start), r))
      else prv_get_stored_dbname r)"
  by (subst prv_get_stored_dbname.simps) (simp add: fgets_line_of [OF assms])

lemma stored_dbname_found:
  assumes "newline \<notin> set s" "length s < 1000" "newline \<notin> set name" "length name < 1000"
  shows "prv_get_stored_dbname (line_of (tabbed [''prv_init'', s]) @ line_of (tabbed [''prv_store_dbname'', name]) @ r) =
           Inr (Some name, r)"
proof -
  have l: "newline \<notin> set (tabbed [''prv_init'', s])" "Suc (length (tabbed [''prv_init'', s])) < STR_LONG_LEN"
    "newline \<notin> set (tabbed [''prv_store_dbname'', name])" "Suc (length (tabbed [''prv_store_dbname'', name])) < STR_LONG_LEN"
    using assms by (simp_all add: tabbed_def newline_def tab_def STR_LONG_LEN_def)
  have n: "\<not> starts_with ''prv_store_dbname'' (line_of (tabbed [''prv_init'', s]))"
    by (simp add: starts_with_def tabbed_def line_of_def)
  have e: "line_of (tabbed [''prv_store_dbname'', name]) = ''prv_store_dbname'' @ tab # name @ [newline]"
    by (simp add: tabbed_def line_of_def)
  have "str_at (''prv_store_dbname'' @ tab # name @ [newline]) 17 = Inr (name @ [newline])"
    by (simp add: str_at_def)
  then show ?thesis
    unfolding stored_dbname_line [OF l(1,2)] stored_dbname_line [OF l(3,4)] unfolding e using n
    by (simp only: starts_with_append if_True if_False res_bind_Inr) simp
qed

text \<open>The name of the database is restored: when a process connects for the first time in mode 21, the log then holds
  the name of its database, and prv_get_stored_dbname finds it.\<close>

theorem stored_dbname_roundtrip:
  assumes "\<not> is_init st" "PTU_DB_MODE env = Some 21" "PTU_DBSESSION_ID env = Some (s, i)"
    and "PQconnectdb srv connect env pid conninfo (st, cl) = Inr (st2, cl2)"
    and "newline \<notin> set s" "length s < 1000"
    and "newline \<notin> set (fst (connect conninfo))" "length (fst (connect conninfo)) < 1000"
  shows "\<exists>name log. out_file st2 = Some (name, log) \<and>
           prv_get_stored_dbname (log @ r) =
             Inr (Some (fst (connect conninfo)), line_of (tabbed [''prv_store_user'', snd (connect conninfo)]) @ r)"
proof -
  obtain st1 where 1: "prv_init_pkg_capture (Some 21) (Some (s, i)) pid st = Inr st1"
    "prv_storeConnection (fst (connect conninfo)) (snd (connect conninfo)) st1 = Inr st2"
    using assms(2-4) by (auto simp: PQconnectdb_def res_iff)
  then obtain name where "ses_mode st1 = 21" "out_file st1 = Some (name, line_of (tabbed [''prv_init'', s]))"
    using assms(1) by (auto simp: prv_init_pkg_capture_def Let_def res_iff char_of_int_def)
  then have "out_file st2 = Some (name, line_of (tabbed [''prv_init'', s]) @
      line_of (tabbed [''prv_store_dbname'', fst (connect conninfo)]) @ line_of (tabbed [''prv_store_user'', snd (connect conninfo)]))"
    using 1(2) by (auto simp: prv_storeConnection_def)
  then show ?thesis using stored_dbname_found [OF assms(5-8)] by simp
qed

definition ex_session :: session where
  "ex_session = \<lparr>is_init = False, ses_mode = 0, ses_id = 0, ses_tblmod = prv_hashInit, ses_tblstore = prv_hashInit, out_file = None\<rparr>"

definition ex_env :: environment where
  "ex_env = \<lparr>PTU_DB_MODE = Some 21, PTU_DBSESSION_ID = Some (''3'', 3), PTU_DB_REPLAY = None\<rparr>"

definition ex_cluster :: "unit cluster" where
  "ex_cluster = \<lparr>cdb = (), trace = [], f_in_dblog = None\<rparr>"

theorem stored_dbname_roundtrip_witness:
  "\<exists>st2 cl2 name log. PQconnectdb (\<lambda>conn. ex_srv) (\<lambda>conn. (''db'', ''me'')) ex_env 7 ''dbname=db'' (ex_session, ex_cluster) = Inr (st2, cl2) \<and>
     out_file st2 = Some (name, log) \<and>
     prv_get_stored_dbname (log @ []) = Inr (Some ''db'', line_of (tabbed [''prv_store_user'', ''me'']) @ [])"
proof -
  have "ran (PQconnectdb (\<lambda>conn. ex_srv) (\<lambda>conn. (''db'', ''me'')) ex_env 7 ''dbname=db'' (ex_session, ex_cluster))"
    by code_simp
  then obtain st2 cl2 where
    1: "PQconnectdb (\<lambda>conn. ex_srv) (\<lambda>conn. (''db'', ''me'')) ex_env 7 ''dbname=db'' (ex_session, ex_cluster) = Inr (st2, cl2)"
    by (auto dest!: ranE)
  have 2: "\<not> is_init ex_session" "PTU_DB_MODE ex_env = Some 21" "PTU_DBSESSION_ID ex_env = Some (''3'', 3)"
    by (simp_all add: ex_session_def ex_env_def)
  have 3: "newline \<notin> set ''3''" "length ''3'' < 1000" "newline \<notin> set (fst (''db'', ''me''))" "length (fst (''db'', ''me'')) < 1000"
    by code_simp+
  show ?thesis using 1 stored_dbname_roundtrip [OF 2 1 3, of "[]"] by (simp only: fst_conv snd_conv) blast
qed

lemma split_conninfo_fits:
  assumes "CHR '' '' \<notin> set name" "length (pre @ name @ post) < 20"
  shows "split_conninfo (pre @ ''dbname='' @ name @ '' '' @ post) (length pre) =
           Inr (pre @ ''dbname=postgres '' @ post, name)"
proof -
  have d: "drop (length pre + 7) (pre @ ''dbname='' @ name @ '' '' @ post) = name @ CHR '' '' # post" by simp
  have t: "take (length pre + 7) (pre @ ''dbname='' @ name @ '' '' @ post) = pre @ ''dbname=''" by simp
  show ?thesis
    unfolding split_conninfo_def Let_def d t using assms strchr_append_none [OF assms(1), of post]
    by (simp add: in_buffer_def STR_LEN_def)
qed

text \<open>When the connection string names a database that the log was captured from, prv_restoredb creates that database
  through the database postgres and then restores the tables.  The comparison of the names only looks at as many
  characters as the given name has, so the log of every database whose name extends the given one is accepted as well.\<close>

theorem restoredb_accepts_extension:
  assumes "strstr (pre @ ''dbname='' @ name @ '' '' @ post) ''dbname='' = Some (length pre)"
    and "CHR '' '' \<notin> set name" "length (pre @ name @ post) < 20"
    and "newline \<notin> set s" "length s < 1000" "newline \<notin> set (name @ ext)" "length (name @ ext) < 1000"
  shows "prv_restoredb srv 22 (pre @ ''dbname='' @ name @ '' '' @ post)
           (Some (Some (line_of (tabbed [''prv_init'', s]) @ line_of (tabbed [''prv_store_dbname'', name @ ext]) @ log))) st =
         res_bind (prv_restoretable srv (pre @ ''dbname='' @ name @ '' '' @ post)
           (snd (exec_on srv (pre @ ''dbname=postgres '' @ post) st (''CREATE DATABASE '' @ name @ '';''))) log)
           (\<lambda>st. Inr (st\<lparr>f_in_dblog := None\<rparr>))"
proof -
  let ?conn = "pre @ ''dbname='' @ name @ '' '' @ post"
  have d: "drop (length pre + 7) ?conn = name @ CHR '' '' # post" by simp
  have same: "same_dbname (name @ ext) (name @ CHR '' '' # post)"
    using strchr_append_none [OF assms(2), of post] by (simp add: same_dbname_def)
  have buf: "in_buffer STR_LEN (''CREATE DATABASE '' @ name @ '';'') = Inr (''CREATE DATABASE '' @ name @ '';'')"
    using assms(3) by (simp add: in_buffer_def STR_LEN_def)
  have mode: "(22 :: int) \<noteq> 32" by simp
  show ?thesis
    unfolding prv_restoredb_def assms(1) using mode
    by (simp only: option.case split_conninfo_fits [OF assms(2,3)] stored_dbname_found [OF assms(4-7)] res_bind_Inr prod.case
        d same buf if_True if_False not_True_eq_False simp_thms Let_def split_beta fst_conv snd_conv)
qed

theorem restoredb_accepts_extension_witness:
  "prv_restoredb (\<lambda>conn. ex_srv) 22 ''dbname=db user=u''
     (Some (Some (line_of (tabbed [''prv_init'', ''3'']) @ line_of (tabbed [''prv_store_dbname'', ''db_old'']) @ []))) ex_cluster =
   res_bind (prv_restoretable (\<lambda>conn. ex_srv) ''dbname=db user=u''
     (snd (exec_on (\<lambda>conn. ex_srv) ''dbname=postgres user=u'' ex_cluster ''CREATE DATABASE db;'')) []) (\<lambda>st. Inr (st\<lparr>f_in_dblog := None\<rparr>))"
proof -
  have "strstr ([] @ ''dbname='' @ ''db'' @ '' '' @ ''user=u'') ''dbname='' = Some (length ([] :: string))"
    "CHR '' '' \<notin> set ''db''" "length ([] @ ''db'' @ ''user=u'') < 20" "newline \<notin> set ''3''" "length ''3'' < 1000"
    "newline \<notin> set (''db'' @ ''_old'')" "length (''db'' @ ''_old'') < 1000"
    by code_simp+
  from restoredb_accepts_extension [OF this, of "\<lambda>conn. ex_srv" "[]" ex_cluster] show ?thesis by simp
qed

text \<open>A connection string in which the name of the database comes after 35 characters or more overflows a
  buffer of 50 bytes while the database is being restored.\<close>

theorem restoredb_long_conninfo:
  assumes "strstr conninfo ''dbname='' = Some pos" "35 \<le> pos" "pos + 7 \<le> length conninfo"
  shows "prv_restoredb srv 22 conninfo (Some file) st = Inl OutOfBounds"
  using assms by (simp add: prv_restoredb_def split_conninfo_def in_buffer_def STR_LEN_def Let_def split: option.split)

theorem restoredb_long_conninfo_witness:
  "prv_restoredb (\<lambda>conn. ex_srv) 22 ''hostaddr=192.168.100.100 port=15432 dbname=db user=u'' (Some None) ex_cluster = Inl OutOfBounds"
proof -
  have "strstr ''hostaddr=192.168.100.100 port=15432 dbname=db user=u'' ''dbname='' = Some 36" "35 \<le> (36 :: nat)"
    "36 + 7 \<le> length ''hostaddr=192.168.100.100 port=15432 dbname=db user=u''"
    by code_simp+
  from restoredb_long_conninfo [OF this] show ?thesis by blast
qed

end
