(* ===== verification/HashFunc.thy ===== *)
theory HashFunc
  imports Prelude
begin

text \<open>
  The hash functions of \<open>src/backend/access/hash/hashfunc.c\<close> on 32-bit words.  Bytes in memory are
  in the order of a little-endian machine.  The functions on floating point numbers are left out.
\<close>

unbundle bit_operations_syntax

type_synonym uint32 = "32 word"
type_synonym uint64 = "64 word"
type_synonym uchar = "8 word"

section \<open>Mixing\<close>

text \<open>One line of the macro \<open>mix\<close> is three rounds; a round changes one of the three values.\<close>

definition mix_a :: "nat \<Rightarrow> uint32 \<times> uint32 \<times> uint32 \<Rightarrow> uint32 \<times> uint32 \<times> uint32" where
  "mix_a n = (\<lambda>(a, b, c). ((a - b - c) XOR drop_bit n c, b, c))"

definition mix_b :: "nat \<Rightarrow> uint32 \<times> uint32 \<times> uint32 \<Rightarrow> uint32 \<times> uint32 \<times> uint32" where
  "mix_b n = (\<lambda>(a, b, c). (a, (b - c - a) XOR push_bit n a, c))"

definition mix_c :: "nat \<Rightarrow> uint32 \<times> uint32 \<times> uint32 \<Rightarrow> uint32 \<times> uint32 \<times> uint32" where
  "mix_c n = (\<lambda>(a, b, c). (a, b, (c - a - b) XOR drop_bit n b))"

definition mix :: "uint32 \<times> uint32 \<times> uint32 \<Rightarrow> uint32 \<times> uint32 \<times> uint32" where
  "mix s = mix_c 15 (mix_b 10 (mix_a 3 (mix_c 5 (mix_b 16 (mix_a 12 (mix_c 13 (mix_b 8 (mix_a 13 s))))))))"

section \<open>Hashing bytes\<close>

definition byte_at :: "nat \<Rightarrow> uchar \<Rightarrow> uint32" where
  "byte_at n k = push_bit n (ucast k)"

definition word_of_bytes :: "uchar \<Rightarrow> uchar \<Rightarrow> uchar \<Rightarrow> uchar \<Rightarrow> uint32" where
  "word_of_bytes k0 k1 k2 k3 = ucast k0 + byte_at 8 k1 + byte_at 16 k2 + byte_at 24 k3"

text \<open>The loop over blocks of 12 bytes; the result is the state and the bytes that are left.\<close>

fun hash_blocks :: "uint32 \<times> uint32 \<times> uint32 \<Rightarrow> uchar list \<Rightarrow> (uint32 \<times> uint32 \<times> uint32) \<times> uchar list" where
  "hash_blocks (a, b, c) (k0 # k1 # k2 # k3 # k4 # k5 # k6 # k7 # k8 # k9 # k10 # k11 # k) =
     hash_blocks (mix (a + word_of_bytes k0 k1 k2 k3, b + word_of_bytes k4 k5 k6 k7, c + word_of_bytes k8 k9 k10 k11)) k"
| "hash_blocks s k = (s, k)"

text \<open>The switch over what is left: byte \<open>i\<close> is added to its value at its place, if there is one.\<close>

definition tail_byte :: "nat \<Rightarrow> uchar list \<Rightarrow> nat \<Rightarrow> uint32" where
  "tail_byte n k i = (if i < length k then byte_at n (k ! i) else 0)"

definition hash_tail :: "uint32 \<times> uint32 \<times> uint32 \<Rightarrow> uchar list \<Rightarrow> uint32 \<times> uint32 \<times> uint32" where
  "hash_tail s k =
     (case s of (a, b, c) \<Rightarrow>
        (a + tail_byte 24 k 3 + tail_byte 16 k 2 + tail_byte 8 k 1 + tail_byte 0 k 0,
         b + tail_byte 24 k 7 + tail_byte 16 k 6 + tail_byte 8 k 5 + tail_byte 0 k 4,
         c + tail_byte 24 k 10 + tail_byte 16 k 9 + tail_byte 8 k 8))"

definition hash_any :: "uchar list \<Rightarrow> uint32" where
  "hash_any k =
     (let ((a, b, c), rest) = hash_blocks (0x9e3779b9, 0x9e3779b9, 3923095) k
      in snd (snd (mix (hash_tail (a, b, c + of_nat (length k)) rest))))"

definition hash_uint32 :: "uint32 \<Rightarrow> uint32" where
  "hash_uint32 k = snd (snd (mix (0x9e3779b9 + k, 0x9e3779b9, 3923095 + 4)))"

section \<open>Hash functions of types\<close>

definition hashchar :: "8 word \<Rightarrow> uint32" where
  "hashchar x = hash_uint32 (scast x)"

definition hashint2 :: "16 word \<Rightarrow> uint32" where
  "hashint2 x = hash_uint32 (scast x)"

definition hashint4 :: "32 word \<Rightarrow> uint32" where
  "hashint4 x = hash_uint32 x"

definition hashint8 :: "64 word \<Rightarrow> uint32" where
  "hashint8 val =
     (let lohalf = ucast val; hihalf = ucast (signed_drop_bit 32 val)
      in hash_uint32 (lohalf XOR (if 0 \<le> sint val then hihalf else NOT hihalf)))"

definition hashoid :: "32 word \<Rightarrow> uint32" where
  "hashoid x = hash_uint32 x"

definition hashenum :: "32 word \<Rightarrow> uint32" where
  "hashenum x = hash_uint32 x"

text \<open>The bytes of a value of 16 or 32 bits in memory.\<close>

definition le_bytes :: "'a::len word \<Rightarrow> uchar list" where
  "le_bytes w = map (\<lambda>i. ucast (drop_bit (8 * i) w)) [0..<LENGTH('a) div 8]"

definition hashoidvector :: "32 word list \<Rightarrow> uint32" where
  "hashoidvector vs = hash_any (concat (map le_bytes vs))"

definition hashint2vector :: "16 word list \<Rightarrow> uint32" where
  "hashint2vector vs = hash_any (concat (map le_bytes vs))"

definition NAMEDATALEN :: nat where "NAMEDATALEN = 64"

definition hashname :: "uchar list \<Rightarrow> uint32 res" where
  "hashname key = res_bind (cassert (length key < NAMEDATALEN)) (\<lambda>_. Inr (hash_any key))"

definition hashtext :: "uchar list \<Rightarrow> uint32" where
  "hashtext key = hash_any key"

definition hashvarlena :: "uchar list \<Rightarrow> uint32" where
  "hashvarlena key = hash_any key"

section \<open>Mixing is reversible\<close>

definition unmix_a :: "nat \<Rightarrow> uint32 \<times> uint32 \<times> uint32 \<Rightarrow> uint32 \<times> uint32 \<times> uint32" where
  "unmix_a n = (\<lambda>(a, b, c). ((a XOR drop_bit n c) + c + b, b, c))"

definition unmix_b :: "nat \<Rightarrow> uint32 \<times> uint32 \<times> uint32 \<Rightarrow> uint32 \<times> uint32 \<times> uint32" where
  "unmix_b n = (\<lambda>(a, b, c). (a, (b XOR push_bit n a) + a + c, c))"

definition unmix_c :: "nat \<Rightarrow> uint32 \<times> uint32 \<times> uint32 \<Rightarrow> uint32 \<times> uint32 \<times> uint32" where
  "unmix_c n = (\<lambda>(a, b, c). (a, b, (c XOR drop_bit n b) + b + a))"

definition unmix :: "uint32 \<times> uint32 \<times> uint32 \<Rightarrow> uint32 \<times> uint32 \<times> uint32" where
  "unmix s = unmix_a 13 (unmix_b 8 (unmix_c 13 (unmix_a 12 (unmix_b 16 (unmix_c 5 (unmix_a 3 (unmix_b 10 (unmix_c 15 s))))))))"

lemma xor_cancel: "(x XOR y) XOR y = x" for x y :: uint32
  by (simp add: xor.assoc)

lemma unmix_rounds [simp]:
  "unmix_a n (mix_a n s) = s" "unmix_b n (mix_b n s) = s" "unmix_c n (mix_c n s) = s"
  "mix_a n (unmix_a n s) = s" "mix_b n (unmix_b n s) = s" "mix_c n (unmix_c n s) = s"
  by (cases s; simp add: unmix_a_def mix_a_def unmix_b_def mix_b_def unmix_c_def mix_c_def xor_cancel)+

lemma unmix_mix: "unmix (mix s) = s" "mix (unmix s) = s"
  by (simp_all add: mix_def unmix_def)

section \<open>A word and its bytes\<close>

lemma le_bytes_32: "le_bytes (w :: uint32) = [ucast w, ucast (drop_bit 8 w), ucast (drop_bit 16 w), ucast (drop_bit 24 w)]"
  by (simp add: le_bytes_def upt_conv_Cons)

lemma byte_parts:
  fixes w :: uint32
  shows "ucast (ucast w :: uchar) + byte_at 8 (ucast (drop_bit 8 w)) + byte_at 16 (ucast (drop_bit 16 w)) +
    byte_at 24 (ucast (drop_bit 24 w)) = w"
proof -
  let ?b0 = "ucast (ucast w :: uchar) :: uint32"
  let ?b1 = "byte_at 8 (ucast (drop_bit 8 w))"
  let ?b2 = "byte_at 16 (ucast (drop_bit 16 w))"
  let ?b3 = "byte_at 24 (ucast (drop_bit 24 w))"
  note bits = bit_simps byte_at_def bit_unsigned_iff
  have 1: "?b0 + ?b1 = ?b0 OR ?b1"
    by (rule disjunctive_add) (auto simp: bits)
  have 2: "(?b0 OR ?b1) + ?b2 = (?b0 OR ?b1) OR ?b2"
    by (rule disjunctive_add) (auto simp: bits)
  have 3: "(?b0 OR ?b1 OR ?b2) + ?b3 = ?b0 OR ?b1 OR ?b2 OR ?b3"
    by (subst or.assoc [symmetric])+ (rule disjunctive_add, auto simp: bits)
  have "?b0 OR ?b1 OR ?b2 OR ?b3 = w"
  proof (rule bit_word_eqI)
    fix n
    show "bit (?b0 OR ?b1 OR ?b2 OR ?b3) n = bit w n" if "n < LENGTH(32)"
      using that by (cases "n < 8"; cases "n < 16"; cases "n < 24") (auto simp: bits)
  qed
  then show ?thesis using 1 2 3 by (simp add: or.assoc)
qed

lemma hash_any_le_bytes: "hash_any (le_bytes k) = hash_uint32 k" for k :: uint32
proof -
  have "a + tail_byte 24 (le_bytes k) 3 + tail_byte 16 (le_bytes k) 2 + tail_byte 8 (le_bytes k) 1 +
      tail_byte 0 (le_bytes k) 0 = a + k" for a
    using byte_parts [of k] by (simp add: le_bytes_32 tail_byte_def numeral_eq_Suc byte_at_def algebra_simps)
  moreover have "hash_blocks s (le_bytes k) = (s, le_bytes k)" for s by (cases s) (simp add: le_bytes_32)
  ultimately show ?thesis
    by (simp only: hash_any_def hash_uint32_def hash_tail_def Let_def prod.case) (simp add: le_bytes_32 tail_byte_def)
qed

section \<open>Hashes of integers of different width\<close>

lemma signed_high_half:
  fixes x :: "32 word"
  shows "ucast (signed_drop_bit 32 (scast x :: 64 word)) = (if 0 \<le> sint x then 0 else - 1 :: uint32)"
proof -
  have "(0 \<le> sint x) = (\<not> bit x 31)" using bit_last_iff [of x] by auto
  then show ?thesis
    by (intro bit_word_eqI) (auto simp: bit_simps bit_signed_drop_bit_iff)
qed

lemma hashint8_int4: "hashint8 (scast x) = hashint4 x"
proof -
  have lo: "ucast (scast x :: 64 word) = x" by (rule bit_word_eqI) (auto simp: bit_simps)
  have "sint (scast x :: 64 word) = sint x" by (rule sint_up_scast) (simp add: is_up)
  then show ?thesis unfolding hashint8_def hashint4_def Let_def lo signed_high_half by simp
qed

lemma hashint8_int2: "hashint8 (scast x) = hashint2 x"
proof -
  have "(scast x :: 64 word) = scast (scast x :: 32 word)"
    by (rule bit_word_eqI) (auto simp: bit_simps min_def split: if_splits)
  then show ?thesis using hashint8_int4 [of "scast x"] by (simp add: hashint4_def hashint2_def)
qed

end
