(* ===== verification/Bms.thy ===== *)
theory Bms
  imports HashFunc
begin

text \<open>
  Bitmap sets: \<open>src/backend/nodes/bitmapset.c\<close> with \<open>src/include/nodes/bitmapset.h\<close>.  A set is a
  pointer to an array of 32-bit words, \<open>None\<close> for the null pointer.  Functions that recycle their
  argument return the new value of it; a function that changes its argument in place returns both.
\<close>

section \<open>Representation\<close>

type_synonym bitmapword = "32 word"

record Bitmapset =
  words :: "bitmapword list"

definition nwords :: "Bitmapset \<Rightarrow> nat" where
  "nwords a = length (words a)"

definition WORDNUM :: "nat \<Rightarrow> nat" where "WORDNUM x = x div 32"
definition BITNUM :: "nat \<Rightarrow> nat" where "BITNUM x = x mod 32"

definition RIGHTMOST_ONE :: "bitmapword \<Rightarrow> bitmapword" where
  "RIGHTMOST_ONE x = x AND (- x)"

definition HAS_MULTIPLE_ONES :: "bitmapword \<Rightarrow> bool" where
  "HAS_MULTIPLE_ONES x \<longleftrightarrow> RIGHTMOST_ONE x \<noteq> x"

definition rightmost_one_pos :: "nat list" where
  "rightmost_one_pos =
    [0, 0, 1, 0, 2, 0, 1, 0, 3, 0, 1, 0, 2, 0, 1, 0,
     4, 0, 1, 0, 2, 0, 1, 0, 3, 0, 1, 0, 2, 0, 1, 0,
     5, 0, 1, 0, 2, 0, 1, 0, 3, 0, 1, 0, 2, 0, 1, 0,
     4, 0, 1, 0, 2, 0, 1, 0, 3, 0, 1, 0, 2, 0, 1, 0,
     6, 0, 1, 0, 2, 0, 1, 0, 3, 0, 1, 0, 2, 0, 1, 0,
     4, 0, 1, 0, 2, 0, 1, 0, 3, 0, 1, 0, 2, 0, 1, 0,
     5, 0, 1, 0, 2, 0, 1, 0, 3, 0, 1, 0, 2, 0, 1, 0,
     4, 0, 1, 0, 2, 0, 1, 0, 3, 0, 1, 0, 2, 0, 1, 0,
     7, 0, 1, 0, 2, 0, 1, 0, 3, 0, 1, 0, 2, 0, 1, 0,
     4, 0, 1, 0, 2, 0, 1, 0, 3, 0, 1, 0, 2, 0, 1, 0,
     5, 0, 1, 0, 2, 0, 1, 0, 3, 0, 1, 0, 2, 0, 1, 0,
     4, 0, 1, 0, 2, 0, 1, 0, 3, 0, 1, 0, 2, 0, 1, 0,
     6, 0, 1, 0, 2, 0, 1, 0, 3, 0, 1, 0, 2, 0, 1, 0,
     4, 0, 1, 0, 2, 0, 1, 0, 3, 0, 1, 0, 2, 0, 1, 0,
     5, 0, 1, 0, 2, 0, 1, 0, 3, 0, 1, 0, 2, 0, 1, 0,
     4, 0, 1, 0, 2, 0, 1, 0, 3, 0, 1, 0, 2, 0, 1, 0]"

definition number_of_ones :: "nat list" where
  "number_of_ones =
    [0, 1, 1, 2, 1, 2, 2, 3, 1, 2, 2, 3, 2, 3, 3, 4,
     1, 2, 2, 3, 2, 3, 3, 4, 2, 3, 3, 4, 3, 4, 4, 5,
     1, 2, 2, 3, 2, 3, 3, 4, 2, 3, 3, 4, 3, 4, 4, 5,
     2, 3, 3, 4, 3, 4, 4, 5, 3, 4, 4, 5, 4, 5, 5, 6,
     1, 2, 2, 3, 2, 3, 3, 4, 2, 3, 3, 4, 3, 4, 4, 5,
     2, 3, 3, 4, 3, 4, 4, 5, 3, 4, 4, 5, 4, 5, 5, 6,
     2, 3, 3, 4, 3, 4, 4, 5, 3, 4, 4, 5, 4, 5, 5, 6,
     3, 4, 4, 5, 4, 5, 5, 6, 4, 5, 5, 6, 5, 6, 6, 7,
     1, 2, 2, 3, 2, 3, 3, 4, 2, 3, 3, 4, 3, 4, 4, 5,
     2, 3, 3, 4, 3, 4, 4, 5, 3, 4, 4, 5, 4, 5, 5, 6,
     2, 3, 3, 4, 3, 4, 4, 5, 3, 4, 4, 5, 4, 5, 5, 6,
     3, 4, 4, 5, 4, 5, 5, 6, 4, 5, 5, 6, 5, 6, 6, 7,
     2, 3, 3, 4, 3, 4, 4, 5, 3, 4, 4, 5, 4, 5, 5, 6,
     3, 4, 4, 5, 4, 5, 5, 6, 4, 5, 5, 6, 5, 6, 6, 7,
     3, 4, 4, 5, 4, 5, 5, 6, 4, 5, 5, 6, 5, 6, 6, 7,
     4, 5, 5, 6, 5, 6, 6, 7, 5, 6, 6, 7, 6, 7, 7, 8]"

datatype BMS_Membership = BMS_EMPTY_SET | BMS_SINGLETON | BMS_MULTIPLE

text \<open>\<open>elog(ERROR)\<close> for a negative member\<close>

definition member_index :: "int \<Rightarrow> nat res" where
  "member_index x = (if x < 0 then Inl (Elog ''negative bitmapset member not allowed'') else Inr (nat x))"

section \<open>Loops over words\<close>

fun all_zero :: "bitmapword list \<Rightarrow> bool" where
  "all_zero [] = True"
| "all_zero (w # ws) = (if w \<noteq> 0 then False else all_zero ws)"

text \<open>The words of the first array combined with those of the second as far as both go.\<close>

fun combine :: "(bitmapword \<Rightarrow> bitmapword \<Rightarrow> bitmapword) \<Rightarrow> bitmapword list \<Rightarrow> bitmapword list \<Rightarrow> bitmapword list" where
  "combine f (x # xs) (y # ys) = f x y # combine f xs ys"
| "combine f xs ys = xs"

fun equal_words :: "bitmapword list \<Rightarrow> bitmapword list \<Rightarrow> bool" where
  "equal_words [] longer = all_zero longer"
| "equal_words (x # shorter) [] = False"
| "equal_words (x # shorter) (y # longer) = (if x \<noteq> y then False else equal_words shorter longer)"

fun subset_words :: "bitmapword list \<Rightarrow> bitmapword list \<Rightarrow> bool" where
  "subset_words [] ys = True"
| "subset_words (x # xs) [] = all_zero (x # xs)"
| "subset_words (x # xs) (y # ys) = (if x AND NOT y \<noteq> 0 then False else subset_words xs ys)"

fun overlap_words :: "bitmapword list \<Rightarrow> bitmapword list \<Rightarrow> bool" where
  "overlap_words (x # xs) (y # ys) = (if x AND y \<noteq> 0 then True else overlap_words xs ys)"
| "overlap_words xs ys = False"

fun difference_words :: "bitmapword list \<Rightarrow> bitmapword list \<Rightarrow> bool" where
  "difference_words [] ys = False"
| "difference_words (x # xs) [] = (if x \<noteq> 0 then True else difference_words xs [])"
| "difference_words (x # xs) (y # ys) = (if x AND NOT y \<noteq> 0 then True else difference_words xs ys)"

text \<open>The loop that finds the lowest bit of a word byte by byte; it does not end for zero.\<close>

lemma drop_bit_less: "w \<noteq> 0 \<Longrightarrow> unat (drop_bit 8 w) < unat w" for w :: bitmapword
proof -
  assume "w \<noteq> 0"
  then have "0 < unat w" by (simp add: unat_gt_0)
  moreover have "unat (drop_bit 8 w) = drop_bit 8 (unat w)" by (rule unat_drop_bit_eq)
  then have "unat (drop_bit 8 w) = unat w div 256" by (simp only: drop_bit_eq_div) simp
  ultimately show ?thesis by simp
qed

function low_pos :: "bitmapword \<Rightarrow> nat \<Rightarrow> nat res" where
  "low_pos w result =
     (if w = 0 then Inl Diverges
      else if w AND 255 = 0 then low_pos (drop_bit 8 w) (result + 8)
      else Inr (result + rightmost_one_pos ! unat (w AND 255)))"
  by pat_completeness auto
termination
  by (relation "measure (\<lambda>(w, result). unat w)") (auto simp: drop_bit_less)

declare low_pos.simps [simp del]

function count_ones :: "bitmapword \<Rightarrow> nat \<Rightarrow> nat" where
  "count_ones w result =
     (if w \<noteq> 0 then count_ones (drop_bit 8 w) (result + number_of_ones ! unat (w AND 255)) else result)"
  by pat_completeness auto
termination
  by (relation "measure (\<lambda>(w, result). unat w)") (auto simp: drop_bit_less)

declare count_ones.simps [simp del]

section \<open>Operations that make a new set\<close>

definition bms_copy :: "Bitmapset option \<Rightarrow> Bitmapset option" where
  "bms_copy a = (case a of None \<Rightarrow> None | Some a \<Rightarrow> Some \<lparr>words = words a\<rparr>)"

definition bms_is_empty :: "Bitmapset option \<Rightarrow> bool" where
  "bms_is_empty a = (case a of None \<Rightarrow> True | Some a \<Rightarrow> all_zero (words a))"

definition bms_equal :: "Bitmapset option \<Rightarrow> Bitmapset option \<Rightarrow> bool" where
  "bms_equal a b =
     (case (a, b) of
        (None, None) \<Rightarrow> True
      | (None, b) \<Rightarrow> bms_is_empty b
      | (a, None) \<Rightarrow> bms_is_empty a
      | (Some a, Some b) \<Rightarrow>
          if nwords a \<le> nwords b then equal_words (words a) (words b) else equal_words (words b) (words a))"

definition bms_make_singleton :: "int \<Rightarrow> Bitmapset option res" where
  "bms_make_singleton x =
     res_bind (member_index x) (\<lambda>x.
       Inr (Some \<lparr>words = (replicate (WORDNUM x + 1) 0)[WORDNUM x := push_bit (BITNUM x) 1]\<rparr>))"

definition bms_union :: "Bitmapset option \<Rightarrow> Bitmapset option \<Rightarrow> Bitmapset option" where
  "bms_union a b =
     (case (a, b) of
        (None, b) \<Rightarrow> bms_copy b
      | (a, None) \<Rightarrow> bms_copy a
      | (Some a, Some b) \<Rightarrow>
          if nwords a \<le> nwords b then Some \<lparr>words = combine (OR) (words b) (words a)\<rparr>
          else Some \<lparr>words = combine (OR) (words a) (words b)\<rparr>)"

definition bms_intersect :: "Bitmapset option \<Rightarrow> Bitmapset option \<Rightarrow> Bitmapset option" where
  "bms_intersect a b =
     (case (a, b) of
        (Some a, Some b) \<Rightarrow>
          if nwords a \<le> nwords b then Some \<lparr>words = combine (AND) (words a) (words b)\<rparr>
          else Some \<lparr>words = combine (AND) (words b) (words a)\<rparr>
      | _ \<Rightarrow> None)"

definition bms_difference :: "Bitmapset option \<Rightarrow> Bitmapset option \<Rightarrow> Bitmapset option" where
  "bms_difference a b =
     (case (a, b) of
        (None, _) \<Rightarrow> None
      | (a, None) \<Rightarrow> bms_copy a
      | (Some a, Some b) \<Rightarrow> Some \<lparr>words = combine (\<lambda>x y. x AND NOT y) (words a) (words b)\<rparr>)"

section \<open>Tests\<close>

definition bms_is_subset :: "Bitmapset option \<Rightarrow> Bitmapset option \<Rightarrow> bool" where
  "bms_is_subset a b =
     (case (a, b) of
        (None, _) \<Rightarrow> True
      | (a, None) \<Rightarrow> bms_is_empty a
      | (Some a, Some b) \<Rightarrow> subset_words (words a) (words b))"

definition bms_is_member :: "int \<Rightarrow> Bitmapset option \<Rightarrow> bool res" where
  "bms_is_member x a =
     res_bind (member_index x) (\<lambda>x.
       case a of
         None \<Rightarrow> Inr False
       | Some a \<Rightarrow>
           if WORDNUM x \<ge> nwords a then Inr False
           else Inr (words a ! WORDNUM x AND push_bit (BITNUM x) 1 \<noteq> 0))"

definition bms_overlap :: "Bitmapset option \<Rightarrow> Bitmapset option \<Rightarrow> bool" where
  "bms_overlap a b =
     (case (a, b) of (Some a, Some b) \<Rightarrow> overlap_words (words a) (words b) | _ \<Rightarrow> False)"

definition bms_nonempty_difference :: "Bitmapset option \<Rightarrow> Bitmapset option \<Rightarrow> bool" where
  "bms_nonempty_difference a b =
     (case (a, b) of
        (None, _) \<Rightarrow> False
      | (a, None) \<Rightarrow> \<not> bms_is_empty a
      | (Some a, Some b) \<Rightarrow> difference_words (words a) (words b))"

fun singleton_loop :: "bitmapword list \<Rightarrow> nat \<Rightarrow> nat option \<Rightarrow> nat option res" where
  "singleton_loop [] wordnum result = Inr result"
| "singleton_loop (w # ws) wordnum result =
     (if w \<noteq> 0 then
        if result \<noteq> None \<or> HAS_MULTIPLE_ONES w then Inl (Elog ''bitmapset has multiple members'')
        else res_bind (low_pos w (wordnum * 32)) (\<lambda>r. singleton_loop ws (wordnum + 1) (Some r))
      else singleton_loop ws (wordnum + 1) result)"

definition bms_singleton_member :: "Bitmapset option \<Rightarrow> nat res" where
  "bms_singleton_member a =
     (case a of
        None \<Rightarrow> Inl (Elog ''bitmapset is empty'')
      | Some a \<Rightarrow>
          res_bind (singleton_loop (words a) 0 None) (\<lambda>result.
            case result of None \<Rightarrow> Inl (Elog ''bitmapset is empty'') | Some r \<Rightarrow> Inr r))"

fun count_loop :: "bitmapword list \<Rightarrow> nat \<Rightarrow> nat" where
  "count_loop [] result = result"
| "count_loop (w # ws) result = count_loop ws (count_ones w result)"

definition bms_num_members :: "Bitmapset option \<Rightarrow> nat" where
  "bms_num_members a = (case a of None \<Rightarrow> 0 | Some a \<Rightarrow> count_loop (words a) 0)"

fun membership_loop :: "bitmapword list \<Rightarrow> BMS_Membership \<Rightarrow> BMS_Membership" where
  "membership_loop [] result = result"
| "membership_loop (w # ws) result =
     (if w \<noteq> 0 then
        if result \<noteq> BMS_EMPTY_SET \<or> HAS_MULTIPLE_ONES w then BMS_MULTIPLE
        else membership_loop ws BMS_SINGLETON
      else membership_loop ws result)"

definition bms_membership :: "Bitmapset option \<Rightarrow> BMS_Membership" where
  "bms_membership a = (case a of None \<Rightarrow> BMS_EMPTY_SET | Some a \<Rightarrow> membership_loop (words a) BMS_EMPTY_SET)"

section \<open>Operations that recycle their argument\<close>

definition bms_add_member :: "Bitmapset option \<Rightarrow> int \<Rightarrow> Bitmapset option res" where
  "bms_add_member a x =
     res_bind (member_index x) (\<lambda>n.
       case a of
         None \<Rightarrow> bms_make_singleton x
       | Some a \<Rightarrow>
           if WORDNUM n \<ge> nwords a then
             res_bind (bms_make_singleton x) (\<lambda>result.
               case result of
                 None \<Rightarrow> Inl NullDeref
               | Some r \<Rightarrow> Inr (Some \<lparr>words = combine (OR) (words r) (words a)\<rparr>))
           else
             Inr (Some (a\<lparr>words := (words a)[WORDNUM n := words a ! WORDNUM n OR push_bit (BITNUM n) 1]\<rparr>)))"

definition bms_del_member :: "Bitmapset option \<Rightarrow> int \<Rightarrow> Bitmapset option res" where
  "bms_del_member a x =
     res_bind (member_index x) (\<lambda>n.
       case a of
         None \<Rightarrow> Inr None
       | Some a \<Rightarrow>
           if WORDNUM n < nwords a then
             Inr (Some (a\<lparr>words := (words a)[WORDNUM n := words a ! WORDNUM n AND NOT (push_bit (BITNUM n) 1)]\<rparr>))
           else Inr (Some a))"

definition bms_add_members :: "Bitmapset option \<Rightarrow> Bitmapset option \<Rightarrow> Bitmapset option" where
  "bms_add_members a b =
     (case (a, b) of
        (None, b) \<Rightarrow> bms_copy b
      | (a, None) \<Rightarrow> a
      | (Some a, Some b) \<Rightarrow>
          if nwords a < nwords b then Some \<lparr>words = combine (OR) (words b) (words a)\<rparr>
          else Some \<lparr>words = combine (OR) (words a) (words b)\<rparr>)"

text \<open>The words of the first set beyond the end of the second become zero.\<close>

fun int_words :: "bitmapword list \<Rightarrow> bitmapword list \<Rightarrow> bitmapword list" where
  "int_words [] ys = []"
| "int_words (x # xs) [] = 0 # int_words xs []"
| "int_words (x # xs) (y # ys) = (x AND y) # int_words xs ys"

definition bms_int_members :: "Bitmapset option \<Rightarrow> Bitmapset option \<Rightarrow> Bitmapset option" where
  "bms_int_members a b =
     (case (a, b) of (Some a, Some b) \<Rightarrow> Some \<lparr>words = int_words (words a) (words b)\<rparr> | _ \<Rightarrow> None)"

definition bms_del_members :: "Bitmapset option \<Rightarrow> Bitmapset option \<Rightarrow> Bitmapset option" where
  "bms_del_members a b =
     (case (a, b) of
        (None, _) \<Rightarrow> None
      | (a, None) \<Rightarrow> a
      | (Some a, Some b) \<Rightarrow> Some \<lparr>words = combine (\<lambda>x y. x AND NOT y) (words a) (words b)\<rparr>)"

definition bms_join :: "Bitmapset option \<Rightarrow> Bitmapset option \<Rightarrow> Bitmapset option" where
  "bms_join a b =
     (case (a, b) of
        (None, b) \<Rightarrow> b
      | (a, None) \<Rightarrow> a
      | (Some a, Some b) \<Rightarrow>
          if nwords a < nwords b then Some \<lparr>words = combine (OR) (words b) (words a)\<rparr>
          else Some \<lparr>words = combine (OR) (words a) (words b)\<rparr>)"

section \<open>Iteration and hashing\<close>

text \<open>The result is \<open>None\<close> for -1, else the member and the words with its bit cleared.\<close>

fun first_loop :: "bitmapword list \<Rightarrow> nat \<Rightarrow> (nat \<times> bitmapword list) option res" where
  "first_loop [] wordnum = Inr None"
| "first_loop (w # ws) wordnum =
     (if w \<noteq> 0 then
        res_bind (low_pos (RIGHTMOST_ONE w) (wordnum * 32)) (\<lambda>result.
          Inr (Some (result, (w AND NOT (RIGHTMOST_ONE w)) # ws)))
      else res_bind (first_loop ws (wordnum + 1)) (\<lambda>r. Inr (map_option (\<lambda>(result, ws). (result, w # ws)) r)))"

definition bms_first_member :: "Bitmapset option \<Rightarrow> (int \<times> Bitmapset option) res" where
  "bms_first_member a =
     (case a of
        None \<Rightarrow> Inr (-1, None)
      | Some b \<Rightarrow>
          res_bind (first_loop (words b) 0) (\<lambda>r.
            case r of None \<Rightarrow> Inr (-1, a) | Some (x, ws) \<Rightarrow> Inr (int x, Some \<lparr>words = ws\<rparr>)))"

text \<open>How many words there are up to the last one that is not zero: \<open>lastword + 1\<close>.\<close>

definition used_words :: "bitmapword list \<Rightarrow> nat" where
  "used_words ws = length (dropWhile (\<lambda>w. w = 0) (rev ws))"

definition bms_hash_value :: "Bitmapset option \<Rightarrow> uint32" where
  "bms_hash_value a =
     (case a of
        None \<Rightarrow> 0
      | Some a \<Rightarrow>
          if used_words (words a) = 0 then 0
          else hash_any (concat (map le_bytes (take (used_words (words a)) (words a)))))"

text \<open>
  The loop of the callers, on a copy of the set: \<open>while ((x = bms_first_member(tmpset)) >= 0)\<close>.
  It takes fuel; the members are returned in the order in which they are processed.
\<close>

fun bms_members :: "nat \<Rightarrow> Bitmapset option \<Rightarrow> nat list res" where
  "bms_members 0 tmpset = Inl Diverges"
| "bms_members (Suc fuel) tmpset =
     res_bind (bms_first_member tmpset) (\<lambda>(x, tmpset).
       if 0 \<le> x then res_bind (bms_members fuel tmpset) (\<lambda>xs. Inr (nat x # xs)) else Inr [])"

end
