(* ===== verification/BmsSpec.thy ===== *)
theory BmsSpec
  imports Bms
begin

text \<open>
  Bitmap sets as sets of natural numbers: the members of a bitmap set, a locale for the interface,
  and what every function of \<open>bitmapset.c\<close> computes.
\<close>

section \<open>Members\<close>

definition nth_word :: "bitmapword list \<Rightarrow> nat \<Rightarrow> bitmapword" where
  "nth_word ws k = (if k < length ws then ws ! k else 0)"

definition members :: "bitmapword list \<Rightarrow> nat set" where
  "members ws = {i. bit (nth_word ws (i div 32)) (i mod 32)}"

definition bms_set :: "Bitmapset option \<Rightarrow> nat set" where
  "bms_set a = (case a of None \<Rightarrow> {} | Some a \<Rightarrow> members (words a))"

lemma nth_word_simps [simp]:
  "nth_word [] k = 0" "nth_word (w # ws) 0 = w" "nth_word (w # ws) (Suc k) = nth_word ws k"
  by (simp_all add: nth_word_def)

lemma bms_set_simps [simp]: "bms_set None = {}" "bms_set (Some a) = members (words a)"
  by (simp_all add: bms_set_def)

lemma members_Nil [simp]: "members [] = {}"
  by (simp add: members_def)

lemma members_Cons: "members (w # ws) = {i. i < 32 \<and> bit w i} \<union> (+) 32 ` members ws"
proof (rule set_eqI)
  fix i
  show "i \<in> members (w # ws) \<longleftrightarrow> i \<in> {i. i < 32 \<and> bit w i} \<union> (+) 32 ` members ws"
  proof (cases "i < 32")
    case True
    then show ?thesis by (auto simp: members_def)
  next
    case False
    then obtain j where j: "i = 32 + j" using le_Suc_ex not_less by blast
    then have "i div 32 = Suc (j div 32)" "i mod 32 = j mod 32" by simp_all
    then show ?thesis using j by (auto simp: members_def)
  qed
qed

lemma words_eqI: "(\<And>k. nth_word xs k = nth_word ys k) \<Longrightarrow> members xs = members ys"
  by (simp add: members_def)

lemma finite_members [simp]: "finite (members ws)"
proof (induction ws)
  case (Cons w ws)
  then show ?case by (simp add: members_Cons)
qed simp

lemma finite_bms_set [simp]: "finite (bms_set a)"
  by (cases a) auto

section \<open>Loops\<close>

lemma all_zero_iff: "all_zero ws \<longleftrightarrow> members ws = {}"
proof (induction ws)
  case (Cons w ws)
  have "w = 0 \<longleftrightarrow> {i. i < 32 \<and> bit w i} = {}"
    using bit_word_eqI [of w 0] by auto
  with Cons show ?case by (auto simp: members_Cons)
qed simp

lemma nth_word_combine:
  "(\<And>x. f x 0 = x) \<Longrightarrow> nth_word (combine f xs ys) k = (if k < length xs then f (nth_word xs k) (nth_word ys k) else 0)"
proof (induction f xs ys arbitrary: k rule: combine.induct)
  case (1 f x xs y ys)
  then show ?case by (cases k) auto
qed (auto simp: nth_word_def)

lemma combine_or: "length ys \<le> length xs \<Longrightarrow> members (combine (OR) xs ys) = members xs \<union> members ys"
  by (auto simp: members_def nth_word_combine bit_or_iff) (auto simp: nth_word_def split: if_splits)

lemma combine_diff: "members (combine (\<lambda>x y. x AND NOT y) xs ys) = members xs - members ys"
  by (auto simp: members_def nth_word_combine bit_simps) (auto simp: nth_word_def split: if_splits)

lemma nth_word_and: "length xs \<le> length ys \<Longrightarrow> nth_word (combine (AND) xs ys) k = nth_word xs k AND nth_word ys k"
proof (induction "(AND) :: bitmapword \<Rightarrow> bitmapword \<Rightarrow> bitmapword" xs ys arbitrary: k rule: combine.induct)
  case (1 x xs y ys)
  then show ?case by (cases k) auto
qed auto

lemma combine_and: "length xs \<le> length ys \<Longrightarrow> members (combine (AND) xs ys) = members xs \<inter> members ys"
  by (auto simp: members_def nth_word_and bit_and_iff)

lemma nth_word_int: "nth_word (int_words xs ys) k = nth_word xs k AND nth_word ys k"
proof (induction xs ys arbitrary: k rule: int_words.induct)
  case (2 x xs)
  then show ?case by (cases k) auto
next
  case (3 x xs y ys)
  then show ?case by (cases k) auto
qed simp

lemma int_words_members: "members (int_words xs ys) = members xs \<inter> members ys"
  by (auto simp: members_def nth_word_int bit_and_iff)

lemma low_bits_iff: "{i. i < 32 \<and> bit x i} = {i. i < 32 \<and> bit y i} \<longleftrightarrow> x = y" for x y :: bitmapword
proof
  assume h: "{i. i < 32 \<and> bit x i} = {i. i < 32 \<and> bit y i}"
  show "x = y"
  proof (rule bit_word_eqI)
    show "bit x n = bit y n" if "n < LENGTH(32)" for n using that h by (auto simp: set_eq_iff)
  qed
qed simp

lemma members_Cons_eq: "members (x # xs) = members (y # ys) \<longleftrightarrow> x = y \<and> members xs = members ys"
proof
  assume e: "members (x # xs) = members (y # ys)"
  have "{i. i < 32 \<and> bit x i} = members (x # xs) \<inter> {..<32}" "{i. i < 32 \<and> bit y i} = members (y # ys) \<inter> {..<32}"
    by (auto simp: members_Cons)
  with e have "x = y" using low_bits_iff by metis
  moreover have "members xs = {i. 32 + i \<in> members (x # xs)}" "members ys = {i. 32 + i \<in> members (y # ys)}"
    by (auto simp: members_Cons)
  ultimately show "x = y \<and> members xs = members ys" using e by simp
qed (simp add: members_Cons)

lemma equal_words_iff: "length xs \<le> length ys \<Longrightarrow> equal_words xs ys \<longleftrightarrow> members xs = members ys"
  by (induction xs ys rule: equal_words.induct) (auto simp: all_zero_iff members_Cons_eq)

lemma members_Cons_subset: "members (x # xs) \<subseteq> members (y # ys) \<longleftrightarrow> x AND NOT y = 0 \<and> members xs \<subseteq> members ys"
proof -
  have "x AND NOT y = 0 \<longleftrightarrow> (\<forall>i < 32. bit x i \<longrightarrow> bit y i)"
    using bit_word_eqI [of "x AND NOT y" 0] by (auto simp: bit_simps bit_eq_iff)
  then show ?thesis by (fastforce simp: members_Cons)
qed

lemma subset_words_iff: "subset_words xs ys \<longleftrightarrow> members xs \<subseteq> members ys"
  by (induction xs ys rule: subset_words.induct) (auto simp: all_zero_iff members_Cons_subset simp del: all_zero.simps)

lemma difference_words_iff: "difference_words xs ys \<longleftrightarrow> \<not> members xs \<subseteq> members ys"
proof (induction xs ys rule: difference_words.induct)
  case (2 x xs)
  then show ?case using all_zero_iff [of "x # xs"] all_zero_iff [of xs] by auto
qed (auto simp: members_Cons_subset)

lemma members_Cons_disjoint: "members (x # xs) \<inter> members (y # ys) = {} \<longleftrightarrow> x AND y = 0 \<and> members xs \<inter> members ys = {}"
proof -
  have "x AND y = 0 \<longleftrightarrow> (\<forall>i < 32. \<not> (bit x i \<and> bit y i))"
    using bit_word_eqI [of "x AND y" 0] by (auto simp: bit_simps bit_eq_iff)
  then show ?thesis by (fastforce simp: members_Cons)
qed

lemma overlap_words_iff: "overlap_words xs ys \<longleftrightarrow> members xs \<inter> members ys \<noteq> {}"
  by (induction xs ys rule: overlap_words.induct) (simp_all add: members_Cons_disjoint)

section \<open>Bits of a word\<close>

definition bits :: "bitmapword \<Rightarrow> nat set" where
  "bits w = {i. i < 32 \<and> bit w i}"

definition lowest :: "bitmapword \<Rightarrow> nat \<Rightarrow> bool" where
  "lowest w p \<longleftrightarrow> bit w p \<and> (\<forall>q < p. \<not> bit w q)"

lemma bit_less_32: "bit w i \<Longrightarrow> i < 32" for w :: bitmapword
  using bit_imp_le_length [of w i] by simp

lemma bits_iff: "i \<in> bits w \<longleftrightarrow> bit w i"
  by (auto simp: bits_def dest: bit_less_32)

lemma finite_bits [simp]: "finite (bits w)"
  by (simp add: bits_def)

lemma bits_empty_iff: "bits w = {} \<longleftrightarrow> w = 0"
  using low_bits_iff [of w 0] by (simp add: bits_def)

lemma members_Cons_bits: "members (w # ws) = bits w \<union> (+) 32 ` members ws"
  by (simp add: members_Cons bits_def)

lemma lowest_Min: "lowest w p \<longleftrightarrow> w \<noteq> 0 \<and> p = Min (bits w)"
proof -
  have "lowest w p \<longleftrightarrow> p \<in> bits w \<and> (\<forall>q \<in> bits w. p \<le> q)"
    by (auto simp: lowest_def bits_iff not_less [symmetric])
  also have "\<dots> \<longleftrightarrow> bits w \<noteq> {} \<and> p = Min (bits w)"
    by (metis Min_eq_iff Min_in Min_le empty_iff finite_bits)
  finally show ?thesis by (simp add: bits_empty_iff)
qed

text \<open>The two tables are those of the position of the lowest one and of the number of ones.\<close>

fun low_idx :: "nat \<Rightarrow> int \<Rightarrow> nat" where
  "low_idx 0 b = 0"
| "low_idx (Suc n) b = (if odd b then 0 else Suc (low_idx n (b div 2)))"

fun ones :: "nat \<Rightarrow> int \<Rightarrow> nat" where
  "ones 0 b = 0"
| "ones (Suc n) b = (if odd b then 1 else 0) + ones n (b div 2)"

lemma low_idx_bit:
  "0 < b \<Longrightarrow> b < 2 ^ n \<Longrightarrow> low_idx n b < n \<and> bit b (low_idx n b) \<and> (\<forall>q < low_idx n b. \<not> bit b q)"
proof (induction n b rule: low_idx.induct)
  case (2 n b)
  then show ?case
  proof (cases "odd b")
    case False
    have "\<not> bit b q" if "q < Suc (low_idx n (b div 2))" for q
      using 2 that False by (cases q) (auto simp: bit_0 bit_Suc)
    then show ?thesis using 2 False by (auto simp: bit_Suc)
  qed (simp add: bit_0)
qed simp

lemma ones_filter: "ones n b = length (filter (bit b) [0..<n])"
proof (induction n b rule: ones.induct)
  case (2 n b)
  have "[0..<Suc n] = 0 # map Suc [0..<n]" by (simp only: upt_conv_Cons map_Suc_upt zero_less_Suc)
  then show ?case using 2 by (simp add: filter_map comp_def bit_0 bit_Suc del: upt_Suc)
qed simp

lemma tables: "rightmost_one_pos = 0 # map (low_idx 8) [1..255]" "number_of_ones = map (ones 8) [0..255]"
  by code_simp+

lemma rightmost_table: "0 < b \<Longrightarrow> b < 256 \<Longrightarrow> rightmost_one_pos ! nat b = low_idx 8 b"
  by (simp add: tables(1) nth_Cons' nat_diff_distrib')

lemma ones_table: "0 \<le> b \<Longrightarrow> b < 256 \<Longrightarrow> number_of_ones ! nat b = ones 8 b"
  by (simp add: tables(2))

lemma low_byte: "w AND 255 = take_bit 8 w" for w :: bitmapword
  by (simp add: take_bit_eq_mask mask_numeral)

lemma low_byte_bound: "uint (w AND 255) < 256" for w :: bitmapword
proof -
  have "uint (take_bit 8 w) = take_bit 8 (uint w)" by (rule unsigned_take_bit_eq)
  also have "\<dots> < 2 ^ 8" by (rule take_bit_int_less_exp)
  finally show ?thesis unfolding low_byte by simp
qed

lemma low_byte_bit: "bit (uint (w AND 255)) i \<longleftrightarrow> i < 8 \<and> bit w i" for w :: bitmapword
  unfolding low_byte by (auto simp: bit_uint_iff bit_take_bit_iff dest: bit_less_32)

lemma low_pos_lowest: "w \<noteq> 0 \<Longrightarrow> \<exists>p. lowest w p \<and> low_pos w r = Inr (r + p)"
proof (induction w r rule: low_pos.induct)
  case (1 w r)
  show ?case
  proof (cases "w AND 255 = 0")
    case True
    have low: "\<not> bit w i" if "i < 8" for i
      using low_byte_bit [of w i] that True by simp
    have "drop_bit 8 w \<noteq> 0"
    proof
      assume "drop_bit 8 w = 0"
      then have "\<not> bit w i" for i using low [of i] bit_drop_bit_eq [of 8 w] by (cases "i < 8") (auto simp: fun_eq_iff dest: spec [of _ "i - 8"])
      then show False using 1(2) by (simp add: bit_eq_iff)
    qed
    with 1 True obtain p where p: "lowest (drop_bit 8 w) p" "low_pos (drop_bit 8 w) (r + 8) = Inr (r + 8 + p)"
      by blast
    have "bit w (8 + p)" "\<And>q. q < p \<Longrightarrow> \<not> bit w (8 + q)" using p(1) by (auto simp: lowest_def bit_drop_bit_eq)
    moreover have "\<not> bit w q" if "q < 8 + p" for q
      using low [of q] calculation(2) [of "q - 8"] that by (cases "q < 8") auto
    ultimately have "lowest w (8 + p)" by (simp add: lowest_def)
    then show ?thesis using p(2) 1(2) True by (subst low_pos.simps) (auto simp: add.assoc)
  next
    case False
    define b where "b = uint (w AND 255)"
    have ne: "b \<noteq> 0" using False uint_0_iff [of "w AND 255"] unfolding b_def by blast
    have ge: "0 \<le> b" unfolding b_def by (rule uint_ge_0)
    have b: "0 < b" "b < 256" "\<And>i. bit b i \<longleftrightarrow> i < 8 \<and> bit w i"
      using ne ge apply linarith
      unfolding b_def by (rule low_byte_bound, rule low_byte_bit)
    have "low_idx 8 b < 8 \<and> bit b (low_idx 8 b) \<and> (\<forall>q < low_idx 8 b. \<not> bit b q)"
      using b(1,2) by (intro low_idx_bit) simp_all
    then have "lowest w (low_idx 8 b)" using b(3) by (metis less_trans lowest_def)
    moreover have "rightmost_one_pos ! unat (w AND 255) = low_idx 8 b"
      using rightmost_table [OF b(1,2)] unfolding b_def unat_eq_nat_uint .
    ultimately show ?thesis using 1(2) False by (subst low_pos.simps) auto
  qed
qed

lemma low_pos_Min: "w \<noteq> 0 \<Longrightarrow> low_pos w r = Inr (r + Min (bits w))"
  using low_pos_lowest [of w r] lowest_Min by auto

lemma odd_and_minus: "odd u \<Longrightarrow> u AND - u = 1" for u :: bitmapword
proof -
  assume "odd u"
  then have "\<not> bit (NOT u) 0" by (simp add: bit_0)
  then have "\<not> bit (NOT u) n \<or> \<not> bit (1 :: bitmapword) n" for n
    by (cases n) (simp_all only: bit_1_iff nat.distinct simp_thms)
  then have "NOT u + 1 = NOT u OR 1" by (intro disjunctive_add)
  then have "- u = NOT u OR 1" by (simp add: minus_eq_not_plus_1)
  then have "u AND - u = u AND 1" by (auto simp: bit_eq_iff bit_simps)
  then show ?thesis using \<open>odd u\<close> by (simp add: and_one_eq odd_iff_mod_2_eq_one)
qed

lemma RIGHTMOST_ONE_lowest: "lowest w p \<Longrightarrow> RIGHTMOST_ONE w = push_bit p 1"
proof -
  assume l: "lowest w p"
  have "take_bit p w = 0" by (rule bit_word_eqI) (use l in \<open>auto simp: lowest_def bit_take_bit_iff\<close>)
  then have w: "w = push_bit p (drop_bit p w)" using bits_ident [of p w] by simp
  have "odd (drop_bit p w)" using l by (simp add: lowest_def bit_drop_bit_eq flip: bit_0)
  then have "push_bit p (drop_bit p w AND - drop_bit p w) = push_bit p 1" by (simp add: odd_and_minus)
  moreover have "- w = push_bit p (- drop_bit p w)" by (subst w) (simp add: push_bit_eq_mult)
  ultimately show ?thesis unfolding RIGHTMOST_ONE_def by (metis push_bit_and w)
qed

lemma bits_push_one: "p < 32 \<Longrightarrow> bits (push_bit p 1) = {p}"
  by (auto simp: bits_def bit_simps)

lemma RIGHTMOST_ONE_bits: "w \<noteq> 0 \<Longrightarrow> bits (RIGHTMOST_ONE w) = {Min (bits w)} \<and> RIGHTMOST_ONE w \<noteq> 0"
proof -
  assume "w \<noteq> 0"
  then have l: "lowest w (Min (bits w))" by (simp add: lowest_Min)
  then have "Min (bits w) < 32" by (auto simp: lowest_def dest: bit_less_32)
  then have "bits (RIGHTMOST_ONE w) = {Min (bits w)}" using RIGHTMOST_ONE_lowest [OF l] bits_push_one by simp
  then show ?thesis using bits_empty_iff by auto
qed

lemma multiple_ones: "w \<noteq> 0 \<Longrightarrow> HAS_MULTIPLE_ONES w \<longleftrightarrow> bits w \<noteq> {Min (bits w)}"
  using RIGHTMOST_ONE_bits [of w] low_bits_iff [of "RIGHTMOST_ONE w" w] by (auto simp: HAS_MULTIPLE_ONES_def bits_def)

lemma card_bits_split: "card (bits w) = length (filter (bit (uint (w AND 255))) [0..<8]) + card (bits (drop_bit 8 w))"
proof -
  have "bits w = {i. i < 8 \<and> bit w i} \<union> (+) 8 ` bits (drop_bit 8 w)"
  proof (rule set_eqI)
    fix i
    show "i \<in> bits w \<longleftrightarrow> i \<in> {i. i < 8 \<and> bit w i} \<union> (+) 8 ` bits (drop_bit 8 w)"
      by (cases "i < 8") (auto simp: bits_iff bit_drop_bit_eq image_iff Bex_def intro: exI [of _ "i - 8"])
  qed
  moreover have "card {i. i < 8 \<and> bit w i} = length (filter (bit (uint (w AND 255))) [0..<8])"
  proof -
    have "{i. i < 8 \<and> bit w i} = set (filter (bit (uint (w AND 255))) [0..<8])" by (auto simp: low_byte_bit)
    then show ?thesis by (simp add: distinct_card del: set_filter)
  qed
  moreover have "card ((+) 8 ` bits (drop_bit 8 w)) = card (bits (drop_bit 8 w))" by (intro card_image) simp
  moreover have "card ({i. i < 8 \<and> bit w i} \<union> (+) 8 ` bits (drop_bit 8 w)) =
      card {i. i < 8 \<and> bit w i} + card ((+) 8 ` bits (drop_bit 8 w))"
    by (intro card_Un_disjoint) auto
  ultimately show ?thesis by (simp only:)
qed

lemma count_ones_card: "count_ones w r = r + card (bits w)"
proof (induction w r rule: count_ones.induct)
  case (1 w r)
  show ?case
  proof (cases "w = 0")
    case False
    have n: "number_of_ones ! unat (w AND 255) = length (filter (bit (uint (w AND 255))) [0..<8])"
      using ones_table [OF uint_ge_0 low_byte_bound [of w]] unfolding unat_eq_nat_uint ones_filter .
    have "count_ones w r = count_ones (drop_bit 8 w) (r + number_of_ones ! unat (w AND 255))"
      using False by (subst count_ones.simps) (simp only: if_True not_False_eq_True)
    then show ?thesis unfolding card_bits_split [of w] n [symmetric] using 1 False by (simp only: add.assoc not_False_eq_True)
  qed (simp add: count_ones.simps bits_def)
qed

section \<open>Loops that look for members\<close>

lemma Min_shift: "finite A \<Longrightarrow> A \<noteq> {} \<Longrightarrow> Min ((+) (32 :: nat) ` A) = 32 + Min A"
  by (rule mono_Min_commute [symmetric]) (auto intro: monoI)

lemma Min_members: "w \<noteq> 0 \<Longrightarrow> Min (members (w # ws)) = Min (bits w)"
proof -
  assume "w \<noteq> 0"
  then have "Min (bits w) \<in> bits w" using Min_in bits_empty_iff finite_bits by metis
  moreover have "Min (bits w) \<le> i" if "i \<in> members (w # ws)" for i
    using that calculation by (auto simp: members_Cons_bits bits_def dest!: Min_le [OF finite_bits])
  ultimately show ?thesis by (intro Min_eqI) (auto simp: members_Cons_bits)
qed

lemma first_loop_correct:
  "if members ws = {} then first_loop ws k = Inr None
   else \<exists>ws'. first_loop ws k = Inr (Some (32 * k + Min (members ws), ws')) \<and> members ws' = members ws - {Min (members ws)}"
proof (induction ws arbitrary: k)
  case (Cons w ws)
  show ?case
  proof (cases "w = 0")
    case True
    have m: "members (w # ws) = (+) 32 ` members ws" using True by (simp add: members_Cons_bits bits_def)
    show ?thesis
    proof (cases "members ws = {}")
      case True
      then show ?thesis using Cons.IH [of "k + 1"] m \<open>w = 0\<close> by simp
    next
      case False
      then obtain ws' where 1: "first_loop ws (k + 1) = Inr (Some (32 * (k + 1) + Min (members ws), ws'))"
        "members ws' = members ws - {Min (members ws)}" using Cons.IH [of "k + 1"] by auto
      have min: "Min (members (w # ws)) = 32 + Min (members ws)" using m Min_shift [of "members ws"] False by simp
      have "first_loop (w # ws) k = Inr (Some (32 * k + Min (members (w # ws)), 0 # ws'))"
        unfolding min using 1(1) \<open>w = 0\<close> by simp
      moreover have "members (0 # ws') = members (w # ws) - {Min (members (w # ws))}"
        unfolding min unfolding m using 1(2) bits_empty_iff [of 0] by (simp add: members_Cons_bits image_set_diff)
      moreover have "members (w # ws) \<noteq> {}" using m False by simp
      ultimately show ?thesis by (simp only: if_False) blast
    qed
  next
    case False
    have r: "bits (RIGHTMOST_ONE w) = {Min (bits w)}" "RIGHTMOST_ONE w \<noteq> 0" using RIGHTMOST_ONE_bits [OF False] by auto
    have "i \<in> bits (w AND NOT (RIGHTMOST_ONE w)) \<longleftrightarrow> i \<in> bits w \<and> i \<notin> bits (RIGHTMOST_ONE w)" for i
      by (auto simp: bits_def bit_and_iff bit_not_iff)
    then have "bits (w AND NOT (RIGHTMOST_ONE w)) = bits w - {Min (bits w)}" unfolding r(1) by auto
    moreover have "Min (bits w) \<in> bits w" using Min_in [of "bits w"] False bits_empty_iff [of w] by simp
    then have "Min (bits w) \<notin> (+) 32 ` members ws" unfolding bits_def by auto
    ultimately have "members ((w AND NOT (RIGHTMOST_ONE w)) # ws) = members (w # ws) - {Min (members (w # ws))}"
      unfolding Min_members [OF False] unfolding members_Cons_bits by blast
    moreover have "low_pos (RIGHTMOST_ONE w) (k * 32) = Inr (32 * k + Min (members (w # ws)))"
      using low_pos_Min [OF r(2)] r(1) by (simp add: Min_members [OF False] mult.commute)
    moreover have "members (w # ws) \<noteq> {}" using False bits_empty_iff [of w] by (simp add: members_Cons_bits)
    ultimately show ?thesis using False by simp
  qed
qed simp

lemma singleton_loop_found: "members ws \<noteq> {} \<Longrightarrow> singleton_loop ws k (Some r) = Inl (Elog ''bitmapset has multiple members'')"
  by (induction ws arbitrary: k) (auto simp: members_Cons_bits bits_def)

lemma singleton_loop_rest: "members ws = {} \<Longrightarrow> singleton_loop ws k r = Inr r"
  by (induction ws arbitrary: k) (auto simp: members_Cons_bits bits_empty_iff)

lemma singleton_loop_correct:
  "members ws \<noteq> {} \<Longrightarrow>
     singleton_loop ws k None =
       (if members ws = {Min (members ws)} then Inr (Some (32 * k + Min (members ws)))
        else Inl (Elog ''bitmapset has multiple members''))"
proof (induction ws arbitrary: k)
  case (Cons w ws)
  show ?case
  proof (cases "w = 0")
    case True
    have m: "members (w # ws) = (+) 32 ` members ws" using True by (simp add: members_Cons_bits bits_def)
    then have "members ws \<noteq> {}" using Cons.prems by auto
    moreover from this have "members (w # ws) = {Min (members (w # ws))} \<longleftrightarrow> members ws = {Min (members ws)}"
      unfolding m by (simp add: Min_shift inj_image_eq_iff [of "(+) 32", of _ "{_}", simplified])
    ultimately show ?thesis using True Cons.IH [of "k + 1"] m by (simp add: Min_shift)
  next
    case False
    have "Min (bits w) \<in> bits w" "\<forall>i \<in> bits w. i < 32"
      using False bits_empty_iff [of w] Min_in [of "bits w"] by (auto simp: bits_def)
    then have one: "members (w # ws) = {Min (members (w # ws))} \<longleftrightarrow> bits w = {Min (bits w)} \<and> members ws = {}"
      unfolding Min_members [OF False] unfolding members_Cons_bits by fastforce
    show ?thesis
      using False one multiple_ones [OF False] low_pos_Min [OF False] singleton_loop_found singleton_loop_rest
      by (auto simp: Min_members mult.commute)
  qed
qed simp

lemma membership_loop_found: "membership_loop ws BMS_SINGLETON = (if members ws = {} then BMS_SINGLETON else BMS_MULTIPLE)"
  by (induction ws) (auto simp: members_Cons_bits bits_empty_iff)

lemma count_loop_card: "count_loop ws r = r + card (members ws)"
proof (induction ws arbitrary: r)
  case (Cons w ws)
  have "card (members (w # ws)) = card (bits w) + card ((+) 32 ` members ws)"
    unfolding members_Cons_bits by (rule card_Un_disjoint) (auto simp: bits_def)
  also have "card ((+) 32 ` members ws) = card (members ws)" by (intro card_image) simp
  finally show ?case using Cons by (simp add: count_ones_card)
qed simp

lemma card_1_Min: "card A = 1 \<longleftrightarrow> A = {Min A}" for A :: "nat set"
proof
  assume "card A = 1"
  then obtain x where "A = {x}" by (rule card_1_singletonE)
  then show "A = {Min A}" by simp
next
  assume e: "A = {Min A}"
  show "card A = 1" by (subst e) simp
qed

lemma membership_loop_card:
  "membership_loop ws BMS_EMPTY_SET =
     (if card (members ws) = 0 then BMS_EMPTY_SET else if card (members ws) = 1 then BMS_SINGLETON else BMS_MULTIPLE)"
proof (induction ws)
  case (Cons w ws)
  have c: "card (members (w # ws)) = card (bits w) + card (members ws)"
    using count_loop_card [of "w # ws" 0] count_loop_card [of ws "card (bits w)"] by (simp add: count_ones_card)
  show ?case
  proof (cases "w = 0")
    case True
    then have "card (bits w) = 0" by (simp add: bits_empty_iff)
    then show ?thesis unfolding c using Cons.IH True by (simp only: membership_loop.simps simp_thms if_False add_0)
  next
    case False
    have "card (bits w) = 1 \<longleftrightarrow> \<not> HAS_MULTIPLE_ONES w"
      using card_1_Min [of "bits w"] multiple_ones [OF False] by (simp only: not_not)
    moreover have "0 < card (bits w)" using False by (simp add: card_gt_0_iff bits_empty_iff)
    moreover have "members ws = {} \<or> 0 < card (members ws)" by (simp add: card_gt_0_iff)
    ultimately show ?thesis unfolding c membership_loop.simps membership_loop_found using False by auto
  qed
qed simp

section \<open>Words up to the last one in use\<close>

fun strip :: "bitmapword list \<Rightarrow> bitmapword list" where
  "strip [] = []"
| "strip (w # ws) = (if all_zero (w # ws) then [] else w # strip ws)"

lemma all_zero_set: "all_zero ws \<longleftrightarrow> set ws \<subseteq> {0}"
  by (induction ws) auto

lemma strip_rev: "strip ws = rev (dropWhile (\<lambda>w. w = 0) (rev ws))"
proof (induction ws)
  case (Cons w ws)
  show ?case
  proof (cases "all_zero ws")
    case True
    then have "dropWhile (\<lambda>w. w = 0) (rev ws) = []" by (auto simp: all_zero_set dropWhile_eq_Nil_conv)
    then show ?thesis using Cons True by (simp add: dropWhile_append dropWhile_eq_Nil_conv)
  next
    case False
    then have "\<exists>x \<in> set ws. x \<noteq> 0" by (auto simp: all_zero_set)
    then show ?thesis using Cons False by (auto simp: dropWhile_append1)
  qed
qed simp

lemma take_used_words: "take (used_words ws) ws = strip ws" and used_words_length: "used_words ws = length (strip ws)"
proof -
  have "take (length (dropWhile P (rev ws))) ws = rev (dropWhile P (rev ws))" for P
    by (metis append_eq_conv_conj length_rev rev_append rev_rev_ident takeWhile_dropWhile_id)
  then show "take (used_words ws) ws = strip ws" "used_words ws = length (strip ws)"
    by (simp_all add: used_words_def strip_rev)
qed

lemma strip_members: "members xs = members ys \<Longrightarrow> strip xs = strip ys"
proof (induction xs arbitrary: ys)
  case Nil
  then show ?case using all_zero_iff [of ys] by (cases ys) auto
next
  case (Cons x xs)
  show ?case
  proof (cases ys)
    case Nil
    then show ?thesis using Cons.prems all_zero_iff [of "x # xs"] by simp
  next
    case (Cons y ys')
    then have "x = y" "members xs = members ys'" using Cons.prems members_Cons_eq by auto
    then show ?thesis using Cons Cons.IH [of ys'] Cons.prems all_zero_iff [of "x # xs"] all_zero_iff [of "y # ys'"]
      by (simp del: all_zero.simps)
  qed
qed

end
