(* ===== verification/BmsProps.thy ===== *)
theory BmsProps
  imports BmsSpec
begin

text \<open>
  What the functions of \<open>bitmapset.c\<close> compute on the sets they stand for: the locale of a set with
  one-at-a-time operations and the loop that empties it, its interpretation on the bitmap sets, and
  the properties of the component.
\<close>

section \<open>Interface\<close>

text \<open>Members added one after the other, as callers collect them.\<close>

fun add_all :: "('s \<Rightarrow> int \<Rightarrow> 's res) \<Rightarrow> 's \<Rightarrow> int list \<Rightarrow> 's res" where
  "add_all add a [] = Inr a"
| "add_all add a (x # xs) = res_bind (add a x) (\<lambda>a. add_all add a xs)"

locale member_set =
  fixes abs :: "'s \<Rightarrow> nat set"
    and add :: "'s \<Rightarrow> int \<Rightarrow> 's res"
    and first :: "'s \<Rightarrow> (int \<times> 's) res"
    and loop :: "nat \<Rightarrow> 's \<Rightarrow> nat list res"
  assumes fin: "finite (abs a)"
    and add: "0 \<le> x \<Longrightarrow> \<exists>a'. add a x = Inr a' \<and> abs a' = insert (nat x) (abs a)"
    and first_empty: "abs a = {} \<Longrightarrow> first a = Inr (-1, a)"
    and first_member: "abs a \<noteq> {} \<Longrightarrow> \<exists>a'. first a = Inr (int (Min (abs a)), a') \<and> abs a' = abs a - {Min (abs a)}"
    and loop_0: "loop 0 a = Inl Diverges"
    and loop_Suc: "loop (Suc n) a =
      res_bind (first a) (\<lambda>(x, a). if 0 \<le> x then res_bind (loop n a) (\<lambda>xs. Inr (nat x # xs)) else Inr [])"
begin

lemma add_all_abs:
  "\<forall>x \<in> set xs. 0 \<le> x \<Longrightarrow> \<exists>a'. add_all add a xs = Inr a' \<and> abs a' = abs a \<union> nat ` set xs"
proof (induction xs arbitrary: a)
  case (Cons x xs)
  then have "0 \<le> x" "\<forall>x \<in> set xs. 0 \<le> x" by simp_all
  from add [OF this(1)] obtain a1 where 1: "add a x = Inr a1" "abs a1 = insert (nat x) (abs a)" by blast
  from Cons.IH [OF \<open>\<forall>x \<in> set xs. 0 \<le> x\<close>] obtain a2 where "add_all add a1 xs = Inr a2" "abs a2 = abs a1 \<union> nat ` set xs"
    by blast
  with 1 show ?case by simp
qed simp

lemma sorted_list_Min: "A \<noteq> {} \<Longrightarrow> finite A \<Longrightarrow> sorted_list_of_set A = Min A # sorted_list_of_set (A - {Min A})"
  for A :: "nat set"
  by (rule sorted_list_of_set_nonempty)

lemma loop_sorted: "card (abs a) < n \<Longrightarrow> loop n a = Inr (sorted_list_of_set (abs a))"
proof (induction n arbitrary: a)
  case (Suc n)
  show ?case
  proof (cases "abs a = {}")
    case False
    then obtain a' where 1: "first a = Inr (int (Min (abs a)), a')" "abs a' = abs a - {Min (abs a)}"
      using first_member by blast
    have "card (abs a') < card (abs a)" unfolding 1(2) by (rule card_Diff1_less) (simp_all add: fin False)
    then have "loop n a' = Inr (sorted_list_of_set (abs a'))" using Suc by simp
    then show ?thesis using 1 False by (simp add: loop_Suc sorted_list_Min fin)
  qed (simp add: loop_Suc first_empty)
qed simp

lemma loop_short: "n \<le> card (abs a) \<Longrightarrow> loop n a = Inl Diverges"
proof (induction n arbitrary: a)
  case (Suc n)
  then have "abs a \<noteq> {}" by auto
  then obtain a' where 1: "first a = Inr (int (Min (abs a)), a')" "abs a' = abs a - {Min (abs a)}"
    using first_member by blast
  have "card (abs a') = card (abs a) - 1" unfolding 1(2) by (rule card_Diff_singleton) (simp add: fin \<open>abs a \<noteq> {}\<close>)
  then show ?case using Suc 1 by (simp add: loop_Suc)
qed (simp add: loop_0)

lemma loop_after_add_all:
  assumes "\<forall>x \<in> set xs. 0 \<le> x" and "abs a = {}"
  shows "\<exists>a'. add_all add a xs = Inr a' \<and> loop (length xs + 1) a' = Inr (sorted_list_of_set (nat ` set xs))"
proof -
  obtain a' where 1: "add_all add a xs = Inr a'" "abs a' = nat ` set xs"
    using add_all_abs [OF assms(1), of a] assms(2) by auto
  have "card (abs a') \<le> length xs" unfolding 1(2) by (metis card_length list.set_map length_map)
  then show ?thesis using 1 loop_sorted [of a' "length xs + 1"] by auto
qed

end

section \<open>Members of the results\<close>

lemma member_index_simps [simp]:
  "0 \<le> x \<Longrightarrow> member_index x = Inr (nat x)"
  "x < 0 \<Longrightarrow> member_index x = Inl (Elog ''negative bitmapset member not allowed'')"
  by (simp_all add: member_index_def)

lemma bms_copy_id [simp]: "bms_copy a = a"
  by (cases a) (simp_all add: bms_copy_def)

lemma bms_is_empty_iff: "bms_is_empty a \<longleftrightarrow> bms_set a = {}"
  by (cases a) (simp_all add: bms_is_empty_def all_zero_iff)

lemma nth_word_replicate [simp]: "nth_word (replicate n 0) k = 0"
  by (simp add: nth_word_def)

lemma members_update:
  "k < length ws \<Longrightarrow> members (ws[k := w]) = {i \<in> members ws. i div 32 \<noteq> k} \<union> {i. i div 32 = k \<and> bit w (i mod 32)}"
  by (auto simp: members_def nth_word_def nth_list_update split: if_splits)

lemma bit_one_at: "m < 32 \<Longrightarrow> bit (2 ^ n :: bitmapword) m \<longleftrightarrow> m = n"
  by (auto simp: bit_simps)

lemma div_mod_eq: "i div 32 = n div 32 \<and> i mod 32 = n mod 32 \<longleftrightarrow> i = n" for i n :: nat
  by (metis div_mult_mod_eq)

lemma members_iff: "i \<in> members ws \<longleftrightarrow> bit (nth_word ws (i div 32)) (i mod 32)"
  by (simp add: members_def)

lemma members_set_bit:
  "n div 32 < length ws \<Longrightarrow> members (ws[n div 32 := nth_word ws (n div 32) OR push_bit (n mod 32) 1]) = insert n (members ws)"
proof (rule set_eqI)
  fix i
  assume "n div 32 < length ws"
  then show "i \<in> members (ws[n div 32 := nth_word ws (n div 32) OR push_bit (n mod 32) 1]) \<longleftrightarrow> i \<in> insert n (members ws)"
    unfolding members_update [OF \<open>n div 32 < length ws\<close>] bit_or_iff
    by (cases "i div 32 = n div 32") (auto simp: bit_one_at members_iff div_mod_eq [of i n, symmetric])
qed

lemma members_clear_bit:
  "n div 32 < length ws \<Longrightarrow>
     members (ws[n div 32 := nth_word ws (n div 32) AND NOT (push_bit (n mod 32) 1)]) = members ws - {n}"
proof (rule set_eqI)
  fix i
  assume h: "n div 32 < length ws"
  have "bit (NOT (push_bit (n mod 32) 1) :: bitmapword) (i mod 32) \<longleftrightarrow> i mod 32 \<noteq> n mod 32"
    by (simp add: bit_not_iff bit_one_at)
  then show "i \<in> members (ws[n div 32 := nth_word ws (n div 32) AND NOT (push_bit (n mod 32) 1)]) \<longleftrightarrow> i \<in> members ws - {n}"
    unfolding members_update [OF h] bit_and_iff
    by (cases "i div 32 = n div 32") (auto simp: members_iff div_mod_eq [of i n, symmetric])
qed

lemma bms_make_singleton_set: "0 \<le> x \<Longrightarrow> \<exists>a. bms_make_singleton x = Inr (Some a) \<and> members (words a) = {nat x} \<and> nwords a = WORDNUM (nat x) + 1"
proof -
  assume x: "0 \<le> x"
  define k where "k = WORDNUM (nat x) + 1"
  let ?a = "\<lparr>words = (replicate k 0)[nat x div 32 := push_bit (nat x mod 32) 1]\<rparr>"
  have "members ((replicate k 0)[nat x div 32 := nth_word (replicate k 0) (nat x div 32) OR push_bit (nat x mod 32) 1]) =
      insert (nat x) (members (replicate k 0))"
    by (rule members_set_bit) (simp add: k_def WORDNUM_def)
  then have "members (words ?a) = {nat x}" by (simp add: members_def)
  moreover have "nwords ?a = k" by (simp add: nwords_def)
  moreover have "bms_make_singleton x = Inr (Some ?a)"
    unfolding bms_make_singleton_def member_index_simps(1) [OF x] res_bind_Inr k_def by (simp add: WORDNUM_def BITNUM_def)
  ultimately show ?thesis unfolding k_def by blast
qed

lemma bms_add_member_set: "0 \<le> x \<Longrightarrow> \<exists>a'. bms_add_member a x = Inr a' \<and> bms_set a' = insert (nat x) (bms_set a)"
proof -
  assume x: "0 \<le> x"
  then obtain r where r: "bms_make_singleton x = Inr (Some r)" "members (words r) = {nat x}" "nwords r = WORDNUM (nat x) + 1"
    using bms_make_singleton_set by blast
  show ?thesis
  proof (cases a)
    case (Some b)
    show ?thesis
    proof (cases "nwords b \<le> WORDNUM (nat x)")
      case True
      then have "length (words b) \<le> length (words r)" using r(3) by (simp add: nwords_def)
      then show ?thesis using Some True x r by (simp add: bms_add_member_def combine_or)
    next
      case False
      then have "nat x div 32 < length (words b)" by (simp add: nwords_def WORDNUM_def)
      then show ?thesis using Some False x members_set_bit [of "nat x" "words b"]
        by (simp add: bms_add_member_def nwords_def WORDNUM_def BITNUM_def nth_word_def)
    qed
  qed (use x r in \<open>simp add: bms_add_member_def\<close>)
qed

lemma bms_del_member_set: "0 \<le> x \<Longrightarrow> \<exists>a'. bms_del_member a x = Inr a' \<and> bms_set a' = bms_set a - {nat x}"
proof (cases a)
  case (Some b)
  assume x: "0 \<le> x"
  show ?thesis
  proof (cases "nat x div 32 < length (words b)")
    case True
    then show ?thesis using Some x members_clear_bit [of "nat x" "words b"]
      by (simp add: bms_del_member_def nwords_def WORDNUM_def BITNUM_def nth_word_def)
  next
    case False
    then have "nat x \<notin> members (words b)" by (simp add: members_def nth_word_def)
    then show ?thesis using Some x False by (simp add: bms_del_member_def nwords_def WORDNUM_def)
  qed
qed (simp add: bms_del_member_def)

lemma and_bit_at: "m < 32 \<Longrightarrow> w AND push_bit m 1 \<noteq> 0 \<longleftrightarrow> bit w m" for w :: bitmapword
  by (simp add: bit_iff_and_push_bit_not_eq_0)

lemma bms_is_member_iff: "0 \<le> x \<Longrightarrow> bms_is_member x a = Inr (nat x \<in> bms_set a)"
proof (cases a)
  case (Some b)
  assume x: "0 \<le> x"
  show ?thesis unfolding bms_is_member_def member_index_simps(1) [OF x] Some
    by (simp only: res_bind_Inr option.case bms_set_simps members_iff and_bit_at BITNUM_def mod_less_divisor nth_word_def nwords_def WORDNUM_def)
      (auto simp: not_less)
qed (simp add: bms_is_member_def)

lemma bms_first_member_empty: "bms_set a = {} \<Longrightarrow> bms_first_member a = Inr (-1, a)"
proof (cases a)
  case (Some b)
  assume "bms_set a = {}"
  then have "first_loop (words b) 0 = Inr None" using first_loop_correct [of "words b" 0] Some by simp
  then show ?thesis using Some by (simp add: bms_first_member_def)
qed (simp add: bms_first_member_def)

lemma bms_first_member_set:
  "bms_set a \<noteq> {} \<Longrightarrow> \<exists>a'. bms_first_member a = Inr (int (Min (bms_set a)), a') \<and> bms_set a' = bms_set a - {Min (bms_set a)}"
proof (cases a)
  case (Some b)
  assume "bms_set a \<noteq> {}"
  then obtain ws where "first_loop (words b) 0 = Inr (Some (Min (members (words b)), ws))"
    "members ws = members (words b) - {Min (members (words b))}" using first_loop_correct [of "words b" 0] Some by auto
  then show ?thesis using Some by (simp add: bms_first_member_def)
qed simp

interpretation bms: member_set bms_set bms_add_member bms_first_member bms_members
  by unfold_locales (simp_all add: bms_add_member_set bms_first_member_empty bms_first_member_set)

section \<open>Operations on whole sets\<close>

lemma bms_union_set: "bms_set (bms_union a b) = bms_set a \<union> bms_set b"
  by (cases a; cases b) (auto simp: bms_union_def combine_or nwords_def)

lemma bms_intersect_set: "bms_set (bms_intersect a b) = bms_set a \<inter> bms_set b"
  by (cases a; cases b) (auto simp: bms_intersect_def combine_and nwords_def)

lemma bms_difference_set: "bms_set (bms_difference a b) = bms_set a - bms_set b"
  by (cases a; cases b) (auto simp: bms_difference_def combine_diff)

lemma bms_add_members_set: "bms_set (bms_add_members a b) = bms_set a \<union> bms_set b"
  by (cases a; cases b) (auto simp: bms_add_members_def combine_or nwords_def)

lemma bms_int_members_set: "bms_set (bms_int_members a b) = bms_set a \<inter> bms_set b"
  by (cases a; cases b) (auto simp: bms_int_members_def int_words_members)

lemma bms_del_members_set: "bms_set (bms_del_members a b) = bms_set a - bms_set b"
  by (cases a; cases b) (auto simp: bms_del_members_def combine_diff)

lemma bms_join_set: "bms_set (bms_join a b) = bms_set a \<union> bms_set b"
  by (cases a; cases b) (auto simp: bms_join_def combine_or nwords_def)

lemmas bms_operations = bms_union_set bms_intersect_set bms_difference_set bms_add_members_set bms_int_members_set
  bms_del_members_set bms_join_set

lemma bms_equal_iff: "bms_equal a b \<longleftrightarrow> bms_set a = bms_set b"
  using equal_words_iff by (cases a; cases b) (auto simp: bms_equal_def bms_is_empty_iff nwords_def)

lemma bms_is_subset_iff: "bms_is_subset a b \<longleftrightarrow> bms_set a \<subseteq> bms_set b"
  by (cases a; cases b) (auto simp: bms_is_subset_def bms_is_empty_iff subset_words_iff)

lemma bms_overlap_iff: "bms_overlap a b \<longleftrightarrow> bms_set a \<inter> bms_set b \<noteq> {}"
  by (cases a; cases b) (auto simp: bms_overlap_def overlap_words_iff)

lemma bms_nonempty_difference_iff: "bms_nonempty_difference a b \<longleftrightarrow> bms_set a - bms_set b \<noteq> {}"
  by (cases a; cases b) (auto simp: bms_nonempty_difference_def bms_is_empty_iff difference_words_iff)

lemma bms_num_members_card: "bms_num_members a = card (bms_set a)"
  by (cases a) (simp_all add: bms_num_members_def count_loop_card)

lemma bms_membership_card:
  "bms_membership a = (if card (bms_set a) = 0 then BMS_EMPTY_SET else if card (bms_set a) = 1 then BMS_SINGLETON else BMS_MULTIPLE)"
  by (cases a) (simp_all add: bms_membership_def membership_loop_card del: One_nat_def card_eq_0_iff)

lemma bms_singleton_member_eq:
  "bms_singleton_member a =
     (if bms_set a = {} then Inl (Elog ''bitmapset is empty'')
      else if card (bms_set a) = 1 then Inr (Min (bms_set a))
      else Inl (Elog ''bitmapset has multiple members''))"
proof (cases a)
  case (Some b)
  show ?thesis
  proof (cases "members (words b) = {}")
    case True
    then show ?thesis using Some singleton_loop_rest [of "words b" 0 None] by (simp add: bms_singleton_member_def)
  next
    case False
    then show ?thesis
      using Some singleton_loop_correct [OF False, of 0] card_1_Min [of "members (words b)"]
      by (cases "card (members (words b)) = 1") (simp_all add: bms_singleton_member_def)
  qed
qed (simp add: bms_singleton_member_def)

lemma bms_hash_value_strip: "bms_hash_value a = (case a of None \<Rightarrow> 0 | Some a \<Rightarrow>
    if strip (words a) = [] then 0 else hash_any (concat (map le_bytes (strip (words a)))))"
  unfolding bms_hash_value_def take_used_words by (cases a) (simp_all add: used_words_length)

lemma strip_empty: "members ws = {} \<Longrightarrow> strip ws = []"
  using strip_members [of ws "[]"] by simp

lemma bms_hash_value_set: "bms_set a = bms_set b \<Longrightarrow> bms_hash_value a = bms_hash_value b"
proof -
  define w :: "Bitmapset option \<Rightarrow> bitmapword list" where "w c = (case c of None \<Rightarrow> [] | Some c \<Rightarrow> words c)" for c
  have v: "bms_hash_value c = (if strip (w c) = [] then 0 else hash_any (concat (map le_bytes (strip (w c)))))" for c
    by (cases c) (simp_all add: bms_hash_value_strip w_def)
  assume "bms_set a = bms_set b"
  then have "members (w a) = members (w b)" by (cases a; cases b) (simp_all add: w_def)
  then have "strip (w a) = strip (w b)" by (rule strip_members)
  then show ?thesis unfolding v by (simp only:)
qed

section \<open>Properties\<close>

text \<open>C34: the functions of \<open>bitmapset.c\<close> that combine two sets, whether they make a new set or
  recycle their first argument, implement union, intersection and difference, for arrays of any two
  lengths and for the null pointer.\<close>

theorem bms_operations_refine_sets:
  "bms_set (bms_copy a) = bms_set a
   \<and> bms_set (bms_union a b) = bms_set a \<union> bms_set b
   \<and> bms_set (bms_intersect a b) = bms_set a \<inter> bms_set b
   \<and> bms_set (bms_difference a b) = bms_set a - bms_set b
   \<and> bms_set (bms_add_members a b) = bms_set a \<union> bms_set b
   \<and> bms_set (bms_int_members a b) = bms_set a \<inter> bms_set b
   \<and> bms_set (bms_del_members a b) = bms_set a - bms_set b
   \<and> bms_set (bms_join a b) = bms_set a \<union> bms_set b"
  by (simp add: bms_operations)

text \<open>C35: the tests of \<open>bitmapset.c\<close> decide the relations they are named after, and the table
  lookups of \<open>bms_num_members\<close> and the bit trick of \<open>bms_membership\<close> agree with the size of the set.\<close>

theorem bms_tests_decide:
  "(bms_is_empty a \<longleftrightarrow> bms_set a = {})
   \<and> (bms_equal a b \<longleftrightarrow> bms_set a = bms_set b)
   \<and> (bms_is_subset a b \<longleftrightarrow> bms_set a \<subseteq> bms_set b)
   \<and> (bms_overlap a b \<longleftrightarrow> bms_set a \<inter> bms_set b \<noteq> {})
   \<and> (bms_nonempty_difference a b \<longleftrightarrow> bms_set a - bms_set b \<noteq> {})
   \<and> bms_num_members a = card (bms_set a)
   \<and> bms_membership a =
       (if card (bms_set a) = 0 then BMS_EMPTY_SET else if card (bms_set a) = 1 then BMS_SINGLETON else BMS_MULTIPLE)"
  unfolding bms_is_empty_iff bms_equal_iff bms_is_subset_iff bms_overlap_iff bms_nonempty_difference_iff
    bms_num_members_card bms_membership_card by (intro conjI refl)

text \<open>adding, deleting and looking up one member are the operations on sets for every number that is
  not negative, whatever the length of the array; a negative number is an error of all four functions.\<close>

theorem bms_member_operations:
  "if x < 0 then
     bms_make_singleton x = Inl (Elog ''negative bitmapset member not allowed'')
     \<and> bms_add_member a x = Inl (Elog ''negative bitmapset member not allowed'')
     \<and> bms_del_member a x = Inl (Elog ''negative bitmapset member not allowed'')
     \<and> bms_is_member x a = Inl (Elog ''negative bitmapset member not allowed'')
   else
     (\<exists>b. bms_make_singleton x = Inr b \<and> bms_set b = {nat x})
     \<and> (\<exists>b. bms_add_member a x = Inr b \<and> bms_set b = insert (nat x) (bms_set a))
     \<and> (\<exists>b. bms_del_member a x = Inr b \<and> bms_set b = bms_set a - {nat x})
     \<and> bms_is_member x a = Inr (nat x \<in> bms_set a)"
proof (cases "x < 0")
  case True
  then show ?thesis by (simp add: bms_make_singleton_def bms_add_member_def bms_del_member_def bms_is_member_def)
next
  case False
  then have "0 \<le> x" by simp
  then show ?thesis
    using False bms_make_singleton_set [of x] bms_add_member_set [of x a] bms_del_member_set [of x a] bms_is_member_iff [of x a]
    by auto
qed

text \<open>\<open>bms_singleton_member\<close> returns the member of a set of one and reports every other set.\<close>

theorem bms_singleton_member_cases:
  "bms_singleton_member a =
     (if bms_set a = {} then Inl (Elog ''bitmapset is empty'')
      else if card (bms_set a) = 1 then Inr (Min (bms_set a))
      else Inl (Elog ''bitmapset has multiple members''))"
  by (rule bms_singleton_member_eq)

text \<open>C36: the loop of the callers over \<open>bms_first_member\<close> ends after one call more than there are members,
  having processed every member once and in increasing order; with less it has not ended.\<close>

theorem bms_iteration_ends:
  "bms_members n a = (if card (bms_set a) < n then Inr (sorted_list_of_set (bms_set a)) else Inl Diverges)"
  using bms.loop_sorted [of a n] bms.loop_short [of n a] by simp

text \<open>members collected one by one into an empty set, in any order and with repetitions, come back
  from the loop sorted and without repetitions.\<close>

theorem bms_collect_then_iterate:
  assumes "\<forall>x \<in> set xs. 0 \<le> x"
  shows "\<exists>a. add_all bms_add_member None xs = Inr a \<and> bms_members (length xs + 1) a = Inr (sorted_list_of_set (nat ` set xs))"
  using bms.loop_after_add_all [of xs None] assms by simp

theorem bms_collect_then_iterate_witness:
  "\<exists>a. add_all bms_add_member None [70, 3, 70] = Inr a \<and> bms_members 4 a = Inr [3, 70]"
proof -
  have "nat ` set [70, 3, 70] = set [3, 70]" by auto
  then have "sorted_list_of_set (nat ` set [70, 3, 70]) = [3, 70]"
    by (simp only: sorted_list_of_set.idem_if_sorted_distinct) simp
  moreover have "length [70, 3, 70 :: int] + 1 = 4" by simp
  moreover have "\<forall>x \<in> set [70, 3, 70]. (0 :: int) \<le> x" by simp
  ultimately show ?thesis using bms_collect_then_iterate [of "[70, 3, 70]"] by (simp only:)
qed

text \<open>C37: sets that \<open>bms_equal\<close> takes for equal have the same hash value, also when their arrays differ in
  trailing zero words or one is the null pointer.\<close>

theorem bms_hash_respects_equal:
  assumes "bms_equal a b"
  shows "bms_hash_value a = bms_hash_value b"
  using assms bms_hash_value_set unfolding bms_equal_iff by blast

theorem bms_hash_respects_equal_witness:
  "bms_hash_value (Some \<lparr>words = [5]\<rparr>) = bms_hash_value (Some \<lparr>words = [5, 0, 0]\<rparr>)"
  by (rule bms_hash_respects_equal) (simp add: bms_equal_def nwords_def)

text \<open>the shortcut \<open>hash_uint32\<close> computes what \<open>hash_any\<close> does on the four bytes of the word.\<close>

theorem hash_uint32_is_hash_any: "hash_uint32 k = hash_any (le_bytes k)"
  by (simp add: hash_any_le_bytes)

text \<open>a number has the same hash value as an \<open>int2\<close>, an \<open>int4\<close> and an \<open>int8\<close>, negative numbers included.\<close>

theorem hash_integers_compatible: "hashint8 (scast x) = hashint4 x \<and> hashint8 (scast y) = hashint2 y \<and> hashint4 (scast y) = hashint2 y"
  by (simp add: hashint8_int4 hashint8_int2) (simp add: hashint4_def hashint2_def)

text \<open>the macro \<open>mix\<close> is reversible: \<open>unmix\<close> undoes it, so two different states stay different.\<close>

theorem mix_reversible: "unmix (mix s) = s \<and> mix (unmix s) = s"
  by (simp add: unmix_mix)

end
