(* ===== verification/ProvAttrName.thy ===== *)
theory ProvAttrName
  imports CString TransStatic
begin

text \<open>
  Names of provenance attributes: \<open>src/backend/provrewrite/util/prov_attrname.c\<close>.  The name of a
  provenance attribute is made of a prefix, the name of the relation with its schema and the number
  of the reference to it, and the name of the attribute with its underscores doubled.

  The counters of references are the two global lists of the file.  The system catalog is a
  parameter: the name of the schema and the name of a relation, \<open>None\<close> for a null pointer.
\<close>

section \<open>State\<close>

record OidRef =
  relid :: nat
  refCounter :: "32 word"

record RTEref =
  ref_name :: string
  rteRefCounter :: "32 word"

record attr_state =
  relRefCount :: "OidRef list"
  queryRefCount :: "RTEref list"

record catalog =
  get_rel_namespace_name :: "nat \<Rightarrow> string option"
  get_rel_name :: "nat \<Rightarrow> string option"

text \<open>The fields of a range table entry that are read; an alias is its \<open>aliasname\<close>.\<close>

record rte =
  rtekind :: "unit RangeTblEntry"
  rte_relid :: nat
  isProvBase :: bool
  alias_name :: "string option"
  eref_name :: "string option"

definition ProvPraefix :: string where
  "ProvPraefix = ''prov_''"

definition TransProvName :: string where
  "TransProvName = ''trans_prov''"

section \<open>Escaping\<close>

fun escaped_length :: "string \<Rightarrow> nat" where
  "escaped_length [] = 1"
| "escaped_length (c # s) = (if c = CHR ''_'' then 2 else 1) + escaped_length s"

fun escape_copy :: "string \<Rightarrow> string" where
  "escape_copy [] = []"
| "escape_copy (c # s) = (if c = CHR ''_'' then ''__'' @ escape_copy s else c # escape_copy s)"

definition escapeAttrName :: "string \<Rightarrow> string res" where
  "escapeAttrName name = in_buffer (escaped_length name) (escape_copy name)"

section \<open>Counting references\<close>

fun rel_ref_loop :: "OidRef list \<Rightarrow> nat \<Rightarrow> bool \<Rightarrow> (32 word \<times> OidRef list) option" where
  "rel_ref_loop [] rid increment = None"
| "rel_ref_loop (r # rs) rid increment =
     (if relid r = rid then
        let r = (if increment then r\<lparr>refCounter := refCounter r + 1\<rparr> else r) in Some (refCounter r, r # rs)
      else map_option (\<lambda>(n, rs). (n, r # rs)) (rel_ref_loop rs rid increment))"

definition getRelationRefNum :: "attr_state \<Rightarrow> nat \<Rightarrow> bool \<Rightarrow> 32 word \<times> attr_state" where
  "getRelationRefNum st rid increment =
     (case rel_ref_loop (relRefCount st) rid increment of
        Some (n, rs) \<Rightarrow> (n, st\<lparr>relRefCount := rs\<rparr>)
      | None \<Rightarrow> (0, st\<lparr>relRefCount := relRefCount st @ [\<lparr>relid = rid, refCounter = 0\<rparr>]\<rparr>))"

fun query_ref_loop :: "RTEref list \<Rightarrow> string \<Rightarrow> bool \<Rightarrow> (32 word \<times> RTEref list) option" where
  "query_ref_loop [] name increment = None"
| "query_ref_loop (r # rs) name increment =
     (if name = ref_name r then
        let r = (if increment then r\<lparr>rteRefCounter := rteRefCounter r + 1\<rparr> else r) in Some (rteRefCounter r, r # rs)
      else map_option (\<lambda>(n, rs). (n, r # rs)) (query_ref_loop rs name increment))"

text \<open>The name of the entry: its alias, else the name from the query, else that of the view.\<close>

definition rte_name :: "catalog \<Rightarrow> rte \<Rightarrow> string res" where
  "rte_name cat r =
     (case alias_name r of
        Some name \<Rightarrow> Inr name
      | None \<Rightarrow>
          (case eref_name r of
             Some name \<Rightarrow> Inr name
           | None \<Rightarrow>
               res_bind (cassert (rte_relid r \<noteq> 0)) (\<lambda>_.
                 case get_rel_name cat (rte_relid r) of None \<Rightarrow> Inl NullDeref | Some name \<Rightarrow> Inr name)))"

definition getQueryRefNum :: "catalog \<Rightarrow> attr_state \<Rightarrow> rte \<Rightarrow> bool \<Rightarrow> (32 word \<times> rte \<times> attr_state) res" where
  "getQueryRefNum cat st r increment =
     (if rtekind r = RTE_RELATION \<and> \<not> isProvBase r
      then let (n, st) = getRelationRefNum st (rte_relid r) increment in Inr (n, r, st)
      else
        res_bind (rte_name cat r) (\<lambda>name.
          let r = r\<lparr>alias_name := Some name\<rparr> in
          case query_ref_loop (queryRefCount st) name increment of
            Some (n, rs) \<Rightarrow> Inr (n, r, st\<lparr>queryRefCount := rs\<rparr>)
          | None \<Rightarrow>
              Inr (0, r, st\<lparr>queryRefCount := queryRefCount st @ [\<lparr>ref_name = name, rteRefCounter = 0\<rparr>]\<rparr>)))"

definition resetRelReferences :: "attr_state \<Rightarrow> attr_state" where
  "resetRelReferences st = st\<lparr>relRefCount := [], queryRefCount := []\<rparr>"

section \<open>Names\<close>

text \<open>The number of the reference, printed into a buffer of \<open>8 * sizeof(int) + 1\<close> bytes when positive.\<close>

definition with_number :: "nat \<Rightarrow> string \<Rightarrow> 32 word \<Rightarrow> string res" where
  "with_number len name n =
     (if 0 < sint n then
        res_bind (in_buffer 33 (show_int (sint n))) (\<lambda>numberStr.
          in_buffer (len + length numberStr + 1) (name @ ''_'' @ numberStr))
      else in_buffer len name)"

definition catalog_name :: "string option \<Rightarrow> string res" where
  "catalog_name n = (case n of None \<Rightarrow> Inl NullDeref | Some s \<Rightarrow> Inr s)"

definition getRelationName :: "catalog \<Rightarrow> attr_state \<Rightarrow> nat \<Rightarrow> (string \<times> attr_state) res" where
  "getRelationName cat st rid =
     (let (n, st) = getRelationRefNum st rid False in
      res_bind (catalog_name (get_rel_namespace_name cat rid)) (\<lambda>schema.
      res_bind (catalog_name (get_rel_name cat rid)) (\<lambda>relname.
      res_bind (with_number (length schema + length relname + 2) (schema @ ''_'' @ relname) n) (\<lambda>result.
        Inr (result, st)))))"

definition getRelationNameUnqualified :: "catalog \<Rightarrow> nat \<Rightarrow> string res" where
  "getRelationNameUnqualified cat rid =
     res_bind (catalog_name (get_rel_namespace_name cat rid)) (\<lambda>schema.
     res_bind (catalog_name (get_rel_name cat rid)) (\<lambda>relname.
       in_buffer (length schema + length relname + 2) (schema @ ''.'' @ relname)))"

definition getQueryName :: "catalog \<Rightarrow> attr_state \<Rightarrow> rte \<Rightarrow> (string \<times> rte \<times> attr_state) res" where
  "getQueryName cat st r =
     res_bind (getQueryRefNum cat st r False) (\<lambda>(n, r, st).
     res_bind (catalog_name (alias_name r)) (\<lambda>name.
     res_bind (with_number (length name + 2) name n) (\<lambda>result. Inr (result, r, st))))"

text \<open>For other kinds of entries \<open>provRelName\<close> is not set.\<close>

definition createProvAttrName :: "catalog \<Rightarrow> attr_state \<Rightarrow> rte \<Rightarrow> string \<Rightarrow> (string \<times> rte \<times> attr_state) res" where
  "createProvAttrName cat st r name =
     res_bind (case rtekind r of
                 RTE_RELATION \<Rightarrow> res_bind (getRelationName cat st (rte_relid r)) (\<lambda>(n, st). Inr (n, r, st))
               | RTE_SUBQUERY _ \<Rightarrow> getQueryName cat st r
               | _ \<Rightarrow> Inl NullDeref) (\<lambda>(provRelName, r, st).
     res_bind (escapeAttrName name) (\<lambda>escapedName.
     res_bind (in_buffer (length ProvPraefix + length provRelName + length escapedName + 2)
       (ProvPraefix @ provRelName @ ''_'' @ escapedName)) (\<lambda>attrName. Inr (attrName, r, st))))"

definition createExternalProvAttrName :: "string \<Rightarrow> string res" where
  "createExternalProvAttrName name =
     res_bind (escapeAttrName name) (\<lambda>escapedName.
       in_buffer (length ProvPraefix + length escapedName + 1) (ProvPraefix @ escapedName))"

definition isProvAttr :: "string option \<Rightarrow> bool" where
  "isProvAttr resname =
     (case resname of
        None \<Rightarrow> False
      | Some s \<Rightarrow>
          if length s < 5 then False
          else if starts_with ProvPraefix s then True
          else if length s < 10 then False
          else starts_with TransProvName s)"

section \<open>Buffers are large enough\<close>

lemma escaped_length_fits: "length (escape_copy s) < escaped_length s"
  by (induction s) auto

lemma escapeAttrName_ok [simp]: "escapeAttrName s = Inr (escape_copy s)"
  by (simp add: escapeAttrName_def in_buffer_def escaped_length_fits)

lemma int32_printed: "length (show_int (sint (n :: 32 word))) < 33"
proof -
  have "\<bar>sint n\<bar> < 10 ^ Suc 18" using sint_ge [of n] sint_lt [of n] by (simp add: abs_if)
  then show ?thesis using show_int_length [of "sint n" 18] by simp
qed

lemma with_number_ok: "length name < len \<Longrightarrow>
    with_number len name n = Inr (if 0 < sint n then name @ ''_'' @ show_int (sint n) else name)"
  using int32_printed [of n] by (simp add: with_number_def in_buffer_def)

text \<open>The name of the relation part, as specified.\<close>

definition reference_name :: "string \<Rightarrow> 32 word \<Rightarrow> string" where
  "reference_name name n = (if 0 < sint n then name @ ''_'' @ show_int (sint n) else name)"

lemma createProvAttrName_relation:
  assumes "rtekind r = RTE_RELATION" "get_rel_namespace_name cat (rte_relid r) = Some schema"
    "get_rel_name cat (rte_relid r) = Some relname"
  shows "createProvAttrName cat st r name =
    Inr (''prov_'' @ reference_name (schema @ ''_'' @ relname) (fst (getRelationRefNum st (rte_relid r) False)) @ ''_'' @
           escape_copy name, r, snd (getRelationRefNum st (rte_relid r) False))"
  using assms
  by (simp add: createProvAttrName_def getRelationName_def catalog_name_def with_number_ok reference_name_def
      split_beta Let_def ProvPraefix_def in_buffer_def)

lemma createProvAttrName_query:
  assumes "rtekind r = RTE_SUBQUERY q" "getQueryRefNum cat st r False = Inr (n, r', st')" "alias_name r' = Some a"
  shows "createProvAttrName cat st r name = Inr (''prov_'' @ reference_name a n @ ''_'' @ escape_copy name, r', st')"
  using assms
  by (simp add: createProvAttrName_def getQueryName_def catalog_name_def with_number_ok reference_name_def
      ProvPraefix_def in_buffer_def)

section \<open>Escaping is reversible\<close>

fun unescape :: "string \<Rightarrow> string" where
  "unescape [] = []"
| "unescape [c] = [c]"
| "unescape (c # d # s) = (if c = CHR ''_'' \<and> d = CHR ''_'' then CHR ''_'' # unescape s else c # unescape (d # s))"

lemma unescape_escape: "unescape (escape_copy s) = s"
proof (induction s)
  case (Cons c s)
  show ?case
  proof (cases "c = CHR ''_''")
    case False
    then have "unescape (c # escape_copy s) = c # unescape (escape_copy s)" by (cases "escape_copy s") auto
    with False Cons show ?thesis by simp
  qed (use Cons in simp)
qed simp

lemma isProvAttr_created: "isProvAttr (Some (''prov_'' @ s))"
  by (simp add: isProvAttr_def ProvPraefix_def starts_with_def)

section \<open>Counters\<close>

definition ref_count :: "attr_state \<Rightarrow> nat \<Rightarrow> 32 word option" where
  "ref_count st rid = map_option refCounter (find (\<lambda>r. relid r = rid) (relRefCount st))"

lemma rel_ref_loop_find:
  "map_option fst (rel_ref_loop rs rid inc) =
     map_option (\<lambda>r. refCounter r + (if inc then 1 else 0)) (find (\<lambda>r. relid r = rid) rs)"
  by (induction rs) (auto simp: Let_def option.map_comp comp_def split_beta)

lemma rel_ref_loop_other:
  "rel_ref_loop rs rid inc = Some (n, rs') \<Longrightarrow>
     map_option refCounter (find (\<lambda>r. relid r = rid') rs') =
       (if rid' = rid then Some n else map_option refCounter (find (\<lambda>r. relid r = rid') rs))"
  by (induction rs arbitrary: rs') (auto simp: Let_def split: if_splits)

lemma find_append: "find P (xs @ ys) = (case find P xs of None \<Rightarrow> find P ys | Some x \<Rightarrow> Some x)"
  by (induction xs) auto

lemma getRelationRefNum_count:
  assumes "getRelationRefNum st rid inc = (n, st')"
  shows "n = (case ref_count st rid of None \<Rightarrow> 0 | Some m \<Rightarrow> if inc then m + 1 else m) \<and>
     ref_count st' rid' = (if rid' = rid then Some n else ref_count st rid')"
proof (cases "rel_ref_loop (relRefCount st) rid inc")
  case None
  then show ?thesis
    using assms rel_ref_loop_find [of "relRefCount st" rid inc]
    by (auto simp: getRelationRefNum_def ref_count_def find_append split: option.splits)
next
  case (Some p)
  obtain m rs where p: "p = (m, rs)" by fastforce
  obtain r where r: "find (\<lambda>r. relid r = rid) (relRefCount st) = Some r" "m = refCounter r + (if inc then 1 else 0)"
    using rel_ref_loop_find [of "relRefCount st" rid inc] Some p
    by (cases "find (\<lambda>r. relid r = rid) (relRefCount st)") auto
  then show ?thesis
    using assms Some p rel_ref_loop_other [of "relRefCount st" rid inc m rs rid']
    by (auto simp: getRelationRefNum_def ref_count_def)
qed

end
