(* ===== verification/AttrProps.thy ===== *)
theory AttrProps
  imports ProvAttrName LdvClientSpec
begin

text \<open>
  Properties of the names of provenance attributes, on their own and together with the statements
  the capturing client builds around them.
\<close>

section \<open>Underscores\<close>

lemma escape_inj: "escape_copy a = escape_copy b \<longleftrightarrow> a = b"
  by (metis unescape_escape)

lemma rel_ref_loop_keep:
  "rel_ref_loop rs rid False = map_option (\<lambda>r. (refCounter r, rs)) (find (\<lambda>r. relid r = rid) rs)"
  by (induction rs) (auto simp: Let_def option.map_comp comp_def)

section \<open>Properties\<close>

text \<open>C38: the statements of the capturing client read the right column.  For the first reference to a
  table of schema public, the name the server gives to the provenance of attribute \<open>_prov_rowid\<close> is
  the one that \<open>prv_extractTuplesFromTable\<close> compares in its statement.\<close>

theorem extraction_reads_created_column:
  assumes "rtekind r = RTE_RELATION" "get_rel_namespace_name cat (rte_relid r) = Some ''public''"
    "get_rel_name cat (rte_relid r) = Some t" "ref_count st (rte_relid r) \<in> {None, Some 0}"
  shows "\<exists>col st' pre post. createProvAttrName cat st r ''_prov_rowid'' = Inr (col, r, st') \<and>
    extract_sql sess t v = pre @ '' WHERE '' @ t @ ''._prov_rowid = '' @ v @ ''.'' @ col @ '' '' @ post"
proof -
  let ?n = "fst (getRelationRefNum st (rte_relid r) False)"
  have "?n = 0" using getRelationRefNum_count [of st "rte_relid r" False ?n] assms(4) by (auto simp: prod_eq_iff)
  then have "createProvAttrName cat st r ''_prov_rowid'' =
      Inr (''prov_public_'' @ t @ ''___prov__rowid'', r, snd (getRelationRefNum st (rte_relid r) False))"
    using createProvAttrName_relation [OF assms(1-3)] by (simp add: reference_name_def)
  moreover have "extract_sql sess t v = (''UPDATE '' @ t @ '' SET _prov_insertedby = '' @ show_int sess @ '' FROM '' @ v) @ '' WHERE '' @ t @
      ''._prov_rowid = '' @ v @ ''.'' @ (''prov_public_'' @ t @ ''___prov__rowid'') @ '' '' @
      ''AND '' @ t @ ''._prov_insertedby = 0 RETURNING '' @ t @ ''.*;''"
    by (simp add: extract_sql_def)
  ultimately show ?thesis by blast
qed

text \<open>A catalog with one table and an entry of the range table for it.\<close>

definition one_table :: catalog where
  "one_table = \<lparr>get_rel_namespace_name = (\<lambda>rid. Some ''public''), get_rel_name = (\<lambda>rid. Some ''t'')\<rparr>"

definition table_entry :: rte where
  "table_entry = \<lparr>rtekind = RTE_RELATION, rte_relid = 16384, isProvBase = False, alias_name = None, eref_name = Some ''t''\<rparr>"

definition fresh_counters :: attr_state where
  "fresh_counters = \<lparr>relRefCount = [], queryRefCount = []\<rparr>"

theorem extraction_reads_created_column_witness:
  "\<exists>col st' pre post. createProvAttrName one_table fresh_counters table_entry ''_prov_rowid'' = Inr (col, table_entry, st') \<and>
    extract_sql 7 ''t'' ''v'' = pre @ '' WHERE '' @ ''t'' @ ''._prov_rowid = '' @ ''v'' @ ''.'' @ col @ '' '' @ post"
  by (rule extraction_reads_created_column) (simp_all add: one_table_def table_entry_def fresh_counters_def ref_count_def)

text \<open>C39: the rows that a query reads through a further reference to a table have a column of their own
  in the view, numbered, which is not the column that the statements of the client read.\<close>

theorem further_reference_not_extracted:
  assumes "rtekind r = RTE_RELATION" "get_rel_namespace_name cat (rte_relid r) = Some ''public''"
    "get_rel_name cat (rte_relid r) = Some t" "ref_count st (rte_relid r) = Some n" "0 < sint n"
  shows "\<exists>col st'. createProvAttrName cat st r ''_prov_rowid'' = Inr (col, r, st') \<and>
    col = ''prov_public_'' @ t @ ''_'' @ show_int (sint n) @ ''___prov__rowid'' \<and> col \<noteq> ''prov_public_'' @ t @ ''___prov__rowid''"
proof -
  let ?n = "fst (getRelationRefNum st (rte_relid r) False)"
  have n: "?n = n" using getRelationRefNum_count [of st "rte_relid r" False ?n] assms(4) by (auto simp: prod_eq_iff)
  then have "createProvAttrName cat st r ''_prov_rowid'' =
      Inr (''prov_public_'' @ t @ ''_'' @ show_int (sint n) @ ''___prov__rowid'', r, snd (getRelationRefNum st (rte_relid r) False))"
    using createProvAttrName_relation [OF assms(1-3)] assms(5) by (simp add: reference_name_def)
  moreover have "length (''prov_public_'' @ t @ ''_'' @ show_int (sint n) @ ''___prov__rowid'') \<noteq>
      length (''prov_public_'' @ t @ ''___prov__rowid'')" by simp
  ultimately show ?thesis by metis
qed

theorem further_reference_not_extracted_witness:
  "\<exists>col st'. createProvAttrName one_table (snd (getRelationRefNum (snd (getRelationRefNum fresh_counters 16384 True)) 16384 True))
      table_entry ''_prov_rowid'' = Inr (col, table_entry, st') \<and>
    col = ''prov_public_'' @ ''t'' @ ''_'' @ show_int (sint (1 :: 32 word)) @ ''___prov__rowid'' \<and>
    col \<noteq> ''prov_public_'' @ ''t'' @ ''___prov__rowid''"
  by (rule further_reference_not_extracted)
    (simp_all add: one_table_def table_entry_def fresh_counters_def ref_count_def getRelationRefNum_def)

text \<open>C40: names of provenance attributes are not unique: reference \<open>n\<close> to a relation gets the names of the
  first reference to a relation whose own name ends in an underscore and that number.\<close>

theorem attribute_names_collide:
  assumes "rtekind r = RTE_RELATION" "rtekind s = RTE_RELATION"
    "get_rel_namespace_name cat (rte_relid r) = Some schema" "get_rel_namespace_name cat (rte_relid s) = Some schema"
    "get_rel_name cat (rte_relid r) = Some t" "get_rel_name cat (rte_relid s) = Some (t @ ''_'' @ show_int (sint n))"
    "ref_count st (rte_relid r) = Some n" "0 < sint n" "ref_count st (rte_relid s) = Some 0"
  shows "\<exists>col. createProvAttrName cat st r name = Inr (col, r, st) \<and> createProvAttrName cat st s name = Inr (col, s, st)"
proof -
  have get: "getRelationRefNum st rid False = (m, st)" if "ref_count st rid = Some m" for rid m
    using that rel_ref_loop_keep [of "relRefCount st" rid] by (auto simp: getRelationRefNum_def ref_count_def)
  show ?thesis
    using createProvAttrName_relation [OF assms(1,3,5), of st name] createProvAttrName_relation [OF assms(2,4,6), of st name]
      get [OF assms(7)] get [OF assms(9)] assms(8) by (simp add: reference_name_def)
qed

theorem attribute_names_collide_witness:
  "\<exists>col. createProvAttrName \<lparr>get_rel_namespace_name = (\<lambda>rid. Some ''public''),
        get_rel_name = (\<lambda>rid. if rid = 1 then Some ''a'' else Some (''a_'' @ show_int (sint (1 :: 32 word))))\<rparr>
      \<lparr>relRefCount = [\<lparr>relid = 1, refCounter = 1\<rparr>, \<lparr>relid = 2, refCounter = 0\<rparr>], queryRefCount = []\<rparr>
      (table_entry\<lparr>rte_relid := 1\<rparr>) ''x'' = Inr (col, table_entry\<lparr>rte_relid := 1\<rparr>,
      \<lparr>relRefCount = [\<lparr>relid = 1, refCounter = 1\<rparr>, \<lparr>relid = 2, refCounter = 0\<rparr>], queryRefCount = []\<rparr>) \<and>
    createProvAttrName \<lparr>get_rel_namespace_name = (\<lambda>rid. Some ''public''),
        get_rel_name = (\<lambda>rid. if rid = 1 then Some ''a'' else Some (''a_'' @ show_int (sint (1 :: 32 word))))\<rparr>
      \<lparr>relRefCount = [\<lparr>relid = 1, refCounter = 1\<rparr>, \<lparr>relid = 2, refCounter = 0\<rparr>], queryRefCount = []\<rparr>
      (table_entry\<lparr>rte_relid := 2\<rparr>) ''x'' = Inr (col, table_entry\<lparr>rte_relid := 2\<rparr>,
      \<lparr>relRefCount = [\<lparr>relid = 1, refCounter = 1\<rparr>, \<lparr>relid = 2, refCounter = 0\<rparr>], queryRefCount = []\<rparr>)"
  by (rule attribute_names_collide [where t = "''a''" and n = 1 and schema = "''public''"])
    (simp_all add: table_entry_def ref_count_def)

text \<open>the doubling of underscores keeps the names of external provenance attributes apart, and
  every name made is recognised as one of a provenance attribute.\<close>

theorem external_names_apart:
  "(createExternalProvAttrName a = createExternalProvAttrName b \<longleftrightarrow> a = b)
   \<and> (\<exists>s. createExternalProvAttrName a = Inr s \<and> isProvAttr (Some s) \<and> unescape (drop 5 s) = a)"
  by (auto simp: createExternalProvAttrName_def in_buffer_def ProvPraefix_def escape_inj unescape_escape isProvAttr_created
      isProvAttr_created [simplified])

text \<open>numbering of references.  The first request for a relation returns 0; each further request
  that increments returns one more than the last number, whatever is requested for other relations.\<close>

theorem reference_numbers:
  assumes "getRelationRefNum st rid inc = (n, st')"
  shows "n = (case ref_count st rid of None \<Rightarrow> 0 | Some m \<Rightarrow> if inc then m + 1 else m) \<and>
     ref_count st' rid' = (if rid' = rid then Some n else ref_count st rid')"
  using getRelationRefNum_count [OF assms] by blast

theorem reference_numbers_witness:
  "getRelationRefNum fresh_counters 5 True = (0, \<lparr>relRefCount = [\<lparr>relid = 5, refCounter = 0\<rparr>], queryRefCount = []\<rparr>) \<and>
   ref_count \<lparr>relRefCount = [\<lparr>relid = 5, refCounter = 0\<rparr>], queryRefCount = []\<rparr> 5 = Some 0"
  using reference_numbers [of fresh_counters 5 True 0 "\<lparr>relRefCount = [\<lparr>relid = 5, refCounter = 0\<rparr>], queryRefCount = []\<rparr>" 5]
  by (simp add: getRelationRefNum_def fresh_counters_def)

end
