(* ===== verification/Lz.thy ===== *)
theory Lz
  imports HashFunc
begin

text \<open>
  The compressor of the server: \<open>src/backend/utils/adt/pg_lzcompress.c\<close>.  Memory areas are lists of
  bytes and pointers into them are positions; a read or a write outside of an area is a fault.  The
  history is an array of entries that are linked by their numbers, \<open>None\<close> for the null pointer.
\<close>

section \<open>Memory areas\<close>

definition rd :: "uchar list \<Rightarrow> nat \<Rightarrow> uchar res" where
  "rd area i = (if i < length area then Inr (area ! i) else Inl OutOfBounds)"

definition wr :: "uchar list \<Rightarrow> nat \<Rightarrow> uchar \<Rightarrow> uchar list res" where
  "wr area i b = (if i < length area then Inr (area[i := b]) else Inl OutOfBounds)"

section \<open>Types and constants\<close>

definition PGLZ_HISTORY_MASK :: "32 word" where "PGLZ_HISTORY_MASK = 8191"
definition PGLZ_HISTORY_SIZE :: nat where "PGLZ_HISTORY_SIZE = 4096"
definition PGLZ_MAX_MATCH :: nat where "PGLZ_MAX_MATCH = 273"

record PGLZ_HistEntry =
  hnext :: "nat option"
  hprev :: "nat option"
  hindex :: nat
  hpos :: nat

record PGLZ_Strategy =
  min_input_size :: int
  force_input_size :: int
  min_comp_rate :: int
  match_size_good :: int
  match_size_drop :: int

definition PGLZ_strategy_default :: PGLZ_Strategy where
  "PGLZ_strategy_default =
     \<lparr>min_input_size = 256, force_input_size = 6144, min_comp_rate = 20, match_size_good = 128, match_size_drop = 10\<rparr>"

definition PGLZ_strategy_always :: PGLZ_Strategy where
  "PGLZ_strategy_always =
     \<lparr>min_input_size = 0, force_input_size = 0, min_comp_rate = 0, match_size_good = 128, match_size_drop = 6\<rparr>"

text \<open>A datum is its header of 8 bytes and the area behind it.\<close>

record PGLZ_Header =
  vl_len :: nat
  rawsize :: nat
  area :: "uchar list"

definition PGLZ_MAX_OUTPUT :: "nat \<Rightarrow> nat" where
  "PGLZ_MAX_OUTPUT dlen = dlen + 4 + 8"

text \<open>The arrays of the history with the two variables of the compressor that belong to them.\<close>

record history =
  hist_start :: "nat \<Rightarrow> nat option"
  hist_entries :: "nat \<Rightarrow> PGLZ_HistEntry"
  hist_next :: nat
  hist_recycle :: bool

text \<open>The output: the area, the next position, the position of the control byte (\<open>None\<close> is the dummy).\<close>

record lz_output =
  buf :: "uchar list"
  bp :: nat
  ctrlp :: "nat option"
  ctrlb :: uchar
  ctrl :: uchar

section \<open>History\<close>

text \<open>Characters are signed and extended to an \<open>int\<close>.\<close>

definition pglz_hist_idx :: "uchar list \<Rightarrow> nat \<Rightarrow> nat res" where
  "pglz_hist_idx src s =
     (if length src - s < 4 then res_bind (rd src s) (\<lambda>c. Inr (unat ((scast c :: 32 word) AND PGLZ_HISTORY_MASK)))
      else
        res_bind (rd src s) (\<lambda>c0. res_bind (rd src (s + 1)) (\<lambda>c1.
        res_bind (rd src (s + 2)) (\<lambda>c2. res_bind (rd src (s + 3)) (\<lambda>c3.
          Inr (unat ((push_bit 9 (scast c0 :: 32 word) XOR push_bit 6 (scast c1) XOR push_bit 3 (scast c2) XOR scast c3)
            AND PGLZ_HISTORY_MASK)))))))"

definition set_entry :: "nat \<Rightarrow> (PGLZ_HistEntry \<Rightarrow> PGLZ_HistEntry) \<Rightarrow> history \<Rightarrow> history" where
  "set_entry e f h = h\<lparr>hist_entries := (hist_entries h)(e := f (hist_entries h e))\<rparr>"

definition delink :: "nat \<Rightarrow> history \<Rightarrow> history" where
  "delink e h =
     (let myhe = hist_entries h e;
          h = (case hprev myhe of
                 None \<Rightarrow> h\<lparr>hist_start := (hist_start h)(hindex myhe := hnext myhe)\<rparr>
               | Some p \<Rightarrow> set_entry p (\<lambda>x. x\<lparr>hnext := hnext myhe\<rparr>) h)
      in case hnext myhe of None \<Rightarrow> h | Some n \<Rightarrow> set_entry n (\<lambda>x. x\<lparr>hprev := hprev myhe\<rparr>) h)"

definition link_entry :: "nat \<Rightarrow> nat \<Rightarrow> nat \<Rightarrow> history \<Rightarrow> history" where
  "link_entry e hi s h =
     (let first = hist_start h hi;
          h = set_entry e (\<lambda>_. \<lparr>hnext = first, hprev = None, hindex = hi, hpos = s\<rparr>) h;
          h = (case first of None \<Rightarrow> h | Some f \<Rightarrow> set_entry f (\<lambda>x. x\<lparr>hprev := Some e\<rparr>) h)
      in h\<lparr>hist_start := (hist_start h)(hi := Some e)\<rparr>)"

definition pglz_hist_add :: "uchar list \<Rightarrow> nat \<Rightarrow> history \<Rightarrow> history res" where
  "pglz_hist_add src s h =
     res_bind (pglz_hist_idx src s) (\<lambda>hi.
       let e = hist_next h;
           h = (if hist_recycle h then delink e h else h);
           h = link_entry e hi s h
       in if Suc e \<ge> PGLZ_HISTORY_SIZE then Inr (h\<lparr>hist_next := 0, hist_recycle := True\<rparr>)
          else Inr (h\<lparr>hist_next := Suc e\<rparr>))"

section \<open>Output\<close>

definition put_ctrl :: "lz_output \<Rightarrow> lz_output res" where
  "put_ctrl p =
     (case ctrlp p of
        None \<Rightarrow> Inr p
      | Some i \<Rightarrow> res_bind (wr (buf p) i (ctrlb p)) (\<lambda>b. Inr (p\<lparr>buf := b\<rparr>)))"

definition pglz_out_ctrl :: "lz_output \<Rightarrow> lz_output res" where
  "pglz_out_ctrl p =
     (if ctrl p AND 255 = 0 then
        res_bind (put_ctrl p) (\<lambda>p. Inr (p\<lparr>ctrlp := Some (bp p), bp := bp p + 1, ctrlb := 0, ctrl := 1\<rparr>))
      else Inr p)"

definition put_byte :: "uchar \<Rightarrow> lz_output \<Rightarrow> lz_output res" where
  "put_byte b p = res_bind (wr (buf p) (bp p) b) (\<lambda>a. Inr (p\<lparr>buf := a, bp := bp p + 1\<rparr>))"

definition pglz_out_literal :: "uchar \<Rightarrow> lz_output \<Rightarrow> lz_output res" where
  "pglz_out_literal b p =
     res_bind (pglz_out_ctrl p) (\<lambda>p.
     res_bind (put_byte b p) (\<lambda>p.
       Inr (p\<lparr>ctrl := push_bit 1 (ctrl p)\<rparr>)))"

definition pglz_out_tag :: "nat \<Rightarrow> nat \<Rightarrow> lz_output \<Rightarrow> lz_output res" where
  "pglz_out_tag len off p =
     res_bind (pglz_out_ctrl p) (\<lambda>p.
       let p = p\<lparr>ctrlb := ctrlb p OR ctrl p\<rparr>;
           p = p\<lparr>ctrl := push_bit 1 (ctrl p)\<rparr>;
           high = drop_bit 4 (of_nat off AND 0xf00 :: 32 word)
       in if len > 17 then
            res_bind (put_byte (ucast (high OR 0x0f)) p) (\<lambda>p.
            res_bind (put_byte (ucast (of_nat off AND 0xff :: 32 word)) p) (\<lambda>p.
              put_byte (of_nat (len - 18)) p))
          else
            res_bind (put_byte (ucast (high OR of_nat (len - 3))) p) (\<lambda>p.
              put_byte (ucast (of_nat off AND 0xff :: 32 word)) p))"

section \<open>Matches\<close>

text \<open>The inner loop: while the characters agree, up to the longest match.\<close>

function match_loop :: "uchar list \<Rightarrow> nat \<Rightarrow> nat \<Rightarrow> nat \<Rightarrow> nat res" where
  "match_loop src ip hp thislen =
     (if ip < length src then
        res_bind (rd src ip) (\<lambda>a. res_bind (rd src hp) (\<lambda>b.
          if a = b \<and> thislen < PGLZ_MAX_MATCH then match_loop src (ip + 1) (hp + 1) (thislen + 1) else Inr thislen))
      else Inr thislen)"
  by pat_completeness auto
termination
  by (relation "measure (\<lambda>(src, ip, hp, thislen). length src - ip)") auto

declare match_loop.simps [simp del]

definition memcmp_eq :: "uchar list \<Rightarrow> nat \<Rightarrow> nat \<Rightarrow> nat \<Rightarrow> bool res" where
  "memcmp_eq src ip hp n =
     (if ip + n \<le> length src \<and> hp + n \<le> length src then Inr (take n (drop ip src) = take n (drop hp src))
      else Inl OutOfBounds)"

definition match_length :: "uchar list \<Rightarrow> nat \<Rightarrow> nat \<Rightarrow> nat \<Rightarrow> nat res" where
  "match_length src ip hp len =
     (if len \<ge> 16 then
        res_bind (memcmp_eq src ip hp len) (\<lambda>same.
          if same then match_loop src (ip + len) (hp + len) len else Inr 0)
      else match_loop src ip hp 0)"

text \<open>The loop over the entries of a list takes fuel.  Offsets are integers, as differences of pointers.\<close>

fun find_loop ::
    "nat \<Rightarrow> history \<Rightarrow> uchar list \<Rightarrow> nat \<Rightarrow> int \<Rightarrow> nat option \<Rightarrow> int \<Rightarrow> nat \<Rightarrow> int \<Rightarrow> (nat \<times> int) res" where
  "find_loop 0 h src ip good_drop hent good_match len off = Inl Diverges"
| "find_loop (Suc fuel) h src ip good_drop hent good_match len off =
     (case hent of
        None \<Rightarrow> Inr (len, off)
      | Some e \<Rightarrow>
          let hp = hpos (hist_entries h e); thisoff = int ip - int hp in
          if thisoff \<ge> 0xfff then Inr (len, off)
          else
            res_bind (match_length src ip hp len) (\<lambda>thislen.
              let (len, off) = (if thislen > len then (thislen, thisoff) else (len, off));
                  hent = hnext (hist_entries h e)
              in if hent \<noteq> None then
                   if int len \<ge> good_match then Inr (len, off)
                   else find_loop fuel h src ip good_drop hent (good_match - good_match * good_drop div 100) len off
                 else find_loop fuel h src ip good_drop hent good_match len off))"

definition pglz_find_match :: "history \<Rightarrow> uchar list \<Rightarrow> nat \<Rightarrow> int \<Rightarrow> int \<Rightarrow> (nat \<times> nat) option res" where
  "pglz_find_match h src input good_match good_drop =
     res_bind (pglz_hist_idx src input) (\<lambda>i.
     res_bind (find_loop (input + 2) h src input good_drop (hist_start h i) good_match 0 0) (\<lambda>(len, off).
       if len > 2 then Inr (Some (len, nat off)) else Inr None))"

section \<open>Compression\<close>

text \<open>\<open>while (match_len--)\<close>: an entry of the history for every character matched.\<close>

fun add_loop :: "nat \<Rightarrow> uchar list \<Rightarrow> nat \<Rightarrow> history \<Rightarrow> history res" where
  "add_loop 0 src dp h = Inr h"
| "add_loop (Suc match_len) src dp h =
     res_bind (pglz_hist_add src dp h) (\<lambda>h. add_loop match_len src (dp + 1) h)"

lemma find_match_positive: "pglz_find_match h src dp gm gd = Inr (Some (len, off)) \<Longrightarrow> 2 < len"
  by (auto simp: pglz_find_match_def res_iff split: if_splits)

text \<open>The main loop; the result is false when the output gets too long.\<close>

function compress_loop ::
    "uchar list \<Rightarrow> int \<Rightarrow> int \<Rightarrow> int \<Rightarrow> nat \<Rightarrow> history \<Rightarrow> lz_output \<Rightarrow> (bool \<times> lz_output) res" where
  "compress_loop src result_max good_match good_drop dp h p =
     (if dp < length src then
        if int (bp p) \<ge> result_max then Inr (False, p)
        else
          res_bind (pglz_find_match h src dp good_match good_drop) (\<lambda>m.
            case m of
              Some (match_len, match_off) \<Rightarrow>
                res_bind (pglz_out_tag match_len match_off p) (\<lambda>p.
                res_bind (add_loop match_len src dp h) (\<lambda>h.
                  compress_loop src result_max good_match good_drop (dp + match_len) h p))
            | None \<Rightarrow>
                res_bind (rd src dp) (\<lambda>c.
                res_bind (pglz_out_literal c p) (\<lambda>p.
                res_bind (pglz_hist_add src dp h) (\<lambda>h.
                  compress_loop src result_max good_match good_drop (dp + 1) h p))))
      else Inr (True, p))"
  by pat_completeness auto
termination
  by (relation "measure (\<lambda>(src, result_max, good_match, good_drop, dp, h, p). length src - dp)")
    (auto dest: find_match_positive)

declare compress_loop.simps [simp del]

definition result_limit :: "nat \<Rightarrow> PGLZ_Strategy \<Rightarrow> int" where
  "result_limit slen strategy =
     (if int slen \<ge> force_input_size strategy then int slen
      else
        let need_rate = min_comp_rate strategy;
            need_rate = (if need_rate < 0 then 0 else if need_rate > 99 then 99 else need_rate)
        in int slen - int slen * need_rate div 100)"

definition good_match_of :: "PGLZ_Strategy \<Rightarrow> int" where
  "good_match_of strategy =
     (let good_match = match_size_good strategy;
          good_match = (if good_match > int PGLZ_MAX_MATCH then int PGLZ_MAX_MATCH else good_match)
      in if good_match < 17 then 17 else good_match)"

definition good_drop_of :: "PGLZ_Strategy \<Rightarrow> int" where
  "good_drop_of strategy =
     (let good_drop = match_size_drop strategy;
          good_drop = (if good_drop < 0 then 0 else good_drop)
      in if good_drop > 100 then 100 else good_drop)"

text \<open>After the loop: the last control byte, the size.\<close>

definition compress_end :: "PGLZ_Header \<Rightarrow> int \<Rightarrow> bool \<times> lz_output \<Rightarrow> (bool \<times> PGLZ_Header) res" where
  "compress_end dest result_max r =
     (case r of (fits, p) \<Rightarrow>
        if \<not> fits then Inr (False, dest\<lparr>area := buf p\<rparr>)
        else
          res_bind (put_ctrl p) (\<lambda>p.
            if int (bp p) \<ge> result_max then Inr (False, dest\<lparr>area := buf p\<rparr>)
            else Inr (True, dest\<lparr>area := buf p, vl_len := bp p + 8\<rparr>)))"

text \<open>\<open>dest\<close> and the array of entries come with what they held before.\<close>

definition pglz_compress ::
    "(nat \<Rightarrow> PGLZ_HistEntry) \<Rightarrow> uchar list \<Rightarrow> PGLZ_Header \<Rightarrow> PGLZ_Strategy option \<Rightarrow> (bool \<times> PGLZ_Header) res" where
  "pglz_compress old src dest strategy =
     (let strategy = (case strategy of None \<Rightarrow> PGLZ_strategy_default | Some s \<Rightarrow> s) in
      if match_size_good strategy \<le> 0 \<or> int (length src) < min_input_size strategy then Inr (False, dest)
      else
        let result_max = result_limit (length src) strategy;
            h = \<lparr>hist_start = (\<lambda>_. None), hist_entries = old, hist_next = 0, hist_recycle = False\<rparr>;
            p = \<lparr>buf = area dest, bp = 0, ctrlp = None, ctrlb = 0, ctrl = 0\<rparr>
        in res_bind (compress_loop src result_max (good_match_of strategy) (good_drop_of strategy) 0 h p)
             (compress_end (dest\<lparr>rawsize := length src\<rparr>) result_max))"

section \<open>Decompression\<close>

text \<open>\<open>while (len--)\<close>: copy from the output to the output.\<close>

fun copy_back :: "nat \<Rightarrow> nat \<Rightarrow> uchar list \<Rightarrow> nat \<Rightarrow> (uchar list \<times> nat) res" where
  "copy_back 0 off dest pos = Inr (dest, pos)"
| "copy_back (Suc len) off dest pos =
     (if off \<le> pos then
        res_bind (rd dest (pos - off)) (\<lambda>b.
        res_bind (wr dest pos b) (\<lambda>dest.
          copy_back len off dest (pos + 1)))
      else Inl OutOfBounds)"

text \<open>Length and offset of a tag, and what follows it.\<close>

definition tag_len :: "uchar \<Rightarrow> nat" where
  "tag_len d0 = unat (d0 AND 0x0f) + 3"

definition tag_off :: "uchar \<Rightarrow> uchar \<Rightarrow> nat" where
  "tag_off d0 d1 = unat (push_bit 4 (ucast (d0 AND 0xf0)) OR ucast d1 :: 32 word)"

fun read_tag :: "uchar list \<Rightarrow> (nat \<times> nat \<times> uchar list) res" where
  "read_tag (d0 # d1 # dp) =
     (if tag_len d0 = 18 then
        (case dp of [] \<Rightarrow> Inl OutOfBounds | d # dp \<Rightarrow> Inr (tag_len d0 + unat d, tag_off d0 d1, dp))
      else Inr (tag_len d0, tag_off d0 d1, dp))"
| "read_tag dp = Inl OutOfBounds"

text \<open>The next items of a control byte: \<open>n\<close> is \<open>8 - ctrlc\<close>, \<open>dp\<close> the bytes that are left.\<close>

fun decompress_items :: "nat \<Rightarrow> uchar \<Rightarrow> uchar list \<Rightarrow> uchar list \<Rightarrow> nat \<Rightarrow> (uchar list \<times> uchar list \<times> nat) res" where
  "decompress_items 0 c dp dest pos = Inr (dp, dest, pos)"
| "decompress_items (Suc n) c [] dest pos = Inr ([], dest, pos)"
| "decompress_items (Suc n) c (d # dp) dest pos =
     (if c AND 1 \<noteq> 0 then
        res_bind (read_tag (d # dp)) (\<lambda>(len, off, dp).
        res_bind (copy_back len off dest pos) (\<lambda>(dest, pos).
          decompress_items n (drop_bit 1 c) dp dest pos))
      else
        res_bind (wr dest pos d) (\<lambda>dest. decompress_items n (drop_bit 1 c) dp dest (pos + 1)))"

lemma read_tag_shorter: "read_tag dp = Inr (len, off, dp') \<Longrightarrow> length dp' < length dp"
  by (induction dp rule: read_tag.induct) (auto simp: Let_def split: if_splits list.splits)

lemma decompress_items_shorter: "decompress_items n c dp dest pos = Inr (dp', r) \<Longrightarrow> length dp' \<le> length dp"
proof (induction n arbitrary: c dp dest pos)
  case (Suc n)
  show ?case
  proof (cases dp)
    case (Cons d dp1)
    show ?thesis
    proof (cases "c AND 1 = 0")
      case True
      then show ?thesis using Suc.prems Suc.IH Cons by (fastforce simp: res_bind_Inr_iff)
    next
      case False
      then obtain len off dp2 dest2 pos2 where "read_tag (d # dp1) = Inr (len, off, dp2)"
        "decompress_items n (drop_bit 1 c) dp2 dest2 pos2 = Inr (dp', r)"
        using Suc.prems Cons by (auto simp: res_bind_Inr_iff)
      then show ?thesis using Suc.IH read_tag_shorter Cons by fastforce
    qed
  qed (use Suc.prems in simp)
qed simp

function decompress_loop :: "uchar list \<Rightarrow> uchar list \<Rightarrow> nat \<Rightarrow> (uchar list \<times> nat) res" where
  "decompress_loop [] dest pos = Inr (dest, pos)"
| "decompress_loop (c # dp) dest pos =
     res_bind (decompress_items 8 c dp dest pos) (\<lambda>(dp, dest, pos). decompress_loop dp dest pos)"
  by pat_completeness auto
termination
  by (relation "measure (\<lambda>(dp, dest, pos). length dp)") (auto dest: decompress_items_shorter)

definition pglz_decompress :: "PGLZ_Header \<Rightarrow> uchar list \<Rightarrow> uchar list res" where
  "pglz_decompress source dest =
     (if vl_len source - 8 \<le> length (area source) then
        res_bind (decompress_loop (take (vl_len source - 8) (area source)) dest 0) (\<lambda>(dest, destsize).
          if destsize \<noteq> rawsize source then Inl (Elog ''compressed data is corrupt'') else Inr dest)
      else Inl OutOfBounds)"

end
