(* ===== verification/LzSpec.thy ===== *)
theory LzSpec
  imports Lz
begin

text \<open>
  The format of compressed data as a list of items in groups of eight, and what the decompressor makes
  of it: every item is expanded in turn.
\<close>

section \<open>Items\<close>

datatype item = Lit uchar | Tag nat nat

fun is_tag :: "item \<Rightarrow> bool" where
  "is_tag (Lit b) = False"
| "is_tag (Tag len off) = True"

definition tag_high :: "nat \<Rightarrow> nat \<Rightarrow> uchar" where
  "tag_high off n = ucast (drop_bit 4 (of_nat off AND 0xf00 :: 32 word) OR of_nat n)"

definition tag_low :: "nat \<Rightarrow> uchar" where
  "tag_low off = ucast (of_nat off AND 0xff :: 32 word)"

fun item_bytes :: "item \<Rightarrow> uchar list" where
  "item_bytes (Lit b) = [b]"
| "item_bytes (Tag len off) =
     (if len > 17 then [tag_high off 15, tag_low off, of_nat (len - 18)] else [tag_high off (len - 3), tag_low off])"

definition items_bytes :: "item list \<Rightarrow> uchar list" where
  "items_bytes is = concat (map item_bytes is)"

lemma items_bytes_simps [simp]:
  "items_bytes [] = []" "items_bytes (i # is) = item_bytes i @ items_bytes is"
  "items_bytes (is @ js) = items_bytes is @ items_bytes js"
  by (simp_all add: items_bytes_def)

fun ctrl_of :: "item list \<Rightarrow> uchar" where
  "ctrl_of [] = 0"
| "ctrl_of (i # is) = (if is_tag i then 1 else 0) OR push_bit 1 (ctrl_of is)"

section \<open>Tags\<close>

lemma byte_masks:
  "(0x0f :: uchar) = mask 4" "(0xf0 :: uchar) = push_bit 4 (mask 4)"
  "(0xff :: 32 word) = mask 8" "(0xf00 :: 32 word) = push_bit 8 (mask 4)"
  by (simp_all add: mask_eq_exp_minus_1)

lemma bit_below: "n < 2 ^ m \<Longrightarrow> bit n k \<Longrightarrow> k < m" for n :: nat
  by (metis bit_take_bit_iff take_bit_nat_eq_self_iff)

lemma tag_high_bits:
  "bit (tag_high off n) k \<longleftrightarrow> k < 8 \<and> (4 \<le> k \<and> bit off (4 + k) \<or> bit n k)"
  unfolding tag_high_def byte_masks by (auto simp: bit_simps)

lemma tag_low_bits: "bit (tag_low off) k \<longleftrightarrow> k < 8 \<and> bit off k"
  unfolding tag_low_def byte_masks by (auto simp: bit_simps)

lemma tag_len_high: "n < 16 \<Longrightarrow> tag_len (tag_high off n) = n + 3"
proof -
  assume n: "n < 16"
  then have low: "bit n k \<Longrightarrow> k < 4" for k using bit_below [of n 4] by simp
  have "tag_high off n AND 0x0f = of_nat n"
    unfolding byte_masks by (rule bit_word_eqI) (auto simp: bit_and_iff bit_mask_iff tag_high_bits bit_of_nat_iff dest: low)
  then have "unat (tag_high off n AND 0x0f) = unat (of_nat n :: uchar)" by (simp only:)
  also have "\<dots> = n" using n by (simp add: unat_of_nat)
  finally show ?thesis by (simp add: tag_len_def)
qed

lemma tag_off_high: "n < 16 \<Longrightarrow> off < 4096 \<Longrightarrow> tag_off (tag_high off n) (tag_low off) = off"
proof -
  assume n: "n < 16" and o: "off < 4096"
  then have low: "bit n k \<Longrightarrow> k < 4" "bit off k \<Longrightarrow> k < 12" for k using bit_below [of n 4] bit_below [of off 12] by simp_all
  have "push_bit 4 (ucast (tag_high off n AND 0xf0)) OR ucast (tag_low off) = (of_nat off :: 32 word)"
  proof (rule bit_word_eqI)
    fix k
    assume "k < LENGTH(32)"
    then show "bit (push_bit 4 (ucast (tag_high off n AND 0xf0)) OR ucast (tag_low off) :: 32 word) k = bit (of_nat off :: 32 word) k"
      unfolding byte_masks
      by (cases "k < 8") (auto simp: bit_simps tag_high_bits tag_low_bits dest: low)
  qed
  then have "tag_off (tag_high off n) (tag_low off) = unat (of_nat off :: 32 word)" unfolding tag_off_def by (simp only:)
  also have "\<dots> = off" using o by (simp add: unat_of_nat)
  finally show ?thesis .
qed

lemma read_tag_bytes: "3 \<le> len \<Longrightarrow> len \<le> 273 \<Longrightarrow> off < 4096 \<Longrightarrow> read_tag (item_bytes (Tag len off) @ rest) = Inr (len, off, rest)"
proof (cases "len > 17")
  case True
  assume len: "len \<le> 273" and off: "off < 4096"
  have "unat (of_nat (len - 18) :: uchar) = (len - 18) mod 2 ^ 8" unfolding unat_of_nat by simp
  also have "\<dots> = len - 18" using len by simp
  finally have "unat (of_nat (len - 18) :: uchar) = len - 18" .
  moreover have "tag_len (tag_high off 15) = 18" "tag_off (tag_high off 15) (tag_low off) = off"
    using tag_len_high [of 15 off] tag_off_high [of 15 off] off by simp_all
  moreover have "item_bytes (Tag len off) = [tag_high off 15, tag_low off, of_nat (len - 18)]" using True by (simp only: item_bytes.simps if_True)
  moreover have "18 + (len - 18) = len" using True by simp
  ultimately show ?thesis by (simp only: append_Cons append_Nil read_tag.simps simp_thms if_True list.case)
next
  case False
  assume "3 \<le> len" "off < 4096"
  then have "tag_len (tag_high off (len - 3)) = len" "tag_off (tag_high off (len - 3)) (tag_low off) = off" "len \<noteq> 18"
    using False tag_len_high [of "len - 3" off] tag_off_high [of "len - 3" off] by simp_all
  moreover have "item_bytes (Tag len off) = [tag_high off (len - 3), tag_low off]" using False by (simp only: item_bytes.simps if_False)
  ultimately show ?thesis by (simp only: append_Cons append_Nil read_tag.simps simp_thms if_False)
qed

section \<open>Control bytes\<close>

lemma ctrl_of_bit: "bit (ctrl_of is) k \<longleftrightarrow> k < 8 \<and> k < length is \<and> is_tag (is ! k)"
proof (induction "is" arbitrary: k)
  case (Cons i is')
  have "bit (if is_tag i then 1 else 0 :: uchar) k \<longleftrightarrow> k = 0 \<and> is_tag i" by (simp add: bit_1_iff)
  moreover have "bit (push_bit 1 (ctrl_of is')) k \<longleftrightarrow> 1 \<le> k \<and> k < 8 \<and> bit (ctrl_of is') (k - 1)"
    unfolding bit_push_bit_iff by auto
  ultimately show ?case unfolding ctrl_of.simps bit_or_iff Cons.IH by (cases k) auto
qed simp

lemma ctrl_of_head: "ctrl_of (i # is) AND 1 \<noteq> 0 \<longleftrightarrow> is_tag i"
proof -
  have "ctrl_of (i # is) AND 1 \<noteq> 0 \<longleftrightarrow> odd (ctrl_of (i # is))" unfolding and_one_eq mod_2_eq_odd by simp
  also have "\<dots> \<longleftrightarrow> bit (ctrl_of (i # is)) 0" by (simp only: bit_0)
  finally show ?thesis using ctrl_of_bit [of "i # is" 0] by simp
qed

lemma ctrl_of_tail: "length is < 8 \<Longrightarrow> drop_bit 1 (ctrl_of (i # is)) = ctrl_of is"
proof (rule bit_word_eqI)
  fix k
  assume "length is < 8" "k < LENGTH(8)"
  then show "bit (drop_bit 1 (ctrl_of (i # is))) k = bit (ctrl_of is) k"
    by (simp only: bit_drop_bit_eq o_apply ctrl_of_bit) auto
qed

section \<open>Expansion\<close>

fun copies :: "nat \<Rightarrow> nat \<Rightarrow> uchar list \<Rightarrow> uchar list" where
  "copies 0 off out = out"
| "copies (Suc n) off out = copies n off (out @ [out ! (length out - off)])"

fun expand_item :: "item \<Rightarrow> uchar list \<Rightarrow> uchar list" where
  "expand_item (Lit b) out = out @ [b]"
| "expand_item (Tag len off) out = copies len off out"

fun expand :: "item list \<Rightarrow> uchar list \<Rightarrow> uchar list" where
  "expand [] out = out"
| "expand (i # is) out = expand is (expand_item i out)"

fun item_ok :: "item \<Rightarrow> uchar list \<Rightarrow> bool" where
  "item_ok (Lit b) out = True"
| "item_ok (Tag len off) out = (3 \<le> len \<and> len \<le> 273 \<and> 1 \<le> off \<and> off \<le> length out \<and> off < 4096)"

fun items_ok :: "item list \<Rightarrow> uchar list \<Rightarrow> bool" where
  "items_ok [] out = True"
| "items_ok (i # is) out = (item_ok i out \<and> items_ok is (expand_item i out))"

lemma copies_length [simp]: "length (copies n off out) = length out + n"
  by (induction n arbitrary: out) auto

lemma expand_append [simp]: "expand (is @ js) out = expand js (expand is out)"
  by (induction "is" arbitrary: out) auto

lemma items_ok_append [simp]: "items_ok (is @ js) out \<longleftrightarrow> items_ok is out \<and> items_ok js (expand is out)"
  by (induction "is" arbitrary: out) auto

lemma expand_item_longer: "length out \<le> length (expand_item i out)"
  by (cases i) auto

lemma expand_longer: "length out \<le> length (expand is out)"
  by (induction "is" arbitrary: out) (auto intro: le_trans [OF expand_item_longer])

lemma copy_back_copies:
  "1 \<le> off \<Longrightarrow> off \<le> length out \<Longrightarrow> len \<le> length rest \<Longrightarrow>
     copy_back len off (out @ rest) (length out) = Inr (copies len off out @ drop len rest, length out + len)"
proof (induction len arbitrary: out rest)
  case (Suc len)
  then obtain r rs where r: "rest = r # rs" by (cases rest) auto
  have "length out - off < length out" using Suc.prems by simp
  then show ?case using r Suc.prems Suc.IH [of "out @ [out ! (length out - off)]" rs]
    by (simp add: rd_def wr_def nth_append)
qed simp

lemma decompress_items_expand:
  assumes "items_ok is out" "length is \<le> n" "length is < n \<longrightarrow> next_bytes = []" "n \<le> 8"
    and "length (expand is out) \<le> length out + length rest"
  shows "decompress_items n (ctrl_of is) (items_bytes is @ next_bytes) (out @ rest) (length out) =
    Inr (next_bytes, expand is out @ drop (length (expand is out) - length out) rest, length (expand is out))"
  using assms
proof (induction "is" arbitrary: n out rest)
  case Nil
  then show ?case by (cases n) auto
next
  case (Cons i is')
  then obtain n' where n: "n = Suc n'" by (cases n) auto
  have l: "length (expand_item i out) \<le> length (expand is' (expand_item i out))" by (rule expand_longer)
  let ?k = "length (expand_item i out) - length out"
  have rest: "length (expand_item i out) \<le> length out + length rest" using l Cons.prems(5) by simp
  have IH: "decompress_items n' (ctrl_of is') (items_bytes is' @ next_bytes) (expand_item i out @ drop ?k rest) (length (expand_item i out)) =
      Inr (next_bytes, expand is' (expand_item i out) @ drop (length (expand is' (expand_item i out)) - length (expand_item i out)) (drop ?k rest),
        length (expand is' (expand_item i out)))"
    using Cons.prems n l rest expand_item_longer [of out i] by (intro Cons.IH) auto
  have "drop (length (expand is' (expand_item i out)) - length (expand_item i out)) (drop ?k rest) =
      drop (length (expand is' (expand_item i out)) - length out) rest"
    using l expand_item_longer [of out i] by simp
  note IH' = IH [unfolded this]
  have tail: "drop_bit 1 (ctrl_of (i # is')) = ctrl_of is'" using Cons.prems(2,4) n by (intro ctrl_of_tail) simp
  show ?case
  proof (cases i)
    case (Lit b)
    then obtain r rs where r: "rest = r # rs" using rest by (cases rest) auto
    have "ctrl_of (i # is') AND 1 = 0" using ctrl_of_head [of i is'] Lit by simp
    then show ?thesis using IH' tail Lit r n by (simp add: wr_def del: ctrl_of.simps)
  next
    case (Tag len off)
    have t: "ctrl_of (i # is') AND 1 \<noteq> 0" using ctrl_of_head [of i is'] Tag by simp
    have rt: "read_tag (item_bytes i @ items_bytes is' @ next_bytes) = Inr (len, off, items_bytes is' @ next_bytes)"
      unfolding Tag by (rule read_tag_bytes) (use Cons.prems(1) Tag in auto)
    have "copy_back len off (out @ rest) (length out) = Inr (copies len off out @ drop len rest, length out + len)"
      by (rule copy_back_copies) (use Cons.prems(1) Tag rest in auto)
    moreover obtain d ds where d: "item_bytes i = d # ds" using Tag by (cases "item_bytes i") (auto split: if_splits)
    ultimately show ?thesis using IH' tail t rt Tag n by (simp del: ctrl_of.simps item_bytes.simps read_tag.simps)
  qed
qed

section \<open>Groups of eight\<close>

definition group_bytes :: "item list \<Rightarrow> uchar list" where
  "group_bytes g = ctrl_of g # items_bytes g"

definition encode :: "item list list \<Rightarrow> uchar list" where
  "encode gs = concat (map group_bytes gs)"

fun groups_ok :: "item list list \<Rightarrow> bool" where
  "groups_ok [] = True"
| "groups_ok [g] = (length g \<le> 8)"
| "groups_ok (g # gs) = (length g = 8 \<and> groups_ok gs)"

lemma encode_simps [simp]: "encode [] = []" "encode (g # gs) = group_bytes g @ encode gs" "encode (gs @ hs) = encode gs @ encode hs"
  by (simp_all add: encode_def)

lemma groups_ok_Cons: "groups_ok (g # gs) \<Longrightarrow> length g \<le> 8 \<and> (length g < 8 \<longrightarrow> gs = []) \<and> groups_ok gs"
  by (cases gs) auto

lemma decompress_loop_expand:
  assumes "groups_ok gs" "items_ok (concat gs) out" "length (expand (concat gs) out) \<le> length out + length rest"
  shows "decompress_loop (encode gs) (out @ rest) (length out) =
    Inr (expand (concat gs) out @ drop (length (expand (concat gs) out) - length out) rest, length (expand (concat gs) out))"
  using assms
proof (induction gs arbitrary: out rest)
  case (Cons g gs)
  have g: "length g \<le> 8" "length g < 8 \<longrightarrow> encode gs = []" "groups_ok gs" using groups_ok_Cons [OF Cons.prems(1)] by auto
  let ?o = "expand g out" and ?f = "expand (concat gs) (expand g out)"
  have l: "length out \<le> length ?o" "length ?o \<le> length ?f" by (rule expand_longer)+
  have "decompress_items 8 (ctrl_of g) (items_bytes g @ encode gs) (out @ rest) (length out) =
      Inr (encode gs, ?o @ drop (length ?o - length out) rest, length ?o)"
    by (rule decompress_items_expand) (use Cons.prems g l in auto)
  moreover have "decompress_loop (encode gs) (?o @ drop (length ?o - length out) rest) (length ?o) =
      Inr (?f @ drop (length ?f - length ?o) (drop (length ?o - length out) rest), length ?f)"
    by (rule Cons.IH) (use Cons.prems g l in auto)
  ultimately show ?case using l by (simp add: group_bytes_def)
qed simp

lemma decompress_encoded:
  assumes "groups_ok gs" "items_ok (concat gs) []" "rawsize z = length (expand (concat gs) [])" "rawsize z \<le> length dest"
    and "vl_len z = length (encode gs) + 8" "length (encode gs) \<le> length (area z)" "take (length (encode gs)) (area z) = encode gs"
  shows "pglz_decompress z dest = Inr (expand (concat gs) [] @ drop (rawsize z) dest)"
  using decompress_loop_expand [OF assms(1,2), of dest] assms(3-7) by (simp add: pglz_decompress_def)

section \<open>Output\<close>

text \<open>The output between two items: the finished groups, and the current one without its control byte.\<close>

definition written :: "lz_output \<Rightarrow> item list list \<Rightarrow> item list \<Rightarrow> bool" where
  "written p gs g \<longleftrightarrow>
     (\<forall>x \<in> set gs. length x = 8) \<and> length g \<le> 8 \<and> bp p \<le> length (buf p) \<and> ctrlb p = ctrl_of g \<and>
     ctrl p = 2 ^ length g \<and> ctrlp p = Some (length (encode gs)) \<and> bp p = length (encode (gs @ [g])) \<and>
     (\<exists>x. take (bp p) (buf p) = encode gs @ x # items_bytes g)"

definition out_inv :: "lz_output \<Rightarrow> item list \<Rightarrow> bool" where
  "out_inv p is \<longleftrightarrow>
     is = [] \<and> ctrlp p = None \<and> ctrl p = 0 \<and> bp p = 0 \<or> (\<exists>gs g. written p gs g \<and> g \<noteq> [] \<and> is = concat gs @ g)"

lemma take_Suc_update: "n < length xs \<Longrightarrow> take (Suc n) (xs[n := y]) = take n xs @ [y]"
  by (simp add: take_Suc_conv_app_nth)

lemma groups_full: "\<forall>x \<in> set gs. length x = 8 \<Longrightarrow> length g \<le> 8 \<Longrightarrow> groups_ok (gs @ [g])"
proof (induction gs)
  case (Cons x gs)
  then show ?case by (cases "gs @ [g]") auto
qed simp

lemma put_ctrl_closes:
  assumes "written p gs g"
  shows "\<exists>a. put_ctrl p = Inr (p\<lparr>buf := a\<rparr>) \<and> length a = length (buf p) \<and> take (bp p) a = encode (gs @ [g])"
proof -
  let ?n = "length (encode gs)"
  obtain x where x: "take (bp p) (buf p) = encode gs @ x # items_bytes g" "bp p \<le> length (buf p)"
    and c: "ctrlp p = Some ?n" "ctrlb p = ctrl_of g" "bp p = length (encode (gs @ [g]))" using assms by (auto simp: written_def)
  have n: "?n < bp p" using c(3) by (simp add: group_bytes_def)
  then have "take (bp p) ((buf p)[?n := ctrl_of g]) = (take (bp p) (buf p))[?n := ctrl_of g]" by (simp add: take_update_swap)
  also have "\<dots> = encode (gs @ [g])" unfolding x(1) by (simp add: list_update_append group_bytes_def)
  finally have "take (bp p) ((buf p)[?n := ctrl_of g]) = encode (gs @ [g])" .
  moreover have "?n < length (buf p)" using n x(2) by simp
  then have "put_ctrl p = Inr (p\<lparr>buf := (buf p)[?n := ctrl_of g]\<rparr>)" using c by (simp add: put_ctrl_def wr_def)
  ultimately show ?thesis by (intro exI [of _ "(buf p)[?n := ctrl_of g]"]) simp
qed

lemma ctrl_full: "n \<le> 8 \<Longrightarrow> (2 ^ n :: uchar) AND 255 = 0 \<longleftrightarrow> n = 8"
proof -
  assume "n \<le> 8"
  then have "n \<in> {0, 1, 2, 3, 4, 5, 6, 7, 8}" by auto
  then show ?thesis by auto
qed

lemma out_ctrl_opens:
  assumes "out_inv p is" "bp p < length (buf p)"
  shows "\<exists>p1 gs g. pglz_out_ctrl p = Inr p1 \<and> written p1 gs g \<and> length g < 8 \<and> is = concat gs @ g \<and>
    length (buf p1) = length (buf p) \<and> bp p1 \<le> bp p + 1"
  using assms(1) unfolding out_inv_def
proof (elim disjE)
  assume e: "is = [] \<and> ctrlp p = None \<and> ctrl p = 0 \<and> bp p = 0"
  let ?p = "p\<lparr>ctrlp := Some 0, bp := 1, ctrlb := 0, ctrl := 1\<rparr>"
  obtain x xs where "buf p = x # xs" using assms(2) by (cases "buf p") auto
  then have "written ?p [] []" using e by (simp add: written_def group_bytes_def)
  moreover have "pglz_out_ctrl p = Inr ?p" using e by (simp add: pglz_out_ctrl_def put_ctrl_def)
  ultimately show ?thesis using e by (intro exI [of _ ?p] exI [of _ "[]"]) simp
next
  assume "\<exists>gs g. written p gs g \<and> g \<noteq> [] \<and> is = concat gs @ g"
  then obtain gs g where w: "written p gs g" and i: "is = concat gs @ g" by blast
  have c: "ctrl p = 2 ^ length g" "length g \<le> 8" "\<forall>x \<in> set gs. length x = 8" "bp p = length (encode (gs @ [g]))"
    using w by (auto simp: written_def)
  show ?thesis
  proof (cases "length g = 8")
    case True
    obtain a where a: "put_ctrl p = Inr (p\<lparr>buf := a\<rparr>)" "length a = length (buf p)" "take (bp p) a = encode (gs @ [g])"
      using put_ctrl_closes [OF w] by blast
    let ?p = "p\<lparr>buf := a, ctrlp := Some (bp p), bp := bp p + 1, ctrlb := 0, ctrl := 1\<rparr>"
    have "take (bp p + 1) a = encode (gs @ [g]) @ [a ! bp p]" using a(2,3) assms(2) by (simp add: take_Suc_conv_app_nth)
    then have "written ?p (gs @ [g]) []" using True c(3,4) assms(2) a(2) by (auto simp: written_def group_bytes_def)
    moreover have "pglz_out_ctrl p = Inr ?p" using True c(1) a(1) ctrl_full [of 8] by (simp add: pglz_out_ctrl_def)
    ultimately show ?thesis using i a(2) by (intro exI [of _ ?p] exI [of _ "gs @ [g]"] exI [of _ "[]"]) simp
  next
    case False
    then have "ctrl p AND 255 \<noteq> 0" using c(1,2) ctrl_full [of "length g"] by simp
    then have "pglz_out_ctrl p = Inr p" by (simp only: pglz_out_ctrl_def if_False)
    then show ?thesis using w i False c(2) by (intro exI [of _ p] exI [of _ gs] exI [of _ g]) simp
  qed
qed

lemma ctrl_of_snoc: "length g < 8 \<Longrightarrow> ctrl_of (g @ [i]) = ctrl_of g OR (if is_tag i then 2 ^ length g else 0)"
  by (rule bit_word_eqI) (auto simp: ctrl_of_bit bit_or_iff bit_exp_iff nth_append)

lemma written_emit:
  assumes "written p gs g" "length g < 8"
    and "take (bp p') (buf p') = take (bp p) (buf p) @ item_bytes i" "bp p' = bp p + length (item_bytes i)"
    and "bp p' \<le> length (buf p')" "ctrlp p' = ctrlp p"
    and "ctrlb p' = ctrlb p OR (if is_tag i then ctrl p else 0)" "ctrl p' = push_bit 1 (ctrl p)"
  shows "written p' gs (g @ [i])"
proof -
  have "ctrlb p' = ctrl_of (g @ [i])" using assms(1,2,7) by (simp add: written_def ctrl_of_snoc)
  moreover have "ctrl p' = 2 ^ length (g @ [i])" using assms(1,8) by (simp add: written_def)
  moreover obtain x where "take (bp p') (buf p') = encode gs @ x # items_bytes (g @ [i])"
    using assms(1,3) by (auto simp: written_def)
  ultimately show ?thesis using assms by (simp add: written_def group_bytes_def)
qed

lemma put_byte_appends:
  "bp p < length (buf p) \<Longrightarrow>
     put_byte b p = Inr (p\<lparr>buf := (buf p)[bp p := b], bp := bp p + 1\<rparr>) \<and>
     take (bp p + 1) ((buf p)[bp p := b]) = take (bp p) (buf p) @ [b]"
  by (simp add: put_byte_def wr_def take_Suc_update)

lemma out_inv_written: "written p gs (g @ [i]) \<Longrightarrow> out_inv p (concat gs @ g @ [i])"
  unfolding out_inv_def by (intro disjI2 exI [of _ gs] exI [of _ "g @ [i]"]) simp

lemma out_literal_emits:
  assumes "out_inv p is" "bp p + 2 \<le> length (buf p)"
  shows "\<exists>p'. pglz_out_literal b p = Inr p' \<and> out_inv p' (is @ [Lit b]) \<and> length (buf p') = length (buf p) \<and> bp p' \<le> bp p + 2"
proof -
  obtain p1 gs g where p1: "pglz_out_ctrl p = Inr p1" "written p1 gs g" "length g < 8" "is = concat gs @ g"
    "length (buf p1) = length (buf p)" "bp p1 \<le> bp p + 1"
    using out_ctrl_opens [OF assms(1)] assms(2) by auto
  have lt: "bp p1 < length (buf p1)" using p1 assms(2) by simp
  let ?p = "p1\<lparr>buf := (buf p1)[bp p1 := b], bp := bp p1 + 1, ctrl := push_bit 1 (ctrl p1)\<rparr>"
  have "written ?p gs (g @ [Lit b])"
    by (rule written_emit [OF p1(2,3)]) (use lt put_byte_appends [OF lt, of b] in simp_all)
  then have "out_inv ?p (is @ [Lit b])" using out_inv_written p1(4) by simp
  moreover have "pglz_out_literal b p = Inr ?p" using p1(1) put_byte_appends [OF lt, of b] by (simp add: pglz_out_literal_def)
  ultimately show ?thesis using p1 by (intro exI [of _ ?p]) simp
qed

fun put_bytes :: "uchar list \<Rightarrow> lz_output \<Rightarrow> lz_output res" where
  "put_bytes [] p = Inr p"
| "put_bytes (b # bs) p = res_bind (put_byte b p) (put_bytes bs)"

lemma put_bytes_append:
  "bp p + length bs \<le> length (buf p) \<Longrightarrow>
     \<exists>a. put_bytes bs p = Inr (p\<lparr>buf := a, bp := bp p + length bs\<rparr>) \<and> length a = length (buf p) \<and>
       take (bp p + length bs) a = take (bp p) (buf p) @ bs"
proof (induction bs arbitrary: p)
  case Nil
  then show ?case by (intro exI [of _ "buf p"]) simp
next
  case (Cons b bs)
  have lt: "bp p < length (buf p)" using Cons.prems by simp
  let ?p = "p\<lparr>buf := (buf p)[bp p := b], bp := bp p + 1\<rparr>"
  have "bp ?p + length bs \<le> length (buf ?p)" using Cons.prems by simp
  from Cons.IH [OF this] put_byte_appends [OF lt, of b] show ?case by auto
qed

lemma put_bytes_fun: "put_bytes [b] = put_byte b" "put_bytes (b # c # bs) = (\<lambda>p. res_bind (put_byte b p) (put_bytes (c # bs)))"
  by (rule ext, simp add: res_bind_def split: sum.split)+

lemma out_tag_bytes:
  assumes "3 \<le> len" "pglz_out_ctrl p = Inr p1"
  shows "pglz_out_tag len off p = put_bytes (item_bytes (Tag len off)) (p1\<lparr>ctrlb := ctrlb p1 OR ctrl p1, ctrl := push_bit 1 (ctrl p1)\<rparr>)"
  using assms by (simp add: pglz_out_tag_def tag_high_def tag_low_def Let_def put_bytes_fun del: put_bytes.simps)

lemma out_tag_emits:
  assumes "out_inv p is" "bp p + 4 \<le> length (buf p)" "3 \<le> len"
  shows "\<exists>p'. pglz_out_tag len off p = Inr p' \<and> out_inv p' (is @ [Tag len off]) \<and> length (buf p') = length (buf p) \<and> bp p' \<le> bp p + 4"
proof -
  obtain p1 gs g where p1: "pglz_out_ctrl p = Inr p1" "written p1 gs g" "length g < 8" "is = concat gs @ g"
    "length (buf p1) = length (buf p)" "bp p1 \<le> bp p + 1"
    using out_ctrl_opens [OF assms(1)] assms(2) by auto
  let ?q = "p1\<lparr>ctrlb := ctrlb p1 OR ctrl p1, ctrl := push_bit 1 (ctrl p1)\<rparr>" and ?i = "Tag len off"
  have l: "length (item_bytes ?i) \<le> 3" by simp
  then have "bp ?q + length (item_bytes ?i) \<le> length (buf ?q)" using p1 assms(2) by simp
  from put_bytes_append [OF this] obtain a where
    a: "put_bytes (item_bytes ?i) ?q = Inr (?q\<lparr>buf := a, bp := bp ?q + length (item_bytes ?i)\<rparr>)"
      "length a = length (buf ?q)" "take (bp ?q + length (item_bytes ?i)) a = take (bp ?q) (buf ?q) @ item_bytes ?i" by blast
  let ?p = "?q\<lparr>buf := a, bp := bp ?q + length (item_bytes ?i)\<rparr>"
  have "written ?p gs (g @ [?i])"
    by (rule written_emit [OF p1(2,3)]) (use a \<open>bp ?q + length (item_bytes ?i) \<le> length (buf ?q)\<close> in simp_all)
  then have "out_inv ?p (is @ [?i])" using out_inv_written p1(4) by simp
  moreover have "pglz_out_tag len off p = Inr ?p" unfolding out_tag_bytes [OF assms(3) p1(1)] by (rule a(1))
  ultimately show ?thesis using a(2) p1 l by (intro exI [of _ ?p]) simp
qed

end
