(* ===== verification/LzHist.thy ===== *)
theory LzHist
  imports LzSpec
begin

text \<open>
  The history of the compressor: its lists are linked both ways and ordered by position, adding and
  recycling entries keeps that, and so the search for a match ends and returns a true match.
\<close>

section \<open>Links\<close>

definition links_ok :: "history \<Rightarrow> nat set \<Rightarrow> bool" where
  "links_ok h I \<longleftrightarrow>
     (\<forall>e \<in> I. \<forall>f. hnext (hist_entries h e) = Some f \<longrightarrow>
        f \<in> I \<and> hprev (hist_entries h f) = Some e \<and> hpos (hist_entries h f) < hpos (hist_entries h e) \<and>
        hindex (hist_entries h f) = hindex (hist_entries h e)) \<and>
     (\<forall>f \<in> I. \<forall>e. hprev (hist_entries h f) = Some e \<longrightarrow> e \<in> I \<and> hnext (hist_entries h e) = Some f) \<and>
     (\<forall>i e. hist_start h i = Some e \<longrightarrow> e \<in> I \<and> hprev (hist_entries h e) = None \<and> hindex (hist_entries h e) = i) \<and>
     (\<forall>e \<in> I. hprev (hist_entries h e) = None \<longrightarrow> hist_start h (hindex (hist_entries h e)) = Some e)"

lemma links_okD:
  assumes "links_ok h I"
  shows links_next: "e \<in> I \<Longrightarrow> hnext (hist_entries h e) = Some f \<Longrightarrow>
      f \<in> I \<and> hprev (hist_entries h f) = Some e \<and> hpos (hist_entries h f) < hpos (hist_entries h e) \<and>
      hindex (hist_entries h f) = hindex (hist_entries h e)"
    and links_prev: "f \<in> I \<Longrightarrow> hprev (hist_entries h f) = Some e \<Longrightarrow> e \<in> I \<and> hnext (hist_entries h e) = Some f"
    and links_start: "hist_start h i = Some e \<Longrightarrow> e \<in> I \<and> hprev (hist_entries h e) = None \<and> hindex (hist_entries h e) = i"
    and links_first: "e \<in> I \<Longrightarrow> hprev (hist_entries h e) = None \<Longrightarrow> hist_start h (hindex (hist_entries h e)) = Some e"
  using assms unfolding links_ok_def by blast+

lemma set_entry_simps [simp]:
  "hist_entries (set_entry e f h) x = (if x = e then f (hist_entries h e) else hist_entries h x)"
  "hist_start (set_entry e f h) = hist_start h" "hist_next (set_entry e f h) = hist_next h"
  "hist_recycle (set_entry e f h) = hist_recycle h"
  by (simp_all add: set_entry_def)

lemma delink_fields:
  "hnext (hist_entries (delink e h) x) = (if hprev (hist_entries h e) = Some x then hnext (hist_entries h e) else hnext (hist_entries h x))"
  "hprev (hist_entries (delink e h) x) = (if hnext (hist_entries h e) = Some x then hprev (hist_entries h e) else hprev (hist_entries h x))"
  "hindex (hist_entries (delink e h) x) = hindex (hist_entries h x)"
  "hpos (hist_entries (delink e h) x) = hpos (hist_entries h x)"
  "hist_start (delink e h) i =
     (if hprev (hist_entries h e) = None \<and> i = hindex (hist_entries h e) then hnext (hist_entries h e) else hist_start h i)"
  "hist_next (delink e h) = hist_next h" "hist_recycle (delink e h) = hist_recycle h"
  by (auto simp: delink_def Let_def split: option.splits)

lemma links_not_self:
  assumes "links_ok h I" "x \<in> I"
  shows "hnext (hist_entries h x) \<noteq> Some x" "hprev (hist_entries h x) \<noteq> Some x"
  using links_next [OF assms] links_prev [OF assms] by (metis less_irrefl)+

lemma delink_links:
  assumes ok: "links_ok h I" and e: "e \<in> I"
  shows "links_ok (delink e h) (I - {e})"
proof -
  define nx pv ix ps where d: "nx x = hnext (hist_entries h x)" "pv x = hprev (hist_entries h x)"
    "ix x = hindex (hist_entries h x)" "ps x = hpos (hist_entries h x)" for x
  have N: "x \<in> I \<Longrightarrow> nx x = Some f \<Longrightarrow> f \<in> I \<and> pv f = Some x \<and> ps f < ps x \<and> ix f = ix x" for x f
    unfolding d by (rule links_next [OF ok])
  have P: "f \<in> I \<Longrightarrow> pv f = Some x \<Longrightarrow> x \<in> I \<and> nx x = Some f" for x f unfolding d by (rule links_prev [OF ok])
  have S: "hist_start h i = Some x \<Longrightarrow> x \<in> I \<and> pv x = None \<and> ix x = i" for x i unfolding d by (rule links_start [OF ok])
  have F: "x \<in> I \<Longrightarrow> pv x = None \<Longrightarrow> hist_start h (ix x) = Some x" for x unfolding d by (rule links_first [OF ok])
  have ne: "nx e \<noteq> Some e" "pv e \<noteq> Some e" unfolding d using links_not_self [OF ok e] by auto
  have 1: "f \<in> I - {e} \<and> (if nx e = Some f then pv e else pv f) = Some x \<and> ps f < ps x \<and> ix f = ix x"
    if "x \<in> I - {e}" "(if pv e = Some x then nx e else nx x) = Some f" for x f
  proof (cases "pv e = Some x")
    case True
    then have "nx e = Some f" "nx x = Some e" "x \<in> I" using that P [OF e True] by auto
    then show ?thesis using N [OF e, of f] N [of x e] True ne by auto
  next
    case False
    then have f: "nx x = Some f" "x \<in> I" using that by auto
    then have "f \<noteq> e" using N [of x e] False by auto
    moreover have "nx e \<noteq> Some f" using N [OF f(2,1)] N [OF e, of f] that by auto
    ultimately show ?thesis using N [OF f(2,1)] by simp
  qed
  have 2: "x \<in> I - {e} \<and> (if pv e = Some x then nx e else nx x) = Some f"
    if "f \<in> I - {e}" "(if nx e = Some f then pv e else pv f) = Some x" for f x
  proof (cases "nx e = Some f")
    case True
    then have "pv e = Some x" using that by simp
    then show ?thesis using P [OF e, of x] True ne by auto
  next
    case False
    then have "pv f = Some x" "f \<in> I" using that by auto
    moreover from this have "x \<noteq> e" using P [of f e] False by auto
    moreover have "pv e \<noteq> Some x" using P [of f x] P [OF e, of x] calculation that by auto
    ultimately show ?thesis using P [of f x] by simp
  qed
  have 3: "x \<in> I - {e} \<and> (if nx e = Some x then pv e else pv x) = None \<and> ix x = i"
    if "(if pv e = None \<and> i = ix e then nx e else hist_start h i) = Some x" for i x
    using that S [of i x] N [OF e, of x] ne F [OF e] by (auto split: if_splits)
  have 4: "(if pv e = None \<and> ix x = ix e then nx e else hist_start h (ix x)) = Some x"
    if "x \<in> I - {e}" "(if nx e = Some x then pv e else pv x) = None" for x
    using that N [OF e, of x] F [of x] F [OF e] by (auto split: if_splits)
  show ?thesis unfolding links_ok_def delink_fields d [symmetric] using 1 2 3 4 by blast
qed

lemma link_fields:
  assumes "hist_start h hi \<noteq> Some e"
  shows "hist_entries (link_entry e hi s h) e = \<lparr>hnext = hist_start h hi, hprev = None, hindex = hi, hpos = s\<rparr>"
    and "x \<noteq> e \<Longrightarrow> hist_entries (link_entry e hi s h) x =
      (if hist_start h hi = Some x then (hist_entries h x)\<lparr>hprev := Some e\<rparr> else hist_entries h x)"
    and "hist_start (link_entry e hi s h) i = (if i = hi then Some e else hist_start h i)"
    and "hist_next (link_entry e hi s h) = hist_next h" "hist_recycle (link_entry e hi s h) = hist_recycle h"
  using assms by (auto simp: link_entry_def Let_def split: option.splits)

lemma link_links:
  assumes ok: "links_ok h I" and e: "e \<notin> I" and s: "\<forall>x \<in> I. hpos (hist_entries h x) < s"
  shows "links_ok (link_entry e hi s h) (insert e I)"
proof -
  note N = links_next [OF ok] and P = links_prev [OF ok] and S = links_start [OF ok] and F = links_first [OF ok]
  have ne: "hist_start h hi \<noteq> Some e" using S e by blast
  note L = link_fields [OF ne]
  have 1: "f \<in> insert e I \<and> hprev (hist_entries (link_entry e hi s h) f) = Some x \<and>
      hpos (hist_entries (link_entry e hi s h) f) < hpos (hist_entries (link_entry e hi s h) x) \<and>
      hindex (hist_entries (link_entry e hi s h) f) = hindex (hist_entries (link_entry e hi s h) x)"
    if "x \<in> insert e I" "hnext (hist_entries (link_entry e hi s h) x) = Some f" for x f
  proof (cases "x = e")
    case True
    then have "hist_start h hi = Some f" using that(2) by (simp add: L(1))
    then have f: "f \<in> I" "hindex (hist_entries h f) = hi" "f \<noteq> e"
      and "hist_entries (link_entry e hi s h) f = (hist_entries h f)\<lparr>hprev := Some e\<rparr>"
      using S [of hi f] e L(2) [of f] by auto
    then show ?thesis using s True by (simp add: L(1))
  next
    case False
    then have "x \<in> I" "hnext (hist_entries h x) = Some f" using that by (auto simp: L(2) split: if_splits)
    moreover from this have "f \<in> I" "hist_start h hi \<noteq> Some f" using N [of x f] S [of hi f] by auto
    moreover from this have "f \<noteq> e" using e by auto
    ultimately show ?thesis using False N [of x f] L(2) [of f] L(2) [of x] by auto
  qed
  have 2: "x \<in> insert e I \<and> hnext (hist_entries (link_entry e hi s h) x) = Some f"
    if "f \<in> insert e I" "hprev (hist_entries (link_entry e hi s h) f) = Some x" for f x
  proof (cases "hist_start h hi = Some f")
    case True
    then have "f \<noteq> e" using ne by auto
    then have "x = e" using True that(2) by (simp add: L(2))
    then show ?thesis using True by (simp add: L(1))
  next
    case False
    then have "f \<noteq> e" using that(2) L(1) by auto
    then have "f \<in> I" "hprev (hist_entries h f) = Some x" using that False by (simp_all add: L(2))
    then show ?thesis using P [of f x] e by (cases "x = e") (auto simp: L(2))
  qed
  have 3: "x \<in> insert e I \<and> hprev (hist_entries (link_entry e hi s h) x) = None \<and> hindex (hist_entries (link_entry e hi s h) x) = i"
    if "hist_start (link_entry e hi s h) i = Some x" for i x
  proof (cases "i = hi")
    case True
    then have "x = e" using that by (simp add: L(3))
    then show ?thesis using L(1) True by simp
  next
    case False
    then have "hist_start h i = Some x" using that by (simp add: L(3))
    moreover from this have "x \<noteq> e" "hist_start h hi \<noteq> Some x" using S [of i x] S [of hi x] e False by auto
    ultimately show ?thesis using S [of i x] L(2) [of x] by auto
  qed
  have 4: "hist_start (link_entry e hi s h) (hindex (hist_entries (link_entry e hi s h) x)) = Some x"
    if "x \<in> insert e I" "hprev (hist_entries (link_entry e hi s h) x) = None" for x
  proof (cases "x = e")
    case False
    then have "x \<in> I" "hprev (hist_entries h x) = None" "hist_start h hi \<noteq> Some x"
      using that by (auto simp: L(2) split: if_splits)
    then show ?thesis using F [of x] False by (auto simp: L(2,3))
  qed (simp add: L(1,3))
  show ?thesis unfolding links_ok_def using 1 2 3 4 by blast
qed

section \<open>Adding entries\<close>

text \<open>The entries in use.\<close>

definition in_use :: "history \<Rightarrow> nat set" where
  "in_use h = (if hist_recycle h then {..<PGLZ_HISTORY_SIZE} else {..<hist_next h})"

definition hist_ok :: "history \<Rightarrow> nat \<Rightarrow> bool" where
  "hist_ok h dp \<longleftrightarrow>
     links_ok h (in_use h) \<and> (\<forall>x \<in> in_use h. hpos (hist_entries h x) < dp) \<and> hist_next h < PGLZ_HISTORY_SIZE"

lemma links_ok_cong: "hist_entries h' = hist_entries h \<Longrightarrow> hist_start h' = hist_start h \<Longrightarrow> links_ok h' I = links_ok h I"
  by (simp only: links_ok_def)

lemma links_ok_counters [simp]:
  "links_ok (h\<lparr>hist_next := n\<rparr>) I = links_ok h I" "links_ok (h\<lparr>hist_recycle := b\<rparr>) I = links_ok h I"
  by (rule links_ok_cong; simp)+

lemma hist_idx_ok: "s < length src \<Longrightarrow> \<exists>i. pglz_hist_idx src s = Inr i"
  by (cases "length src - s < 4") (auto simp: pglz_hist_idx_def rd_def)

lemma add_entry_ok:
  assumes ok: "hist_ok h dp"
  defines "h1 \<equiv> if hist_recycle h then delink (hist_next h) h else h"
  shows "links_ok (link_entry (hist_next h) i dp h1) (insert (hist_next h) (in_use h)) \<and>
    (\<forall>x \<in> insert (hist_next h) (in_use h). hpos (hist_entries (link_entry (hist_next h) i dp h1) x) < Suc dp) \<and>
    hist_next (link_entry (hist_next h) i dp h1) = hist_next h \<and>
    hist_recycle (link_entry (hist_next h) i dp h1) = hist_recycle h"
proof -
  let ?e = "hist_next h" and ?I = "in_use h - {hist_next h}"
  have lt: "?e < PGLZ_HISTORY_SIZE" and ln: "links_ok h (in_use h)" and ps: "\<forall>x \<in> in_use h. hpos (hist_entries h x) < dp"
    using ok by (auto simp: hist_ok_def)
  have h1: "links_ok h1 ?I \<and> (\<forall>x. hpos (hist_entries h1 x) = hpos (hist_entries h x)) \<and> hist_next h1 = ?e \<and> hist_recycle h1 = hist_recycle h"
  proof (cases "hist_recycle h")
    case True
    then have "?e \<in> in_use h" using lt by (simp add: in_use_def)
    then show ?thesis unfolding h1_def using delink_links [OF ln] True by (simp add: delink_fields)
  next
    case False
    then have "in_use h - {?e} = in_use h" by (auto simp: in_use_def)
    then show ?thesis unfolding h1_def using ln False by simp
  qed
  then have "links_ok (link_entry ?e i dp h1) (insert ?e ?I)" using ps by (intro link_links) auto
  moreover have "hist_start h1 i \<noteq> Some ?e" using links_start [of h1 ?I i ?e] h1 by auto
  note L = link_fields [OF this]
  have "hpos (hist_entries (link_entry ?e i dp h1) x) = (if x = ?e then dp else hpos (hist_entries h x))" for x
    using h1 L(1) L(2) [of x] by (cases "hist_start h1 i = Some x") auto
  ultimately show ?thesis using h1 ps by (auto simp: L(4,5) less_Suc_eq)
qed

lemma hist_add_ok:
  assumes "hist_ok h dp" "dp < length src"
  shows "\<exists>h'. pglz_hist_add src dp h = Inr h' \<and> hist_ok h' (Suc dp)"
proof -
  obtain i where i: "pglz_hist_idx src dp = Inr i" using hist_idx_ok [OF assms(2)] by blast
  define h2 where "h2 = link_entry (hist_next h) i dp (if hist_recycle h then delink (hist_next h) h else h)"
  have h2: "links_ok h2 (insert (hist_next h) (in_use h))" "\<forall>x \<in> insert (hist_next h) (in_use h). hpos (hist_entries h2 x) < Suc dp"
    "hist_recycle h2 = hist_recycle h" using add_entry_ok [OF assms(1), of i] unfolding h2_def by auto
  have lt: "hist_next h < PGLZ_HISTORY_SIZE" using assms(1) by (simp add: hist_ok_def)
  define h' where "h' = (if Suc (hist_next h) \<ge> PGLZ_HISTORY_SIZE then h2\<lparr>hist_next := 0, hist_recycle := True\<rparr> else h2\<lparr>hist_next := Suc (hist_next h)\<rparr>)"
  have "in_use h' = insert (hist_next h) (in_use h)"
    using lt h2(3) by (auto simp: in_use_def h'_def)
  then have "hist_ok h' (Suc dp)"
    using h2(1,2) lt by (simp add: hist_ok_def h'_def PGLZ_HISTORY_SIZE_def)
  moreover have "pglz_hist_add src dp h = Inr h'" using i by (simp add: pglz_hist_add_def Let_def h2_def h'_def)
  ultimately show ?thesis by blast
qed

lemma add_loop_ok:
  "hist_ok h dp \<Longrightarrow> dp + n \<le> length src \<Longrightarrow> \<exists>h'. add_loop n src dp h = Inr h' \<and> hist_ok h' (dp + n)"
proof (induction n arbitrary: dp h)
  case (Suc n)
  then obtain h1 where "pglz_hist_add src dp h = Inr h1" "hist_ok h1 (Suc dp)" using hist_add_ok [of h dp src] by auto
  then show ?case using Suc.IH [of h1 "Suc dp"] Suc.prems(2) by auto
qed simp

end
