(* ===== verification/LzProps.thy ===== *)
theory LzProps
  imports LzHist
begin

text \<open>
  The compressor finds true matches, its output is a sequence of valid items that expands to the
  input, and it stays inside the output area; so decompression returns the input.
\<close>

section \<open>Matches\<close>

definition is_match :: "uchar list \<Rightarrow> nat \<Rightarrow> nat \<Rightarrow> nat \<Rightarrow> bool" where
  "is_match src ip off len \<longleftrightarrow> ip + len \<le> length src \<and> off \<le> ip \<and> (\<forall>k < len. src ! (ip + k) = src ! (ip + k - off))"

lemma is_match_diff:
  "hp < ip \<Longrightarrow> is_match src ip (ip - hp) r \<longleftrightarrow> ip + r \<le> length src \<and> (\<forall>k < r. src ! (ip + k) = src ! (hp + k))"
  by (simp add: is_match_def add.commute)

lemma match_loop_extends:
  assumes "hp \<le> ip" "ip \<le> length src"
  shows "\<exists>r. match_loop src ip hp n = Inr r \<and> n \<le> r \<and> ip + (r - n) \<le> length src \<and>
    (\<forall>k < r - n. src ! (ip + k) = src ! (hp + k)) \<and> r \<le> max n PGLZ_MAX_MATCH"
  using assms
proof (induction "length src - ip" arbitrary: ip hp n)
  case 0
  then show ?case by (subst match_loop.simps) simp
next
  case (Suc m)
  then have lt: "ip < length src" "hp < length src" by simp_all
  show ?case
  proof (cases "src ! ip = src ! hp \<and> n < PGLZ_MAX_MATCH")
    case True
    have "m = length src - (ip + 1)" "hp + 1 \<le> ip + 1" "ip + 1 \<le> length src" using Suc.hyps(2) Suc.prems lt by auto
    from Suc.hyps(1) [OF this] obtain r where r: "match_loop src (ip + 1) (hp + 1) (n + 1) = Inr r" "n + 1 \<le> r" "ip + 1 + (r - (n + 1)) \<le> length src"
      "\<forall>k < r - (n + 1). src ! (ip + 1 + k) = src ! (hp + 1 + k)" "r \<le> max (n + 1) PGLZ_MAX_MATCH"
      by blast
    have "src ! (ip + k) = src ! (hp + k)" if "k < r - n" for k
      using r(4) True that by (cases k) auto
    moreover have "match_loop src ip hp n = Inr r" using r(1) True lt by (subst match_loop.simps) (simp add: rd_def)
    ultimately show ?thesis using r True by auto
  next
    case False
    then have "match_loop src ip hp n = Inr n" using lt by (subst match_loop.simps) (auto simp: rd_def)
    then show ?thesis using Suc.prems by simp
  qed
qed

lemma match_length_match:
  assumes "hp < ip" "ip + len \<le> length src" "len \<le> PGLZ_MAX_MATCH"
  shows "\<exists>r. match_length src ip hp len = Inr r \<and> is_match src ip (ip - hp) r \<and> r \<le> PGLZ_MAX_MATCH"
proof (cases "len \<ge> 16 \<and> take len (drop ip src) = take len (drop hp src)")
  case True
  then obtain r where r: "match_loop src (ip + len) (hp + len) len = Inr r" "len \<le> r" "ip + len + (r - len) \<le> length src"
    "\<forall>k < r - len. src ! (ip + len + k) = src ! (hp + len + k)" "r \<le> PGLZ_MAX_MATCH"
    using match_loop_extends [of "hp + len" "ip + len" src len] assms by (auto simp: max_def)
  have "src ! (ip + k) = src ! (hp + k)" if "k < r" for k
  proof (cases "k < len")
    case True
    then have "take len (drop ip src) ! k = take len (drop hp src) ! k"
      using \<open>len \<ge> 16 \<and> take len (drop ip src) = take len (drop hp src)\<close> by simp
    then show ?thesis using True assms by simp
  next
    case False
    then show ?thesis using r(4) that by (auto dest: spec [of _ "k - len"])
  qed
  then have "is_match src ip (ip - hp) r" using r(2,3) assms(1) by (simp add: is_match_diff)
  moreover have "match_length src ip hp len = Inr r" using r(1) True assms by (simp add: match_length_def memcmp_eq_def)
  ultimately show ?thesis using r(5) by blast
next
  case False
  show ?thesis
  proof (cases "len \<ge> 16")
    case True
    then have "match_length src ip hp len = Inr 0" using False assms by (auto simp: match_length_def memcmp_eq_def)
    then show ?thesis using assms by (simp add: is_match_def)
  next
    case False
    obtain r where "match_loop src ip hp 0 = Inr r" "ip + r \<le> length src" "\<forall>k < r. src ! (ip + k) = src ! (hp + k)" "r \<le> PGLZ_MAX_MATCH"
      using match_loop_extends [of hp ip src 0] assms by auto
    then show ?thesis using False assms by (simp add: match_length_def is_match_diff)
  qed
qed

definition best_ok :: "uchar list \<Rightarrow> nat \<Rightarrow> nat \<Rightarrow> int \<Rightarrow> bool" where
  "best_ok src ip len off \<longleftrightarrow>
     ip + len \<le> length src \<and> len \<le> PGLZ_MAX_MATCH \<and> (len = 0 \<or> is_match src ip (nat off) len \<and> 1 \<le> off \<and> off < 4095)"

lemma best_ok_step:
  assumes "best_ok src ip len off" "is_match src ip (ip - hp) r" "r \<le> PGLZ_MAX_MATCH" "hp < ip" "int ip - int hp < 4095"
  shows "best_ok src ip (if r > len then r else len) (if r > len then int ip - int hp else off)"
  using assms by (auto simp: best_ok_def is_match_def nat_diff_distrib)

lemma find_loop_match:
  assumes "links_ok h I" "\<forall>x \<in> I. hpos (hist_entries h x) < ip"
  shows "best_ok src ip len off \<Longrightarrow> 1 \<le> fuel \<Longrightarrow>
    (\<And>e. hent = Some e \<Longrightarrow> e \<in> I \<and> hpos (hist_entries h e) + 2 \<le> fuel) \<Longrightarrow>
    \<exists>len' off'. find_loop fuel h src ip good_drop hent good_match len off = Inr (len', off') \<and> best_ok src ip len' off'"
proof (induction fuel arbitrary: hent good_match len off)
  case (Suc fuel)
  show ?case
  proof (cases hent)
    case (Some e)
    let ?hp = "hpos (hist_entries h e)"
    have e: "e \<in> I" "?hp < ip" "?hp + 2 \<le> Suc fuel" using Suc.prems(3) [OF Some] assms(2) by auto
    show ?thesis
    proof (cases "int ip - int ?hp \<ge> 0xfff")
      case False
      obtain r where r: "match_length src ip ?hp len = Inr r" "is_match src ip (ip - ?hp) r" "r \<le> PGLZ_MAX_MATCH"
        using match_length_match [OF e(2), of len src] Suc.prems(1) by (auto simp: best_ok_def)
      define l d where ld: "l = (if r > len then r else len)" "d = (if r > len then int ip - int ?hp else off)"
      have best: "best_ok src ip l d" using best_ok_step [OF Suc.prems(1) r(2,3) e(2)] False by (simp add: ld)
      have nxt: "f \<in> I \<and> hpos (hist_entries h f) + 2 \<le> fuel" if "hnext (hist_entries h e) = Some f" for f
        using links_next [OF assms(1) e(1) that] e(3) by simp
      have IH: "\<exists>len' off'. find_loop fuel h src ip good_drop (hnext (hist_entries h e)) gm l d = Inr (len', off') \<and> best_ok src ip len' off'" for gm
        using best nxt e(3) by (intro Suc.IH) auto
      have "find_loop (Suc fuel) h src ip good_drop hent good_match len off =
        (if hnext (hist_entries h e) \<noteq> None then
           if int l \<ge> good_match then Inr (l, d)
           else find_loop fuel h src ip good_drop (hnext (hist_entries h e)) (good_match - good_match * good_drop div 100) l d
         else find_loop fuel h src ip good_drop (hnext (hist_entries h e)) good_match l d)"
        using False r(1) Some by (simp add: Let_def ld)
      then show ?thesis using IH best
        by (cases "hnext (hist_entries h e) \<noteq> None"; cases "int l \<ge> good_match") (simp_all only: if_True if_False simp_thms, blast+)
    qed (use Some Suc.prems(1) in simp)
  qed (use Suc.prems(1) in simp)
qed simp

lemma find_match_ok:
  assumes "hist_ok h dp" "dp < length src"
  shows "\<exists>m. pglz_find_match h src dp gm gd = Inr m \<and>
    (\<forall>len off. m = Some (len, off) \<longrightarrow> 3 \<le> len \<and> len \<le> 273 \<and> 1 \<le> off \<and> off < 4095 \<and> is_match src dp off len)"
proof -
  have h: "links_ok h (in_use h)" "\<forall>x \<in> in_use h. hpos (hist_entries h x) < dp" using assms(1) by (auto simp: hist_ok_def)
  obtain i where i: "pglz_hist_idx src dp = Inr i" using hist_idx_ok [OF assms(2)] by blast
  have "best_ok src dp 0 0" using assms(2) by (simp add: best_ok_def)
  then obtain len off where "find_loop (dp + 2) h src dp gd (hist_start h i) gm 0 0 = Inr (len, off)" "best_ok src dp len off"
    using find_loop_match [OF h, of src 0 0 "dp + 2" "hist_start h i" gd gm] links_start [OF h(1), of i] h(2) by fastforce
  then show ?thesis using i by (auto simp: pglz_find_match_def best_ok_def PGLZ_MAX_MATCH_def)
qed

section \<open>The main loop\<close>

lemma copies_match:
  "is_match src ip off len \<Longrightarrow> 1 \<le> off \<Longrightarrow> copies len off (take ip src) = take (ip + len) src"
proof (induction len arbitrary: ip)
  case (Suc len)
  then have m: "ip < length src" "off \<le> ip" "src ! ip = src ! (ip - off)" by (auto simp: is_match_def dest: spec [of _ 0])
  have "is_match src (Suc ip) off len"
    unfolding is_match_def using Suc.prems(1) by (auto simp: is_match_def dest!: spec [of _ "Suc _"])
  then have "copies len off (take (Suc ip) src) = take (Suc ip + len) src" using Suc.IH Suc.prems(2) by simp
  moreover have "take ip src @ [take ip src ! (length (take ip src) - off)] = take (Suc ip) src"
    using m Suc.prems(2) by (simp add: take_Suc_conv_app_nth)
  ultimately show ?case by simp
qed simp

text \<open>What holds whenever the main loop tests its condition: the items written so far expand to the part of
  the input that was read.\<close>

definition progress :: "uchar list \<Rightarrow> nat \<Rightarrow> nat \<Rightarrow> history \<Rightarrow> lz_output \<Rightarrow> bool" where
  "progress src cap dp h p \<longleftrightarrow>
     dp \<le> length src \<and> hist_ok h dp \<and> length (buf p) = cap \<and>
     (\<exists>is. out_inv p is \<and> items_ok is [] \<and> expand is [] = take dp src)"

lemma progress_tag:
  assumes "progress src cap dp h p" "bp p + 4 \<le> cap" "3 \<le> len" "len \<le> 273" "1 \<le> off" "off < 4095" "is_match src dp off len"
  shows "\<exists>p' h'. pglz_out_tag len off p = Inr p' \<and> add_loop len src dp h = Inr h' \<and> progress src cap (dp + len) h' p'"
proof -
  obtain "is" where i: "out_inv p is" "items_ok is []" "expand is [] = take dp src" using assms(1) by (auto simp: progress_def)
  have dp: "dp + len \<le> length src" "off \<le> dp" "dp \<le> length src" using assms(7) by (auto simp: is_match_def)
  obtain p' where p': "pglz_out_tag len off p = Inr p'" "out_inv p' (is @ [Tag len off])" "length (buf p') = cap"
    using out_tag_emits [OF i(1) _ assms(3)] assms(1,2) by (auto simp: progress_def)
  obtain h' where h': "add_loop len src dp h = Inr h'" "hist_ok h' (dp + len)"
    using add_loop_ok [of h dp len src] assms(1) dp by (auto simp: progress_def)
  have "items_ok (is @ [Tag len off]) []" using i assms dp by simp
  moreover have "expand (is @ [Tag len off]) [] = take (dp + len) src" using i(3) copies_match [OF assms(7,5)] by simp
  ultimately show ?thesis using p' h' dp by (auto simp: progress_def)
qed

lemma progress_literal:
  assumes "progress src cap dp h p" "bp p + 4 \<le> cap" "dp < length src"
  shows "\<exists>p' h'. pglz_out_literal (src ! dp) p = Inr p' \<and> pglz_hist_add src dp h = Inr h' \<and> progress src cap (dp + 1) h' p'"
proof -
  obtain "is" where i: "out_inv p is" "items_ok is []" "expand is [] = take dp src" using assms(1) by (auto simp: progress_def)
  obtain p' where p': "pglz_out_literal (src ! dp) p = Inr p'" "out_inv p' (is @ [Lit (src ! dp)])" "length (buf p') = cap"
    using out_literal_emits [OF i(1)] assms(1,2) by (auto simp: progress_def)
  obtain h' where h': "pglz_hist_add src dp h = Inr h'" "hist_ok h' (dp + 1)"
    using hist_add_ok [of h dp src] assms by (auto simp: progress_def)
  have "expand (is @ [Lit (src ! dp)]) [] = take (dp + 1) src" using i(3) assms(3) by (simp add: take_Suc_conv_app_nth)
  moreover have "items_ok (is @ [Lit (src ! dp)]) []" using i(2) by simp
  ultimately show ?thesis using p' h' assms(3) unfolding progress_def by fastforce
qed

lemma compress_loop_ok:
  assumes "length src + 4 \<le> cap" "rm \<le> int (length src)"
  shows "progress src cap dp h p \<Longrightarrow>
    \<exists>fits p'. compress_loop src rm gm gd dp h p = Inr (fits, p') \<and> length (buf p') = cap \<and>
      (fits \<longrightarrow> (\<exists>h'. progress src cap (length src) h' p'))"
proof (induction "length src - dp" arbitrary: dp h p rule: less_induct)
  case less
  show ?case
  proof (cases "dp < length src \<and> int (bp p) < rm")
    case True
    then have room: "bp p + 4 \<le> cap" and lt: "dp < length src" using assms by auto
    obtain m where m: "pglz_find_match h src dp gm gd = Inr m"
      "\<And>len off. m = Some (len, off) \<Longrightarrow> 3 \<le> len \<and> len \<le> 273 \<and> 1 \<le> off \<and> off < 4095 \<and> is_match src dp off len"
      using find_match_ok [OF _ lt] less.prems by (fastforce simp: progress_def)
    show ?thesis
    proof (cases m)
      case None
      obtain p' h' where "pglz_out_literal (src ! dp) p = Inr p'" "pglz_hist_add src dp h = Inr h'" "progress src cap (dp + 1) h' p'"
        using progress_literal [OF less.prems room lt] by blast
      moreover have "length src - (dp + 1) < length src - dp" using lt by simp
      note less.hyps [OF this, of h' p']
      ultimately show ?thesis using m(1) None True by (subst compress_loop.simps) (simp add: rd_def)
    next
      case (Some x)
      obtain len off where x: "m = Some (len, off)" using Some by (cases x) auto
      obtain p' h' where "pglz_out_tag len off p = Inr p'" "add_loop len src dp h = Inr h'" "progress src cap (dp + len) h' p'"
        using progress_tag [OF less.prems room] m(2) [OF x] by blast
      moreover have "length src - (dp + len) < length src - dp" using lt m(2) [OF x] by auto
      note less.hyps [OF this, of h' p']
      ultimately show ?thesis using m(1) x True by (subst compress_loop.simps) simp
    qed
  next
    case False
    have buf: "length (buf p) = cap" and dp: "dp \<le> length src" using less.prems by (simp_all add: progress_def)
    show ?thesis
    proof (cases "dp < length src")
      case True
      then have "compress_loop src rm gm gd dp h p = Inr (False, p)" using False by (subst compress_loop.simps) simp
      then show ?thesis using buf by auto
    next
      case False
      then have "compress_loop src rm gm gd dp h p = Inr (True, p)" by (subst compress_loop.simps) simp
      moreover have "dp = length src" using False dp by simp
      ultimately show ?thesis using buf less.prems by blast
    qed
  qed
qed

section \<open>Compression and decompression\<close>

lemma result_limit_le: "result_limit n s \<le> int n"
  by (auto simp: result_limit_def Let_def intro!: div_int_pos_iff [THEN iffD2])

lemma empty_progress:
  "progress src (length a) 0 \<lparr>hist_start = (\<lambda>_. None), hist_entries = old, hist_next = 0, hist_recycle = False\<rparr>
     \<lparr>buf = a, bp = 0, ctrlp = None, ctrlb = 0, ctrl = 0\<rparr>"
  unfolding progress_def
  by (auto simp: hist_ok_def in_use_def links_ok_def PGLZ_HISTORY_SIZE_def out_inv_def intro: exI [of _ "[]"])

lemma finished_output:
  assumes "progress src cap (length src) h p"
  shows "\<exists>gs a. put_ctrl p = Inr (p\<lparr>buf := a\<rparr>) \<and> length a = cap \<and> groups_ok gs \<and> items_ok (concat gs) [] \<and>
    expand (concat gs) [] = src \<and> bp p = length (encode gs) \<and> bp p \<le> cap \<and> take (bp p) a = encode gs"
proof -
  obtain "is" where i: "out_inv p is" "items_ok is []" "expand is [] = src" "length (buf p) = cap" using assms by (auto simp: progress_def)
  from i(1) show ?thesis unfolding out_inv_def
  proof (elim disjE)
    assume "is = [] \<and> ctrlp p = None \<and> ctrl p = 0 \<and> bp p = 0"
    then show ?thesis using i by (intro exI [of _ "[]"] exI [of _ "buf p"]) (simp add: put_ctrl_def)
  next
    assume "\<exists>gs g. written p gs g \<and> g \<noteq> [] \<and> is = concat gs @ g"
    then obtain gs g where w: "written p gs g" "is = concat gs @ g" by blast
    then show ?thesis using put_ctrl_closes [OF w(1)] groups_full [of gs g] i
      by (fastforce simp: written_def intro: exI [of _ "gs @ [g]"])
  qed
qed

lemma compress_end_result:
  assumes "length (buf p) = length (area dest)" "fits \<longrightarrow> (\<exists>h'. progress src (length (area dest)) (length src) h' p)"
  shows "\<exists>ok z. compress_end (dest\<lparr>rawsize := length src\<rparr>) (result_limit (length src) st) (fits, p) = Inr (ok, z) \<and>
    length (area z) = length (area dest) \<and>
    (ok \<longrightarrow> rawsize z = length src \<and> vl_len z < length src + 8 \<and> (\<exists>gs. groups_ok gs \<and> items_ok (concat gs) [] \<and>
       expand (concat gs) [] = src \<and> vl_len z = length (encode gs) + 8 \<and> length (encode gs) \<le> length (area z) \<and>
       take (length (encode gs)) (area z) = encode gs))"
proof (cases fits)
  case True
  then obtain h' where "progress src (length (area dest)) (length src) h' p" using assms(2) by blast
  from finished_output [OF this] obtain gs a where g: "put_ctrl p = Inr (p\<lparr>buf := a\<rparr>)" "length a = length (area dest)" "groups_ok gs"
    "items_ok (concat gs) []" "expand (concat gs) [] = src" "bp p = length (encode gs)" "bp p \<le> length (area dest)"
    "take (bp p) a = encode gs" by blast
  show ?thesis
  proof (cases "int (bp p) \<ge> result_limit (length src) st")
    case True
    then show ?thesis using \<open>fits\<close> g(1,2) by (auto simp: compress_end_def)
  next
    case False
    then have "bp p < length src" using result_limit_le [of "length src" st] by simp
    then show ?thesis using \<open>fits\<close> False g by (auto simp: compress_end_def)
  qed
qed (use assms(1) in \<open>auto simp: compress_end_def\<close>)

lemma compress_result:
  assumes "PGLZ_MAX_OUTPUT (length src) \<le> length (area dest) + 8"
  shows "\<exists>ok z. pglz_compress old src dest strategy = Inr (ok, z) \<and> length (area z) = length (area dest) \<and>
    (ok \<longrightarrow> rawsize z = length src \<and> vl_len z < length src + 8 \<and> (\<exists>gs. groups_ok gs \<and> items_ok (concat gs) [] \<and>
       expand (concat gs) [] = src \<and> vl_len z = length (encode gs) + 8 \<and> length (encode gs) \<le> length (area z) \<and>
       take (length (encode gs)) (area z) = encode gs))"
proof -
  define st where "st = (case strategy of None \<Rightarrow> PGLZ_strategy_default | Some s \<Rightarrow> s)"
  let ?h = "\<lparr>hist_start = (\<lambda>_. None), hist_entries = old, hist_next = 0, hist_recycle = False\<rparr>"
  let ?p = "\<lparr>buf = area dest, bp = 0, ctrlp = None, ctrlb = 0, ctrl = 0\<rparr>"
  let ?rm = "result_limit (length src) st" and ?cap = "length (area dest)"
  show ?thesis
  proof (cases "match_size_good st \<le> 0 \<or> int (length src) < min_input_size st")
    case True
    then show ?thesis by (auto simp: pglz_compress_def st_def [symmetric])
  next
    case False
    then have run: "pglz_compress old src dest strategy =
        res_bind (compress_loop src ?rm (good_match_of st) (good_drop_of st) 0 ?h ?p) (compress_end (dest\<lparr>rawsize := length src\<rparr>) ?rm)"
      by (simp add: pglz_compress_def st_def [symmetric] Let_def)
    have "length src + 4 \<le> ?cap" "?rm \<le> int (length src)" using assms result_limit_le by (auto simp: PGLZ_MAX_OUTPUT_def)
    from compress_loop_ok [OF this empty_progress, of "good_match_of st" "good_drop_of st" old] obtain fits p' where
      p': "compress_loop src ?rm (good_match_of st) (good_drop_of st) 0 ?h ?p = Inr (fits, p')" "length (buf p') = ?cap"
        "fits \<longrightarrow> (\<exists>h'. progress src ?cap (length src) h' p')" by blast
    then show ?thesis unfolding run p'(1) res_bind_Inr by (intro compress_end_result) auto
  qed
qed

section \<open>Properties\<close>


text \<open>Five times the letter a, and an area that is just large enough.\<close>

definition blank_entry :: PGLZ_HistEntry where
  "blank_entry = \<lparr>hnext = None, hprev = None, hindex = 0, hpos = 0\<rparr>"

definition letters :: "uchar list" where
  "letters = [97, 97, 97, 97, 97]"

definition small_area :: PGLZ_Header where
  "small_area = \<lparr>vl_len = 0, rawsize = 0, area = [255, 255, 255, 255, 255, 255, 255, 255, 255]\<rparr>"

definition packed :: PGLZ_Header where
  "packed = \<lparr>vl_len = 12, rawsize = 5, area = [2, 97, 1, 1, 255, 255, 255, 255, 255]\<rparr>"

lemma letters_nth: "i < 5 \<Longrightarrow> letters ! i = 97" and letters_length: "length letters = 5"
  by (auto simp: letters_def less_Suc_eq numeral_eq_Suc)

lemma small_area_length: "length (area small_area) = 9"
  by (simp add: small_area_def)

lemma letters_idx: "pglz_hist_idx letters (Suc 0) = pglz_hist_idx letters 0"
  by (simp add: pglz_hist_idx_def rd_def letters_nth letters_length)

lemma letters_match: "match_loop letters (Suc 0) 0 0 = Inr 4"
  by (subst match_loop.simps, simp add: rd_def letters_nth letters_length PGLZ_MAX_MATCH_def)+

lemma letters_packed: "pglz_compress (\<lambda>_. blank_entry) letters small_area (Some PGLZ_strategy_always) = Inr (True, packed)"
proof -
  let ?h = "\<lparr>hist_start = (\<lambda>_. None), hist_entries = \<lambda>_. blank_entry, hist_next = 0, hist_recycle = False\<rparr>"
  let ?p = "\<lparr>buf = area small_area, bp = 0, ctrlp = None, ctrlb = 0, ctrl = 0\<rparr>"
  let ?p1 = "\<lparr>buf = (area small_area)[1 := 97], bp = 2, ctrlp = Some 0, ctrlb = 0, ctrl = 2\<rparr>"
  let ?p2 = "\<lparr>buf = (area small_area)[1 := 97, 2 := 1, 3 := 1], bp = 4, ctrlp = Some 0, ctrlb = 2, ctrl = 4\<rparr>"
  let ?loop = "compress_loop letters 5 128 6"
  obtain i where i: "pglz_hist_idx letters 0 = Inr i" using hist_idx_ok [of 0 letters] letters_length by auto
  have ok: "hist_ok ?h 0" using empty_progress [of letters "[]" "\<lambda>_. blank_entry"] by (simp add: progress_def)
  define h1 where "h1 = (link_entry 0 i 0 ?h)\<lparr>hist_next := 1\<rparr>"
  have h1: "pglz_hist_add letters 0 ?h = Inr h1" by (simp add: pglz_hist_add_def i h1_def PGLZ_HISTORY_SIZE_def)
  then have "hist_ok h1 1" using hist_add_ok [OF ok, of letters] letters_length by simp
  then obtain h2 where h2: "add_loop 4 letters 1 h1 = Inr h2" using add_loop_ok [of h1 1 4 letters] letters_length by auto
  have "pglz_find_match ?h letters 0 128 6 = Inr None" by (simp add: pglz_find_match_def i numeral_2_eq_2)
  moreover have "pglz_out_literal 97 ?p = Inr ?p1"
    by (simp add: pglz_out_literal_def pglz_out_ctrl_def put_ctrl_def put_byte_def wr_def small_area_def)
  ultimately have 1: "?loop 0 ?h ?p = ?loop 1 h1 ?p1"
    using h1 by (subst compress_loop.simps) (simp add: letters_length rd_def letters_nth)
  have "hist_start h1 i = Some 0" "hist_entries h1 0 = \<lparr>hnext = None, hprev = None, hindex = i, hpos = 0\<rparr>"
    by (simp_all add: h1_def link_entry_def)
  then have "pglz_find_match h1 letters 1 128 6 = Inr (Some (4, 1))"
    by (simp add: pglz_find_match_def letters_idx i match_length_def letters_match numeral_3_eq_3 Let_def)
  moreover have "pglz_out_tag 4 1 ?p1 = Inr ?p2"
    by (simp add: pglz_out_tag_def pglz_out_ctrl_def put_byte_def wr_def small_area_def Let_def)
  ultimately have 2: "?loop 1 h1 ?p1 = ?loop 5 h2 ?p2"
    using h2 by (subst compress_loop.simps) (simp add: letters_length)
  have "?loop 5 h2 ?p2 = Inr (True, ?p2)" by (subst compress_loop.simps) (simp add: letters_length)
  with 1 2 show ?thesis
    by (simp add: pglz_compress_def PGLZ_strategy_always_def letters_length result_limit_def good_match_of_def good_drop_of_def
        PGLZ_MAX_MATCH_def Let_def compress_end_def put_ctrl_def wr_def packed_def) (simp add: small_area_def)
qed


text \<open>C16: decompression returns what was compressed, for every strategy, and leaves what lies behind the
  decompressed data alone.\<close>

theorem pglz_roundtrip:
  assumes "pglz_compress old src dest strategy = Inr (True, z)"
    and "PGLZ_MAX_OUTPUT (length src) \<le> length (area dest) + 8" "length src \<le> length out"
  shows "pglz_decompress z out = Inr (src @ drop (length src) out)"
proof -
  obtain gs where g: "rawsize z = length src" "groups_ok gs" "items_ok (concat gs) []" "expand (concat gs) [] = src"
    "vl_len z = length (encode gs) + 8" "length (encode gs) \<le> length (area z)" "take (length (encode gs)) (area z) = encode gs"
    using compress_result [OF assms(2), of old strategy] assms(1) by auto
  then show ?thesis using decompress_encoded [OF g(2,3), of z out] assms(3) by simp
qed

theorem pglz_roundtrip_witness: "pglz_decompress packed [0, 0, 0, 0, 0, 9] = Inr (letters @ [9])"
  using pglz_roundtrip [OF letters_packed, of "[0, 0, 0, 0, 0, 9]"]
  by (simp add: letters_length small_area_length PGLZ_MAX_OUTPUT_def)

text \<open>C18: the history after any number of additions, also when entries are recycled, consists of lists that are
  linked both ways and ordered by position, and so the search for a match ends; what it finds is a true
  match with the earlier input, and its length and offset fit into a tag.\<close>

theorem history_finds_true_matches:
  assumes "n < length src"
  shows "\<exists>h m. add_loop n src 0 \<lparr>hist_start = (\<lambda>_. None), hist_entries = old, hist_next = 0, hist_recycle = False\<rparr> = Inr h \<and>
    hist_ok h n \<and> pglz_find_match h src n good_match good_drop = Inr m \<and>
    (case m of None \<Rightarrow> True | Some (len, off) \<Rightarrow> 3 \<le> len \<and> len \<le> 273 \<and> 1 \<le> off \<and> off < 4095 \<and> n + len \<le> length src \<and>
       off \<le> n \<and> take len (drop n src) = map (\<lambda>k. src ! (n + k - off)) [0..<len])"
proof -
  let ?h = "\<lparr>hist_start = (\<lambda>_. None), hist_entries = old, hist_next = 0, hist_recycle = False\<rparr>"
  have "hist_ok ?h 0" using empty_progress [of src "[]" old] by (simp add: progress_def)
  then obtain h where h: "add_loop n src 0 ?h = Inr h" "hist_ok h n" using add_loop_ok [of ?h 0 n src] assms by auto
  obtain m where m: "pglz_find_match h src n good_match good_drop = Inr m"
    "\<And>len off. m = Some (len, off) \<Longrightarrow> 3 \<le> len \<and> len \<le> 273 \<and> 1 \<le> off \<and> off < 4095 \<and> is_match src n off len"
    using find_match_ok [OF h(2) assms, of good_match good_drop] by auto
  have "take len (drop n src) = map (\<lambda>k. src ! (n + k - off)) [0..<len]" if "is_match src n off len" for len off
    using that by (intro nth_equalityI) (auto simp: is_match_def)
  then show ?thesis using h m by (fastforce simp: is_match_def split: option.split)
qed

theorem history_finds_true_matches_witness:
  "\<exists>h m. add_loop 3 letters 0 \<lparr>hist_start = (\<lambda>_. None), hist_entries = \<lambda>_. blank_entry, hist_next = 0, hist_recycle = False\<rparr> = Inr h \<and>
    hist_ok h 3 \<and> pglz_find_match h letters 3 128 10 = Inr m"
  using history_finds_true_matches [of 3 letters "\<lambda>_. blank_entry" 128 10] letters_length by auto

end
