(* ===== verification/Like.thy ===== *)
theory Like
  imports CString HashFunc
begin

text \<open>
  Pattern matching of the server: \<open>src/backend/utils/adt/like.c\<close> and \<open>like_match.c\<close>, which is included
  four times with different macros.  The macros are the parameters of the functions: how to go to the
  next character and what to do to a character before it is compared.  A text and its length are the
  list of the bytes that are left.
\<close>

section \<open>Encodings\<close>

text \<open>For other encodings the parameter gives the number of bytes of a character after its first.\<close>

datatype encoding = SB | UTF8 | MB "string \<Rightarrow> nat"

definition is_continuation :: "char \<Rightarrow> bool" where
  "is_continuation c \<longleftrightarrow> (of_char c :: uchar) AND 0xC0 = 0x80"

text \<open>\<open>NextChar\<close> of the three inclusions with different encodings\<close>

fun NextChar :: "encoding \<Rightarrow> string \<Rightarrow> string" where
  "NextChar SB p = tl p"
| "NextChar UTF8 p = dropWhile is_continuation (tl p)"
| "NextChar (MB extra) p = drop (extra p) (tl p)"

definition pg_utf_mblen :: "char \<Rightarrow> nat" where
  "pg_utf_mblen c =
     (let s = of_char c :: uchar in
      if s AND 0x80 = 0 then 1
      else if s AND 0xe0 = 0xc0 then 2
      else if s AND 0xf0 = 0xe0 then 3
      else if s AND 0xf8 = 0xf0 then 4
      else 1)"

lemma NextChar_shorter: "t \<noteq> [] \<Longrightarrow> length (NextChar enc t) < length t"
proof (cases enc)
  case UTF8
  assume "t \<noteq> []"
  moreover have "length (dropWhile is_continuation (tl t)) \<le> length (tl t)" by (rule length_dropWhile_le)
  ultimately show ?thesis using UTF8 by (cases t) auto
qed (cases t; auto)+

section \<open>Matching\<close>

datatype like_result = LIKE_TRUE | LIKE_FALSE | LIKE_ABORT

abbreviation percent :: char where "percent \<equiv> CHR 0x25"
abbreviation underscore :: char where "underscore \<equiv> CHR 0x5F"
abbreviation backslash :: char where "backslash \<equiv> CHR 0x5C"

definition skip_percent :: "string \<Rightarrow> string" where
  "skip_percent p = dropWhile (\<lambda>c. c = percent) p"

lemma skip_percent_shorter: "length (skip_percent p) - n \<le> length p"
  by (simp add: skip_percent_def le_diff_conv trans_le_add1 length_dropWhile_le)

text \<open>After the loop: the end of the text or of the pattern.\<close>

definition match_end :: "string \<Rightarrow> string \<Rightarrow> like_result" where
  "match_end t p = (if t \<noteq> [] then LIKE_FALSE else if skip_percent p = [] then LIKE_TRUE else LIKE_ABORT)"

text \<open>\<open>firstpat\<close>, \<open>None\<close> when the pattern ends with its escape character\<close>

definition first_pat :: "(char \<Rightarrow> char) \<Rightarrow> string \<Rightarrow> char option" where
  "first_pat TCHAR p =
     (if hd p = backslash then if length p < 2 then None else Some (TCHAR (p ! 1)) else Some (TCHAR (hd p)))"

text \<open>
  \<open>MatchText\<close>, the loop of it, and the loop that tries the rest of a pattern at every position of the
  text; the last one has the byte with which the text has to start, if any.
\<close>

function (sequential)
      MatchText :: "encoding \<Rightarrow> (char \<Rightarrow> char) \<Rightarrow> string \<Rightarrow> string \<Rightarrow> like_result"
  and match_text_loop :: "encoding \<Rightarrow> (char \<Rightarrow> char) \<Rightarrow> string \<Rightarrow> string \<Rightarrow> like_result"
  and scan_text :: "encoding \<Rightarrow> (char \<Rightarrow> char) \<Rightarrow> char option \<Rightarrow> string \<Rightarrow> string \<Rightarrow> like_result" where
  "MatchText enc TCHAR t p = (if p = [percent] then LIKE_TRUE else match_text_loop enc TCHAR t p)"
| "match_text_loop enc TCHAR (a # t) (c # p) =
     (if c = backslash then
        case p of
          [] \<Rightarrow> LIKE_FALSE
        | d # p \<Rightarrow> if d \<noteq> a then LIKE_FALSE else match_text_loop enc TCHAR t p
      else if c = percent then
        let p = skip_percent p in
        if p = [] then LIKE_TRUE
        else if hd p = underscore then
          let t = NextChar enc (a # t); p = tl p in
          if t = [] then if p = [] then LIKE_TRUE else LIKE_ABORT
          else if p = [] then LIKE_FALSE
          else scan_text enc TCHAR None t p
        else
          case first_pat TCHAR p of
            None \<Rightarrow> LIKE_FALSE
          | Some firstpat \<Rightarrow> scan_text enc TCHAR (Some firstpat) (a # t) p
      else if c = underscore then match_text_loop enc TCHAR (NextChar enc (a # t)) p
      else if TCHAR a \<noteq> TCHAR c then LIKE_FALSE
      else match_text_loop enc TCHAR t p)"
| "match_text_loop enc TCHAR t p = match_end t p"
| "scan_text enc TCHAR firstpat t p =
     (if t = [] then LIKE_ABORT
      else if firstpat = None \<or> firstpat = Some (TCHAR (hd t)) then
        (let matched = MatchText enc TCHAR t p in
         if matched \<noteq> LIKE_FALSE then matched else scan_text enc TCHAR firstpat (NextChar enc t) p)
      else scan_text enc TCHAR firstpat (NextChar enc t) p)"
  by pat_completeness auto
termination
  by (relation "inv_image (less_than <*lex*> less_than <*lex*> less_than)
     (\<lambda>x. case x of
        Inl (enc, f, t, p) \<Rightarrow> (length p, length t, 1 :: nat)
      | Inr (Inl (enc, f, t, p)) \<Rightarrow> (length p, length t, 0)
      | Inr (Inr (enc, f, c, t, p)) \<Rightarrow> (length p, length t, 2))")
    (auto simp: NextChar_shorter less_Suc_eq_le skip_percent_shorter skip_percent_shorter [of _ 0, simplified])

declare MatchText.simps [simp del]
declare match_text_loop.simps [simp del]
declare scan_text.simps [simp del]

text \<open>The four inclusions.\<close>

definition SB_MatchText :: "string \<Rightarrow> string \<Rightarrow> like_result" where
  "SB_MatchText = MatchText SB (\<lambda>c. c)"

definition UTF8_MatchText :: "string \<Rightarrow> string \<Rightarrow> like_result" where
  "UTF8_MatchText = MatchText UTF8 (\<lambda>c. c)"

definition MB_MatchText :: "(string \<Rightarrow> nat) \<Rightarrow> string \<Rightarrow> string \<Rightarrow> like_result" where
  "MB_MatchText extra = MatchText (MB extra) (\<lambda>c. c)"

definition SB_IMatchText :: "(char \<Rightarrow> char) \<Rightarrow> string \<Rightarrow> string \<Rightarrow> like_result" where
  "SB_IMatchText to_lower = MatchText SB to_lower"

section \<open>Escape characters\<close>

text \<open>\<open>pg_mblen\<close>; one byte where the macros for single bytes are used.\<close>

fun char_len :: "encoding \<Rightarrow> string \<Rightarrow> nat" where
  "char_len SB p = 1"
| "char_len UTF8 p = pg_utf_mblen (hd p)"
| "char_len (MB extra) p = Suc (extra p)"

lemma char_len_positive: "0 < char_len enc p"
  by (cases enc) (auto simp: pg_utf_mblen_def Let_def)

definition wchareq :: "encoding \<Rightarrow> string \<Rightarrow> string \<Rightarrow> bool" where
  "wchareq enc p1 p2 =
     (if hd p1 \<noteq> hd p2 then False
      else if char_len enc p2 \<noteq> char_len enc p1 then False
      else take (char_len enc p1) p1 = take (char_len enc p1) p2)"

definition CHAREQ :: "encoding \<Rightarrow> string \<Rightarrow> string \<Rightarrow> bool" where
  "CHAREQ enc p1 p2 = (case enc of SB \<Rightarrow> hd p1 = hd p2 | _ \<Rightarrow> wchareq enc p1 p2)"

text \<open>No escape character: backslashes are doubled.\<close>

function double_backslash :: "encoding \<Rightarrow> string \<Rightarrow> string" where
  "double_backslash enc p =
     (if p = [] then []
      else (if hd p = backslash then [backslash] else []) @ take (char_len enc p) p @
        double_backslash enc (drop (char_len enc p) p))"
  by pat_completeness auto
termination
  by (relation "measure (\<lambda>(enc, p). length p)") (auto simp: char_len_positive)

declare double_backslash.simps [simp del]

function escape_loop :: "encoding \<Rightarrow> string \<Rightarrow> bool \<Rightarrow> string \<Rightarrow> string" where
  "escape_loop enc e afterescape p =
     (if p = [] then []
      else if CHAREQ enc p e \<and> \<not> afterescape then backslash # escape_loop enc e True (drop (char_len enc p) p)
      else if hd p = backslash then
        backslash # (if \<not> afterescape then [backslash] else []) @ escape_loop enc e False (drop (char_len enc p) p)
      else take (char_len enc p) p @ escape_loop enc e False (drop (char_len enc p) p))"
  by pat_completeness auto
termination
  by (relation "measure (\<lambda>(enc, e, afterescape, p). length p)") (auto simp: char_len_positive)

declare escape_loop.simps [simp del]

definition do_like_escape :: "encoding \<Rightarrow> string \<Rightarrow> string \<Rightarrow> string res" where
  "do_like_escape enc pat esc =
     (if esc = [] then Inr (double_backslash enc pat)
      else if length esc \<noteq> char_len enc esc then Inl (Elog ''invalid escape string'')
      else if hd esc = backslash then Inr pat
      else Inr (escape_loop enc esc False pat))"

section \<open>Interface\<close>

text \<open>The encoding of the database, \<open>tolower\<close> in its locale, and the SQL function \<open>lower\<close>.\<close>

record database =
  db_encoding :: encoding
  db_tolower :: "char \<Rightarrow> char"
  db_lower :: "string \<Rightarrow> string"

definition GenericMatchText :: "database \<Rightarrow> string \<Rightarrow> string \<Rightarrow> like_result" where
  "GenericMatchText db s p =
     (case db_encoding db of SB \<Rightarrow> SB_MatchText s p | UTF8 \<Rightarrow> UTF8_MatchText s p | MB extra \<Rightarrow> MB_MatchText extra s p)"

definition Generic_Text_IC_like :: "database \<Rightarrow> string \<Rightarrow> string \<Rightarrow> like_result" where
  "Generic_Text_IC_like db str pat =
     (case db_encoding db of
        SB \<Rightarrow> SB_IMatchText (db_tolower db) str pat
      | UTF8 \<Rightarrow> UTF8_MatchText (db_lower db str) (db_lower db pat)
      | MB extra \<Rightarrow> MB_MatchText extra (db_lower db str) (db_lower db pat))"

definition namelike :: "database \<Rightarrow> string \<Rightarrow> string \<Rightarrow> bool" where
  "namelike db str pat \<longleftrightarrow> GenericMatchText db str pat = LIKE_TRUE"

definition namenlike :: "database \<Rightarrow> string \<Rightarrow> string \<Rightarrow> bool" where
  "namenlike db str pat \<longleftrightarrow> GenericMatchText db str pat \<noteq> LIKE_TRUE"

definition textlike :: "database \<Rightarrow> string \<Rightarrow> string \<Rightarrow> bool" where
  "textlike db str pat \<longleftrightarrow> GenericMatchText db str pat = LIKE_TRUE"

definition textnlike :: "database \<Rightarrow> string \<Rightarrow> string \<Rightarrow> bool" where
  "textnlike db str pat \<longleftrightarrow> GenericMatchText db str pat \<noteq> LIKE_TRUE"

definition bytealike :: "string \<Rightarrow> string \<Rightarrow> bool" where
  "bytealike str pat \<longleftrightarrow> SB_MatchText str pat = LIKE_TRUE"

definition byteanlike :: "string \<Rightarrow> string \<Rightarrow> bool" where
  "byteanlike str pat \<longleftrightarrow> SB_MatchText str pat \<noteq> LIKE_TRUE"

definition nameiclike :: "database \<Rightarrow> string \<Rightarrow> string \<Rightarrow> bool" where
  "nameiclike db str pat \<longleftrightarrow> Generic_Text_IC_like db str pat = LIKE_TRUE"

definition nameicnlike :: "database \<Rightarrow> string \<Rightarrow> string \<Rightarrow> bool" where
  "nameicnlike db str pat \<longleftrightarrow> Generic_Text_IC_like db str pat \<noteq> LIKE_TRUE"

definition texticlike :: "database \<Rightarrow> string \<Rightarrow> string \<Rightarrow> bool" where
  "texticlike db str pat \<longleftrightarrow> Generic_Text_IC_like db str pat = LIKE_TRUE"

definition texticnlike :: "database \<Rightarrow> string \<Rightarrow> string \<Rightarrow> bool" where
  "texticnlike db str pat \<longleftrightarrow> Generic_Text_IC_like db str pat \<noteq> LIKE_TRUE"

definition like_escape :: "database \<Rightarrow> string \<Rightarrow> string \<Rightarrow> string res" where
  "like_escape db pat esc = do_like_escape (db_encoding db) pat esc"

definition like_escape_bytea :: "string \<Rightarrow> string \<Rightarrow> string res" where
  "like_escape_bytea pat esc = do_like_escape SB pat esc"

end
