(* ===== verification/LikeProps.thy ===== *)
theory LikeProps
  imports Like
begin

text \<open>
  Patterns as lists of wildcards and characters, what it means that a text matches, and the matcher
  with its shortcuts compared with that, for encodings with one byte per character.
\<close>

section \<open>Specification\<close>

datatype pat_token = Any | One | Chr char | Esc char | Never

fun tokens :: "string \<Rightarrow> pat_token list" where
  "tokens [] = []"
| "tokens (c # p) =
     (if c = backslash then (case p of [] \<Rightarrow> [Never] | d # p \<Rightarrow> Esc d # tokens p)
      else if c = percent then Any # tokens p
      else if c = underscore then One # tokens p
      else Chr c # tokens p)"

text \<open>\<open>f\<close> is applied to characters before they are compared, but not to escaped ones.\<close>

fun like :: "(char \<Rightarrow> char) \<Rightarrow> pat_token list \<Rightarrow> string \<Rightarrow> bool" where
  "like f [] t = (t = [])"
| "like f (Any # ts) [] = like f ts []"
| "like f (Any # ts) (a # t) = (like f ts (a # t) \<or> like f (Any # ts) t)"
| "like f (One # ts) [] = False"
| "like f (One # ts) (a # t) = like f ts t"
| "like f (Chr c # ts) [] = False"
| "like f (Chr c # ts) (a # t) = (f a = f c \<and> like f ts t)"
| "like f (Esc c # ts) [] = False"
| "like f (Esc c # ts) (a # t) = (a = c \<and> like f ts t)"
| "like f (Never # ts) t = False"

lemma like_Any: "like f (Any # ts) t \<longleftrightarrow> (\<exists>k. like f ts (drop k t))"
proof (induction t)
  case (Cons a t)
  have "(\<exists>k. like f ts (drop k (a # t))) \<longleftrightarrow> like f ts (a # t) \<or> (\<exists>k. like f ts (drop k t))"
    by (metis drop0 drop_Suc_Cons not0_implies_Suc)
  then show ?case using Cons by simp
qed simp

lemma like_empty: "like f ts [] \<longleftrightarrow> list_all (\<lambda>x. x = Any) ts"
proof (induction ts)
  case (Cons x ts)
  then show ?case by (cases x) auto
qed simp

lemma like_all_any: "list_all (\<lambda>x. x = Any) ts \<Longrightarrow> ts \<noteq> [] \<Longrightarrow> like f ts t"
proof (induction ts)
  case (Cons x ts)
  then have "like f ts []" "x = Any" by (simp_all add: like_empty)
  then show ?case using like_Any [of f ts t] by (metis drop_all order_refl)
qed simp

text \<open>Patterns for which the matcher is right: no \<open>_\<close> after a \<open>%\<close> with nothing or only \<open>%\<close> behind it.\<close>

fun good :: "pat_token list \<Rightarrow> bool" where
  "good [] = True"
| "good (x # ts) = ((x = Any \<and> ts \<noteq> [] \<and> hd ts = One \<longrightarrow> \<not> list_all (\<lambda>x. x = Any) (tl ts)) \<and> good ts)"

section \<open>Tokens\<close>

lemma tokens_empty [simp]: "tokens p = [] \<longleftrightarrow> p = []"
  by (cases p) (auto split: list.splits)

lemma like_skip: "like f (Any # tokens p) t \<longleftrightarrow> like f (Any # tokens (skip_percent p)) t"
proof (induction p arbitrary: t)
  case (Cons c p)
  show ?case
  proof (cases "c = percent")
    case True
    have "like f (Any # Any # ts) t \<longleftrightarrow> like f (Any # ts) t" for ts
      unfolding like_Any drop_drop by (metis add_0)
    then show ?thesis using Cons True by (simp add: skip_percent_def)
  qed (simp add: skip_percent_def)
qed (simp add: skip_percent_def)

lemma good_skip: "good (Any # tokens p) \<Longrightarrow> good (Any # tokens (skip_percent p))"
proof (induction p)
  case (Cons c p)
  then show ?case by (cases "c = percent") (auto simp: skip_percent_def)
qed (simp add: skip_percent_def)

lemma skip_not_percent: "skip_percent p = c # q \<Longrightarrow> c \<noteq> percent"
  by (simp add: skip_percent_def dropWhile_eq_Cons_conv)

lemma skip_all: "skip_percent p = [] \<longleftrightarrow> list_all (\<lambda>x. x = Any) (tokens p)"
proof (induction p)
  case (Cons c p)
  then show ?case by (auto simp: skip_percent_def split: list.splits)
qed (simp add: skip_percent_def)

section \<open>The matcher\<close>

text \<open>What the three results mean for a text.\<close>

definition result_ok :: "(char \<Rightarrow> char) \<Rightarrow> pat_token list \<Rightarrow> string \<Rightarrow> like_result \<Rightarrow> bool" where
  "result_ok f ts t r \<longleftrightarrow> (r = LIKE_TRUE \<longleftrightarrow> like f ts t) \<and> (r = LIKE_ABORT \<longrightarrow> (\<forall>k. \<not> like f ts (drop k t)))"

lemma match_end_ok: "t = [] \<or> p = [] \<Longrightarrow> result_ok f (tokens p) t (match_end t p)"
  by (auto simp: result_ok_def match_end_def like_empty skip_all)

text \<open>A token that takes one character.\<close>

lemma result_ok_one:
  assumes "result_ok f ts t r" "\<And>u. like f (x # ts) u \<Longrightarrow> u \<noteq> [] \<and> like f ts (tl u)" "like f ts t \<Longrightarrow> like f (x # ts) (a # t)"
  shows "result_ok f (x # ts) (a # t) r"
  unfolding result_ok_def
proof (intro conjI impI allI)
  show "r = LIKE_TRUE \<longleftrightarrow> like f (x # ts) (a # t)" using assms by (auto simp: result_ok_def dest: assms(2))
  show "\<not> like f (x # ts) (drop k (a # t))" if "r = LIKE_ABORT" for k
  proof
    assume "like f (x # ts) (drop k (a # t))"
    then have "like f ts (drop k t)" using assms(2) [of "drop k (a # t)"] by (simp add: tl_drop)
    then show False using assms(1) that by (simp add: result_ok_def)
  qed
qed

lemma scan_text_ok:
  assumes "\<And>t. t \<noteq> [] \<Longrightarrow> result_ok f ts t (MatchText SB f t p)"
    and "\<And>t. t \<noteq> [] \<Longrightarrow> firstpat \<noteq> None \<Longrightarrow> firstpat \<noteq> Some (f (hd t)) \<Longrightarrow> \<not> like f ts t"
  shows "scan_text SB f firstpat t p = (if \<exists>k < length t. like f ts (drop k t) then LIKE_TRUE else LIKE_ABORT)"
proof (induction t)
  case Nil
  then show ?case by (simp add: scan_text.simps)
next
  case (Cons a t)
  have ex: "(\<exists>k < length (a # t). like f ts (drop k (a # t))) \<longleftrightarrow> like f ts (a # t) \<or> (\<exists>k < length t. like f ts (drop k t))"
    by (metis Suc_less_eq drop0 drop_Suc_Cons length_Cons not0_implies_Suc zero_less_Suc)
  have r: "result_ok f ts (a # t) (MatchText SB f (a # t) p)" using assms(1) by simp
  show ?case
  proof (cases "firstpat = None \<or> firstpat = Some (f a)")
    case True
    then have s: "scan_text SB f firstpat (a # t) p =
        (if MatchText SB f (a # t) p \<noteq> LIKE_FALSE then MatchText SB f (a # t) p else scan_text SB f firstpat t p)"
      by (subst scan_text.simps) (simp add: Let_def)
    show ?thesis
    proof (cases "MatchText SB f (a # t) p")
      case LIKE_ABORT
      then have "\<not> (\<exists>k < length (a # t). like f ts (drop k (a # t)))" using r by (simp add: result_ok_def del: length_Cons)
      then show ?thesis using s LIKE_ABORT by simp
    qed (use r s ex Cons in \<open>auto simp: result_ok_def\<close>)
  next
    case False
    then have "scan_text SB f firstpat (a # t) p = scan_text SB f firstpat t p" by (subst scan_text.simps) auto
    moreover have "\<not> like f ts (a # t)" using assms(2) [of "a # t"] False by simp
    ultimately show ?thesis using Cons ex by simp
  qed
qed

lemma like_Any_One: "like f (Any # One # ts) (b # u) \<longleftrightarrow> like f (Any # ts) u"
proof (induction u arbitrary: b)
  case (Cons c u)
  then show ?case by (metis like.simps(3) like.simps(5))
qed simp

lemma result_ok_any_one:
  assumes "result_ok f (Any # ts) t r"
  shows "result_ok f (Any # One # ts) (a # t) r"
  unfolding result_ok_def
proof (intro conjI impI allI)
  show "r = LIKE_TRUE \<longleftrightarrow> like f (Any # One # ts) (a # t)" using assms unfolding like_Any_One by (simp add: result_ok_def)
  show "\<not> like f (Any # One # ts) (drop k (a # t))" if "r = LIKE_ABORT" for k
  proof (cases "drop k (a # t)")
    case (Cons b u)
    then have "u = drop k t" by (metis list.sel(3) tl_drop)
    then show ?thesis unfolding Cons like_Any_One using assms that by (simp add: result_ok_def)
  qed simp
qed

text \<open>The rest of a pattern after \<open>%\<close>, with the first character of it known or after \<open>_\<close>.\<close>

lemma scan_rest_ok:
  assumes "\<not> list_all (\<lambda>x. x = Any) ts"
    and "scan_text SB f firstpat t p = (if \<exists>k < length t. like f ts (drop k t) then LIKE_TRUE else LIKE_ABORT)"
  shows "result_ok f (Any # ts) t (scan_text SB f firstpat t p)"
proof -
  have ex: "like f (Any # ts) u \<longleftrightarrow> (\<exists>k < length u. like f ts (drop k u))" for u
    unfolding like_Any using assms(1) like_empty [of f ts] by (metis drop_all not_le)
  have "like f (Any # ts) t" if "like f (Any # ts) (drop k t)" for k
    using that unfolding like_Any drop_drop by blast
  then show ?thesis unfolding result_ok_def assms(2) ex [of t, symmetric] by auto
qed

lemma first_token:
  assumes "c \<noteq> percent" "c \<noteq> underscore" "first_pat f (c # q) = Some fp" "fp \<noteq> f (hd t)" "t \<noteq> []"
  shows "\<not> like f (tokens (c # q)) t"
  using assms by (cases t; cases q) (auto simp: first_pat_def split: if_splits)

lemma percent_ok:
  assumes IH: "\<And>q t. length q \<le> length p \<Longrightarrow> good (tokens q) \<Longrightarrow> result_ok f (tokens q) t (MatchText SB f t q)"
    and g: "good (tokens (percent # p))"
  shows "result_ok f (tokens (percent # p)) (a # t) (match_text_loop SB f (a # t) (percent # p))"
proof (cases "skip_percent p")
  case Nil
  then have "like f (Any # tokens p) (a # t)" using like_skip [of f p "a # t"] by (simp add: like_all_any)
  then show ?thesis using Nil by (simp add: match_text_loop.simps result_ok_def)
next
  case (Cons c q)
  have lq: "length (c # q) \<le> length p" using skip_percent_shorter [of p 0] Cons by simp
  have gs: "good (Any # tokens (c # q))" using good_skip [of p] g Cons by simp
  have like: "like f (tokens (percent # p)) u = like f (Any # tokens (c # q)) u" for u using like_skip [of f p u] Cons by simp
  have c: "c \<noteq> percent" using skip_not_percent Cons by blast
  have "result_ok f (Any # tokens (c # q)) (a # t) (match_text_loop SB f (a # t) (percent # p))"
  proof (cases "c = underscore")
    case True
    then have na: "\<not> list_all (\<lambda>x. x = Any) (tokens q)" and gq: "good (tokens q)" using gs by auto
    then have q: "q \<noteq> []" by auto
    have ts: "tokens (c # q) = One # tokens q" using True by simp
    show ?thesis
    proof (cases "t = []")
      case True
      then have "match_text_loop SB f (a # t) (percent # p) = LIKE_ABORT" using Cons \<open>c = underscore\<close> q by (simp add: match_text_loop.simps)
      moreover have "\<not> like f (Any # One # tokens q) u" if "length u \<le> 1" for u
        using that na by (cases u) (auto simp: like_Any_One like_empty)
      ultimately show ?thesis using True na unfolding ts result_ok_def by (simp add: like_empty)
    next
      case False
      then have l: "match_text_loop SB f (a # t) (percent # p) = scan_text SB f None t q"
        using Cons True q by (simp add: match_text_loop.simps)
      have "length q \<le> length p" using lq by simp
      then have "result_ok f (Any # tokens q) t (scan_text SB f None t q)"
        using scan_rest_ok [OF na scan_text_ok] IH [OF _ gq] by blast
      then show ?thesis unfolding l ts by (rule result_ok_any_one)
    qed
  next
    case False
    have ts: "tokens (c # q) \<noteq> []" "hd (tokens (c # q)) \<noteq> Any" using c by (auto split: list.splits)
    then have na: "\<not> list_all (\<lambda>x. x = Any) (tokens (c # q))" by (cases "tokens (c # q)") auto
    show ?thesis
    proof (cases "first_pat f (c # q)")
      case None
      then have "c # q = [backslash]" by (auto simp: first_pat_def split: if_splits)
      then have "\<not> like f (Any # tokens (c # q)) u" for u unfolding like_Any by simp
      moreover have "match_text_loop SB f (a # t) (percent # p) = LIKE_FALSE" using Cons False None by (simp add: match_text_loop.simps)
      ultimately show ?thesis unfolding result_ok_def by (simp only: like_result.distinct simp_thms)
    next
      case (Some fp)
      then have l: "match_text_loop SB f (a # t) (percent # p) = scan_text SB f (Some fp) (a # t) (c # q)"
        using Cons False by (simp add: match_text_loop.simps)
      have gc: "good (tokens (c # q))" using gs by simp
      have "scan_text SB f (Some fp) (a # t) (c # q) =
          (if \<exists>k < length (a # t). like f (tokens (c # q)) (drop k (a # t)) then LIKE_TRUE else LIKE_ABORT)"
        by (rule scan_text_ok) (use IH [OF lq gc] first_token [OF c False Some] in auto)
      from scan_rest_ok [OF na this] show ?thesis unfolding l .
    qed
  qed
  then show ?thesis unfolding result_ok_def like .
qed

lemma like_one:
  "like f (One # ts) u \<Longrightarrow> u \<noteq> [] \<and> like f ts (tl u)"
  "like f (Chr c # ts) u \<Longrightarrow> u \<noteq> [] \<and> like f ts (tl u)"
  "like f (Esc c # ts) u \<Longrightarrow> u \<noteq> [] \<and> like f ts (tl u)"
  by (cases u; simp)+

lemma result_ok_false: "result_ok f ts t LIKE_FALSE \<longleftrightarrow> \<not> like f ts t"
  by (simp add: result_ok_def)

lemma match_text_loop_ok:
  assumes IH: "\<And>q t. length q < length p \<Longrightarrow> good (tokens q) \<Longrightarrow>
      result_ok f (tokens q) t (MatchText SB f t q) \<and> result_ok f (tokens q) t (match_text_loop SB f t q)"
    and g: "good (tokens p)"
  shows "result_ok f (tokens p) t (match_text_loop SB f t p)"
proof (cases "t = [] \<or> p = []")
  case True
  then have "match_text_loop SB f t p = match_end t p" by (cases t; cases p) (auto simp: match_text_loop.simps)
  then show ?thesis using match_end_ok [OF True] by simp
next
  case False
  then obtain a u c q where tp: "t = a # u" "p = c # q" by (cases t; cases p) auto
  have IHq: "result_ok f (tokens q') u' (match_text_loop SB f u' q')" if "length q' < length p" "good (tokens q')" for q' u'
    using IH [OF that] by blast
  consider (esc) "c = backslash" | (pc) "c = percent" | (us) "c = underscore" | (chr) "c \<noteq> backslash" "c \<noteq> percent" "c \<noteq> underscore"
    by blast
  then show ?thesis
  proof cases
    case esc
    show ?thesis
    proof (cases q)
      case Nil
      then show ?thesis using tp esc by (simp add: match_text_loop.simps result_ok_def)
    next
      case (Cons d q')
      then have "result_ok f (tokens q') u (match_text_loop SB f u q')" using g tp esc by (intro IHq) simp_all
      then show ?thesis using Cons tp esc result_ok_one [OF _ like_one(3)]
        by (simp add: match_text_loop.simps result_ok_false)
    qed
  next
    case pc
    then show ?thesis using percent_ok [of q f a u] IH g tp by simp
  next
    case us
    then have "result_ok f (tokens q) u (match_text_loop SB f u q)" using g tp by (intro IHq) simp_all
    then show ?thesis using us tp result_ok_one [OF _ like_one(1)] by (simp add: match_text_loop.simps)
  next
    case chr
    then have "result_ok f (tokens q) u (match_text_loop SB f u q)" using g tp by (intro IHq) simp_all
    then show ?thesis using chr tp result_ok_one [OF _ like_one(2)] by (simp add: match_text_loop.simps result_ok_false)
  qed
qed

lemma MatchText_ok: "good (tokens p) \<Longrightarrow> result_ok f (tokens p) t (MatchText SB f t p) \<and> result_ok f (tokens p) t (match_text_loop SB f t p)"
proof (induction "length p" arbitrary: p t rule: less_induct)
  case less
  have l: "result_ok f (tokens p) t (match_text_loop SB f t p)" using less by (intro match_text_loop_ok) auto
  moreover have "result_ok f [Any] t LIKE_TRUE" by (simp add: result_ok_def like_all_any)
  ultimately show ?case by (simp add: MatchText.simps)
qed

section \<open>Escape characters\<close>

fun esc_tokens :: "char option \<Rightarrow> string \<Rightarrow> pat_token list" where
  "esc_tokens e [] = []"
| "esc_tokens e (c # p) =
     (if e = Some c then (case p of [] \<Rightarrow> [Never] | d # p \<Rightarrow> Esc d # esc_tokens e p)
      else if c = percent then Any # esc_tokens e p
      else if c = underscore then One # esc_tokens e p
      else if c = backslash then Esc c # esc_tokens e p
      else Chr c # esc_tokens e p)"

lemma esc_tokens_backslash: "esc_tokens (Some backslash) p = tokens p"
proof (induction p rule: tokens.induct)
  case (2 c p)
  then show ?case by (cases p) auto
qed simp

lemma tokens_double: "tokens (double_backslash SB p) = esc_tokens None p"
proof (induction p)
  case (Cons c p)
  then show ?case by (subst double_backslash.simps) auto
qed (simp add: double_backslash.simps)

lemma escape_loop_SB:
  "escape_loop SB e b [] = []"
  "escape_loop SB e True (c # p) = c # escape_loop SB e False p"
  "hd e = c \<Longrightarrow> escape_loop SB e False (c # p) = backslash # escape_loop SB e True p"
  "hd e \<noteq> c \<Longrightarrow> escape_loop SB e False (c # p) = (if c = backslash then [backslash, backslash] else [c]) @ escape_loop SB e False p"
  by (subst escape_loop.simps; auto simp: CHAREQ_def)+

lemma tokens_escape: "e \<noteq> backslash \<Longrightarrow> tokens (escape_loop SB [e] False p) = esc_tokens (Some e) p"
proof (induction "length p" arbitrary: p rule: less_induct)
  case less
  show ?case
  proof (cases p)
    case (Cons c q)
    show ?thesis
    proof (cases "e = c")
      case True
      then show ?thesis using less Cons by (cases q) (auto simp: escape_loop_SB)
    next
      case False
      then show ?thesis using less Cons by (auto simp: escape_loop_SB)
    qed
  qed (simp add: escape_loop_SB)
qed

lemma escape_length: "length (escape_loop SB e b p) + (if b then 1 else 0) \<le> 2 * length p + (if b then 1 else 0)"
proof (induction p arbitrary: b)
  case (Cons c p)
  show ?case
    using Cons [of False] Cons [of True] by (cases b; cases "hd e = c") (auto simp: escape_loop_SB)
qed (simp add: escape_loop_SB)

lemma double_length: "length (double_backslash SB p) \<le> 2 * length p"
proof (induction p)
  case (Cons c p)
  then show ?case by (subst double_backslash.simps) auto
qed (simp add: double_backslash.simps)

section \<open>Characters of several bytes\<close>

text \<open>The fast way to the next character agrees with the table of lengths on valid text.\<close>

lemma NextChar_UTF8_mblen:
  assumes "Suc (length cs) = pg_utf_mblen c" "\<forall>x \<in> set cs. is_continuation x" "rest = [] \<or> \<not> is_continuation (hd rest)"
  shows "NextChar UTF8 (c # cs @ rest) = drop (pg_utf_mblen c) (c # cs @ rest)"
proof -
  have "dropWhile is_continuation rest = rest" using assms(3) by (cases rest) auto
  then show ?thesis using assms(1,2) by (simp add: dropWhile_append2 flip: assms(1))
qed

section \<open>Properties\<close>



text \<open>C23: patterns that end in \<open>%_\<close> should match every text that is long enough, but they match only texts
  with exactly one character there, and with a \<open>%\<close> added they miss the texts that end there.\<close>

theorem percent_underscore_fails:
  assumes "2 \<le> length t"
  shows "\<not> bytealike t ''%_'' \<and> like (\<lambda>c. c) (tokens ''%_'') t \<and>
    \<not> bytealike [hd t] ''%_%'' \<and> like (\<lambda>c. c) (tokens ''%_%'') [hd t]"
proof -
  obtain a b u where t: "t = a # b # u" using assms by (cases t; cases "tl t") auto
  have "like (\<lambda>c. c) [Any, One] (a # v)" for v by (simp only: like_Any_One) (simp add: like_all_any)
  then show ?thesis
    by (simp add: t bytealike_def SB_MatchText_def MatchText.simps match_text_loop.simps skip_percent_def)
qed

theorem percent_underscore_fails_witness:
  "\<not> bytealike ''ab'' ''%_'' \<and> like (\<lambda>c. c) (tokens ''%_'') ''ab'' \<and>
    \<not> bytealike ''a'' ''%_%'' \<and> like (\<lambda>c. c) (tokens ''%_%'') ''a''"
  using percent_underscore_fails [of "''ab''"] by simp

text \<open>C22: a pattern with an escape character of one byte, converted by \<open>like_escape\<close>, matches what it says;
  the converted pattern fits into the area of twice the length.\<close>

theorem like_escape_matches:
  assumes "good (esc_tokens (Some e) pat)"
  shows "\<exists>p. like_escape_bytea pat [e] = Inr p \<and> length p \<le> 2 * length pat \<and>
    (bytealike t p \<longleftrightarrow> like (\<lambda>c. c) (esc_tokens (Some e) pat) t)"
proof (cases "e = backslash")
  case True
  then show ?thesis using MatchText_ok [of pat "\<lambda>c. c" t] assms
    by (simp add: like_escape_bytea_def do_like_escape_def bytealike_def SB_MatchText_def result_ok_def esc_tokens_backslash)
next
  case False
  let ?p = "escape_loop SB [e] False pat"
  have ts: "tokens ?p = esc_tokens (Some e) pat" using False by (rule tokens_escape)
  then have "bytealike t ?p \<longleftrightarrow> like (\<lambda>c. c) (esc_tokens (Some e) pat) t"
    using MatchText_ok [of ?p "\<lambda>c. c" t] assms by (simp add: bytealike_def SB_MatchText_def result_ok_def)
  then show ?thesis using False escape_length [of "[e]" False pat] by (simp add: like_escape_bytea_def do_like_escape_def)
qed

theorem like_escape_matches_witness:
  "\<exists>p. like_escape_bytea ''10#%'' ''#'' = Inr p \<and> length p \<le> 8 \<and>
    (bytealike ''10%'' p \<longleftrightarrow> like (\<lambda>c. c) (esc_tokens (Some (CHR 0x23)) ''10#%'') ''10%'')"
  using like_escape_matches [of "CHR 0x23" "''10#%''" "''10%''"] by simp

end
