(* ===== verification/Encode.thy ===== *)
theory Encode
  imports CString HashFunc
begin

text \<open>
  Encodings of binary data as text: \<open>src/backend/utils/adt/encode.c\<close>.  Data and text are lists of
  bytes; the functions that write return what they have written.  Characters are signed, so a byte of
  128 or more is negative.
\<close>

section \<open>Errors and characters\<close>

definition ereport_error :: "string \<Rightarrow> 'a res" where
  "ereport_error msg = Inl (Elog msg)"

definition byte :: "char \<Rightarrow> uchar" where
  "byte c = of_char c"

definition is_space :: "uchar \<Rightarrow> bool" where
  "is_space c \<longleftrightarrow> c = 32 \<or> c = 10 \<or> c = 9 \<or> c = 13"

text \<open>A table of 128 entries is read for \<open>c > 0 \<and> c < 127\<close> as signed characters, else the value is -1.\<close>

definition lookup :: "int list \<Rightarrow> uchar \<Rightarrow> int" where
  "lookup tbl c = (if 0 < c \<and> c < 127 then tbl ! unat c else -1)"

section \<open>Hexadecimal digits\<close>

definition hextbl :: "uchar list" where
  "hextbl = map byte ''0123456789abcdef''"

definition hexlookup :: "int list" where
  "hexlookup =
    [-1, -1, -1, -1, -1, -1, -1, -1, -1, -1, -1, -1, -1, -1, -1, -1,
     -1, -1, -1, -1, -1, -1, -1, -1, -1, -1, -1, -1, -1, -1, -1, -1,
     -1, -1, -1, -1, -1, -1, -1, -1, -1, -1, -1, -1, -1, -1, -1, -1,
     0, 1, 2, 3, 4, 5, 6, 7, 8, 9, -1, -1, -1, -1, -1, -1,
     -1, 10, 11, 12, 13, 14, 15, -1, -1, -1, -1, -1, -1, -1, -1, -1,
     -1, -1, -1, -1, -1, -1, -1, -1, -1, -1, -1, -1, -1, -1, -1, -1,
     -1, 10, 11, 12, 13, 14, 15, -1, -1, -1, -1, -1, -1, -1, -1, -1,
     -1, -1, -1, -1, -1, -1, -1, -1, -1, -1, -1, -1, -1, -1, -1, -1]"

fun hex_encode :: "uchar list \<Rightarrow> uchar list" where
  "hex_encode [] = []"
| "hex_encode (s # src) = hextbl ! unat (drop_bit 4 s AND 0xF) # hextbl ! unat (s AND 0xF) # hex_encode src"

definition get_hex :: "uchar \<Rightarrow> uchar res" where
  "get_hex c =
     (let res = lookup hexlookup c in
      if res < 0 then ereport_error ''invalid hexadecimal digit'' else Inr (of_int res))"

fun hex_decode :: "uchar list \<Rightarrow> uchar list res" where
  "hex_decode [] = Inr []"
| "hex_decode [s] =
     (if is_space s then Inr []
      else res_bind (get_hex s) (\<lambda>_. ereport_error ''invalid hexadecimal data: odd number of digits''))"
| "hex_decode (s # s' # src) =
     (if is_space s then hex_decode (s' # src)
      else
        res_bind (get_hex s) (\<lambda>v1. res_bind (get_hex s') (\<lambda>v2.
        res_bind (hex_decode src) (\<lambda>p. Inr ((push_bit 4 v1 OR v2) # p)))))"

definition hex_enc_len :: "uchar list \<Rightarrow> nat" where
  "hex_enc_len src = 2 * length src"

definition hex_dec_len :: "uchar list \<Rightarrow> nat res" where
  "hex_dec_len src = Inr (length src div 2)"

section \<open>Base 64\<close>

definition base64 :: "uchar list" where
  "base64 = map byte ''ABCDEFGHIJKLMNOPQRSTUVWXYZabcdefghijklmnopqrstuvwxyz0123456789+/''"

definition b64lookup :: "int list" where
  "b64lookup =
    [-1, -1, -1, -1, -1, -1, -1, -1, -1, -1, -1, -1, -1, -1, -1, -1,
     -1, -1, -1, -1, -1, -1, -1, -1, -1, -1, -1, -1, -1, -1, -1, -1,
     -1, -1, -1, -1, -1, -1, -1, -1, -1, -1, -1, 62, -1, -1, -1, 63,
     52, 53, 54, 55, 56, 57, 58, 59, 60, 61, -1, -1, -1, -1, -1, -1,
     -1, 0, 1, 2, 3, 4, 5, 6, 7, 8, 9, 10, 11, 12, 13, 14,
     15, 16, 17, 18, 19, 20, 21, 22, 23, 24, 25, -1, -1, -1, -1, -1,
     -1, 26, 27, 28, 29, 30, 31, 32, 33, 34, 35, 36, 37, 38, 39, 40,
     41, 42, 43, 44, 45, 46, 47, 48, 49, 50, 51, -1, -1, -1, -1, -1]"

definition b64_char :: "nat \<Rightarrow> 32 word \<Rightarrow> uchar" where
  "b64_char n buf = base64 ! unat (drop_bit n buf AND 0x3f)"

text \<open>The loop: \<open>dst\<close> holds what was written, so that \<open>p\<close> is its length; \<open>lend\<close> is where a line ends.\<close>

fun b64_enc_loop :: "uchar list \<Rightarrow> int \<Rightarrow> 32 word \<Rightarrow> nat \<Rightarrow> uchar list \<Rightarrow> int \<times> 32 word \<times> uchar list" where
  "b64_enc_loop [] pos buf lend dst = (pos, buf, dst)"
| "b64_enc_loop (s # src) pos buf lend dst =
     (let buf = buf OR push_bit (nat (8 * pos)) (ucast s);
          pos = pos - 1;
          (pos, buf, dst) =
            (if pos < 0 then (2, 0, dst @ [b64_char 18 buf, b64_char 12 buf, b64_char 6 buf, b64_char 0 buf])
             else (pos, buf, dst))
      in if length dst \<ge> lend then b64_enc_loop src pos buf (length dst + 1 + 76) (dst @ [10])
         else b64_enc_loop src pos buf lend dst)"

definition b64_encode :: "uchar list \<Rightarrow> uchar list" where
  "b64_encode src =
     (case b64_enc_loop src 2 0 76 [] of (pos, buf, dst) \<Rightarrow>
        if pos \<noteq> 2 then dst @ [b64_char 18 buf, b64_char 12 buf, if pos = 0 then b64_char 6 buf else 61, 61] else dst)"

text \<open>The value of a character and the new \<open>end\<close>.\<close>

definition b64_value :: "uchar \<Rightarrow> nat \<Rightarrow> nat \<Rightarrow> (int \<times> nat) res" where
  "b64_value c pos e =
     (if c = 61 then
        if e = 0 then
          if pos = 2 then Inr (0, 1) else if pos = 3 then Inr (0, 2) else ereport_error (''unexpected '' @ [CHR 0x22, CHR 0x3D, CHR 0x22])
        else Inr (0, e)
      else
        let b = lookup b64lookup c in
        if b < 0 then ereport_error ''invalid symbol'' else Inr (b, e))"

fun b64_dec_loop :: "uchar list \<Rightarrow> 32 word \<Rightarrow> nat \<Rightarrow> nat \<Rightarrow> uchar list \<Rightarrow> (nat \<times> uchar list) res" where
  "b64_dec_loop [] buf pos e dst = Inr (pos, dst)"
| "b64_dec_loop (c # src) buf pos e dst =
     (if is_space c then b64_dec_loop src buf pos e dst
      else
        res_bind (b64_value c pos e) (\<lambda>(b, e).
          let buf = push_bit 6 buf + of_int b in
          if pos + 1 = 4 then
            b64_dec_loop src 0 0 e
              (dst @ [ucast (drop_bit 16 buf AND 255)] @
               (if e = 0 \<or> e > 1 then [ucast (drop_bit 8 buf AND 255)] else []) @
               (if e = 0 \<or> e > 2 then [ucast (buf AND 255)] else []))
          else b64_dec_loop src buf (pos + 1) e dst))"

definition b64_decode :: "uchar list \<Rightarrow> uchar list res" where
  "b64_decode src =
     res_bind (b64_dec_loop src 0 0 0 []) (\<lambda>(pos, dst).
       if pos \<noteq> 0 then ereport_error ''invalid end sequence'' else Inr dst)"

definition b64_enc_len :: "uchar list \<Rightarrow> nat" where
  "b64_enc_len src = (length src + 2) * 4 div 3 + length src div (76 * 3 div 4)"

definition b64_dec_len :: "uchar list \<Rightarrow> nat res" where
  "b64_dec_len src = Inr (length src * 3 div 4)"

section \<open>Escapes\<close>

fun esc_encode :: "uchar list \<Rightarrow> uchar list" where
  "esc_encode [] = []"
| "esc_encode (s # src) =
     (if s = 0 then [92, 48, 48, 48] @ esc_encode src
      else if s = 92 then [92, 92] @ esc_encode src
      else s # esc_encode src)"

text \<open>The octal digits after a backslash.\<close>

definition octal :: "uchar list \<Rightarrow> bool" where
  "octal src \<longleftrightarrow>
     length src > 2 \<and> 48 \<le> src ! 0 \<and> src ! 0 \<le> 51 \<and> 48 \<le> src ! 1 \<and> src ! 1 \<le> 55 \<and> 48 \<le> src ! 2 \<and> src ! 2 \<le> 55"

definition octal_value :: "uchar list \<Rightarrow> uchar" where
  "octal_value src =
     ucast (push_bit 3 (push_bit 3 (ucast (src ! 0) - 48) + (ucast (src ! 1) - 48)) + (ucast (src ! 2) - 48 :: 32 word))"

function esc_decode :: "uchar list \<Rightarrow> uchar list res" where
  "esc_decode [] = Inr []"
| "esc_decode (s # src) =
     (if s \<noteq> 92 then res_bind (esc_decode src) (\<lambda>p. Inr (s # p))
      else if octal src then res_bind (esc_decode (drop 3 src)) (\<lambda>p. Inr (octal_value src # p))
      else if src \<noteq> [] \<and> hd src = 92 then res_bind (esc_decode (tl src)) (\<lambda>p. Inr (92 # p))
      else ereport_error ''invalid input syntax for type bytea'')"
  by pat_completeness auto
termination
  by (relation "measure length") auto

fun esc_enc_len :: "uchar list \<Rightarrow> nat" where
  "esc_enc_len [] = 0"
| "esc_enc_len (s # src) = (if s = 0 then 4 else if s = 92 then 2 else 1) + esc_enc_len src"

function esc_dec_len :: "uchar list \<Rightarrow> nat res" where
  "esc_dec_len [] = Inr 0"
| "esc_dec_len (s # src) =
     (if s \<noteq> 92 then res_bind (esc_dec_len src) (\<lambda>n. Inr (Suc n))
      else if octal src then res_bind (esc_dec_len (drop 3 src)) (\<lambda>n. Inr (Suc n))
      else if src \<noteq> [] \<and> hd src = 92 then res_bind (esc_dec_len (tl src)) (\<lambda>n. Inr (Suc n))
      else ereport_error ''invalid input syntax for type bytea'')"
  by pat_completeness auto
termination
  by (relation "measure length") auto

section \<open>The SQL functions\<close>

record pg_encoding =
  enc_len :: "uchar list \<Rightarrow> nat"
  dec_len :: "uchar list \<Rightarrow> nat res"
  encode :: "uchar list \<Rightarrow> uchar list"
  decode :: "uchar list \<Rightarrow> uchar list res"

definition enclist :: "(string \<times> pg_encoding) list" where
  "enclist =
    [(''hex'', \<lparr>enc_len = hex_enc_len, dec_len = hex_dec_len, encode = hex_encode, decode = hex_decode\<rparr>),
     (''base64'', \<lparr>enc_len = b64_enc_len, dec_len = b64_dec_len, encode = b64_encode, decode = b64_decode\<rparr>),
     (''escape'', \<lparr>enc_len = esc_enc_len, dec_len = esc_dec_len, encode = esc_encode, decode = esc_decode\<rparr>)]"

definition pg_find_encoding :: "string \<Rightarrow> pg_encoding option" where
  "pg_find_encoding name = map_option snd (find (\<lambda>(n, enc). map tolower n = map tolower name) enclist)"

definition binary_encode :: "uchar list \<Rightarrow> string \<Rightarrow> uchar list res" where
  "binary_encode data name =
     (case pg_find_encoding name of
        None \<Rightarrow> ereport_error ''unrecognized encoding''
      | Some enc \<Rightarrow>
          let resultlen = enc_len enc data; res = encode enc data in
          if length res > resultlen then Inl (Elog ''overflow - encode estimate too small'') else Inr res)"

definition binary_decode :: "uchar list \<Rightarrow> string \<Rightarrow> uchar list res" where
  "binary_decode data name =
     (case pg_find_encoding name of
        None \<Rightarrow> ereport_error ''unrecognized encoding''
      | Some enc \<Rightarrow>
          res_bind (dec_len enc data) (\<lambda>resultlen.
          res_bind (decode enc data) (\<lambda>res.
            if length res > resultlen then Inl (Elog ''overflow - decode estimate too small'') else Inr res)))"

end
