(* ===== verification/EncodeProps.thy ===== *)
theory EncodeProps
  imports Encode
begin

text \<open>
  The contract of an encoding as a locale, its three interpretations on the encodings of \<open>encode.c\<close>,
  and what follows for the SQL functions.
\<close>

section \<open>Contract\<close>

locale codec =
  fixes elen :: "uchar list \<Rightarrow> nat"
    and dlen :: "uchar list \<Rightarrow> nat res"
    and enc :: "uchar list \<Rightarrow> uchar list"
    and dec :: "uchar list \<Rightarrow> uchar list res"
  assumes enc_fits: "length (enc x) \<le> elen x"
    and dec_enc: "dec (enc x) = Inr x"
    and dec_fits: "dec y = Inr x \<Longrightarrow> \<exists>n. dlen y = Inr n \<and> length x \<le> n"
begin

lemma enc_inj: "enc x = enc y \<longleftrightarrow> x = y"
  using dec_enc by (metis sum.inject(2))

lemma there_and_back: "\<exists>n. dlen (enc x) = Inr n \<and> dec (enc x) = Inr x \<and> length x \<le> n"
  using dec_enc dec_fits by blast

end

section \<open>Hexadecimal digits\<close>

lemma hex_table:
  assumes "n < 16"
  shows "get_hex (hextbl ! n) = Inr (of_nat n) \<and> \<not> is_space (hextbl ! n)"
proof -
  have "list_all (\<lambda>n. get_hex (hextbl ! n) = Inr (of_nat n) \<and> \<not> is_space (hextbl ! n)) [0..<16]" by code_simp
  then show ?thesis using assms by (simp add: list_all_iff)
qed

lemma nibble: "unat (w AND 0xF :: uchar) < 16"
proof -
  have "w AND 0xF = take_bit 4 w" by (simp add: take_bit_eq_mask mask_eq_exp_minus_1)
  moreover have "unat (take_bit 4 w) = take_bit 4 (unat w)" by (rule unsigned_take_bit_eq)
  ultimately show ?thesis using take_bit_nat_less_exp [of 4 "unat w"] by simp
qed

lemma nibbles_joined: "push_bit 4 (drop_bit 4 s AND 0xF) OR (s AND 0xF) = s" for s :: uchar
proof -
  have m: "(0xF :: uchar) = mask 4" by (simp add: mask_eq_exp_minus_1)
  show ?thesis unfolding m by (rule bit_word_eqI) (auto simp: bit_simps)
qed

lemma hex_decode_encode: "hex_decode (hex_encode x) = Inr x"
proof (induction x)
  case (Cons s x)
  then show ?case
    using hex_table [OF nibble, of "drop_bit 4 s"] hex_table [OF nibble, of s] nibbles_joined [of s] by simp
qed simp

lemma hex_decode_length: "hex_decode y = Inr x \<Longrightarrow> 2 * length x \<le> length y"
proof (induction y arbitrary: x rule: hex_decode.induct)
  case (3 s s' src)
  show ?case
  proof (cases "is_space s")
    case True
    then show ?thesis using 3 by fastforce
  next
    case False
    then obtain v1 v2 p where d: "get_hex s = Inr v1" "get_hex s' = Inr v2" "hex_decode src = Inr p" "x = (push_bit 4 v1 OR v2) # p"
      using 3(3) by (auto simp: res_iff)
    then show ?thesis using 3(2) [OF False d(1-3)] by simp
  qed
qed (auto simp: ereport_error_def res_iff split: if_splits)

lemma hex_encode_length: "length (hex_encode x) = 2 * length x"
  by (induction x) auto

interpretation hex: codec hex_enc_len hex_dec_len hex_encode hex_decode
proof
  show "length (hex_encode x) \<le> hex_enc_len x" for x by (simp add: hex_encode_length hex_enc_len_def)
  show "hex_decode (hex_encode x) = Inr x" for x by (rule hex_decode_encode)
  show "\<exists>n. hex_dec_len y = Inr n \<and> length x \<le> n" if "hex_decode y = Inr x" for x y
    using hex_decode_length [OF that] by (simp add: hex_dec_len_def)
qed

section \<open>Escapes\<close>

lemma esc_decode_encode: "esc_decode (esc_encode x) = Inr x"
proof (induction x)
  case (Cons s x)
  have "octal ([48, 48, 48] @ y)" "octal_value ([48, 48, 48] @ y) = 0" for y by (simp_all add: octal_def octal_value_def)
  moreover have "\<not> octal (92 # y)" for y by (simp add: octal_def)
  ultimately show ?case using Cons by simp
qed simp

lemma esc_encode_length: "length (esc_encode x) = esc_enc_len x"
  by (induction x) auto

lemma esc_dec_len_eq: "esc_dec_len y = res_bind (esc_decode y) (\<lambda>x. Inr (length x))"
  by (induction y rule: esc_dec_len.induct) (simp_all add: res_bind_assoc ereport_error_def)

lemma esc_decode_length: "esc_decode y = Inr x \<Longrightarrow> esc_dec_len y = Inr (length x)"
  by (simp add: esc_dec_len_eq)

interpretation esc: codec esc_enc_len esc_dec_len esc_encode esc_decode
proof
  show "length (esc_encode x) \<le> esc_enc_len x" for x by (simp add: esc_encode_length)
  show "esc_decode (esc_encode x) = Inr x" for x by (rule esc_decode_encode)
  show "\<exists>n. esc_dec_len y = Inr n \<and> length x \<le> n" if "esc_decode y = Inr x" for x y
    using esc_decode_length [OF that] by (intro exI [of _ "length x"]) simp
qed

section \<open>Base 64\<close>

lemma base64_bytes: "base64 = [65, 66, 67, 68, 69, 70, 71, 72, 73, 74, 75, 76, 77, 78, 79, 80,
    81, 82, 83, 84, 85, 86, 87, 88, 89, 90, 97, 98, 99, 100, 101, 102,
    103, 104, 105, 106, 107, 108, 109, 110, 111, 112, 113, 114, 115, 116, 117, 118,
    119, 120, 121, 122, 48, 49, 50, 51, 52, 53, 54, 55, 56, 57, 43, 47]"
  by (simp add: base64_def byte_def)

lemma b64_all: "list_all2 (\<lambda>n c. lookup b64lookup c = n \<and> \<not> is_space c \<and> c \<noteq> 61) [0..63] base64"
  unfolding base64_bytes by code_simp

lemma b64_table:
  assumes "n < 64"
  shows "lookup b64lookup (base64 ! n) = int n \<and> \<not> is_space (base64 ! n) \<and> base64 ! n \<noteq> 61"
proof -
  have "length [0..63] = 64" "[0..63] ! n = int n" using assms by (simp_all add: nth_upto)
  then show ?thesis using b64_all assms unfolding list_all2_conv_all_nth by auto
qed

lemma mask6: "(0x3f :: 32 word) = mask 6"
  by (simp add: mask_eq_exp_minus_1)

lemma sextet: "unat (w AND 0x3f :: 32 word) < 64"
proof -
  have "unat (take_bit 6 w) = take_bit 6 (unat w)" by (rule unsigned_take_bit_eq)
  then show ?thesis unfolding mask6 take_bit_eq_mask [symmetric] using take_bit_nat_less_exp [of 6 "unat w"] by simp
qed

lemma b64_char_value:
  "\<not> is_space (b64_char n w)" "b64_value (b64_char n w) pos e = Inr (uint (drop_bit n w AND 0x3f), e)"
  using b64_table [OF sextet, of "drop_bit n w"] by (simp_all add: b64_char_def b64_value_def Let_def)

lemma b64_equals: "\<not> is_space 61"
  by (simp add: is_space_def)

text \<open>What the decoder collects from four characters.\<close>

definition four :: "32 word \<Rightarrow> 32 word \<Rightarrow> 32 word \<Rightarrow> 32 word \<Rightarrow> 32 word" where
  "four a b c d = push_bit 6 (push_bit 6 (push_bit 6 (push_bit 6 0 + a) + b) + c) + d"

lemma shift_add: "push_bit 6 x + (y AND 0x3f) = push_bit 6 x OR (y AND 0x3f)" for x y :: "32 word"
  unfolding mask6 by (rule disjunctive_add) (auto simp: bit_simps)

lemma four_parts: "four (drop_bit 18 w AND 0x3f) (drop_bit 12 w AND 0x3f) (drop_bit 6 w AND 0x3f) (drop_bit 0 w AND 0x3f) = take_bit 24 w"
  unfolding four_def shift_add unfolding mask6
proof (rule bit_word_eqI)
  fix n
  show "bit (push_bit 6 (push_bit 6 (push_bit 6 (push_bit 6 0 OR drop_bit 18 w AND mask 6) OR drop_bit 12 w AND mask 6) OR
      drop_bit 6 w AND mask 6) OR drop_bit 0 w AND mask 6) n = bit (take_bit 24 w) n" if "n < LENGTH(32)"
    using that by (cases "n < 6"; cases "n < 12"; cases "n < 18") (auto simp: bit_simps)
qed

lemma dec_bytes:
  "ucast (drop_bit 16 (take_bit 24 w) AND 255 :: 32 word) = (ucast (drop_bit 16 w) :: uchar)"
  "ucast (drop_bit 8 (take_bit 24 w) AND 255 :: 32 word) = (ucast (drop_bit 8 w) :: uchar)"
  "ucast (take_bit 24 w AND 255 :: 32 word) = (ucast w :: uchar)"
proof -
  have m: "(255 :: 32 word) = mask 8" by (simp add: mask_eq_exp_minus_1)
  show "ucast (drop_bit 16 (take_bit 24 w) AND 255 :: 32 word) = (ucast (drop_bit 16 w) :: uchar)"
    "ucast (drop_bit 8 (take_bit 24 w) AND 255 :: 32 word) = (ucast (drop_bit 8 w) :: uchar)"
    "ucast (take_bit 24 w AND 255 :: 32 word) = (ucast w :: uchar)"
    unfolding m by (rule bit_word_eqI; auto simp: bit_simps)+
qed

lemma b64_dec_three:
  assumes "\<not> is_space c0" "\<not> is_space c1" "\<not> is_space c2" "b64_value c0 0 0 = Inr (uint v0, 0)"
    "b64_value c1 1 0 = Inr (uint v1, 0)" "b64_value c2 2 0 = Inr (uint v2, e)"
  shows "b64_dec_loop (c0 # c1 # c2 # src) 0 0 0 dst =
    b64_dec_loop src (push_bit 6 (push_bit 6 (push_bit 6 0 + v0) + v1) + v2) 3 e dst"
  using assms by (simp add: Let_def numeral_2_eq_2 numeral_3_eq_3)

lemma b64_dec_last:
  assumes "\<not> is_space c" "b64_value c 3 e = Inr (uint v, e')"
  shows "b64_dec_loop (c # src) buf 3 e dst =
    b64_dec_loop src 0 0 e'
      (dst @ [ucast (drop_bit 16 (push_bit 6 buf + v) AND 255)] @
       (if e' = 0 \<or> e' > 1 then [ucast (drop_bit 8 (push_bit 6 buf + v) AND 255)] else []) @
       (if e' = 0 \<or> e' > 2 then [ucast ((push_bit 6 buf + v) AND 255)] else []))"
  using assms by (simp add: Let_def)

lemma b64_equals_value: "\<not> is_space 61" "b64_value 61 2 0 = Inr (uint (0 :: 32 word), 1)" "b64_value 61 3 0 = Inr (uint (0 :: 32 word), 2)"
  "b64_value 61 3 1 = Inr (uint (0 :: 32 word), 1)"
  by (simp_all add: is_space_def b64_value_def)

lemma b64_dec_group:
  "b64_dec_loop (b64_char 18 w # b64_char 12 w # b64_char 6 w # b64_char 0 w # src) 0 0 0 dst =
     b64_dec_loop src 0 0 0 (dst @ [ucast (drop_bit 16 w), ucast (drop_bit 8 w), ucast w])"
  unfolding b64_dec_three [OF b64_char_value(1) b64_char_value(1) b64_char_value(1) b64_char_value(2) b64_char_value(2) b64_char_value(2)]
    b64_dec_last [OF b64_char_value] four_parts [of w, unfolded four_def] dec_bytes by simp

lemma b64_dec_two:
  assumes "drop_bit 0 w AND 0x3f = 0"
  shows "b64_dec_loop [b64_char 18 w, b64_char 12 w, b64_char 6 w, 61] 0 0 0 dst =
    Inr (0, dst @ [ucast (drop_bit 16 w), ucast (drop_bit 8 w)])"
  unfolding b64_dec_three [OF b64_char_value(1) b64_char_value(1) b64_char_value(1) b64_char_value(2) b64_char_value(2) b64_char_value(2)]
    b64_dec_last [OF b64_equals_value(1,3)] four_parts [of w, unfolded four_def assms] dec_bytes by simp

lemma b64_dec_one:
  assumes "drop_bit 0 w AND 0x3f = 0" "drop_bit 6 w AND 0x3f = 0"
  shows "b64_dec_loop [b64_char 18 w, b64_char 12 w, 61, 61] 0 0 0 dst = Inr (0, dst @ [ucast (drop_bit 16 w)])"
  unfolding b64_dec_three [OF b64_char_value(1) b64_char_value(1) b64_equals_value(1) b64_char_value(2) b64_char_value(2) b64_equals_value(2)]
    b64_dec_last [OF b64_equals_value(1,4)] four_parts [of w, unfolded four_def assms] dec_bytes by simp

section \<open>The encoder\<close>

text \<open>The text from the loop on.\<close>

definition b64_rest :: "uchar list \<Rightarrow> nat \<Rightarrow> uchar list \<Rightarrow> uchar list" where
  "b64_rest src lend dst =
     (case b64_enc_loop src 2 0 lend dst of (pos, buf, dst) \<Rightarrow>
        if pos \<noteq> 2 then dst @ [b64_char 18 buf, b64_char 12 buf, if pos = 0 then b64_char 6 buf else 61, 61] else dst)"

definition join3 :: "uchar \<Rightarrow> uchar \<Rightarrow> uchar \<Rightarrow> 32 word" where
  "join3 a b c = push_bit 16 (ucast a) OR push_bit 8 (ucast b) OR ucast c"

lemma join3_bytes:
  "ucast (drop_bit 16 (join3 a b c)) = a" "ucast (drop_bit 8 (join3 a b c)) = b" "ucast (join3 a b c) = c"
  unfolding join3_def by (rule bit_word_eqI; auto simp: bit_simps dest: bit_imp_le_length)+

lemma join3_zero: "drop_bit 0 (join3 a b 0) AND 0x3f = 0" "drop_bit 6 (join3 a 0 0) AND 0x3f = 0"
  unfolding join3_def mask6 by (rule bit_word_eqI; auto simp: bit_simps)+

text \<open>The list in steps of three.\<close>

fun by_three :: "uchar list \<Rightarrow> nat" where
  "by_three (a # b # c # src) = Suc (by_three src)"
| "by_three [] = 0"
| "by_three [a] = 0"
| "by_three [a, b] = 0"

lemma b64_rest_simps:
  assumes "length dst < lend"
  shows "b64_rest [] lend dst = dst"
    "b64_rest [a] lend dst = dst @ [b64_char 18 (join3 a 0 0), b64_char 12 (join3 a 0 0), 61, 61]"
    "b64_rest [a, b] lend dst = dst @ [b64_char 18 (join3 a b 0), b64_char 12 (join3 a b 0), b64_char 6 (join3 a b 0), 61]"
    "b64_rest (a # b # c # src) lend dst =
       (let dst' = dst @ [b64_char 18 (join3 a b c), b64_char 12 (join3 a b c), b64_char 6 (join3 a b c), b64_char 0 (join3 a b c)]
        in if length dst' \<ge> lend then b64_rest src (length dst' + 1 + 76) (dst' @ [10]) else b64_rest src lend dst')"
  using assms by (simp_all add: b64_rest_def join3_def Let_def not_le or.assoc)

lemma b64_rest_decodes:
  "length dst < lend \<Longrightarrow> \<exists>rest. b64_rest src lend dst = dst @ rest \<and> (\<forall>d. b64_dec_loop rest 0 0 0 d = Inr (0, d @ src))"
proof (induction src arbitrary: lend dst rule: by_three.induct)
  case (1 a b c src)
  let ?g = "[b64_char 18 (join3 a b c), b64_char 12 (join3 a b c), b64_char 6 (join3 a b c), b64_char 0 (join3 a b c)]"
  have g: "b64_dec_loop (?g @ r) 0 0 0 d = b64_dec_loop r 0 0 0 (d @ [a, b, c])" for r d
    using b64_dec_group [of "join3 a b c" r d] by (simp add: join3_bytes)
  show ?case
  proof (cases "length (dst @ ?g) \<ge> lend")
    case True
    obtain rest where "b64_rest src (length (dst @ ?g) + 1 + 76) (dst @ ?g @ [10]) = (dst @ ?g @ [10]) @ rest"
      "\<And>d. b64_dec_loop rest 0 0 0 d = Inr (0, d @ src)" using "1.IH" [of "dst @ ?g @ [10]" "length (dst @ ?g) + 1 + 76"] by auto
    then show ?thesis using b64_rest_simps(4) [OF "1.prems", of a b c src] True g [of "10 # rest"]
      by (intro exI [of _ "?g @ 10 # rest"]) (simp add: Let_def is_space_def)
  next
    case False
    obtain rest where "b64_rest src lend (dst @ ?g) = (dst @ ?g) @ rest" "\<And>d. b64_dec_loop rest 0 0 0 d = Inr (0, d @ src)"
      using "1.IH" [of "dst @ ?g" lend] False by auto
    then show ?thesis using b64_rest_simps(4) [OF "1.prems", of a b c src] False g [of rest]
      by (intro exI [of _ "?g @ rest"]) (simp add: Let_def)
  qed
next
  case (3 a)
  then show ?case using b64_dec_one [OF join3_zero(1,2)] by (simp add: b64_rest_simps join3_bytes)
next
  case (4 a b)
  then show ?case using b64_dec_two [OF join3_zero(1)] by (simp add: b64_rest_simps join3_bytes)
qed (simp add: b64_rest_simps)

lemma b64_decode_encode: "b64_decode (b64_encode x) = Inr x"
proof -
  have "b64_encode x = b64_rest x 76 []" by (simp add: b64_encode_def b64_rest_def)
  then show ?thesis using b64_rest_decodes [of "[]" 76 x] by (auto simp: b64_decode_def)
qed

text \<open>With \<open>g\<close> groups on the current line.\<close>

lemma b64_rest_length:
  "g < 19 \<Longrightarrow> lend + 4 * g = length dst + 76 \<Longrightarrow>
     length (b64_rest src lend dst) = length dst + 4 * ((length src + 2) div 3) + (3 * g + length src) div 57"
proof (induction src arbitrary: lend dst g rule: by_three.induct)
  case (1 a b c src)
  let ?d = "dst @ [b64_char 18 (join3 a b c), b64_char 12 (join3 a b c), b64_char 6 (join3 a b c), b64_char 0 (join3 a b c)]"
  have lt: "length dst < lend" using "1.prems" by simp
  show ?case
  proof (cases "g = 18")
    case True
    have "length (b64_rest src (length ?d + 1 + 76) (?d @ [10])) = length (?d @ [10]) + 4 * ((length src + 2) div 3) + length src div 57"
      using "1.IH" [of 0 "length ?d + 1 + 76" "?d @ [10]"] by simp
    moreover have "(5 + length src) div 3 = Suc (Suc (Suc (length src)) div 3)" by presburger
    ultimately show ?thesis using True "1.prems" b64_rest_simps(4) [OF lt, of a b c src] by (simp add: Let_def)
  next
    case False
    have "length (b64_rest src lend ?d) = length ?d + 4 * ((length src + 2) div 3) + (3 * (g + 1) + length src) div 57"
      using "1.IH" [of "g + 1" lend ?d] "1.prems" False by simp
    moreover have "(5 + length src) div 3 = Suc (Suc (Suc (length src)) div 3)" by presburger
    ultimately show ?thesis using False "1.prems" b64_rest_simps(4) [OF lt, of a b c src] by (simp add: Let_def add.assoc)
  qed
qed (auto simp: b64_rest_simps)

lemma b64_encode_length: "length (b64_encode x) \<le> b64_enc_len x"
proof -
  have "length (b64_encode x) = 4 * ((length x + 2) div 3) + length x div 57"
    using b64_rest_length [of 0 76 "[]" x] by (simp add: b64_encode_def b64_rest_def)
  also have "\<dots> \<le> (length x + 2) * 4 div 3 + length x div 57" by simp
  finally show ?thesis by (simp add: b64_enc_len_def)
qed

lemma b64_dec_length:
  "b64_dec_loop src buf pos e dst = Inr (pos', dst') \<Longrightarrow> pos < 4 \<Longrightarrow> 4 * length dst' + 3 * pos' \<le> 4 * length dst + 3 * (length src + pos)"
proof (induction src arbitrary: buf pos e dst)
  case (Cons c src)
  show ?case
  proof (cases "is_space c")
    case True
    then show ?thesis using Cons.prems Cons.IH by fastforce
  next
    case False
    then obtain b e' where v: "b64_value c pos e = Inr (b, e')" using Cons.prems(1) by (auto simp: res_iff)
    show ?thesis
    proof (cases "pos + 1 = 4")
      case True
      let ?b = "push_bit 6 buf + of_int b"
      let ?d = "dst @ [ucast (drop_bit 16 ?b AND 255)] @ (if e' = 0 \<or> e' > 1 then [ucast (drop_bit 8 ?b AND 255)] else []) @
         (if e' = 0 \<or> e' > 2 then [ucast (?b AND 255)] else [])"
      have "b64_dec_loop src 0 0 e' ?d = Inr (pos', dst')" using Cons.prems(1) False v True by (simp add: Let_def)
      then have "4 * length dst' + 3 * pos' \<le> 4 * length ?d + 3 * length src" using Cons.IH by fastforce
      moreover have "length ?d \<le> length dst + 3" by simp
      ultimately show ?thesis using True by simp
    next
      case pos: False
      then have "b64_dec_loop src (push_bit 6 buf + of_int b) (pos + 1) e' dst = Inr (pos', dst')"
        using Cons.prems(1) False v by (simp add: Let_def)
      then show ?thesis using Cons.IH Cons.prems(2) pos by fastforce
    qed
  qed
qed simp

interpretation b64: codec b64_enc_len b64_dec_len b64_encode b64_decode
proof
  show "length (b64_encode x) \<le> b64_enc_len x" for x by (rule b64_encode_length)
  show "b64_decode (b64_encode x) = Inr x" for x by (rule b64_decode_encode)
  show "\<exists>n. b64_dec_len y = Inr n \<and> length x \<le> n" if "b64_decode y = Inr x" for x y
  proof -
    have "b64_dec_loop y 0 0 0 [] = Inr (0, x)" using that by (auto simp: b64_decode_def res_iff ereport_error_def split: if_splits)
    then show ?thesis using b64_dec_length [of y 0 0 0 "[]" 0 x] by (simp add: b64_dec_len_def)
  qed
qed

section \<open>Properties\<close>

lemma pg_find_encoding_cases:
  "pg_find_encoding name =
     (if map tolower name = ''hex'' then Some \<lparr>enc_len = hex_enc_len, dec_len = hex_dec_len, encode = hex_encode, decode = hex_decode\<rparr>
      else if map tolower name = ''base64'' then Some \<lparr>enc_len = b64_enc_len, dec_len = b64_dec_len, encode = b64_encode, decode = b64_decode\<rparr>
      else if map tolower name = ''escape'' then Some \<lparr>enc_len = esc_enc_len, dec_len = esc_dec_len, encode = esc_encode, decode = esc_decode\<rparr>
      else None)"
  by (auto simp: pg_find_encoding_def enclist_def tolower_def)

lemma found_codec: "pg_find_encoding name = Some enc \<Longrightarrow> codec (enc_len enc) (dec_len enc) (encode enc) (decode enc)"
  using hex.codec_axioms b64.codec_axioms esc.codec_axioms by (auto simp: pg_find_encoding_cases split: if_splits)

text \<open>C20: for each encoding \<open>encode\<close> and \<open>decode\<close> are inverse: encoding succeeds for every data, and decoding the
  text gives the data back; the areas allocated from the estimated lengths are always large enough.\<close>

theorem binary_decode_encode:
  assumes "map tolower name \<in> {''hex'', ''base64'', ''escape''}"
  shows "\<exists>str. binary_encode data name = Inr str \<and> binary_decode str name = Inr data"
proof -
  obtain enc where enc: "pg_find_encoding name = Some enc" using assms by (auto simp: pg_find_encoding_cases)
  from codec.there_and_back [OF found_codec, OF enc, of data] obtain n where
    "dec_len enc (encode enc data) = Inr n" "decode enc (encode enc data) = Inr data" "length data \<le> n" by blast
  then show ?thesis using enc codec.enc_fits [OF found_codec, OF enc, of data]
    by (simp add: binary_encode_def binary_decode_def Let_def)
qed

theorem binary_decode_encode_witness: "\<exists>str. binary_encode [0, 92, 255] ''BASE64'' = Inr str \<and> binary_decode str ''BASE64'' = Inr [0, 92, 255]"
  by (rule binary_decode_encode) code_simp


end
