(* ===== verification/ProvSpj.thy ===== *)
theory ProvSpj
  imports ProvAttrName
begin

text \<open>
  Rewriting of select-project-join queries so that they also return the tuples that contribute to each
  result: \<open>src/backend/provrewrite/main/prov_spj.c\<close>, with what it calls of \<open>util/prov_util.c\<close>, the
  expansion of range table entries in \<open>src/backend/parser/parse_relation.c\<close>, and the search for marked
  queries in \<open>main/provrewrite.c\<close>.

  A query here has no aggregation, set operation or sublink; of its fields it has those the rewriter reads
  or changes.  Types of expressions and permissions are left out.  Lists are values: what \<open>push\<close>, \<open>pop\<close>,
  \<open>popListAndReverse\<close> and \<open>lappend\<close> do to linked lists is the subject of other theories.  The stack of base
  relations, which only the rewriting of sublinks activates, is left out.
\<close>

section \<open>Query trees\<close>

text \<open>A value of a column; \<open>None\<close> is the SQL null.\<close>

type_synonym val = "int option"

datatype Expression =
    is_Var: Var (varno: nat) (varattno: nat)
  | Const val
  | OpExpr nat "Expression list"
  | DistinctExpr Expression Expression
  | NotExpr Expression
  | AndExpr "Expression list"

datatype FromItem =
    RangeTblRef nat
  | JoinExpr JoinType nat FromItem FromItem Expression

record TargetEntry =
  te_expr :: Expression
  resno :: nat
  resname :: string
  ressortgroupref :: nat
  resjunk :: bool

definition makeTargetEntry :: "Expression \<Rightarrow> nat \<Rightarrow> string \<Rightarrow> bool \<Rightarrow> TargetEntry" where
  "makeTargetEntry e n name junk = \<lparr>te_expr = e, resno = n, resname = name, ressortgroupref = 0, resjunk = junk\<rparr>"

datatype SelectQuery = SelectQuery
    (target_list: "TargetEntry list") (range_table: "RTE list") (from_list: "FromItem list") (qual: "Expression option")
    (distinct_clause: "nat list") (limit_offset: "nat option") (limit_count: "nat option") (shouldRewrite: bool)
and RTE = RTE
    (rte_kind: "SelectQuery RangeTblEntry") (relation: nat) (prov_base: bool) (alias_of: "string option")
    (eref_of: "string option") (colnames: "string list") (provAttrs: "string option list") (joinaliasvars: "(nat \<times> nat) list")

fun set_kind :: "SelectQuery RangeTblEntry \<Rightarrow> RTE \<Rightarrow> RTE" where
  "set_kind k (RTE _ r b al er cs ps js) = RTE k r b al er cs ps js"

fun set_alias :: "string option \<Rightarrow> RTE \<Rightarrow> RTE" where
  "set_alias al (RTE k r b _ er cs ps js) = RTE k r b al er cs ps js"

fun add_columns :: "(string \<times> nat \<times> nat) list \<Rightarrow> RTE \<Rightarrow> RTE" where
  "add_columns new (RTE k r b al er cs ps js) = RTE k r b al er (cs @ map fst new) ps (js @ map snd new)"

text \<open>A column of a table in the catalog: its name, and whether it has been dropped.\<close>

record schema =
  rel_names :: catalog
  rel_atts :: "nat \<Rightarrow> (string \<times> bool) list"

text \<open>The stack of lists of provenance attributes, and the counters of references.\<close>

record rewrite_state =
  pStack :: "TargetEntry list list"
  ref_counts :: attr_state

section \<open>Expanding a range table entry\<close>

fun expandTupleDesc :: "(string \<times> bool) list \<Rightarrow> string list \<Rightarrow> nat \<Rightarrow> nat \<Rightarrow> (string \<times> nat \<times> nat) list" where
  "expandTupleDesc [] names rtindex attnum = []"
| "expandTupleDesc ((attname, attisdropped) # atts) names rtindex attnum =
     (if attisdropped then []
      else [(if attnum - 1 < length names then names ! (attnum - 1) else attname, rtindex, attnum)])
     @ expandTupleDesc atts names rtindex (Suc attnum)"

fun expand_subquery :: "TargetEntry list \<Rightarrow> string list \<Rightarrow> nat \<Rightarrow> nat \<Rightarrow> (string \<times> nat \<times> nat) list res" where
  "expand_subquery [] names rtindex attno = Inr []"
| "expand_subquery (te # tes) names rtindex attno =
     (if resjunk te then expand_subquery tes names rtindex attno
      else
        res_bind (cassert (Suc attno = resno te)) (\<lambda>_.
        case names of
          [] \<Rightarrow> Inl NullDeref
        | name # names \<Rightarrow>
            res_bind (expand_subquery tes names rtindex (Suc attno)) (\<lambda>cols. Inr ((name, rtindex, Suc attno) # cols))))"

text \<open>Functions and \<open>VALUES\<close> lists have the columns that \<open>eref\<close> names.\<close>

definition named_columns :: "string list \<Rightarrow> nat \<Rightarrow> (string \<times> nat \<times> nat) list" where
  "named_columns names rtindex = map (\<lambda>(k, name). (name, rtindex, k)) (enumerate 1 names)"

definition expandRTEWithParam :: "schema \<Rightarrow> RTE \<Rightarrow> nat \<Rightarrow> (string \<times> nat \<times> nat) list res" where
  "expandRTEWithParam cat r rtindex =
     (case rte_kind r of
        RTE_RELATION \<Rightarrow> Inr (expandTupleDesc (rel_atts cat (relation r)) (colnames r) rtindex 1)
      | RTE_SUBQUERY q \<Rightarrow> expand_subquery (target_list q) (colnames r) rtindex 0
      | RTE_JOIN \<Rightarrow>
          res_bind (cassert (length (colnames r) = length (joinaliasvars r))) (\<lambda>_. Inr (named_columns (colnames r) rtindex))
      | RTE_SPECIAL \<Rightarrow> Inl (Elog ''unrecognized RTE kind'')
      | RTE_FUNCTION \<Rightarrow> Inr (named_columns (colnames r) rtindex)
      | RTE_VALUES \<Rightarrow> Inr (named_columns (colnames r) rtindex))"

section \<open>Base relations\<close>

text \<open>The fields of an entry that the functions on names read.\<close>

definition entry_names :: "RTE \<Rightarrow> rte" where
  "entry_names r =
     \<lparr>rtekind = map_RangeTblEntry (\<lambda>_. ()) (rte_kind r), rte_relid = relation r, isProvBase = prov_base r,
      alias_name = alias_of r, eref_name = eref_of r\<rparr>"

fun base_attrs :: "schema \<Rightarrow> (string \<times> nat \<times> nat) list \<Rightarrow> nat \<Rightarrow> rte \<Rightarrow> attr_state \<Rightarrow> (TargetEntry list \<times> rte \<times> attr_state) res" where
  "base_attrs cat [] curResno r st = Inr ([], r, st)"
| "base_attrs cat ((name, vno, vattno) # cols) curResno r st =
     res_bind (createProvAttrName (rel_names cat) st r name) (\<lambda>(attrName, r, st).
     res_bind (base_attrs cat cols (Suc curResno) r st) (\<lambda>(pList, r, st).
       Inr (makeTargetEntry (Var vno vattno) (Suc curResno) attrName False # pList, r, st)))"

definition rewriteBaseRelation :: "schema \<Rightarrow> nat \<Rightarrow> RTE \<Rightarrow> rewrite_state \<Rightarrow> (RTE \<times> rewrite_state) res" where
  "rewriteBaseRelation cat rtindex r st =
     res_bind (expandRTEWithParam cat r rtindex) (\<lambda>cols.
     res_bind (getQueryRefNum (rel_names cat) (ref_counts st) (entry_names r) True) (\<lambda>(_, names, counts).
     res_bind (base_attrs cat cols 0 names counts) (\<lambda>(pList, names, counts).
       Inr (set_alias (alias_name names) r, \<lparr>pStack = pList # pStack st, ref_counts = counts\<rparr>))))"

section \<open>Entries with given provenance attributes\<close>

definition own_columns :: "schema \<Rightarrow> RTE \<Rightarrow> nat \<Rightarrow> (string \<times> nat \<times> nat) list res" where
  "own_columns cat r rtindex =
     (case rte_kind r of
        RTE_SUBQUERY q \<Rightarrow> Inr (map (\<lambda>te. (resname te, rtindex, resno te)) (target_list q))
      | RTE_RELATION \<Rightarrow> expandRTEWithParam cat r rtindex
      | _ \<Rightarrow> Inl (Elog ''PROVENANCE construct in FROM clause is only allowed for base relations and subqueries''))"

fun given_attrs :: "(string \<times> nat \<times> nat) list \<Rightarrow> string option list \<Rightarrow> TargetEntry list res" where
  "given_attrs cols [] = Inr []"
| "given_attrs cols (provattr # provattrs) =
     (case provattr of
        None \<Rightarrow> Inl NullDeref
      | Some name \<Rightarrow>
          let found = filter (\<lambda>col. fst col = name) cols in
          if found = [] then Inl (Elog ''Provenance attribute given in the PROVENANCE attribute list is not found'')
          else
            res_bind (createExternalProvAttrName name) (\<lambda>attrName.
            res_bind (given_attrs cols provattrs) (\<lambda>pList.
              Inr (map (\<lambda>(_, vno, vattno). makeTargetEntry (Var vno vattno) vattno attrName False) found @ pList))))"

text \<open>The case in which the entry is not itself a query marked for rewriting.\<close>

definition rewriteRTEwithProvenance :: "schema \<Rightarrow> nat \<Rightarrow> RTE \<Rightarrow> rewrite_state \<Rightarrow> rewrite_state res" where
  "rewriteRTEwithProvenance cat rtindex r st =
     res_bind (own_columns cat r rtindex) (\<lambda>cols.
     res_bind (given_attrs cols (provAttrs r)) (\<lambda>pList. Inr (st\<lparr>pStack := pList # pStack st\<rparr>)))"

definition ignoreRTE :: "RTE \<Rightarrow> bool" where
  "ignoreRTE r \<longleftrightarrow> provAttrs r = [None]"

text \<open>The entries that are not rewritten: those of rules, and those marked by \<open>setIgnoreRTE\<close>.\<close>

definition skipped :: "RTE \<Rightarrow> bool res" where
  "skipped r =
     (case eref_of r of
        None \<Rightarrow> Inl NullDeref
      | Some name \<Rightarrow> Inr (name = ''*NEW*'' \<or> name = ''*OLD*'' \<or> ignoreRTE r))"

section \<open>Joins\<close>

text \<open>The list of provenance attributes of the entry \<open>rtindex\<close> on the stack.\<close>

definition attrs_of_ref :: "TargetEntry list list \<Rightarrow> nat list \<Rightarrow> nat \<Rightarrow> TargetEntry list res" where
  "attrs_of_ref stack subList rtindex =
     foldl (\<lambda>pList counter.
       if subList ! counter = rtindex then
         let n = length subList - 1 - counter in
         res_bind pList (\<lambda>_. res_bind (cassert (n < length stack)) (\<lambda>_. Inr (stack ! n)))
       else pList) (Inr []) [0..<length subList]"

text \<open>The loop over the attributes of both sides: the new columns of the join, and its own attributes.\<close>

definition join_column :: "TargetEntry \<Rightarrow> (string \<times> nat \<times> nat) res" where
  "join_column te = (if is_Var (te_expr te) then Inr (resname te, varno (te_expr te), resno te) else Inl BadUnion)"

definition join_attrs :: "nat \<Rightarrow> nat \<Rightarrow> TargetEntry list \<Rightarrow> TargetEntry list" where
  "join_attrs rteRef start pList =
     map (\<lambda>(k, te). makeTargetEntry (Var rteRef k) k (resname te) False) (enumerate start pList)"

fun computeJoinPAttrs ::
    "FromItem \<Rightarrow> TargetEntry list list \<Rightarrow> nat list \<Rightarrow> RTE list \<Rightarrow> (TargetEntry list \<times> RTE list) res" where
  "computeJoinPAttrs (JoinExpr jointype rteRef larg rarg cond) stack subList rts =
     res_bind (computeJoinPAttrs larg stack subList rts) (\<lambda>(left, rts).
     res_bind (computeJoinPAttrs rarg stack subList rts) (\<lambda>(right, rts).
     res_bind (rt_fetch rteRef rts) (\<lambda>r.
     res_bind (map_res join_column (left @ right)) (\<lambda>cols.
       Inr (join_attrs rteRef (Suc (length (joinaliasvars r))) (left @ right),
            rts[rteRef - 1 := add_columns cols r])))))"
| "computeJoinPAttrs (RangeTblRef rteRef) stack subList rts =
     res_bind (attrs_of_ref stack subList rteRef) (\<lambda>pList.
     res_bind (map_res (\<lambda>te. case te_expr te of Var _ a \<Rightarrow> Inr (te\<lparr>te_expr := Var rteRef a\<rparr>) | _ \<Rightarrow> Inl BadUnion) pList)
       (\<lambda>pAttrs. Inr (pAttrs, rts)))"

fun correctJoinRTEs :: "FromItem list \<Rightarrow> TargetEntry list list \<Rightarrow> nat list \<Rightarrow> RTE list \<Rightarrow> RTE list res" where
  "correctJoinRTEs [] stack subList rts = Inr rts"
| "correctJoinRTEs (RangeTblRef i # items) stack subList rts = correctJoinRTEs items stack subList rts"
| "correctJoinRTEs (JoinExpr jointype i l r q # items) stack subList rts =
     res_bind (computeJoinPAttrs (JoinExpr jointype i l r q) stack subList rts) (\<lambda>(_, rts).
       correctJoinRTEs items stack subList rts)"

text \<open>The joins above a reference, from the innermost on.\<close>

fun findRTindexInJoin :: "nat \<Rightarrow> FromItem \<Rightarrow> nat list option" where
  "findRTindexInJoin rtindex (RangeTblRef i) = (if i = rtindex then Some [] else None)"
| "findRTindexInJoin rtindex (JoinExpr jointype i larg rarg cond) =
     (case findRTindexInJoin rtindex larg of
        Some joins \<Rightarrow> Some (joins @ [i])
      | None \<Rightarrow>
          (case findRTindexInJoin rtindex rarg of
             Some joins \<Rightarrow> Some (joins @ [i])
           | None \<Rightarrow> None))"

fun joins_above :: "nat \<Rightarrow> FromItem list \<Rightarrow> nat list" where
  "joins_above rtindex [] = []"
| "joins_above rtindex (RangeTblRef i # items) = joins_above rtindex items"
| "joins_above rtindex (JoinExpr jointype i l r q # items) =
     (case findRTindexInJoin rtindex (JoinExpr jointype i l r q) of
        Some joins \<Rightarrow> joins
      | None \<Rightarrow> joins_above rtindex items)"

text \<open>The last column of a join that stands for a variable; \<open>foundAttrNum\<close> keeps its value when there is none.\<close>

fun find_alias :: "(nat \<times> nat) list \<Rightarrow> nat \<times> nat \<Rightarrow> nat \<Rightarrow> nat option \<Rightarrow> nat option" where
  "find_alias [] v newAttrNumber foundAttrNum = foundAttrNum"
| "find_alias (joinVar # vars) v newAttrNumber foundAttrNum =
     find_alias vars v (Suc newAttrNumber) (if joinVar = v then Some newAttrNumber else foundAttrNum)"

text \<open>Reading \<open>foundAttrNum\<close> before it has a value is a fault.\<close>

fun resolve_joins :: "nat list \<Rightarrow> RTE list \<Rightarrow> nat \<times> nat \<Rightarrow> nat option \<Rightarrow> (nat \<times> nat) res" where
  "resolve_joins [] rts v foundAttrNum = Inr v"
| "resolve_joins (newRtindex # joins) rts v foundAttrNum =
     res_bind (rt_fetch newRtindex rts) (\<lambda>r.
     case find_alias (joinaliasvars r) v 1 foundAttrNum of
       None \<Rightarrow> Inl OutOfBounds
     | Some attno \<Rightarrow> resolve_joins joins rts (newRtindex, attno) (Some attno))"

definition getRTindexForProvTE :: "FromItem list \<Rightarrow> RTE list \<Rightarrow> nat \<times> nat \<Rightarrow> (nat \<times> nat) res" where
  "getRTindexForProvTE items rts v = resolve_joins (joins_above (fst v) items) rts v None"

section \<open>Adding the attributes to a query\<close>

fun prov_entries :: "FromItem list \<Rightarrow> RTE list \<Rightarrow> nat \<Rightarrow> TargetEntry list \<Rightarrow> nat \<Rightarrow> TargetEntry list res" where
  "prov_entries items rts curSubquery [] curResno = Inr []"
| "prov_entries items rts curSubquery (te # curPSet) curResno =
     res_bind (getRTindexForProvTE items rts (curSubquery, resno te)) (\<lambda>(vno, vattno).
     res_bind (prov_entries items rts curSubquery curPSet (Suc curResno)) (\<lambda>tes.
       Inr (makeTargetEntry (Var vno vattno) curResno (resname te) False # tes)))"

fun prov_entries_all :: "FromItem list \<Rightarrow> RTE list \<Rightarrow> nat list \<Rightarrow> TargetEntry list list \<Rightarrow> nat \<Rightarrow> TargetEntry list res" where
  "prov_entries_all items rts [] subPStack curResno = Inr []"
| "prov_entries_all items rts (curSubquery # subList) [] curResno = Inl AssertFailed"
| "prov_entries_all items rts (curSubquery # subList) (curPSet # subPStack) curResno =
     res_bind (prov_entries items rts curSubquery curPSet curResno) (\<lambda>tes.
     res_bind (prov_entries_all items rts subList subPStack (curResno + length curPSet)) (\<lambda>rest. Inr (tes @ rest)))"

text \<open>The new entries are appended to the target list and are the result.\<close>

definition addProvenanceAttrs :: "SelectQuery \<Rightarrow> nat list \<Rightarrow> TargetEntry list list \<Rightarrow> (TargetEntry list \<times> TargetEntry list list) res" where
  "addProvenanceAttrs q subList stack =
     res_bind (cassert (length subList \<le> length stack)) (\<lambda>_.
     res_bind (prov_entries_all (from_list q) (range_table q) subList (rev (take (length subList) stack))
       (length (target_list q) + 1)) (\<lambda>pList. Inr (pList, drop (length subList) stack)))"

fun set_targets :: "TargetEntry list \<Rightarrow> nat list \<Rightarrow> SelectQuery \<Rightarrow> SelectQuery" where
  "set_targets tes dist (SelectQuery _ rts items w _ off cnt m) = SelectQuery tes rts items w dist off cnt m"

fun set_rtable :: "RTE list \<Rightarrow> SelectQuery \<Rightarrow> SelectQuery" where
  "set_rtable rts (SelectQuery tes _ items w dist off cnt m) = SelectQuery tes rts items w dist off cnt m"

definition max_groupref :: "TargetEntry list \<Rightarrow> nat" where
  "max_groupref tes = foldl (\<lambda>cur te. if ressortgroupref te > cur then ressortgroupref te else cur) 0 tes"

fun number_groups :: "TargetEntry list \<Rightarrow> nat \<Rightarrow> TargetEntry list" where
  "number_groups [] curGroupref = []"
| "number_groups (te # tes) curGroupref =
     (if ressortgroupref te = 0
      then te\<lparr>ressortgroupref := Suc curGroupref\<rparr> # number_groups tes (Suc curGroupref)
      else te # number_groups tes curGroupref)"

text \<open>The new sort clauses refer to the entries, which the query and the stack share; the result has both.\<close>

definition rewriteDistinctClause :: "SelectQuery \<Rightarrow> TargetEntry list \<Rightarrow> TargetEntry list \<times> nat list" where
  "rewriteDistinctClause q pList =
     (let pList = number_groups pList (max_groupref (target_list q @ pList))
      in (pList, distinct_clause q @ map ressortgroupref pList))"

definition correctRTEAlias :: "RTE \<Rightarrow> RTE" where
  "correctRTEAlias r =
     (case r of
        RTE (RTE_SUBQUERY q) rel b al er cs ps js \<Rightarrow>
          RTE (RTE_SUBQUERY q) rel b (if al = None then er else al) er (map resname (target_list q)) ps js
      | _ \<Rightarrow> r)"

definition correctSubQueryAlias :: "RTE list \<Rightarrow> RTE list" where
  "correctSubQueryAlias rts = map correctRTEAlias rts"

text \<open>The part of \<open>rewriteSPJrestrict\<close> after the entries have been rewritten.\<close>

definition adapt_query :: "SelectQuery \<Rightarrow> RTE list \<Rightarrow> nat list \<Rightarrow> rewrite_state \<Rightarrow> (SelectQuery \<times> rewrite_state) res" where
  "adapt_query q rts subList st =
     res_bind (correctJoinRTEs (from_list q) (pStack st) subList (correctSubQueryAlias rts)) (\<lambda>rts.
     let q = set_rtable rts q in
     res_bind (addProvenanceAttrs q subList (pStack st)) (\<lambda>(pList, stack).
       let (pList, dist) = (if distinct_clause q \<noteq> [] then rewriteDistinctClause q pList else (pList, [])) in
       Inr (set_targets (target_list q @ pList) dist q, st\<lparr>pStack := pList # stack\<rparr>)))"

section \<open>Limits\<close>

text \<open>Subqueries are smaller.\<close>

lemma rte_size: "r \<in> set rts \<Longrightarrow> rte_kind r = RTE_SUBQUERY q \<Longrightarrow> size q < Suc (size_list size rts)"
  using size_list_estimation' [of r rts "size r" size] by (cases r) auto

function checkForNTupleDupConstructs :: "SelectQuery \<Rightarrow> bool" where
  "checkForNTupleDupConstructs (SelectQuery tes rts items w dist off cnt m) \<longleftrightarrow>
     dist \<noteq> [] \<or>
     (\<exists>r \<in> set rts. case rte_kind r of
        RTE_SUBQUERY q \<Rightarrow> checkForNTupleDupConstructs q
      | RTE_FUNCTION \<Rightarrow> True
      | _ \<Rightarrow> False)"
  by pat_completeness auto
termination
  by (relation "measure size") (auto dest: rte_size)

definition checkLimit :: "SelectQuery \<Rightarrow> bool" where
  "checkLimit q \<longleftrightarrow> (limit_count q \<noteq> None \<or> limit_offset q \<noteq> None) \<and> checkForNTupleDupConstructs q"

fun no_limit :: "SelectQuery \<Rightarrow> SelectQuery" where
  "no_limit (SelectQuery tes rts items w dist off cnt m) = SelectQuery tes rts items w dist None None m"

lemma no_limit_simps [simp]: "size (no_limit q) = size q" "\<not> checkLimit (no_limit q)"
  by (cases q; simp add: checkLimit_def)+

definition createNotDistinctConditionForVars :: "nat \<times> nat \<Rightarrow> nat \<times> nat \<Rightarrow> Expression" where
  "createNotDistinctConditionForVars l r = NotExpr (DistinctExpr (Var (fst l) (snd l)) (Var (fst r) (snd r)))"

definition addSubqueryToRT :: "SelectQuery \<Rightarrow> string \<Rightarrow> RTE" where
  "addSubqueryToRT q aliasName = RTE (RTE_SUBQUERY q) 0 False (Some aliasName) (Some aliasName) [] [] []"

text \<open>
  The join of the entries 1 and 2 on their first columns.  When the original query is marked,
  \<open>expandRTE\<close> appends further columns to those of entry 1, which are not used.
\<close>

definition createJoinOnAttrs :: "schema \<Rightarrow> RTE \<Rightarrow> RTE \<Rightarrow> nat \<Rightarrow> Expression res" where
  "createJoinOnAttrs cat l r n =
     res_bind (expandRTEWithParam cat l 1) (\<lambda>leftVars.
     res_bind (expandRTEWithParam cat r 2) (\<lambda>rightVars.
     res_bind (cassert (n \<le> length leftVars \<and> n \<le> length rightVars)) (\<lambda>_.
       Inr (AndExpr (map (\<lambda>(a, b). createNotDistinctConditionForVars (snd a) (snd b)) (zip (take n leftVars) (take n rightVars)))))))"

definition adaptRTEsForJoins :: "schema \<Rightarrow> RTE \<Rightarrow> RTE \<Rightarrow> RTE res" where
  "adaptRTEsForJoins cat l r =
     res_bind (expandRTEWithParam cat l 1) (\<lambda>left.
     res_bind (expandRTEWithParam cat r 2) (\<lambda>right.
       Inr (RTE RTE_JOIN 0 False None (Some ''newJoin'') (map fst (left @ right)) [] (map snd (left @ right)))))"

definition handleLimit :: "schema \<Rightarrow> SelectQuery \<Rightarrow> SelectQuery \<Rightarrow> SelectQuery res" where
  "handleLimit cat query rewrittenQuery =
     (let l = correctRTEAlias (addSubqueryToRT query ''originalQuery'');
          r = correctRTEAlias (addSubqueryToRT rewrittenQuery ''rewrittenQuery'') in
      res_bind (createJoinOnAttrs cat l r (length (target_list query))) (\<lambda>cond.
      res_bind (adaptRTEsForJoins cat l r) (\<lambda>join.
        Inr (SelectQuery
          (map (\<lambda>(i, te). makeTargetEntry (Var 2 i) i (resname te) (resjunk te)) (enumerate 1 (target_list rewrittenQuery)))
          [l, r, join] [JoinExpr JOIN_INNER 3 (RangeTblRef 1) (RangeTblRef 2) cond] None [] None None False))))"

section \<open>Rewriting\<close>

function (sequential)
      rewriteSPJQuery :: "schema \<Rightarrow> SelectQuery \<Rightarrow> rewrite_state \<Rightarrow> (SelectQuery \<times> rewrite_state) res"
  and rewriteSPJrestrict :: "schema \<Rightarrow> SelectQuery \<Rightarrow> rewrite_state \<Rightarrow> (SelectQuery \<times> rewrite_state) res"
  and rewriteRTEs :: "schema \<Rightarrow> RTE list \<Rightarrow> nat \<Rightarrow> rewrite_state \<Rightarrow> (RTE list \<times> nat list \<times> rewrite_state) res" where
  "rewriteSPJQuery cat q st =
     (if checkLimit q then
        res_bind (rewriteSPJQuery cat (no_limit q) st) (\<lambda>(rewrittenQuery, st).
        res_bind (handleLimit cat q rewrittenQuery) (\<lambda>newTopNode. Inr (newTopNode, st)))
      else rewriteSPJrestrict cat q st)"
| "rewriteSPJrestrict cat (SelectQuery tes rts items w dist off cnt m) st =
     res_bind (rewriteRTEs cat rts 1 st) (\<lambda>(rts', subList, st).
       adapt_query (SelectQuery tes rts items w dist off cnt m) rts' subList st)"
| "rewriteRTEs cat [] rtindex st = Inr ([], [], st)"
| "rewriteRTEs cat (RTE k rel b al er cs ps js # rts) rtindex st =
     (let r = RTE k rel b al er cs ps js in
      res_bind (skipped r) (\<lambda>skip.
      res_bind
        (if skip then Inr (r, [], st)
         else
           res_bind
             (if ps \<noteq> [] then
                (case k of
                   RTE_SUBQUERY q \<Rightarrow>
                     if shouldRewrite q
                     then res_bind (rewriteSPJQuery cat q st) (\<lambda>(q, st). Inr (set_kind (RTE_SUBQUERY q) r, st))
                     else res_bind (rewriteRTEwithProvenance cat rtindex r st) (\<lambda>st. Inr (r, st))
                 | _ \<Rightarrow> res_bind (rewriteRTEwithProvenance cat rtindex r st) (\<lambda>st. Inr (r, st)))
              else if k = RTE_RELATION \<or> b then rewriteBaseRelation cat rtindex r st
              else
                (case k of
                   RTE_SUBQUERY q \<Rightarrow> res_bind (rewriteSPJQuery cat q st) (\<lambda>(q, st). Inr (set_kind (RTE_SUBQUERY q) r, st))
                 | _ \<Rightarrow> Inr (r, st)))
             (\<lambda>(r, st). Inr (r, if k = RTE_JOIN then [] else [rtindex], st)))
        (\<lambda>(r, sub, st).
      res_bind (rewriteRTEs cat rts (Suc rtindex) st) (\<lambda>(rts, subs, st). Inr (r # rts, sub @ subs, st)))))"
  by pat_completeness auto
termination
  by (relation "inv_image (less_than <*lex*> less_than)
     (\<lambda>x. case x of
        Inl (cat, q, st) \<Rightarrow> (size q, if checkLimit q then 2 else 1 :: nat)
      | Inr (Inl (cat, q, st)) \<Rightarrow> (size q, 0)
      | Inr (Inr (cat, rts, i, st)) \<Rightarrow> (size_list size rts, 0))")
    auto

section \<open>Finding the marked queries\<close>

text \<open>Cutting the list while it is walked: the first provenance attribute and all behind it are gone.\<close>

definition removeDummyProvenanceTEs :: "TargetEntry list \<Rightarrow> TargetEntry list" where
  "removeDummyProvenanceTEs tes =
     snd (foldl (\<lambda>(pos, cur) te. (Suc pos, if isProvAttr (Some (resname te)) then take pos cur else cur)) (0, tes) tes)"

function (sequential)
      traverseQueryTree :: "schema \<Rightarrow> SelectQuery \<Rightarrow> rewrite_state \<Rightarrow> (SelectQuery \<times> rewrite_state) res"
  and traverse_entries :: "schema \<Rightarrow> RTE list \<Rightarrow> rewrite_state \<Rightarrow> (RTE list \<times> rewrite_state) res" where
  "traverseQueryTree cat (SelectQuery tes rts items w dist off cnt m) st =
     (if m then
        rewriteSPJQuery cat (SelectQuery (removeDummyProvenanceTEs tes) rts items w dist off cnt m)
          (st\<lparr>ref_counts := resetRelReferences (ref_counts st)\<rparr>)
      else res_bind (traverse_entries cat rts st) (\<lambda>(rts, st). Inr (SelectQuery tes rts items w dist off cnt m, st)))"
| "traverse_entries cat [] st = Inr ([], st)"
| "traverse_entries cat (RTE k rel b al er cs ps js # rts) st =
     res_bind
       (case k of
          RTE_SUBQUERY q \<Rightarrow>
            res_bind (traverseQueryTree cat q st) (\<lambda>(q', st).
              let r = RTE (RTE_SUBQUERY q') rel b al er cs ps js in Inr (if shouldRewrite q then correctRTEAlias r else r, st))
        | _ \<Rightarrow> Inr (RTE k rel b al er cs ps js, st)) (\<lambda>(r, st).
     res_bind (traverse_entries cat rts st) (\<lambda>(rts, st). Inr (r # rts, st)))"
  by pat_completeness auto
termination
  by (relation "measure (\<lambda>x. case x of Inl (cat, q, st) \<Rightarrow> size q | Inr (cat, rts, st) \<Rightarrow> size_list size rts)") auto

end
