(* ===== verification/ProvSpjSem.thy ===== *)
theory ProvSpjSem
  imports ProvSpj
begin

text \<open>
  What the queries of \<open>ProvSpj\<close> mean.  \<open>eval_query\<close> is the SQL meaning of a query as a list of rows,
  \<open>prov_query\<close> the specification of its provenance: every row together with the rows of the base
  relations that contribute to it.  \<open>query_ok\<close> says which query trees are well formed.

  Both meanings use one evaluation of the \<open>FROM\<close> clause, for entries with rows of any type.  An assignment
  maps the index of an entry to one of its rows; the values of the columns of joins follow from it.
\<close>

section \<open>Expressions\<close>

type_synonym row = "val list"
type_synonym env = "nat \<Rightarrow> row option"

definition attr :: "row \<Rightarrow> nat \<Rightarrow> val" where
  "attr row a = (if 0 < a \<and> a \<le> length row then row ! (a - 1) else None)"

definition lookup_var :: "env \<Rightarrow> nat \<times> nat \<Rightarrow> val" where
  "lookup_var V v = (case V (fst v) of None \<Rightarrow> None | Some row \<Rightarrow> attr row (snd v))"

type_synonym operators = "nat \<Rightarrow> val list \<Rightarrow> val"

fun eval_expr :: "operators \<Rightarrow> env \<Rightarrow> Expression \<Rightarrow> val" where
  "eval_expr ops V (Var n a) = lookup_var V (n, a)"
| "eval_expr ops V (Const v) = v"
| "eval_expr ops V (OpExpr f es) = ops f (map (eval_expr ops V) es)"
| "eval_expr ops V (DistinctExpr e f) = Some (if eval_expr ops V e = eval_expr ops V f then 0 else 1)"
| "eval_expr ops V (NotExpr e) = map_option (\<lambda>v. if v = 0 then 1 else 0) (eval_expr ops V e)"
| "eval_expr ops V (AndExpr es) =
     (let vs = map (eval_expr ops V) es in
      if Some 0 \<in> set vs then Some 0 else if None \<in> set vs then None else Some 1)"

definition holds :: "operators \<Rightarrow> env \<Rightarrow> Expression \<Rightarrow> bool" where
  "holds ops V e = (case eval_expr ops V e of None \<Rightarrow> False | Some v \<Rightarrow> v \<noteq> 0)"

fun expr_vars :: "Expression \<Rightarrow> (nat \<times> nat) list" where
  "expr_vars (Var n a) = [(n, a)]"
| "expr_vars (Const v) = []"
| "expr_vars (OpExpr f es) = concat (map expr_vars es)"
| "expr_vars (DistinctExpr e f) = expr_vars e @ expr_vars f"
| "expr_vars (NotExpr e) = expr_vars e"
| "expr_vars (AndExpr es) = concat (map expr_vars es)"

lemma eval_expr_cong:
  "(\<And>v. v \<in> set (expr_vars e) \<Longrightarrow> lookup_var V v = lookup_var W v) \<Longrightarrow> eval_expr ops V e = eval_expr ops W e"
proof (induction e)
  case (OpExpr f es)
  have "eval_expr ops V e = eval_expr ops W e" if "e \<in> set es" for e
    using that by (intro OpExpr.IH) (auto intro!: OpExpr.prems)
  then show ?case by (auto intro: arg_cong [where f = "ops f"])
next
  case (AndExpr es)
  have "eval_expr ops V e = eval_expr ops W e" if "e \<in> set es" for e
    using that by (intro AndExpr.IH) (auto intro!: AndExpr.prems)
  then have "map (eval_expr ops V) es = map (eval_expr ops W) es" by simp
  then show ?case by (simp only: eval_expr.simps)
qed auto

section \<open>The FROM clause\<close>

text \<open>
  A source gives for each entry its rows, the row that an outer join supplies, and the columns of a row;
  and for each join the variables its columns stand for.
\<close>

record 'a source =
  rows_of :: "nat \<Rightarrow> 'a list"
  null_of :: "nat \<Rightarrow> 'a"
  cols_of :: "nat \<Rightarrow> 'a \<Rightarrow> row"
  alias_vars :: "nat \<Rightarrow> (nat \<times> nat) list"
  oper :: operators

fun item_env :: "'a source \<Rightarrow> FromItem \<Rightarrow> (nat \<Rightarrow> 'a option) \<Rightarrow> env" where
  "item_env src (RangeTblRef i) A = [i \<mapsto> cols_of src i (the (A i))]"
| "item_env src (JoinExpr jointype k l r c) A =
     (let V = item_env src l A ++ item_env src r A in V(k \<mapsto> map (lookup_var V) (alias_vars src k)))"

fun null_item :: "'a source \<Rightarrow> FromItem \<Rightarrow> nat \<Rightarrow> 'a option" where
  "null_item src (RangeTblRef i) = [i \<mapsto> null_of src i]"
| "null_item src (JoinExpr jointype k l r c) = null_item src l ++ null_item src r"

definition keeps_left :: "JoinType \<Rightarrow> bool" where
  "keeps_left jointype \<longleftrightarrow> jointype = JOIN_LEFT \<or> jointype = JOIN_FULL"

definition keeps_right :: "JoinType \<Rightarrow> bool" where
  "keeps_right jointype \<longleftrightarrow> jointype = JOIN_RIGHT \<or> jointype = JOIN_FULL"

definition join_rows ::
    "JoinType \<Rightarrow> ((nat \<Rightarrow> 'a option) \<Rightarrow> bool) \<Rightarrow> (nat \<Rightarrow> 'a option) list \<Rightarrow> (nat \<Rightarrow> 'a option) list
     \<Rightarrow> (nat \<Rightarrow> 'a option) \<Rightarrow> (nat \<Rightarrow> 'a option) \<Rightarrow> (nat \<Rightarrow> 'a option) list" where
  "join_rows jointype P L R nl nr =
     concat (map (\<lambda>A. let m = filter P (map (\<lambda>B. A ++ B) R) in
                      if m = [] \<and> keeps_left jointype then [A ++ nr] else m) L)
     @ (if keeps_right jointype then map (\<lambda>B. nl ++ B) (filter (\<lambda>B. \<forall>A \<in> set L. \<not> P (A ++ B)) R) else [])"

fun eval_item :: "'a source \<Rightarrow> FromItem \<Rightarrow> (nat \<Rightarrow> 'a option) list" where
  "eval_item src (RangeTblRef i) = map (\<lambda>x. [i \<mapsto> x]) (rows_of src i)"
| "eval_item src (JoinExpr jointype k l r c) =
     join_rows jointype (\<lambda>A. holds (oper src) (item_env src l A ++ item_env src r A) c)
       (eval_item src l) (eval_item src r) (null_item src l) (null_item src r)"

fun from_env :: "'a source \<Rightarrow> FromItem list \<Rightarrow> (nat \<Rightarrow> 'a option) \<Rightarrow> env" where
  "from_env src [] A = (\<lambda>_. None)"
| "from_env src (item # items) A = item_env src item A ++ from_env src items A"

fun eval_from :: "'a source \<Rightarrow> FromItem list \<Rightarrow> (nat \<Rightarrow> 'a option) list" where
  "eval_from src [] = [\<lambda>_. None]"
| "eval_from src (item # items) = concat (map (\<lambda>A. map (\<lambda>B. A ++ B) (eval_from src items)) (eval_item src item))"

text \<open>The assignments that pass the \<open>WHERE\<close> clause, with the values of the target list.\<close>

definition where_holds :: "'a source \<Rightarrow> FromItem list \<Rightarrow> Expression option \<Rightarrow> (nat \<Rightarrow> 'a option) \<Rightarrow> bool" where
  "where_holds src items w A = (case w of None \<Rightarrow> True | Some e \<Rightarrow> holds (oper src) (from_env src items A) e)"

definition target_row :: "'a source \<Rightarrow> FromItem list \<Rightarrow> TargetEntry list \<Rightarrow> (nat \<Rightarrow> 'a option) \<Rightarrow> row" where
  "target_row src items tes A = map (\<lambda>te. eval_expr (oper src) (from_env src items A) (te_expr te)) tes"

section \<open>DISTINCT and LIMIT\<close>

fun distinct_on :: "('a \<Rightarrow> 'b) \<Rightarrow> 'a list \<Rightarrow> 'a list" where
  "distinct_on f [] = []"
| "distinct_on f (x # xs) = x # filter (\<lambda>y. f y \<noteq> f x) (distinct_on f xs)"

definition distinct_key :: "TargetEntry list \<Rightarrow> nat list \<Rightarrow> row \<Rightarrow> row" where
  "distinct_key tes dist row = map snd (filter (\<lambda>(te, v). ressortgroupref te \<in> set dist) (zip tes row))"

definition limited :: "nat option \<Rightarrow> nat option \<Rightarrow> 'a list \<Rightarrow> 'a list" where
  "limited off cnt xs =
     (let xs = (case off of None \<Rightarrow> xs | Some n \<Rightarrow> drop n xs) in case cnt of None \<Rightarrow> xs | Some n \<Rightarrow> take n xs)"

section \<open>The SQL meaning\<close>

type_synonym tables = "nat \<Rightarrow> row list"

definition width :: "schema \<Rightarrow> RTE \<Rightarrow> nat" where
  "width cat r =
     (case rte_kind r of
        RTE_RELATION \<Rightarrow> length (rel_atts cat (relation r))
      | RTE_SUBQUERY q \<Rightarrow> length (target_list q)
      | RTE_JOIN \<Rightarrow> length (joinaliasvars r)
      | _ \<Rightarrow> length (colnames r))"

definition plain_source :: "schema \<Rightarrow> operators \<Rightarrow> RTE list \<Rightarrow> row list list \<Rightarrow> row source" where
  "plain_source cat ops rts rows =
     \<lparr>rows_of = \<lambda>i. rows ! (i - 1), null_of = \<lambda>i. replicate (width cat (rts ! (i - 1))) None, cols_of = \<lambda>_ row. row,
      alias_vars = \<lambda>k. joinaliasvars (rts ! (k - 1)), oper = ops\<rparr>"

function eval_query :: "schema \<Rightarrow> operators \<Rightarrow> tables \<Rightarrow> SelectQuery \<Rightarrow> row list" where
  "eval_query cat ops db (SelectQuery tes rts items w dist off cnt m) =
     (let src = plain_source cat ops rts (map (\<lambda>r.
            case rte_kind r of RTE_RELATION \<Rightarrow> db (relation r) | RTE_SUBQUERY q \<Rightarrow> eval_query cat ops db q | _ \<Rightarrow> []) rts);
          rows = map (target_row src items tes) (filter (where_holds src items w) (eval_from src items))
      in limited off cnt (if dist = [] then rows else distinct_on (distinct_key tes dist) rows))"
  by pat_completeness auto
termination
  by (relation "measure (\<lambda>(cat, ops, db, q). size q)") (auto dest: rte_size)

declare eval_query.simps [simp del]

definition entry_rows :: "schema \<Rightarrow> operators \<Rightarrow> tables \<Rightarrow> RTE \<Rightarrow> row list" where
  "entry_rows cat ops db r =
     (case rte_kind r of RTE_RELATION \<Rightarrow> db (relation r) | RTE_SUBQUERY q \<Rightarrow> eval_query cat ops db q | _ \<Rightarrow> [])"

section \<open>Provenance\<close>

definition is_base :: "RTE \<Rightarrow> bool" where
  "is_base r \<longleftrightarrow> rte_kind r = RTE_RELATION \<or> prov_base r"

text \<open>The entries that contribute: all but those of rules and joins.\<close>

definition contributes :: "RTE \<Rightarrow> bool" where
  "contributes r \<longleftrightarrow> skipped r = Inr False \<and> rte_kind r \<noteq> RTE_JOIN"

definition prov_refs :: "RTE list \<Rightarrow> nat list" where
  "prov_refs rts = filter (\<lambda>i. contributes (rts ! (i - 1))) [1..<Suc (length rts)]"

function prov_width :: "schema \<Rightarrow> SelectQuery \<Rightarrow> nat" where
  "prov_width cat (SelectQuery tes rts items w dist off cnt m) =
     sum_list (map (\<lambda>r.
       if contributes r then
         if is_base r then width cat r else case rte_kind r of RTE_SUBQUERY q \<Rightarrow> prov_width cat q | _ \<Rightarrow> 0
       else 0) rts)"
  by pat_completeness auto
termination
  by (relation "measure (\<lambda>(cat, q). size q)") (auto dest: rte_size)

declare prov_width.simps [simp del]

definition entry_prov_width :: "schema \<Rightarrow> RTE \<Rightarrow> nat" where
  "entry_prov_width cat r =
     (if is_base r then width cat r else case rte_kind r of RTE_SUBQUERY q \<Rightarrow> prov_width cat q | _ \<Rightarrow> 0)"

definition prov_source :: "schema \<Rightarrow> operators \<Rightarrow> RTE list \<Rightarrow> (row \<times> row) list list \<Rightarrow> (row \<times> row) source" where
  "prov_source cat ops rts rows =
     \<lparr>rows_of = \<lambda>i. rows ! (i - 1),
      null_of = \<lambda>i. (replicate (width cat (rts ! (i - 1))) None, replicate (entry_prov_width cat (rts ! (i - 1))) None),
      cols_of = \<lambda>_. fst, alias_vars = \<lambda>k. joinaliasvars (rts ! (k - 1)), oper = ops\<rparr>"

definition prov_row :: "RTE list \<Rightarrow> (nat \<Rightarrow> (row \<times> row) option) \<Rightarrow> row" where
  "prov_row rts A = concat (map (\<lambda>i. snd (the (A i))) (prov_refs rts))"

text \<open>
  The tuples of a base relation contribute themselves; those of a subquery contribute what contributes to
  them.  A \<open>DISTINCT\<close> keeps a row once for each provenance.  When a query has a limit and may return a row
  several times with different provenance, the limit applies to its rows, and each has the provenance it
  has in the query without the limit.
\<close>

function prov_query :: "schema \<Rightarrow> operators \<Rightarrow> tables \<Rightarrow> SelectQuery \<Rightarrow> (row \<times> row) list" where
  "prov_query cat ops db (SelectQuery tes rts items w dist off cnt m) =
     (let src = prov_source cat ops rts (map (\<lambda>r.
            if is_base r then map (\<lambda>t. (t, t)) (entry_rows cat ops db r)
            else case rte_kind r of RTE_SUBQUERY q \<Rightarrow> prov_query cat ops db q | _ \<Rightarrow> []) rts);
          rows = map (\<lambda>A. (target_row src items tes A, prov_row rts A))
            (filter (where_holds src items w) (eval_from src items));
          rows = (if dist = [] then rows else distinct_on (\<lambda>(t, p). (distinct_key tes dist t, p)) rows)
      in if checkLimit (SelectQuery tes rts items w dist off cnt m) then
           concat (map (\<lambda>t. filter (\<lambda>(t', p). t' = t) rows)
             (eval_query cat ops db (SelectQuery tes rts items w dist off cnt m)))
         else limited off cnt rows)"
  by pat_completeness auto
termination
  by (relation "measure (\<lambda>(cat, ops, db, q). size q)") (auto dest: rte_size)

declare prov_query.simps [simp del]

definition entry_prov :: "schema \<Rightarrow> operators \<Rightarrow> tables \<Rightarrow> RTE \<Rightarrow> (row \<times> row) list" where
  "entry_prov cat ops db r =
     (if is_base r then map (\<lambda>t. (t, t)) (entry_rows cat ops db r)
      else case rte_kind r of RTE_SUBQUERY q \<Rightarrow> prov_query cat ops db q | _ \<Rightarrow> [])"

section \<open>Well-formed queries\<close>

fun refs :: "FromItem \<Rightarrow> nat list" where
  "refs (RangeTblRef i) = [i]"
| "refs (JoinExpr jointype k l r c) = refs l @ refs r"

fun scope :: "FromItem \<Rightarrow> nat list" where
  "scope (RangeTblRef i) = [i]"
| "scope (JoinExpr jointype k l r c) = k # scope l @ scope r"

definition var_ok :: "(nat \<Rightarrow> nat) \<Rightarrow> nat list \<Rightarrow> nat \<times> nat \<Rightarrow> bool" where
  "var_ok W ns v \<longleftrightarrow> fst v \<in> set ns \<and> 0 < snd v \<and> snd v \<le> W (fst v)"

fun item_ok :: "(nat \<Rightarrow> nat) \<Rightarrow> RTE list \<Rightarrow> FromItem \<Rightarrow> bool" where
  "item_ok W rts (RangeTblRef i) \<longleftrightarrow> 0 < i \<and> i \<le> length rts \<and> contributes (rts ! (i - 1))"
| "item_ok W rts (JoinExpr jointype k l r c) \<longleftrightarrow>
     item_ok W rts l \<and> item_ok W rts r \<and> 0 < k \<and> k \<le> length rts \<and> rte_kind (rts ! (k - 1)) = RTE_JOIN \<and>
     list_all (var_ok W (scope l @ scope r)) (joinaliasvars (rts ! (k - 1))) \<and>
     list_all (var_ok W (scope l @ scope r)) (expr_vars c)"

definition relation_ok :: "schema \<Rightarrow> nat \<Rightarrow> bool" where
  "relation_ok cat rel \<longleftrightarrow>
     list_all (\<lambda>(name, dropped). \<not> dropped) (rel_atts cat rel) \<and>
     get_rel_namespace_name (rel_names cat) rel \<noteq> None \<and> get_rel_name (rel_names cat) rel \<noteq> None"

function query_ok :: "schema \<Rightarrow> SelectQuery \<Rightarrow> bool" where
  "query_ok cat (SelectQuery tes rts items w dist off cnt m) \<longleftrightarrow>
     (let W = (\<lambda>i. width cat (rts ! (i - 1))); ns = concat (map scope items) in
      map resno tes = [1..<Suc (length tes)] \<and> list_all (\<lambda>te. \<not> resjunk te) tes \<and>
      (\<forall>r \<in> set rts. eref_of r \<noteq> None \<and> (skipped r = Inr False \<longrightarrow> provAttrs r = [] \<and>
        (case rte_kind r of
           RTE_RELATION \<Rightarrow> relation_ok cat (relation r)
         | RTE_SUBQUERY q \<Rightarrow> query_ok cat q \<and> (prov_base r \<longrightarrow> length (colnames r) = length (target_list q))
         | RTE_JOIN \<Rightarrow> \<not> prov_base r
         | _ \<Rightarrow> False))) \<and>
      list_all (item_ok W rts) items \<and> distinct ns \<and> set (prov_refs rts) \<subseteq> set ns \<and>
      list_all (var_ok W ns) (case w of None \<Rightarrow> [] | Some e \<Rightarrow> expr_vars e) \<and>
      list_all (\<lambda>te. list_all (var_ok W ns) (expr_vars (te_expr te))) tes \<and>
      list_all (\<lambda>n. 0 < n \<and> n \<in> set (map ressortgroupref tes)) dist)"
  by pat_completeness auto
termination
  by (relation "measure (\<lambda>(cat, q). size q)") (auto dest: rte_size)

declare query_ok.simps [simp del]

text \<open>\<open>SELECT DISTINCT\<close> compares all columns, \<open>DISTINCT ON\<close> only some.\<close>

function plain_distinct :: "SelectQuery \<Rightarrow> bool" where
  "plain_distinct (SelectQuery tes rts items w dist off cnt m) \<longleftrightarrow>
     (dist = [] \<or> list_all (\<lambda>te. ressortgroupref te \<in> set dist) tes) \<and>
     (\<forall>r \<in> set rts. case rte_kind r of RTE_SUBQUERY q \<Rightarrow> plain_distinct q | _ \<Rightarrow> True)"
  by pat_completeness auto
termination
  by (relation "measure size") (auto dest: rte_size)

declare plain_distinct.simps [simp del]

definition tables_ok :: "schema \<Rightarrow> tables \<Rightarrow> bool" where
  "tables_ok cat db \<longleftrightarrow> (\<forall>rel. \<forall>row \<in> set (db rel). length row = length (rel_atts cat rel))"

end
