(* ===== verification/ProvSpjFrom.thy ===== *)
theory ProvSpjFrom
  imports ProvSpjSem
begin

text \<open>
  Lemmas on the \<open>FROM\<close> clause: when more columns are added to the entries and joins, the same rows are
  combined; and how the evaluation changes when the rows of the entries are replaced by others.
\<close>

section \<open>Environments\<close>

lemma dom_item_env: "dom (item_env src item A) = set (scope item)"
  by (induction item) (simp_all only: item_env.simps scope.simps Let_def dom_fun_upd option.simps if_False dom_map_add
      dom_empty list.set set_append Un_commute)

lemma dom_from_env: "dom (from_env src items A) = set (concat (map scope items))"
  by (induction items) (auto simp: dom_item_env)

lemma lookup_add:
  "lookup_var (V ++ W) v = (if fst v \<in> dom W then lookup_var W v else lookup_var V v)"
  by (auto simp: lookup_var_def map_add_def split: option.splits)

lemma lookup_update: "lookup_var (V(k \<mapsto> row)) v = (if fst v = k then attr row (snd v) else lookup_var V v)"
  by (simp add: lookup_var_def)

lemma attr_map: "0 < a \<Longrightarrow> a \<le> length xs \<Longrightarrow> attr (map f xs) a = f (xs ! (a - 1))"
  by (auto simp: attr_def)

lemma var_ok_append: "var_ok W (ns @ ms) v \<longleftrightarrow> var_ok W ns v \<or> var_ok W ms v"
  by (auto simp: var_ok_def)

lemma var_ok_scope: "var_ok W ns v \<Longrightarrow> fst v \<in> set ns"
  by (simp add: var_ok_def)

text \<open>
  \<open>more_columns W rts N ok src src'\<close>: the second source has the same rows for the entries in \<open>N\<close>, and in each of
  them the first \<open>W i\<close> columns are the same; the joins have columns appended.
\<close>

definition more_columns ::
    "(nat \<Rightarrow> nat) \<Rightarrow> RTE list \<Rightarrow> nat set \<Rightarrow> (nat \<Rightarrow> 'a \<Rightarrow> bool) \<Rightarrow> 'a source \<Rightarrow> 'a source \<Rightarrow> bool" where
  "more_columns W rts N ok src src' \<longleftrightarrow>
     (\<forall>k. alias_vars src k = joinaliasvars (rts ! (k - 1))) \<and>
     (\<forall>k. rte_kind (rts ! (k - 1)) = RTE_JOIN \<longrightarrow> W k = length (alias_vars src k)) \<and>
     rows_of src' = rows_of src \<and> null_of src' = null_of src \<and> oper src' = oper src \<and>
     (\<forall>i \<in> N. \<forall>x. x \<in> set (rows_of src i) \<or> x = null_of src i \<longrightarrow> ok i x) \<and>
     (\<forall>i x a. ok i x \<longrightarrow> 0 < a \<longrightarrow> a \<le> W i \<longrightarrow> attr (cols_of src' i x) a = attr (cols_of src i x) a) \<and>
     (\<forall>k. \<exists>ys. alias_vars src' k = alias_vars src k @ ys)"

definition covers :: "(nat \<Rightarrow> 'a \<Rightarrow> bool) \<Rightarrow> nat list \<Rightarrow> (nat \<Rightarrow> 'a option) \<Rightarrow> bool" where
  "covers ok ns A \<longleftrightarrow> (\<forall>i x. A i = Some x \<longrightarrow> ok i x) \<and> set ns \<subseteq> dom A"

lemma covers_append: "covers ok (ns @ ms) A \<longleftrightarrow> covers ok ns A \<and> covers ok ms A"
  by (auto simp: covers_def)

lemma covers_add: "covers ok ns A \<Longrightarrow> covers ok ms B \<Longrightarrow> covers ok (ns @ ms) (A ++ B)"
  by (auto simp: covers_def map_add_Some_iff)

lemma covers_null:
  assumes "\<forall>i \<in> N. ok i (null_of src i)" "set (refs item) \<subseteq> N"
  shows "covers ok (refs item) (null_item src item)"
  using assms(2) by (induction item) (auto simp: covers_add, auto simp: covers_def assms(1) split: if_splits)

lemma in_join_rows:
  "A \<in> set (join_rows jt P L R nl nr) \<Longrightarrow>
     (\<exists>B \<in> set L. \<exists>C \<in> set R. A = B ++ C) \<or> (\<exists>B \<in> set L. A = B ++ nr) \<or> (\<exists>C \<in> set R. A = nl ++ C)"
  by (auto simp: join_rows_def Let_def split: if_splits)

lemma covers_eval_item:
  assumes "\<forall>i \<in> N. \<forall>x. x \<in> set (rows_of src i) \<or> x = null_of src i \<longrightarrow> ok i x"
  shows "set (refs item) \<subseteq> N \<Longrightarrow> A \<in> set (eval_item src item) \<Longrightarrow> covers ok (refs item) A"
proof (induction item arbitrary: A)
  case (RangeTblRef i)
  then show ?case using assms by (auto simp: covers_def split: if_splits)
next
  case (JoinExpr jt k l r c)
  have n: "\<forall>i \<in> N. ok i (null_of src i)" using assms by blast
  have "covers ok (refs l) (null_item src l)" "covers ok (refs r) (null_item src r)"
    using JoinExpr.prems(1) covers_null [of N ok src l] covers_null [of N ok src r] n by auto
  moreover note JoinExpr.IH
  ultimately show ?case using JoinExpr.prems(1) in_join_rows [OF JoinExpr.prems(2) [simplified]]
    by (fastforce simp: covers_add)
qed

lemma covers_eval_from:
  assumes "\<forall>i \<in> N. \<forall>x. x \<in> set (rows_of src i) \<or> x = null_of src i \<longrightarrow> ok i x"
  shows "set (concat (map refs items)) \<subseteq> N \<Longrightarrow> A \<in> set (eval_from src items) \<Longrightarrow> covers ok (concat (map refs items)) A"
proof (induction items arbitrary: A)
  case Nil
  then show ?case by (simp add: covers_def)
next
  case (Cons item items)
  then show ?case using covers_eval_item [OF assms, of item] by (fastforce intro: covers_add)
qed

section \<open>More columns\<close>

lemma same_add:
  assumes "\<And>v. var_ok W ns v \<Longrightarrow> lookup_var L' v = lookup_var L v" "\<And>v. var_ok W ms v \<Longrightarrow> lookup_var R' v = lookup_var R v"
    and "dom R = set ms" "dom R' = set ms" "var_ok W (ns @ ms) v"
  shows "lookup_var (L' ++ R') v = lookup_var (L ++ R) v"
  using assms by (cases "fst v \<in> set ms") (auto simp: lookup_add var_ok_def)

lemma same_columns:
  assumes m: "more_columns W rts N ok src src'"
  shows "item_ok W rts item \<Longrightarrow> covers ok (refs item) A \<Longrightarrow> var_ok W (scope item) v \<Longrightarrow>
    lookup_var (item_env src' item A) v = lookup_var (item_env src item A) v"
proof (induction item arbitrary: v)
  case (RangeTblRef i)
  then show ?case using m by (auto simp: var_ok_def covers_def lookup_var_def more_columns_def)
next
  case (JoinExpr jt k l r c)
  let ?V = "item_env src l A ++ item_env src r A" and ?V' = "item_env src' l A ++ item_env src' r A"
  have in_args: "lookup_var ?V' u = lookup_var ?V u" if "var_ok W (scope l @ scope r) u" for u
    using that JoinExpr.IH JoinExpr.prems by (intro same_add [where ns = "scope l" and ms = "scope r"])
      (simp_all add: dom_item_env covers_append)
  show ?case
  proof (cases "fst v = k")
    case True
    with JoinExpr.prems m have a: "0 < snd v" "snd v \<le> length (alias_vars src k)" by (auto simp: var_ok_def more_columns_def)
    have "\<exists>ys. alias_vars src' k = alias_vars src k @ ys" using m unfolding more_columns_def by blast
    then obtain ys where ys: "alias_vars src' k = alias_vars src k @ ys" by blast
    have "var_ok W (scope l @ scope r) (alias_vars src k ! (snd v - 1))"
      using a JoinExpr.prems(1) m by (auto simp: more_columns_def list_all_length)
    then show ?thesis using a True in_args unfolding item_env.simps Let_def lookup_update
      by (auto simp: attr_def ys nth_append)
  next
    case False
    with JoinExpr.prems show ?thesis using in_args [of v] unfolding item_env.simps Let_def lookup_update by (auto simp: var_ok_def)
  qed
qed

lemma holds_cong: "(\<And>v. v \<in> set (expr_vars e) \<Longrightarrow> lookup_var V v = lookup_var W v) \<Longrightarrow> holds ops V e = holds ops W e"
  using eval_expr_cong [of e V W ops] by (simp add: holds_def)

lemma join_rows_cong:
  assumes "\<And>A B. A \<in> set L \<Longrightarrow> B \<in> set R \<Longrightarrow> P (A ++ B) = Q (A ++ B)"
  shows "join_rows jt P L R nl nr = join_rows jt Q L R nl nr"
proof -
  have "filter P (map (\<lambda>B. A ++ B) R) = filter Q (map (\<lambda>B. A ++ B) R)" if "A \<in> set L" for A
    using assms that by (auto intro!: filter_cong)
  moreover have "filter (\<lambda>B. \<forall>A \<in> set L. \<not> P (A ++ B)) R = filter (\<lambda>B. \<forall>A \<in> set L. \<not> Q (A ++ B)) R"
    using assms by (auto intro!: filter_cong)
  ultimately show ?thesis by (auto simp: join_rows_def Let_def cong: map_cong)
qed

lemma null_item_cong: "null_of src' = null_of src \<Longrightarrow> null_item src' item = null_item src item"
  by (induction item) auto

lemma more_columns_item:
  assumes m: "more_columns W rts N ok src src'"
  shows "item_ok W rts item \<Longrightarrow> set (refs item) \<subseteq> N \<Longrightarrow> eval_item src' item = eval_item src item"
proof (induction item)
  case (RangeTblRef i)
  then show ?case using m by (simp add: more_columns_def)
next
  case (JoinExpr jt k l r c)
  have ok: "\<forall>i \<in> N. \<forall>x. x \<in> set (rows_of src i) \<or> x = null_of src i \<longrightarrow> ok i x" and s: "null_of src' = null_of src" "oper src' = oper src"
    using m by (auto simp: more_columns_def)
  have "holds (oper src) (item_env src' l (A ++ B) ++ item_env src' r (A ++ B)) c =
        holds (oper src) (item_env src l (A ++ B) ++ item_env src r (A ++ B)) c"
    if "A \<in> set (eval_item src l)" "B \<in> set (eval_item src r)" for A B
  proof (rule holds_cong)
    fix v assume v: "v \<in> set (expr_vars c)"
    have "covers ok (refs l @ refs r) (A ++ B)"
      using that covers_eval_item [OF ok] JoinExpr.prems by (auto intro: covers_add)
    moreover have "var_ok W (scope l @ scope r) v" using v JoinExpr.prems(1) by (auto simp: list_all_iff)
    ultimately show "lookup_var (item_env src' l (A ++ B) ++ item_env src' r (A ++ B)) v =
       lookup_var (item_env src l (A ++ B) ++ item_env src r (A ++ B)) v"
      using JoinExpr.prems(1) by (intro same_add [where ns = "scope l" and ms = "scope r"])
        (simp_all add: dom_item_env covers_append same_columns [OF m])
  qed
  then show ?case using JoinExpr by (auto simp: s null_item_cong [OF s(1)] intro!: join_rows_cong)
qed

lemma same_columns_from:
  assumes m: "more_columns W rts N ok src src'"
  shows "list_all (item_ok W rts) items \<Longrightarrow> covers ok (concat (map refs items)) A \<Longrightarrow>
    var_ok W (concat (map scope items)) v \<Longrightarrow> lookup_var (from_env src' items A) v = lookup_var (from_env src items A) v"
proof (induction items arbitrary: v)
  case Nil
  then show ?case by (simp add: var_ok_def)
next
  case (Cons item items)
  then have "covers ok (refs item) A" "covers ok (concat (map refs items)) A" by (simp_all add: covers_append)
  then show ?case using Cons.prems unfolding from_env.simps
    by (intro same_add [where ns = "scope item" and ms = "concat (map scope items)"])
      (simp_all add: dom_from_env same_columns [OF m] Cons.IH)
qed

lemma more_columns_from:
  assumes m: "more_columns W rts N ok src src'"
  shows "list_all (item_ok W rts) items \<Longrightarrow> set (concat (map refs items)) \<subseteq> N \<Longrightarrow> eval_from src' items = eval_from src items"
  by (induction items) (auto simp: more_columns_item [OF m])

section \<open>Other rows\<close>

text \<open>\<open>replaced h N src src'\<close>: the rows of the second source are images of those of the first, with the same columns.\<close>

definition img :: "(nat \<Rightarrow> 'a \<Rightarrow> 'b) \<Rightarrow> (nat \<Rightarrow> 'a option) \<Rightarrow> nat \<Rightarrow> 'b option" where
  "img h A i = map_option (h i) (A i)"

definition replaced :: "(nat \<Rightarrow> 'a \<Rightarrow> 'b) \<Rightarrow> nat set \<Rightarrow> 'a source \<Rightarrow> 'b source \<Rightarrow> bool" where
  "replaced h N src src' \<longleftrightarrow>
     (\<forall>i x. cols_of src' i (h i x) = cols_of src i x) \<and> (\<forall>i \<in> N. null_of src' i = h i (null_of src i)) \<and>
     alias_vars src' = alias_vars src \<and> oper src' = oper src"

lemma img_add: "img h (A ++ B) = img h A ++ img h B"
  by (rule ext) (auto simp: img_def map_add_def split: option.splits)

lemma img_single: "img h [i \<mapsto> x] = [i \<mapsto> h i x]"
  by (rule ext) (simp add: img_def)

lemma img_env:
  assumes "replaced h N src src'"
  shows "set (refs item) \<subseteq> dom A \<Longrightarrow> item_env src' item (img h A) = item_env src item A"
proof (induction item)
  case (RangeTblRef i)
  then show ?case using assms by (auto simp: replaced_def img_def)
next
  case (JoinExpr jt k l r c)
  then show ?case using assms by (simp add: replaced_def Let_def)
qed

lemma img_from_env:
  assumes "replaced h N src src'"
  shows "set (concat (map refs items)) \<subseteq> dom A \<Longrightarrow> from_env src' items (img h A) = from_env src items A"
  by (induction items) (auto simp: img_env [OF assms])

lemma img_null: "replaced h N src src' \<Longrightarrow> set (refs item) \<subseteq> N \<Longrightarrow> null_item src' item = img h (null_item src item)"
  by (induction item) (auto simp: img_add img_single replaced_def)

lemma eval_item_dom: "A \<in> set (eval_item src item) \<Longrightarrow> set (refs item) \<subseteq> dom A"
  using covers_eval_item [of UNIV src "\<lambda>_ _. True" item A] by (simp add: covers_def)

lemma eval_from_dom: "A \<in> set (eval_from src items) \<Longrightarrow> set (concat (map refs items)) \<subseteq> dom A"
  using covers_eval_from [of UNIV src "\<lambda>_ _. True" items A] by (simp add: covers_def)

lemma join_rows_image:
  assumes "\<And>A B. A \<in> set L \<Longrightarrow> B \<in> set R \<Longrightarrow> Q (img h (A ++ B)) = P (A ++ B)"
  shows "join_rows jt Q (map (img h) L) (map (img h) R) (img h nl) (img h nr) = map (img h) (join_rows jt P L R nl nr)"
proof -
  have "filter Q (map (\<lambda>B. img h A ++ B) (map (img h) R)) = map (img h) (filter P (map (\<lambda>B. A ++ B) R))"
    if "A \<in> set L" for A
  proof -
    have "filter (\<lambda>B. Q (img h (A ++ B))) R = filter (\<lambda>B. P (A ++ B)) R" using assms that by (auto intro!: filter_cong)
    then show ?thesis by (simp add: filter_map comp_def img_add [symmetric])
  qed
  moreover have "filter (\<lambda>B. \<forall>A \<in> set L. \<not> Q (img h A ++ B)) (map (img h) R) =
      map (img h) (filter (\<lambda>B. \<forall>A \<in> set L. \<not> P (A ++ B)) R)"
  proof -
    have "filter (\<lambda>B. \<forall>A \<in> set L. \<not> Q (img h (A ++ B))) R = filter (\<lambda>B. \<forall>A \<in> set L. \<not> P (A ++ B)) R"
      using assms by (auto intro!: filter_cong)
    then show ?thesis by (simp add: filter_map comp_def img_add [symmetric])
  qed
  ultimately show ?thesis
    by (auto simp: join_rows_def Let_def map_concat img_add comp_def intro!: arg_cong [where f = concat])
qed

lemma eval_item_image:
  assumes r: "replaced h N src src'" and rows: "\<And>i. i \<in> N \<Longrightarrow> rows_of src' i = map (h i) (rows_of src i)"
  shows "set (refs item) \<subseteq> N \<Longrightarrow> eval_item src' item = map (img h) (eval_item src item)"
proof (induction item)
  case (RangeTblRef i)
  then show ?case by (simp add: rows img_single)
next
  case (JoinExpr jt k l m c)
  have "join_rows jt (\<lambda>A. holds (oper src) (item_env src' l A ++ item_env src' m A) c)
      (map (img h) (eval_item src l)) (map (img h) (eval_item src m)) (img h (null_item src l)) (img h (null_item src m)) =
      map (img h) (join_rows jt (\<lambda>A. holds (oper src) (item_env src l A ++ item_env src m A) c)
        (eval_item src l) (eval_item src m) (null_item src l) (null_item src m))"
  proof (rule join_rows_image)
    fix A B assume "A \<in> set (eval_item src l)" "B \<in> set (eval_item src m)"
    then have "set (refs l) \<subseteq> dom (A ++ B)" "set (refs m) \<subseteq> dom (A ++ B)" using eval_item_dom [of A src l] eval_item_dom [of B src m] by auto
    then show "holds (oper src) (item_env src' l (img h (A ++ B)) ++ item_env src' m (img h (A ++ B))) c =
        holds (oper src) (item_env src l (A ++ B) ++ item_env src m (A ++ B)) c"
      by (simp only: img_env [OF r])
  qed
  then show ?case using JoinExpr r img_null [OF r, of l] img_null [OF r, of m] by (simp add: replaced_def)
qed

lemma eval_from_image:
  assumes r: "replaced h N src src'" and rows: "\<And>i. i \<in> N \<Longrightarrow> rows_of src' i = map (h i) (rows_of src i)"
  shows "set (concat (map refs items)) \<subseteq> N \<Longrightarrow> eval_from src' items = map (img h) (eval_from src items)"
proof (induction items)
  case (Cons item items)
  then show ?case using eval_item_image [OF r rows, where item = item] by (simp add: map_concat comp_def img_add)
qed (simp add: img_def fun_eq_iff)

text \<open>The same for rows compared as sets.\<close>

lemma set_join_rows:
  "set (join_rows jt P L R nl nr) =
     {A ++ B | A B. A \<in> set L \<and> B \<in> set R \<and> P (A ++ B)} \<union>
     {A ++ nr | A. A \<in> set L \<and> keeps_left jt \<and> (\<forall>B \<in> set R. \<not> P (A ++ B))} \<union>
     {nl ++ B | B. B \<in> set R \<and> keeps_right jt \<and> (\<forall>A \<in> set L. \<not> P (A ++ B))}"
  by (auto simp: join_rows_def Let_def filter_empty_conv split: if_splits)

lemma set_join_rows_image:
  assumes "\<And>A B. A \<in> set L \<Longrightarrow> B \<in> set R \<Longrightarrow> Q (img h (A ++ B)) = P (A ++ B)"
    and "set L' = img h ` set L" "set R' = img h ` set R"
  shows "set (join_rows jt Q L' R' (img h nl) (img h nr)) = img h ` set (join_rows jt P L R nl nr)"
proof -
  have "set (join_rows jt Q L' R' (img h nl) (img h nr)) =
      set (join_rows jt Q (map (img h) L) (map (img h) R) (img h nl) (img h nr))"
    unfolding set_join_rows using assms(2,3) by simp
  then show ?thesis using join_rows_image [of L R Q h P jt nl nr] assms(1) by simp
qed

lemma set_eval_item_image:
  assumes r: "replaced h N src src'" and rows: "\<And>i. i \<in> N \<Longrightarrow> set (rows_of src' i) = h i ` set (rows_of src i)"
  shows "set (refs item) \<subseteq> N \<Longrightarrow> set (eval_item src' item) = img h ` set (eval_item src item)"
proof (induction item)
  case (RangeTblRef i)
  then show ?case by (simp add: rows image_image img_single)
next
  case (JoinExpr jt k l m c)
  have "set (join_rows jt (\<lambda>A. holds (oper src) (item_env src' l A ++ item_env src' m A) c)
      (eval_item src' l) (eval_item src' m) (img h (null_item src l)) (img h (null_item src m))) =
      img h ` set (join_rows jt (\<lambda>A. holds (oper src) (item_env src l A ++ item_env src m A) c)
        (eval_item src l) (eval_item src m) (null_item src l) (null_item src m))"
  proof (rule set_join_rows_image)
    fix A B assume "A \<in> set (eval_item src l)" "B \<in> set (eval_item src m)"
    then have "set (refs l) \<subseteq> dom (A ++ B)" "set (refs m) \<subseteq> dom (A ++ B)" using eval_item_dom [of A src l] eval_item_dom [of B src m] by auto
    then show "holds (oper src) (item_env src' l (img h (A ++ B)) ++ item_env src' m (img h (A ++ B))) c =
        holds (oper src) (item_env src l (A ++ B) ++ item_env src m (A ++ B)) c"
      by (simp only: img_env [OF r])
  qed (use JoinExpr in auto)
  then show ?case using JoinExpr.prems r img_null [OF r, of l] img_null [OF r, of m] by (simp add: replaced_def)
qed

lemma set_eval_from_image:
  assumes r: "replaced h N src src'" and rows: "\<And>i. i \<in> N \<Longrightarrow> set (rows_of src' i) = h i ` set (rows_of src i)"
  shows "set (concat (map refs items)) \<subseteq> N \<Longrightarrow> set (eval_from src' items) = img h ` set (eval_from src items)"
proof (induction items)
  case (Cons item items)
  let ?X = "set (eval_item src item)" and ?Y = "set (eval_from src items)"
  have "set (eval_item src' item) = img h ` ?X" using Cons.prems set_eval_item_image [OF r rows, where item = item] by simp
  moreover have "set (eval_from src' items) = img h ` ?Y" using Cons by simp
  moreover have "(\<lambda>(A, B). A ++ B) ` (img h ` ?X \<times> img h ` ?Y) = img h ` (\<lambda>(A, B). A ++ B) ` (?X \<times> ?Y)"
    unfolding image_paired_Times [symmetric] image_image by (rule image_cong) (auto simp: img_add)
  moreover have "set (eval_from src' (item # items)) =
      (\<lambda>(A, B). A ++ B) ` (set (eval_item src' item) \<times> set (eval_from src' items))" by auto
  moreover have "set (eval_from src (item # items)) = (\<lambda>(A, B). A ++ B) ` (?X \<times> ?Y)" by auto
  ultimately show ?case by (simp only:)
qed (simp add: img_def fun_eq_iff)

end
