(* ===== verification/ProvSpjOps.thy ===== *)
theory ProvSpjOps
  imports ProvSpjFrom
begin

text \<open>
  What the operations of the rewriter do: the attributes of a base relation, the columns appended to
  joins, and the variables that the attributes of a query refer to.
\<close>

section \<open>Columns of an entry\<close>

lemma expandTupleDesc_vars:
  "list_all (\<lambda>(name, dropped). \<not> dropped) atts \<Longrightarrow>
     map snd (expandTupleDesc atts names i n) = map (Pair i) [n..<n + length atts]"
proof (induction atts arbitrary: n)
  case (Cons at atts)
  then show ?case using Cons.IH [of "Suc n"] by (cases "at") (simp add: upt_conv_Cons del: upt_Suc)
qed simp

lemma expand_subquery_vars:
  "map resno tes = [Suc n..<Suc n + length tes] \<Longrightarrow> list_all (\<lambda>te. \<not> resjunk te) tes \<Longrightarrow> length tes \<le> length names \<Longrightarrow>
     \<exists>cols. expand_subquery tes names i n = Inr cols \<and> map snd cols = map (Pair i) [Suc n..<Suc n + length tes] \<and>
       map fst cols = take (length tes) names"
proof (induction tes arbitrary: n names)
  case (Cons te tes)
  then obtain name names' where names: "names = name # names'" by (cases names) auto
  have "resno te = Suc n" "map resno tes = [Suc (Suc n)..<Suc (Suc n) + length tes]"
    using Cons.prems(1) by (simp_all add: upt_conv_Cons del: upt_Suc)
  then show ?case using Cons.IH [of "Suc n" names'] Cons.prems names by (auto simp: upt_conv_Cons simp del: upt_Suc)
qed simp

section \<open>Base relations\<close>

definition names_ok :: "schema \<Rightarrow> rte \<Rightarrow> bool" where
  "names_ok cat r \<longleftrightarrow>
     (case rtekind r of
        RTE_RELATION \<Rightarrow> get_rel_namespace_name (rel_names cat) (rte_relid r) \<noteq> None \<and> get_rel_name (rel_names cat) (rte_relid r) \<noteq> None
      | RTE_SUBQUERY _ \<Rightarrow> alias_name r \<noteq> None
      | _ \<Rightarrow> False)"

lemma getQueryRefNum_ok:
  assumes "alias_name r \<noteq> None \<or> eref_name r \<noteq> None"
  shows "\<exists>n r' st'. getQueryRefNum cat st r b = Inr (n, r', st') \<and> rtekind r' = rtekind r \<and> rte_relid r' = rte_relid r \<and>
    (rtekind r \<noteq> RTE_RELATION \<longrightarrow> alias_name r' \<noteq> None)"
  using assms by (auto simp: getQueryRefNum_def rte_name_def Let_def split: prod.split option.split)

lemma createProvAttrName_ok:
  assumes "names_ok cat r"
  shows "\<exists>name' r' st'. createProvAttrName (rel_names cat) st r name = Inr (name', r', st') \<and> names_ok cat r'"
proof (cases "rtekind r")
  case RTE_RELATION
  then show ?thesis using assms createProvAttrName_relation [of r "rel_names cat" _ _ st name] by (auto simp: names_ok_def)
next
  case (RTE_SUBQUERY q)
  then have "alias_name r \<noteq> None" using assms by (simp add: names_ok_def)
  then obtain n r' st' a where "getQueryRefNum (rel_names cat) st r False = Inr (n, r', st')" "rtekind r' = rtekind r"
      "alias_name r' = Some a"
    using getQueryRefNum_ok [of r "rel_names cat" st False] RTE_SUBQUERY by auto
  then show ?thesis using createProvAttrName_query [OF RTE_SUBQUERY] RTE_SUBQUERY by (simp add: names_ok_def)
qed (use assms in \<open>simp_all add: names_ok_def\<close>)

lemma base_attrs_ok:
  "names_ok cat r \<Longrightarrow> \<exists>pList r' st'. base_attrs cat cols n r st = Inr (pList, r', st') \<and>
     map resno pList = [Suc n..<Suc n + length cols] \<and> list_all (\<lambda>te. is_Var (te_expr te)) pList"
proof (induction cols arbitrary: n r st)
  case (Cons col cols)
  obtain name vno a where col: "col = (name, vno, a)" by (cases col)
  obtain name' r' st' where "createProvAttrName (rel_names cat) st r name = Inr (name', r', st')" "names_ok cat r'"
    using createProvAttrName_ok [OF Cons.prems] by blast
  then show ?case using Cons.IH [of r' "Suc n" st']
    by (auto simp: col makeTargetEntry_def upt_conv_Cons simp del: upt_Suc)
qed simp

text \<open>The positions of the provenance attributes of an entry among its columns.\<close>

definition prov_pos :: "schema \<Rightarrow> RTE \<Rightarrow> nat list" where
  "prov_pos cat r =
     (if is_base r then [1..<Suc (width cat r)] else [Suc (width cat r)..<Suc (width cat r + entry_prov_width cat r)])"

definition attrs_ok :: "schema \<Rightarrow> RTE \<Rightarrow> TargetEntry list \<Rightarrow> bool" where
  "attrs_ok cat r pList \<longleftrightarrow> map resno pList = prov_pos cat r \<and> list_all (\<lambda>te. is_Var (te_expr te)) pList"

definition entry_ok :: "schema \<Rightarrow> RTE \<Rightarrow> bool" where
  "entry_ok cat r \<longleftrightarrow> eref_of r \<noteq> None \<and> (skipped r = Inr False \<longrightarrow> provAttrs r = [] \<and>
     (case rte_kind r of
        RTE_RELATION \<Rightarrow> relation_ok cat (relation r)
      | RTE_SUBQUERY q \<Rightarrow> query_ok cat q \<and> (prov_base r \<longrightarrow> length (colnames r) = length (target_list q))
      | RTE_JOIN \<Rightarrow> \<not> prov_base r
      | _ \<Rightarrow> False))"

lemma query_ok_targets:
  "query_ok cat q \<Longrightarrow> map resno (target_list q) = [1..<Suc (length (target_list q))] \<and> list_all (\<lambda>te. \<not> resjunk te) (target_list q)"
  by (cases q) (simp add: query_ok.simps Let_def)

lemma rewriteBaseRelation_ok:
  assumes "entry_ok cat r" "contributes r" "is_base r"
  shows "\<exists>al pList counts. rewriteBaseRelation cat i r st = Inr (set_alias al r, \<lparr>pStack = pList # pStack st, ref_counts = counts\<rparr>) \<and>
    attrs_ok cat r pList"
proof -
  have er: "eref_of r \<noteq> None" and s: "skipped r = Inr False" "rte_kind r \<noteq> RTE_JOIN"
    using assms(1,2) by (auto simp: entry_ok_def contributes_def)
  have "\<exists>cols. expandRTEWithParam cat r i = Inr cols \<and> length cols = width cat r"
  proof (cases "rte_kind r")
    case RTE_RELATION
    then have "map snd (expandTupleDesc (rel_atts cat (relation r)) (colnames r) i 1) = map (Pair i) [1..<1 + length (rel_atts cat (relation r))]"
      using assms(1) s by (intro expandTupleDesc_vars) (simp add: entry_ok_def relation_ok_def)
    from arg_cong [OF this, of length] show ?thesis using RTE_RELATION by (simp add: expandRTEWithParam_def width_def del: upt_Suc)
  next
    case (RTE_SUBQUERY q)
    then have q: "query_ok cat q" "length (colnames r) = length (target_list q)"
      using assms s by (auto simp: entry_ok_def is_base_def)
    obtain cols where c: "expand_subquery (target_list q) (colnames r) i 0 = Inr cols"
        "map snd cols = map (Pair i) [Suc 0..<Suc 0 + length (target_list q)]"
      using expand_subquery_vars [of "target_list q" 0 "colnames r" i] query_ok_targets [OF q(1)] q(2) by auto
    moreover have "length cols = length (target_list q)" using map_eq_imp_length_eq [OF c(2)] by (simp del: upt_Suc)
    ultimately show ?thesis using RTE_SUBQUERY by (simp add: expandRTEWithParam_def width_def)
  qed (use assms s in \<open>auto simp: entry_ok_def\<close>)
  then obtain cols where cols: "expandRTEWithParam cat r i = Inr cols" "length cols = width cat r" by blast
  obtain n r' counts where g: "getQueryRefNum (rel_names cat) (ref_counts st) (entry_names r) True = Inr (n, r', counts)"
    "rtekind r' = rtekind (entry_names r)" "rte_relid r' = relation r" "rtekind (entry_names r) \<noteq> RTE_RELATION \<longrightarrow> alias_name r' \<noteq> None"
    using getQueryRefNum_ok [of "entry_names r" "rel_names cat" "ref_counts st" True] er by (auto simp: entry_names_def)
  have "names_ok cat r'" using g assms(1) s
    by (cases "rte_kind r") (auto simp: names_ok_def entry_names_def entry_ok_def relation_ok_def)
  from base_attrs_ok [OF this, of cols 0 counts] cols g(1) show ?thesis
    by (auto simp: rewriteBaseRelation_def attrs_ok_def prov_pos_def assms(3) simp del: upt_Suc)
qed

section \<open>Columns appended to joins\<close>

definition columns_added :: "RTE \<Rightarrow> RTE \<Rightarrow> (nat \<times> nat) list \<Rightarrow> bool" where
  "columns_added r r' vars \<longleftrightarrow> (\<exists>cols. r' = add_columns cols r \<and> map snd cols = vars)"

lemma columns_added_refl [simp]: "columns_added r r []"
  by (cases r) (auto simp: columns_added_def intro: exI [of _ "[]"])

lemma columns_added_trans: "columns_added r r' xs \<Longrightarrow> columns_added r' r'' ys \<Longrightarrow> columns_added r r'' (xs @ ys)"
proof -
  assume "columns_added r r' xs" "columns_added r' r'' ys"
  then obtain cs ds where "r' = add_columns cs r" "r'' = add_columns ds r'" "map snd cs = xs" "map snd ds = ys"
    by (auto simp: columns_added_def)
  then have "r'' = add_columns (cs @ ds) r \<and> map snd (cs @ ds) = xs @ ys" by (cases r) simp
  then show ?thesis by (auto simp: columns_added_def)
qed

lemma columns_added_fields:
  assumes "columns_added r r' vars"
  shows "rte_kind r' = rte_kind r" "relation r' = relation r" "prov_base r' = prov_base r" "eref_of r' = eref_of r"
    "provAttrs r' = provAttrs r" "joinaliasvars r' = joinaliasvars r @ vars" "length (colnames r') = length (colnames r) + length vars"
  using assms by (cases r; auto simp: columns_added_def)+

text \<open>
  The variables of the provenance attributes of a \<open>FROM\<close> item, and those appended to the join \<open>k\<close> in it.  \<open>W\<close> is the
  number of columns of a join and \<open>pos\<close> gives the positions of the attributes of an entry.
\<close>

fun attr_count :: "(nat \<Rightarrow> nat list) \<Rightarrow> FromItem \<Rightarrow> nat" where
  "attr_count pos (RangeTblRef i) = length (pos i)"
| "attr_count pos (JoinExpr jointype k l r c) = attr_count pos l + attr_count pos r"

fun top_vars :: "(nat \<Rightarrow> nat) \<Rightarrow> (nat \<Rightarrow> nat list) \<Rightarrow> FromItem \<Rightarrow> (nat \<times> nat) list" where
  "top_vars W pos (RangeTblRef i) = map (Pair i) (pos i)"
| "top_vars W pos (JoinExpr jointype k l r c) =
     map (Pair k) [Suc (W k)..<Suc (W k + attr_count pos (JoinExpr jointype k l r c))]"

fun extra_vars :: "(nat \<Rightarrow> nat) \<Rightarrow> (nat \<Rightarrow> nat list) \<Rightarrow> FromItem \<Rightarrow> nat \<Rightarrow> (nat \<times> nat) list" where
  "extra_vars W pos (RangeTblRef i) j = []"
| "extra_vars W pos (JoinExpr jointype k l r c) j =
     extra_vars W pos l j @ extra_vars W pos r j @ (if j = k then top_vars W pos l @ top_vars W pos r else [])"

lemma top_vars_length [simp]: "length (top_vars W pos item) = attr_count pos item"
  by (cases item) (simp_all del: upt_Suc)

lemma extra_vars_outside: "j \<notin> set (scope item) \<Longrightarrow> extra_vars W pos item j = []"
  by (induction item) auto

text \<open>The lists on the stack belong to the entries in \<open>subList\<close>.\<close>

definition on_stack :: "(nat \<Rightarrow> nat list) \<Rightarrow> nat list \<Rightarrow> TargetEntry list list \<Rightarrow> bool" where
  "on_stack pos subList psets \<longleftrightarrow>
     list_all2 (\<lambda>i pset. map resno pset = pos i \<and> list_all (\<lambda>te. is_Var (te_expr te)) pset) subList psets"

lemma attrs_of_ref_upt:
  assumes "c < length subList" "\<And>d. d < n \<Longrightarrow> d \<noteq> c \<Longrightarrow> subList ! d \<noteq> i" "subList ! c = i"
    "length subList - 1 - c < length stack"
  shows "foldl (\<lambda>pList counter.
       if subList ! counter = i then
         let n = length subList - 1 - counter in
         res_bind pList (\<lambda>_. res_bind (cassert (n < length stack)) (\<lambda>_. Inr (stack ! n)))
       else pList) (Inr []) [0..<n] = Inr (if c < n then stack ! (length subList - 1 - c) else [])"
  using assms(2)
proof (induction n)
  case (Suc n)
  then show ?case using assms by (cases "n = c") (auto simp: Let_def less_Suc_eq)
qed simp

lemma attrs_of_ref_found:
  assumes s: "on_stack pos subList psets" and "distinct subList" "i \<in> set subList"
  shows "\<exists>pset. attrs_of_ref (rev psets @ rest) subList i = Inr pset \<and> map resno pset = pos i \<and> list_all (\<lambda>te. is_Var (te_expr te)) pset"
proof -
  obtain c where c: "c < length subList" "subList ! c = i" using assms(3) by (auto simp: in_set_conv_nth)
  have l: "length psets = length subList" and p: "map resno (psets ! c) = pos i" "list_all (\<lambda>te. is_Var (te_expr te)) (psets ! c)"
    using s c by (auto simp: on_stack_def list_all2_conv_all_nth)
  have "(rev psets @ rest) ! (length subList - 1 - c) = psets ! c" using c l by (auto simp: nth_append rev_nth)
  moreover have "subList ! d \<noteq> i" if "d < length subList" "d \<noteq> c" for d
    using that c assms(2) by (auto simp: nth_eq_iff_index_eq)
  ultimately show ?thesis
    using p c l attrs_of_ref_upt [of c subList "length subList" i "rev psets @ rest"] by (auto simp: attrs_of_ref_def)
qed

lemma map_res_Inr_map: "(\<And>x. x \<in> set xs \<Longrightarrow> f x = Inr (g x)) \<Longrightarrow> map_res f xs = Inr (map g xs)"
  by (induction xs) auto

lemma ref_attrs:
  assumes "list_all (\<lambda>te. is_Var (te_expr te)) pset"
  shows "map_res (\<lambda>te. case te_expr te of Var _ a \<Rightarrow> Inr (te\<lparr>te_expr := Var i a\<rparr>) | _ \<Rightarrow> Inl BadUnion) pset =
    Inr (map (\<lambda>te. te\<lparr>te_expr := Var i (varattno (te_expr te))\<rparr>) pset)"
  using assms by (intro map_res_Inr_map) (auto simp: list_all_iff split: Expression.splits)

lemma enumerate_upt: "map fst (enumerate n xs) = [n..<n + length xs]"
  by (simp add: enumerate_eq_zip)

lemma join_attrs_vars:
  "map (\<lambda>te. (varno (te_expr te), resno te)) (join_attrs k n pl) = map (Pair k) [n..<n + length pl]"
  "list_all (\<lambda>te. is_Var (te_expr te)) (join_attrs k n pl)"
  by (auto simp: join_attrs_def makeTargetEntry_def list_all_iff comp_def case_prod_unfold simp flip: enumerate_upt)

lemma refs_scope: "set (refs item) \<subseteq> set (scope item)"
  by (induction item) auto

lemma computeJoinPAttrs_ok:
  assumes s: "on_stack pos subList psets" "distinct subList"
  shows "distinct (scope item) \<Longrightarrow> set (refs item) \<subseteq> set subList \<Longrightarrow> set (scope item) \<subseteq> {1..length rts} \<Longrightarrow>
    (\<And>k. k \<in> set (scope item) \<Longrightarrow> rte_kind (rts ! (k - 1)) = RTE_JOIN \<Longrightarrow> length (joinaliasvars (rts ! (k - 1))) = W k) \<Longrightarrow>
    (\<And>k. k \<in> set (scope item) - set (refs item) \<Longrightarrow> rte_kind (rts ! (k - 1)) = RTE_JOIN) \<Longrightarrow>
    \<exists>pl rts'. computeJoinPAttrs item (rev psets @ rest) subList rts = Inr (pl, rts') \<and>
      map (\<lambda>te. (varno (te_expr te), resno te)) pl = top_vars W pos item \<and> list_all (\<lambda>te. is_Var (te_expr te)) pl \<and>
      length rts' = length rts \<and> (\<forall>j < length rts. columns_added (rts ! j) (rts' ! j) (extra_vars W pos item (Suc j)))"
proof (induction item arbitrary: rts)
  case (RangeTblRef i)
  then obtain pset where p: "attrs_of_ref (rev psets @ rest) subList i = Inr pset" "pos i = map resno pset"
      "list_all (\<lambda>te. is_Var (te_expr te)) pset"
    using attrs_of_ref_found [OF s, of i] by fastforce
  then show ?case by (simp add: ref_attrs comp_def list_all_iff)
next
  case (JoinExpr jt k l r c)
  have d: "distinct (scope l)" "distinct (scope r)" "set (scope l) \<inter> set (scope r) = {}" "k \<notin> set (scope l)" "k \<notin> set (scope r)"
    using JoinExpr.prems(1) by auto
  note J = JoinExpr.prems(5)
  have "k \<notin> set (refs l @ refs r)" using d refs_scope by fastforce
  then have k: "0 < k" "k \<le> length rts" "rte_kind (rts ! (k - 1)) = RTE_JOIN" "length (joinaliasvars (rts ! (k - 1))) = W k"
    using JoinExpr.prems(3,4,5) by auto
  have "\<exists>pl rts'. computeJoinPAttrs l (rev psets @ rest) subList rts = Inr (pl, rts') \<and>
      map (\<lambda>te. (varno (te_expr te), resno te)) pl = top_vars W pos l \<and> list_all (\<lambda>te. is_Var (te_expr te)) pl \<and>
      length rts' = length rts \<and> (\<forall>j < length rts. columns_added (rts ! j) (rts' ! j) (extra_vars W pos l (Suc j)))"
    using JoinExpr.prems d refs_scope [of r] by (intro JoinExpr.IH(1)) auto
  then obtain pl1 rts1 where 1: "computeJoinPAttrs l (rev psets @ rest) subList rts = Inr (pl1, rts1)"
      "map (\<lambda>te. (varno (te_expr te), resno te)) pl1 = top_vars W pos l" "list_all (\<lambda>te. is_Var (te_expr te)) pl1"
      "length rts1 = length rts" and c1: "\<And>j. j < length rts \<Longrightarrow> columns_added (rts ! j) (rts1 ! j) (extra_vars W pos l (Suc j))"
    by blast
  have same: "rts1 ! (j - 1) = rts ! (j - 1) \<or> columns_added (rts ! (j - 1)) (rts1 ! (j - 1)) []" if "j \<in> set (scope r)" for j
  proof -
    have "0 < j" "j \<le> length rts" "j \<notin> set (scope l)" using that JoinExpr.prems(3) d by auto
    then show ?thesis using c1 [of "j - 1"] extra_vars_outside [of j l W pos] by simp
  qed
  have f: "rte_kind (rts1 ! (j - 1)) = rte_kind (rts ! (j - 1)) \<and> joinaliasvars (rts1 ! (j - 1)) = joinaliasvars (rts ! (j - 1))"
    if "j \<in> set (scope r)" for j
    using same [OF that] columns_added_fields [of "rts ! (j - 1)" "rts1 ! (j - 1)" "[]"] by auto
  have "\<exists>pl rts'. computeJoinPAttrs r (rev psets @ rest) subList rts1 = Inr (pl, rts') \<and>
      map (\<lambda>te. (varno (te_expr te), resno te)) pl = top_vars W pos r \<and> list_all (\<lambda>te. is_Var (te_expr te)) pl \<and>
      length rts' = length rts1 \<and> (\<forall>j < length rts1. columns_added (rts1 ! j) (rts' ! j) (extra_vars W pos r (Suc j)))"
    using JoinExpr.prems d refs_scope [of l] f 1(4) by (intro JoinExpr.IH(2)) auto
  then obtain pl2 rts2 where 2: "computeJoinPAttrs r (rev psets @ rest) subList rts1 = Inr (pl2, rts2)"
      "map (\<lambda>te. (varno (te_expr te), resno te)) pl2 = top_vars W pos r" "list_all (\<lambda>te. is_Var (te_expr te)) pl2"
      "length rts2 = length rts" and c2: "\<And>j. j < length rts \<Longrightarrow> columns_added (rts1 ! j) (rts2 ! j) (extra_vars W pos r (Suc j))"
    using 1(4) by auto
  have c12: "columns_added (rts ! j) (rts2 ! j) (extra_vars W pos l (Suc j) @ extra_vars W pos r (Suc j))" if "j < length rts" for j
    using columns_added_trans [OF c1 [OF that] c2 [OF that]] .
  have w: "length (joinaliasvars (rts2 ! (k - 1))) = W k"
    using columns_added_fields(6) [OF c12 [of "k - 1"]] k d extra_vars_outside [of k l W pos] extra_vars_outside [of k r W pos] by simp
  let ?pl = "pl1 @ pl2" and ?f = "\<lambda>te. (resname te, varno (te_expr te), resno te)"
  have cols: "map_res join_column ?pl = Inr (map ?f ?pl)"
    using 1(3) 2(3) by (intro map_res_Inr_map) (auto simp: join_column_def list_all_iff)
  have vars: "map snd (map ?f ?pl) = top_vars W pos l @ top_vars W pos r" using 1(2) 2(2) by (simp add: comp_def)
  let ?rts = "rts2[k - 1 := add_columns (map ?f ?pl) (rts2 ! (k - 1))]"
  have "columns_added (rts ! j) (?rts ! j) (extra_vars W pos (JoinExpr jt k l r c) (Suc j))" if "j < length rts" for j
  proof (cases "Suc j = k")
    case True
    have "columns_added (rts2 ! j) (?rts ! j) (top_vars W pos l @ top_vars W pos r)"
      using True that 2(4) vars unfolding columns_added_def by (intro exI [of _ "map ?f ?pl"]) auto
    from columns_added_trans [OF c12 [OF that] this] True show ?thesis by simp
  next
    case False
    then have "k - 1 \<noteq> j" using k(1) by simp
    then show ?thesis using c12 [OF that] False by simp
  qed
  moreover have "computeJoinPAttrs (JoinExpr jt k l r c) (rev psets @ rest) subList rts =
      Inr (join_attrs k (Suc (W k)) ?pl, ?rts)"
    using 1(1) 2(1) k 2(4) cols w by (simp add: rt_fetch_def)
  moreover have "length ?pl = attr_count pos l + attr_count pos r"
    using arg_cong [OF 1(2), of length] arg_cong [OF 2(2), of length] by simp
  ultimately show ?case using 2(4) by (auto simp: join_attrs_vars simp del: upt_Suc)
qed

lemma correctJoinRTEs_ok:
  assumes s: "on_stack pos subList psets" "distinct subList"
  shows "distinct (concat (map scope items)) \<Longrightarrow> set (concat (map refs items)) \<subseteq> set subList \<Longrightarrow>
    set (concat (map scope items)) \<subseteq> {1..length rts} \<Longrightarrow>
    (\<And>k. k \<in> set (concat (map scope items)) \<Longrightarrow> rte_kind (rts ! (k - 1)) = RTE_JOIN \<Longrightarrow> length (joinaliasvars (rts ! (k - 1))) = W k) \<Longrightarrow>
    (\<And>item k. item \<in> set items \<Longrightarrow> k \<in> set (scope item) - set (refs item) \<Longrightarrow> rte_kind (rts ! (k - 1)) = RTE_JOIN) \<Longrightarrow>
    \<exists>rts'. correctJoinRTEs items (rev psets @ rest) subList rts = Inr rts' \<and> length rts' = length rts \<and>
      (\<forall>j < length rts. columns_added (rts ! j) (rts' ! j) (concat (map (\<lambda>item. extra_vars W pos item (Suc j)) items)))"
proof (induction items arbitrary: rts)
  case (Cons item items)
  show ?case
  proof (cases item)
    case (RangeTblRef i)
    have "\<exists>rts'. correctJoinRTEs items (rev psets @ rest) subList rts = Inr rts' \<and> length rts' = length rts \<and>
        (\<forall>j < length rts. columns_added (rts ! j) (rts' ! j) (concat (map (\<lambda>item. extra_vars W pos item (Suc j)) items)))"
      using Cons.prems by (intro Cons.IH) auto
    then show ?thesis using RangeTblRef by simp
  next
    case (JoinExpr jt k l r c)
    have "distinct (scope item)" "set (refs item) \<subseteq> set subList" "set (scope item) \<subseteq> {1..length rts}"
      using Cons.prems(1-3) by auto
    moreover have "length (joinaliasvars (rts ! (j - 1))) = W j" if "j \<in> set (scope item)" "rte_kind (rts ! (j - 1)) = RTE_JOIN" for j
      using that Cons.prems(4) by simp
    moreover have "rte_kind (rts ! (j - 1)) = RTE_JOIN" if "j \<in> set (scope item) - set (refs item)" for j
      using that by (intro Cons.prems(5) [of item]) auto
    ultimately obtain pl rts1 where
      1: "computeJoinPAttrs item (rev psets @ rest) subList rts = Inr (pl, rts1)" "length rts1 = length rts"
      and c1: "\<And>j. j < length rts \<Longrightarrow> columns_added (rts ! j) (rts1 ! j) (extra_vars W pos item (Suc j))"
      using computeJoinPAttrs_ok [OF s, of item rts W rest] by blast
    have f: "rte_kind (rts1 ! (j - 1)) = rte_kind (rts ! (j - 1)) \<and> joinaliasvars (rts1 ! (j - 1)) = joinaliasvars (rts ! (j - 1))"
      if "j \<in> set (concat (map scope items))" for j
    proof -
      have j: "0 < j" "j \<le> length rts" "j \<notin> set (scope item)" using that Cons.prems(1,3) by auto
      then show ?thesis using columns_added_fields [OF c1 [of "j - 1"]] extra_vars_outside [of j item W pos] by simp
    qed
    have kinds: "rte_kind (rts1 ! (j - 1)) = RTE_JOIN" if "m \<in> set items" "j \<in> set (scope m) - set (refs m)" for m j
      using f [of j] Cons.prems(5) [of m j] that by auto
    have "\<exists>rts'. correctJoinRTEs items (rev psets @ rest) subList rts1 = Inr rts' \<and> length rts' = length rts1 \<and>
        (\<forall>j < length rts1. columns_added (rts1 ! j) (rts' ! j) (concat (map (\<lambda>item. extra_vars W pos item (Suc j)) items)))"
      using Cons.prems f 1(2) kinds by (intro Cons.IH) auto
    then obtain rts2 where "correctJoinRTEs items (rev psets @ rest) subList rts1 = Inr rts2" "length rts2 = length rts"
      "\<And>j. j < length rts \<Longrightarrow> columns_added (rts1 ! j) (rts2 ! j) (concat (map (\<lambda>item. extra_vars W pos item (Suc j)) items))"
      using 1(2) by auto
    moreover from this(3) have "columns_added (rts ! j) (rts2 ! j) (concat (map (\<lambda>item. extra_vars W pos item (Suc j)) (item # items)))"
      if "j < length rts" for j
      using columns_added_trans [OF c1 [OF that]] that by simp
    moreover have "correctJoinRTEs (item # items) (rev psets @ rest) subList rts = correctJoinRTEs items (rev psets @ rest) subList rts1"
      using 1(1) unfolding JoinExpr by (simp only: correctJoinRTEs.simps res_bind_Inr prod.case)
    ultimately show ?thesis by (simp only:) blast
  qed
qed simp

section \<open>The variable of an attribute\<close>

lemma find_alias_append: "find_alias (xs @ ys) v n f = find_alias ys v (n + length xs) (find_alias xs v n f)"
  by (induction xs arbitrary: n f) auto

lemma find_alias_none: "v \<notin> set xs \<Longrightarrow> find_alias xs v n f = f"
  by (induction xs arbitrary: n f) auto

lemma last_alias:
  assumes "length xs = n" "v \<in> set ys"
  shows "\<exists>j. \<forall>f. find_alias (xs @ ys) v 1 f = Some j \<and> n < j \<and> j \<le> length (xs @ ys) \<and> (xs @ ys) ! (j - 1) = v"
proof -
  obtain zs ws where ys: "ys = zs @ v # ws" "v \<notin> set ws" using split_list_last [OF assms(2)] by blast
  have "find_alias (xs @ ys) v 1 f = Some (Suc (n + length zs))" for f
    using ys assms(1) by (simp add: find_alias_append find_alias_none)
  moreover have "(xs @ ys) ! (Suc (n + length zs) - 1) = v" using ys assms(1) by (simp add: nth_append)
  ultimately show ?thesis using ys assms(1) by (intro exI [of _ "Suc (n + length zs)"]) simp
qed

lemma resolve_append:
  "resolve_joins js rts v f = Inr v' \<Longrightarrow> \<exists>f'. resolve_joins (js @ ks) rts v f = resolve_joins ks rts v' f'"
  by (induction js arbitrary: v f) (auto simp: res_iff split: option.splits)

lemma find_ref_none: "i \<notin> set (refs item) \<Longrightarrow> findRTindexInJoin i item = None"
  by (induction item) auto

lemma joins_above_none: "i \<notin> set (concat (map refs items)) \<Longrightarrow> joins_above i items = []"
  by (induction i items rule: joins_above.induct) (auto simp: find_ref_none)

lemma top_vars_scope: "v \<in> set (top_vars W pos item) \<Longrightarrow> fst v \<in> set (scope item)"
  by (cases item) auto

definition same_alias :: "'a source \<Rightarrow> RTE list \<Rightarrow> bool" where
  "same_alias src rts \<longleftrightarrow> (\<forall>k. alias_vars src k = joinaliasvars (rts ! (k - 1)))"

lemma resolve_item:
  "distinct (scope item) \<Longrightarrow> set (scope item) \<subseteq> {1..length rts} \<Longrightarrow>
   (\<And>k. k \<in> set (scope item) - set (refs item) \<Longrightarrow>
      \<exists>base. joinaliasvars (rts ! (k - 1)) = base @ extra_vars W pos item k \<and> length base = W k) \<Longrightarrow>
   i \<in> set (refs item) \<Longrightarrow> a \<in> set (pos i) \<Longrightarrow>
   \<exists>js v. findRTindexInJoin i item = Some js \<and> (\<forall>f. resolve_joins js rts (i, a) f = Inr v) \<and> v \<in> set (top_vars W pos item) \<and>
     (\<forall>(src :: 'a source) A. same_alias src rts \<longrightarrow> lookup_var (item_env src item A) v = attr (cols_of src i (the (A i))) a)"
proof (induction item)
  case (RangeTblRef i')
  then show ?case by (auto simp: lookup_var_def)
next
  case (JoinExpr jt k l r c)
  have d: "distinct (scope l)" "distinct (scope r)" "set (scope l) \<inter> set (scope r) = {}" "k \<notin> set (scope l)" "k \<notin> set (scope r)"
    using JoinExpr.prems(1) by auto
  have b: "set (scope l) \<subseteq> {1..length rts}" "set (scope r) \<subseteq> {1..length rts}" "0 < k" "k \<le> length rts"
    using JoinExpr.prems(2) by auto
  have sub: "\<exists>base. joinaliasvars (rts ! (k' - 1)) = base @ extra_vars W pos m k' \<and> length base = W k'"
    if "m = l \<or> m = r" "k' \<in> set (scope m) - set (refs m)" for m k'
  proof -
    have "k' \<in> set (scope (JoinExpr jt k l r c)) - set (refs (JoinExpr jt k l r c))" using that d refs_scope by fastforce
    moreover have "extra_vars W pos (JoinExpr jt k l r c) k' = extra_vars W pos m k'"
    proof (cases "m = l")
      case True
      then have "k' \<notin> set (scope r)" "k' \<noteq> k" using that d by auto
      then show ?thesis using True by (simp add: extra_vars_outside)
    next
      case False
      then have "m = r" "k' \<notin> set (scope l)" "k' \<noteq> k" using that d by auto
      then show ?thesis by (simp add: extra_vars_outside)
    qed
    ultimately show ?thesis using JoinExpr.prems(3) by metis
  qed
  have "k \<notin> set (refs l @ refs r)" using d refs_scope by fastforce
  with JoinExpr.prems(3) [of k] obtain base where
    base: "joinaliasvars (rts ! (k - 1)) = base @ top_vars W pos l @ top_vars W pos r" "length base = W k"
    using d by (auto simp: extra_vars_outside)
  have "\<exists>js v. (findRTindexInJoin i (JoinExpr jt k l r c) = Some (js @ [k])) \<and> (\<forall>f. resolve_joins js rts (i, a) f = Inr v) \<and>
      v \<in> set (top_vars W pos l @ top_vars W pos r) \<and>
      (\<forall>(src :: 'a source) A. same_alias src rts \<longrightarrow>
         lookup_var (item_env src l A ++ item_env src r A) v = attr (cols_of src i (the (A i))) a)"
  proof (cases "i \<in> set (refs l)")
    case True
    from JoinExpr.IH(1) [OF d(1) b(1) sub True JoinExpr.prems(5)] obtain js v where
      v: "findRTindexInJoin i l = Some js" "\<And>f. resolve_joins js rts (i, a) f = Inr v" "v \<in> set (top_vars W pos l)"
      "\<And>(src :: 'a source) A. same_alias src rts \<Longrightarrow> lookup_var (item_env src l A) v = attr (cols_of src i (the (A i))) a" by blast
    moreover have "fst v \<notin> set (scope r)" using top_vars_scope [OF v(3)] d(3) by auto
    ultimately show ?thesis by (intro exI [of _ js] exI [of _ v]) (simp add: lookup_add dom_item_env)
  next
    case False
    then have "i \<in> set (refs r)" using JoinExpr.prems(4) by simp
    from JoinExpr.IH(2) [OF d(2) b(2) sub this JoinExpr.prems(5)] obtain js v where
      v: "findRTindexInJoin i r = Some js" "\<And>f. resolve_joins js rts (i, a) f = Inr v" "v \<in> set (top_vars W pos r)"
      "\<And>(src :: 'a source) A. same_alias src rts \<Longrightarrow> lookup_var (item_env src r A) v = attr (cols_of src i (the (A i))) a" by blast
    then show ?thesis using find_ref_none [OF False] top_vars_scope [OF v(3)]
      by (intro exI [of _ js] exI [of _ v]) (simp add: lookup_add dom_item_env)
  qed
  then obtain js v where v: "findRTindexInJoin i (JoinExpr jt k l r c) = Some (js @ [k])" "\<And>f. resolve_joins js rts (i, a) f = Inr v"
      "v \<in> set (top_vars W pos l @ top_vars W pos r)"
    and val: "\<And>(src :: 'a source) A. same_alias src rts \<Longrightarrow>
         lookup_var (item_env src l A ++ item_env src r A) v = attr (cols_of src i (the (A i))) a" by blast
  define al where "al = joinaliasvars (rts ! (k - 1))"
  have last: "\<exists>j. \<forall>f. find_alias al v 1 f = Some j \<and> W k < j \<and> j \<le> length al \<and> al ! (j - 1) = v"
    using last_alias [OF base(2) v(3)] base(1) by (simp add: al_def)
  then obtain j where j: "\<And>f. find_alias al v 1 f = Some j" "W k < j" "j \<le> length al" "al ! (j - 1) = v" by blast
  have "resolve_joins (js @ [k]) rts (i, a) f = Inr (k, j)" for f
    using resolve_append [OF v(2), of "[k]" f] j(1) b(3,4) by (auto simp: rt_fetch_def al_def)
  moreover have "(k, j) \<in> set (top_vars W pos (JoinExpr jt k l r c))" using j(2,3) base by (auto simp: al_def)
  moreover have "lookup_var (item_env src (JoinExpr jt k l r c) A) (k, j) = attr (cols_of src i (the (A i))) a"
    if "same_alias src rts" for src :: "'a source" and A
    using that val [OF that, of A] j(2-4) unfolding item_env.simps Let_def lookup_update
    by (simp add: same_alias_def attr_map al_def)
  ultimately show ?case using v(1) by blast
qed

end
