(* ===== verification/ProvSpjRewrite.thy ===== *)
theory ProvSpjRewrite
  imports ProvSpjOps
begin

text \<open>
  The rewritten query computes the provenance: the attributes added to the target list have the values of
  the provenance attributes of the entries, and the rest of the query is as before.
\<close>

section \<open>The attributes of a query\<close>

definition joins_extended :: "(nat \<Rightarrow> nat) \<Rightarrow> (nat \<Rightarrow> nat list) \<Rightarrow> FromItem list \<Rightarrow> RTE list \<Rightarrow> bool" where
  "joins_extended W pos items rts \<longleftrightarrow>
     distinct (concat (map scope items)) \<and> set (concat (map scope items)) \<subseteq> {1..length rts} \<and>
     (\<forall>item \<in> set items. \<forall>k \<in> set (scope item) - set (refs item).
        \<exists>base. joinaliasvars (rts ! (k - 1)) = base @ extra_vars W pos item k \<and> length base = W k)"

lemma joins_extended_Cons: "joins_extended W pos (item # items) rts \<Longrightarrow> joins_extended W pos items rts"
  by (auto simp: joins_extended_def)

lemma resolve_from:
  "joins_extended W pos items rts \<Longrightarrow> i \<in> set (concat (map refs items)) \<Longrightarrow> a \<in> set (pos i) \<Longrightarrow>
   \<exists>v. getRTindexForProvTE items rts (i, a) = Inr v \<and> v \<in> set (concat (map (top_vars W pos) items)) \<and>
     (\<forall>(src :: 'a source) A. same_alias src rts \<longrightarrow> lookup_var (from_env src items A) v = attr (cols_of src i (the (A i))) a)"
proof (induction items)
  case (Cons item items)
  have d: "distinct (scope item)" "set (scope item) \<subseteq> {1..length rts}" "set (scope item) \<inter> set (concat (map scope items)) = {}"
    and b: "\<And>k. k \<in> set (scope item) - set (refs item) \<Longrightarrow>
      \<exists>base. joinaliasvars (rts ! (k - 1)) = base @ extra_vars W pos item k \<and> length base = W k"
    using Cons.prems(1) by (auto simp: joins_extended_def)
  have sub: "set (concat (map refs items)) \<subseteq> set (concat (map scope items))" using refs_scope by fastforce
  show ?case
  proof (cases "i \<in> set (refs item)")
    case True
    from resolve_item [OF d(1,2) b True Cons.prems(3)] obtain js v where v: "findRTindexInJoin i item = Some js"
        "\<And>f. resolve_joins js rts (i, a) f = Inr v" "v \<in> set (top_vars W pos item)"
        "\<And>(src :: 'a source) A. same_alias src rts \<Longrightarrow> lookup_var (item_env src item A) v = attr (cols_of src i (the (A i))) a"
      by blast
    have "i \<notin> set (concat (map refs items))" using True d(3) sub refs_scope [of item] by blast
    then have "joins_above i (item # items) = js" using v(1) joins_above_none [of i items] by (cases item) (auto split: if_splits)
    moreover have "fst v \<notin> set (concat (map scope items))" using top_vars_scope [OF v(3)] d(3) by auto
    ultimately show ?thesis using v(2-4) by (auto simp: getRTindexForProvTE_def lookup_add dom_from_env)
  next
    case False
    then have "i \<in> set (concat (map refs items))" using Cons.prems(2) by simp
    from Cons.IH [OF joins_extended_Cons [OF Cons.prems(1)] this Cons.prems(3)] obtain v where
      v: "getRTindexForProvTE items rts (i, a) = Inr v" "v \<in> set (concat (map (top_vars W pos) items))"
        "\<And>(src :: 'a source) A. same_alias src rts \<Longrightarrow> lookup_var (from_env src items A) v = attr (cols_of src i (the (A i))) a"
      by blast
    have "joins_above i (item # items) = joins_above i items" using find_ref_none [OF False] by (cases item) auto
    moreover have "fst v \<in> set (concat (map scope items))" using v(2) top_vars_scope by fastforce
    ultimately show ?thesis using v by (auto simp: getRTindexForProvTE_def lookup_add dom_from_env)
  qed
qed simp

text \<open>Entries of the target list that stand for the columns \<open>vars\<close> of the entries of the range table.\<close>

definition stands_for ::
    "(nat \<Rightarrow> nat) \<Rightarrow> (nat \<Rightarrow> nat list) \<Rightarrow> FromItem list \<Rightarrow> RTE list \<Rightarrow> nat \<Rightarrow> (nat \<times> nat) list \<Rightarrow> TargetEntry list \<Rightarrow> bool" where
  "stands_for W pos items rts n vars tes \<longleftrightarrow>
     map resno tes = [n..<n + length vars] \<and>
     list_all (\<lambda>te. is_Var (te_expr te) \<and> \<not> resjunk te \<and> ressortgroupref te = 0 \<and>
       (varno (te_expr te), varattno (te_expr te)) \<in> set (concat (map (top_vars W pos) items))) tes \<and>
     (\<forall>(src :: row source) A. same_alias src rts \<longrightarrow>
        map (\<lambda>te. eval_expr (oper src) (from_env src items A) (te_expr te)) tes =
        map (\<lambda>(i, a). attr (cols_of src i (the (A i))) a) vars)"

lemma stands_for_append:
  assumes "stands_for W pos items rts n vs ts" "stands_for W pos items rts (n + length vs) ws us"
  shows "stands_for W pos items rts n (vs @ ws) (ts @ us)"
  using assms upt_add_eq_append [of n "n + length vs" "length ws"] by (auto simp: stands_for_def add.assoc)

lemma prov_entries_ok:
  assumes j: "joins_extended W pos items rts" "i \<in> set (concat (map refs items))"
  shows "set (map resno pset) \<subseteq> set (pos i) \<Longrightarrow>
    \<exists>tes. prov_entries items rts i pset n = Inr tes \<and> stands_for W pos items rts n (map (Pair i) (map resno pset)) tes"
proof (induction pset arbitrary: n)
  case (Cons te pset)
  obtain v where v: "getRTindexForProvTE items rts (i, resno te) = Inr v" "v \<in> set (concat (map (top_vars W pos) items))"
    "\<And>(src :: row source) A. same_alias src rts \<Longrightarrow> lookup_var (from_env src items A) v = attr (cols_of src i (the (A i))) (resno te)"
    using resolve_from [OF j, of "resno te", where ?'a = row] Cons.prems by (metis list.set_intros(1) list.simps(9) subsetD)
  obtain tes where tes: "prov_entries items rts i pset (Suc n) = Inr tes"
      "stands_for W pos items rts (Suc n) (map (Pair i) (map resno pset)) tes"
    using Cons.IH [of "Suc n"] Cons.prems by auto
  have "stands_for W pos items rts n [(i, resno te)] [makeTargetEntry (Var (fst v) (snd v)) n (resname te) False]"
    using v by (simp add: stands_for_def makeTargetEntry_def)
  from stands_for_append [OF this] tes v(1) show ?case by (cases v) simp
qed (simp add: stands_for_def)

lemma prov_entries_all_ok:
  assumes j: "joins_extended W pos items rts"
  shows "on_stack pos subList psets \<Longrightarrow> set subList \<subseteq> set (concat (map refs items)) \<Longrightarrow>
    \<exists>tes. prov_entries_all items rts subList psets n = Inr tes \<and>
      stands_for W pos items rts n (concat (map (\<lambda>i. map (Pair i) (pos i)) subList)) tes"
proof (induction subList arbitrary: psets n)
  case Nil
  then show ?case by (simp add: stands_for_def)
next
  case (Cons i subList)
  then obtain pset psets' where p: "psets = pset # psets'" "map resno pset = pos i" "on_stack pos subList psets'"
    by (auto simp: on_stack_def list_all2_Cons1)
  have l: "length pset = length (pos i)" using map_eq_imp_length_eq [of resno pset id "pos i"] p(2) by simp
  obtain tes where tes: "prov_entries items rts i pset n = Inr tes" "stands_for W pos items rts n (map (Pair i) (pos i)) tes"
    using prov_entries_ok [OF j, of i pset n] Cons.prems p(2) by auto
  obtain rest where rest: "prov_entries_all items rts subList psets' (n + length pset) = Inr rest"
      "stands_for W pos items rts (n + length pset) (concat (map (\<lambda>i. map (Pair i) (pos i)) subList)) rest"
    using Cons.IH [OF p(3), of "n + length pset"] Cons.prems by auto
  show ?case using tes rest stands_for_append [OF tes(2)] l by (simp add: p(1))
qed

end
