(* ===== verification/ProvSpjEval.thy ===== *)
theory ProvSpjEval
  imports ProvSpjRewrite
begin

text \<open>
  Evaluating a query whose entries and joins have been given their provenance columns.
\<close>

section \<open>Well-formed queries\<close>

lemma refs_of_range_table: "map (\<lambda>i. rts ! (i - 1)) (prov_refs rts) = filter contributes rts"
proof -
  have "map (\<lambda>i. rts ! (i - 1)) [1..<Suc (length rts)] = rts"
    by (rule nth_equalityI) (auto simp del: upt_Suc)
  then show ?thesis using filter_map [of contributes "\<lambda>i. rts ! (i - 1)" "[1..<Suc (length rts)]"]
    by (simp add: prov_refs_def comp_def del: upt_Suc)
qed

lemma in_prov_refs: "i \<in> set (prov_refs rts) \<longleftrightarrow> 0 < i \<and> i \<le> length rts \<and> contributes (rts ! (i - 1))"
  by (auto simp: prov_refs_def)

lemma distinct_prov_refs: "distinct (prov_refs rts)"
  by (simp add: prov_refs_def)

lemma item_ok_scope:
  "item_ok W rts item \<Longrightarrow> set (scope item) \<subseteq> {1..length rts} \<and> set (refs item) \<subseteq> set (prov_refs rts) \<and>
     (\<forall>k \<in> set (scope item) - set (refs item). rte_kind (rts ! (k - 1)) = RTE_JOIN)"
  by (induction item) (auto simp: in_prov_refs)

lemma query_ok_facts:
  assumes "query_ok cat (SelectQuery tes rts items w dist off cnt m)"
  defines "W \<equiv> \<lambda>i. width cat (rts ! (i - 1))"
  shows "map resno tes = [1..<Suc (length tes)]" "list_all (\<lambda>te. \<not> resjunk te) tes" "list_all (entry_ok cat) rts"
    "list_all (item_ok W rts) items" "distinct (concat (map scope items))"
    "set (concat (map refs items)) = set (prov_refs rts)" "set (concat (map scope items)) \<subseteq> {1..length rts}"
    "\<And>item k. item \<in> set items \<Longrightarrow> k \<in> set (scope item) - set (refs item) \<Longrightarrow> rte_kind (rts ! (k - 1)) = RTE_JOIN"
    "list_all (var_ok W (concat (map scope items))) (case w of None \<Rightarrow> [] | Some e \<Rightarrow> expr_vars e)"
    "\<And>te. te \<in> set tes \<Longrightarrow> list_all (var_ok W (concat (map scope items))) (expr_vars (te_expr te))"
    "list_all (\<lambda>n. 0 < n \<and> n \<in> set (map ressortgroupref tes)) dist"
proof -
  note q = assms(1) [unfolded query_ok.simps Let_def, folded W_def]
  show "map resno tes = [1..<Suc (length tes)]" "list_all (\<lambda>te. \<not> resjunk te) tes"
    "list_all (item_ok W rts) items" "distinct (concat (map scope items))"
    "list_all (var_ok W (concat (map scope items))) (case w of None \<Rightarrow> [] | Some e \<Rightarrow> expr_vars e)"
    "list_all (\<lambda>n. 0 < n \<and> n \<in> set (map ressortgroupref tes)) dist"
    using q by (simp_all only:)
  show "\<And>te. te \<in> set tes \<Longrightarrow> list_all (var_ok W (concat (map scope items))) (expr_vars (te_expr te))"
    using q unfolding list_all_iff [of _ tes] by blast
  show "list_all (entry_ok cat) rts" using q unfolding entry_ok_def [abs_def] list_all_iff by (elim conjE)
  have i: "\<And>item. item \<in> set items \<Longrightarrow> item_ok W rts item" using q unfolding list_all_iff by blast
  show j: "\<And>item k. item \<in> set items \<Longrightarrow> k \<in> set (scope item) - set (refs item) \<Longrightarrow> rte_kind (rts ! (k - 1)) = RTE_JOIN"
    using item_ok_scope [OF i] by blast
  show "set (concat (map scope items)) \<subseteq> {1..length rts}" using item_ok_scope [OF i] by auto
  have "set (concat (map refs items)) \<subseteq> set (prov_refs rts)" using item_ok_scope [OF i] by auto
  moreover have "set (prov_refs rts) \<subseteq> set (concat (map refs items))"
  proof
    fix k assume k: "k \<in> set (prov_refs rts)"
    then obtain item where "item \<in> set items" "k \<in> set (scope item)" using q by auto
    then show "k \<in> set (concat (map refs items))" using j [of item k] k by (auto simp: in_prov_refs contributes_def)
  qed
  ultimately show "set (concat (map refs items)) = set (prov_refs rts)" by blast
qed

section \<open>Rows of the two meanings\<close>

definition plain_rows :: "schema \<Rightarrow> operators \<Rightarrow> tables \<Rightarrow> TargetEntry list \<Rightarrow> RTE list \<Rightarrow> FromItem list \<Rightarrow> Expression option \<Rightarrow> row list" where
  "plain_rows cat ops db tes rts items w =
     (let src = plain_source cat ops rts (map (entry_rows cat ops db) rts)
      in map (target_row src items tes) (filter (where_holds src items w) (eval_from src items)))"

definition annotated_rows ::
    "schema \<Rightarrow> operators \<Rightarrow> tables \<Rightarrow> TargetEntry list \<Rightarrow> RTE list \<Rightarrow> FromItem list \<Rightarrow> Expression option \<Rightarrow> (row \<times> row) list" where
  "annotated_rows cat ops db tes rts items w =
     (let src = prov_source cat ops rts (map (entry_prov cat ops db) rts)
      in map (\<lambda>A. (target_row src items tes A, prov_row rts A)) (filter (where_holds src items w) (eval_from src items)))"

definition prov_rows :: "schema \<Rightarrow> operators \<Rightarrow> tables \<Rightarrow> SelectQuery \<Rightarrow> (row \<times> row) list" where
  "prov_rows cat ops db q =
     (let rows = annotated_rows cat ops db (target_list q) (range_table q) (from_list q) (qual q) in
      if distinct_clause q = [] then rows
      else distinct_on (\<lambda>(t, p). (distinct_key (target_list q) (distinct_clause q) t, p)) rows)"

lemma eval_query_rows:
  "eval_query cat ops db (SelectQuery tes rts items w dist off cnt m) =
     limited off cnt (if dist = [] then plain_rows cat ops db tes rts items w
       else distinct_on (distinct_key tes dist) (plain_rows cat ops db tes rts items w))"
  unfolding eval_query.simps plain_rows_def Let_def entry_rows_def by (rule refl)

lemma prov_query_rows:
  "prov_query cat ops db q =
     (if checkLimit q then concat (map (\<lambda>t. filter (\<lambda>(t', p). t' = t) (prov_rows cat ops db q)) (eval_query cat ops db q))
      else limited (limit_offset q) (limit_count q) (prov_rows cat ops db q))"
  by (cases q) (simp add: prov_query.simps prov_rows_def annotated_rows_def Let_def entry_prov_def [abs_def] cong: if_cong)

lemma prov_width_refs:
  "prov_width cat (SelectQuery tes rts items w dist off cnt m) = sum_list (map (\<lambda>i. entry_prov_width cat (rts ! (i - 1))) (prov_refs rts))"
proof -
  have "sum_list (map (\<lambda>i. entry_prov_width cat (rts ! (i - 1))) (prov_refs rts)) =
      sum_list (map (entry_prov_width cat) (map (\<lambda>i. rts ! (i - 1)) (prov_refs rts)))" by (simp add: comp_def)
  also have "\<dots> = sum_list (map (\<lambda>r. if contributes r then entry_prov_width cat r else 0) rts)"
    unfolding refs_of_range_table by (simp add: sum_list_map_filter')
  finally show ?thesis by (simp add: prov_width.simps entry_prov_width_def cong: if_cong)
qed

lemma set_limited: "set (limited off cnt xs) \<subseteq> set xs"
  by (auto simp: limited_def Let_def split: option.splits dest: in_set_takeD in_set_dropD)

lemma set_distinct_on: "set (distinct_on f xs) \<subseteq> set xs"
  by (induction xs) auto

lemma map_limited: "map f (limited off cnt xs) = limited off cnt (map f xs)"
  by (simp add: limited_def Let_def take_map drop_map split: option.split)

lemma target_row_length [simp]: "length (target_row src items tes A) = length tes"
  by (simp add: target_row_def)

lemma plain_rows_length: "row \<in> set (plain_rows cat ops db tes rts items w) \<Longrightarrow> length row = length tes"
  by (auto simp: plain_rows_def Let_def)

lemma eval_query_length: "row \<in> set (eval_query cat ops db q) \<Longrightarrow> length row = length (target_list q)"
proof (cases q)
  case (SelectQuery tes rts items w dist off cnt m)
  assume "row \<in> set (eval_query cat ops db q)"
  then have "row \<in> set (plain_rows cat ops db tes rts items w)"
    by (auto simp: SelectQuery eval_query_rows split: if_splits dest!: subsetD [OF set_limited] subsetD [OF set_distinct_on])
  then show ?thesis using plain_rows_length by (simp add: SelectQuery)
qed

definition row_fits :: "schema \<Rightarrow> RTE \<Rightarrow> row \<times> row \<Rightarrow> bool" where
  "row_fits cat r x \<longleftrightarrow> length (fst x) = width cat r \<and> length (snd x) = entry_prov_width cat r \<and> (is_base r \<longrightarrow> snd x = fst x)"

lemma entry_prov_fits:
  assumes "tables_ok cat db" "x \<in> set (entry_prov cat ops db r)"
    and "\<And>q. rte_kind r = RTE_SUBQUERY q \<Longrightarrow> \<not> is_base r \<Longrightarrow>
      (\<forall>(t, p) \<in> set (prov_query cat ops db q). length t = length (target_list q) \<and> length p = prov_width cat q)"
  shows "row_fits cat r x"
  using assms(2)
  by (cases "rte_kind r"; cases "is_base r")
    (use assms(1,3) in \<open>auto simp: entry_prov_def entry_rows_def row_fits_def entry_prov_width_def width_def tables_ok_def
      dest: eval_query_length\<close>)

lemma null_fits: "row_fits cat r (replicate (width cat r) None, replicate (entry_prov_width cat r) None)"
  by (simp add: row_fits_def entry_prov_width_def)

text \<open>Every assignment of the annotated evaluation has rows that fit.\<close>

lemma annotated_covers:
  assumes "\<And>r x. r \<in> set rts \<Longrightarrow> contributes r \<Longrightarrow> x \<in> set (entry_prov cat ops db r) \<Longrightarrow> row_fits cat r x"
    and "set (concat (map refs items)) \<subseteq> set (prov_refs rts)"
  defines "src \<equiv> prov_source cat ops rts (map (entry_prov cat ops db) rts)"
  shows "\<forall>i \<in> set (prov_refs rts). \<forall>x. x \<in> set (rows_of src i) \<or> x = null_of src i \<longrightarrow> row_fits cat (rts ! (i - 1)) x"
    and "A \<in> set (eval_from src items) \<Longrightarrow> covers (\<lambda>i. row_fits cat (rts ! (i - 1))) (concat (map refs items)) A"
proof -
  show f: "\<forall>i \<in> set (prov_refs rts). \<forall>x. x \<in> set (rows_of src i) \<or> x = null_of src i \<longrightarrow> row_fits cat (rts ! (i - 1)) x"
    using assms(1) null_fits by (auto simp: src_def prov_source_def in_prov_refs)
  show "A \<in> set (eval_from src items) \<Longrightarrow> covers (\<lambda>i. row_fits cat (rts ! (i - 1))) (concat (map refs items)) A"
    by (rule covers_eval_from [OF f assms(2)])
qed

lemma prov_row_length:
  assumes "covers (\<lambda>i. row_fits cat (rts ! (i - 1))) (concat (map refs items)) A" "set (prov_refs rts) \<subseteq> set (concat (map refs items))"
  shows "length (prov_row rts A) = sum_list (map (\<lambda>i. entry_prov_width cat (rts ! (i - 1))) (prov_refs rts))"
proof -
  have "length (snd (the (A i))) = entry_prov_width cat (rts ! (i - 1))" if "i \<in> set (prov_refs rts)" for i
    using assms that by (force simp: covers_def row_fits_def)
  then show ?thesis by (simp add: prov_row_def length_concat comp_def cong: map_cong)
qed

lemma prov_query_fits:
  "tables_ok cat db \<Longrightarrow> query_ok cat q \<Longrightarrow> (t, p) \<in> set (prov_query cat ops db q) \<Longrightarrow>
     length t = length (target_list q) \<and> length p = prov_width cat q"
proof (induction q arbitrary: t p rule: measure_induct_rule [of size])
  case (less q)
  obtain tes rts items w dist off cnt m where q: "q = SelectQuery tes rts items w dist off cnt m" by (cases q)
  note ok = query_ok_facts [OF less.prems(2) [unfolded q]]
  have fits: "row_fits cat r x" if "r \<in> set rts" "contributes r" "x \<in> set (entry_prov cat ops db r)" for r x
  proof (rule entry_prov_fits [OF less.prems(1) that(3)])
    fix q' assume q': "rte_kind r = RTE_SUBQUERY q'"
    then have "query_ok cat q'" using ok(3) that by (auto simp: list_all_iff entry_ok_def contributes_def)
    moreover have "size q' < size q" using rte_size [OF that(1) q'] by (simp add: q)
    ultimately show "\<forall>(t, p) \<in> set (prov_query cat ops db q'). length t = length (target_list q') \<and> length p = prov_width cat q'"
      using less.IH less.prems(1) by blast
  qed
  have "(t, p) \<in> set (prov_rows cat ops db q)"
    using less.prems(3) set_limited by (fastforce simp: prov_query_rows split: if_splits)
  then have "(t, p) \<in> set (annotated_rows cat ops db tes rts items w)"
    using set_distinct_on by (fastforce simp: prov_rows_def q Let_def split: if_splits)
  then obtain A where A: "A \<in> set (eval_from (prov_source cat ops rts (map (entry_prov cat ops db) rts)) items)"
    "p = prov_row rts A" "length t = length tes" by (auto simp: annotated_rows_def Let_def)
  then show ?case using prov_row_length [OF annotated_covers(2) [OF fits _ A(1)]] ok(6)
    by (simp add: q prov_width_refs)
qed

end
