(* ===== verification/ProvSpjAdapt.thy ===== *)
theory ProvSpjAdapt
  imports ProvSpjEval
begin

text \<open>
  The step that gives a query the attributes of its rewritten entries (\<open>adapt_query\<close>): it returns, and the
  query it makes evaluates to the rows of the old query followed by their provenance.
\<close>

section \<open>Rewritten entries\<close>

text \<open>A base relation is left as it is; a rewritten subquery has its provenance behind its own columns.\<close>

definition ext_cols :: "RTE \<Rightarrow> row \<times> row \<Rightarrow> row" where
  "ext_cols r x = (if is_base r then fst x else fst x @ snd x)"

definition ext_width :: "schema \<Rightarrow> RTE \<Rightarrow> nat" where
  "ext_width cat r = width cat r + (if is_base r then 0 else entry_prov_width cat r)"

definition entry_done :: "schema \<Rightarrow> RTE \<Rightarrow> RTE \<Rightarrow> bool" where
  "entry_done cat r s \<longleftrightarrow>
     eref_of s = eref_of r \<and> provAttrs s = provAttrs r \<and> joinaliasvars s = joinaliasvars r \<and> prov_base s = prov_base r \<and>
     (rte_kind s = RTE_JOIN \<longleftrightarrow> rte_kind r = RTE_JOIN) \<and> (rte_kind s = RTE_RELATION \<longleftrightarrow> rte_kind r = RTE_RELATION) \<and>
     entry_ok cat s \<and>
     (contributes r \<longrightarrow> width cat s = ext_width cat r \<and>
        (\<forall>ops db. tables_ok cat db \<longrightarrow> entry_rows cat ops db s = map (ext_cols r) (entry_prov cat ops db r)))"

lemma attr_prov_pos:
  assumes "row_fits cat r x"
  shows "map (attr (ext_cols r x)) (prov_pos cat r) = snd x"
proof (rule nth_equalityI)
  show l: "length (map (attr (ext_cols r x)) (prov_pos cat r)) = length (snd x)"
    using assms by (auto simp: prov_pos_def row_fits_def simp del: upt_Suc)
  fix j assume "j < length (map (attr (ext_cols r x)) (prov_pos cat r))"
  then have "j < length (snd x)" using l by simp
  then show "map (attr (ext_cols r x)) (prov_pos cat r) ! j = snd x ! j"
    using assms by (auto simp: prov_pos_def row_fits_def ext_cols_def attr_def nth_append simp del: upt_Suc)
qed

lemma nth_beyond: "length xs = length ys \<Longrightarrow> length xs \<le> n \<Longrightarrow> xs ! n = ys ! n"
proof (induction xs arbitrary: ys n)
  case (Cons x xs)
  then obtain y zs k where "ys = y # zs" "n = Suc k" by (cases ys; cases n) auto
  then show ?case using Cons.IH [of zs k] Cons.prems by simp
qed simp

section \<open>Evaluation\<close>

lemma eval_targets_cong:
  "map te_expr tes = map te_expr tes' \<Longrightarrow> plain_rows cat ops db tes rts items w = plain_rows cat ops db tes' rts items w"
proof -
  assume e: "map te_expr tes = map te_expr tes'"
  have "target_row src items tes = target_row src items tes'" for src :: "row source"
    using arg_cong [OF e, of "map (eval_expr (oper src) _)"] by (simp add: target_row_def comp_def fun_eq_iff)
  then show ?thesis by (simp add: plain_rows_def)
qed

lemma entries_fit:
  assumes ok: "query_ok cat (SelectQuery tes rts items w dist off cnt m)" and db: "tables_ok cat db"
    and r: "r \<in> set rts" "contributes r" "x \<in> set (entry_prov cat ops db r)"
  shows "row_fits cat r x"
proof (rule entry_prov_fits [OF db r(3)])
  fix q assume "rte_kind r = RTE_SUBQUERY q"
  then have "query_ok cat q" using query_ok_facts(3) [OF ok] r by (auto simp: list_all_iff entry_ok_def contributes_def)
  then show "\<forall>(t, p) \<in> set (prov_query cat ops db q). length t = length (target_list q) \<and> length p = prov_width cat q"
    using prov_query_fits [OF db] by blast
qed

lemma extended_entry:
  assumes "entry_done cat r s" "columns_added s s' []" "contributes r"
  shows "width cat s' = ext_width cat r"
    "tables_ok cat db \<Longrightarrow> entry_rows cat ops db s' = map (ext_cols r) (entry_prov cat ops db r)"
proof -
  note f = columns_added_fields [OF assms(2)]
  have "width cat s' = width cat s" "entry_rows cat ops db s' = entry_rows cat ops db s"
    using f by (simp_all add: width_def entry_rows_def split: RangeTblEntry.split)
  with assms(1,3) show "width cat s' = ext_width cat r"
    "tables_ok cat db \<Longrightarrow> entry_rows cat ops db s' = map (ext_cols r) (entry_prov cat ops db r)"
    by (simp_all add: entry_done_def)
qed

text \<open>The values at the positions of the provenance attributes of an entry.\<close>

lemma prov_values:
  assumes "covers (\<lambda>i. row_fits cat (rts ! (i - 1))) ns A" "i \<in> set ns"
  shows "map (attr (the (img (\<lambda>i. ext_cols (rts ! (i - 1))) A i))) (prov_pos cat (rts ! (i - 1))) = snd (the (A i))"
proof -
  from assms obtain x where "A i = Some x" "row_fits cat (rts ! (i - 1)) x" unfolding covers_def by blast
  then show ?thesis using attr_prov_pos [of cat "rts ! (i - 1)" x] by (simp add: img_def)
qed

lemma adapted_source:
  fixes cat rts ops
  defines "W \<equiv> \<lambda>i. width cat (rts ! (i - 1))"
  assumes ok: "query_ok cat (SelectQuery tes rts items w dist off cnt m)" and db: "tables_ok cat db"
    and ent: "list_all2 (entry_done cat) rts sts" and len: "length rts2 = length rts"
    and added: "\<forall>j < length rts. \<exists>ys. columns_added (sts ! j) (rts2 ! j) ys \<and> (rte_kind (rts ! j) \<noteq> RTE_JOIN \<longrightarrow> ys = [])"
  defines "src1 \<equiv> prov_source cat ops rts (map (entry_prov cat ops db) rts)" and "src \<equiv> plain_source cat ops rts2 (map (entry_rows cat ops db) rts2)"
    and "h \<equiv> \<lambda>i. ext_cols (rts ! (i - 1))"
  shows "eval_from src items = map (img h) (eval_from src1 items)"
    and "\<And>A v. A \<in> set (eval_from src1 items) \<Longrightarrow> var_ok W (concat (map scope items)) v \<Longrightarrow>
      lookup_var (from_env src items (img h A)) v = lookup_var (from_env src1 items A) v"
    and "\<And>A. A \<in> set (eval_from src1 items) \<Longrightarrow> covers (\<lambda>i. row_fits cat (rts ! (i - 1))) (concat (map refs items)) A"
proof -
  note facts = query_ok_facts [OF ok, folded W_def]
  define src2 where "src2 = src1\<lparr>cols_of := h, alias_vars := alias_vars src\<rparr>"
  define N where "N = set (prov_refs rts)"
  define fit where "fit i = row_fits cat (rts ! (i - 1))" for i
  have lens: "length sts = length rts" using ent by (simp add: list_all2_lengthD)
  have d: "entry_done cat (rts ! j) (sts ! j)" if "j < length rts" for j using ent that by (simp add: list_all2_conv_all_nth)
  have fits: "row_fits cat r x" if "r \<in> set rts" "contributes r" "x \<in> set (entry_prov cat ops db r)" for r x
    by (rule entries_fit [OF ok db that])
  have cov: "\<forall>i \<in> N. \<forall>x. x \<in> set (rows_of src1 i) \<or> x = null_of src1 i \<longrightarrow> fit i x"
    "\<And>A. A \<in> set (eval_from src1 items) \<Longrightarrow> covers fit (concat (map refs items)) A"
    using annotated_covers [where rts = rts and items = items and ops = ops, OF fits] facts(6) unfolding src1_def N_def fit_def by blast+
  have al: "\<exists>ys. alias_vars src k = alias_vars src1 k @ ys" for k
  proof (cases "k - 1 < length rts")
    case True
    from added True obtain ys where "columns_added (sts ! (k - 1)) (rts2 ! (k - 1)) ys" by blast
    from columns_added_fields(6) [OF this] d [OF True] show ?thesis
      by (simp add: src_def src1_def plain_source_def prov_source_def entry_done_def)
  next
    case False
    then show ?thesis using nth_beyond [of rts2 rts "k - 1"] len by (simp add: src_def src1_def plain_source_def prov_source_def)
  qed
  have more: "more_columns W rts N fit src1 src2"
    unfolding more_columns_def
  proof (intro conjI allI impI)
    fix i x a assume "fit i x" "0 < a" "a \<le> W i"
    then show "attr (cols_of src2 i x) a = attr (cols_of src1 i x) a"
      by (simp add: src2_def src1_def prov_source_def h_def ext_cols_def fit_def W_def row_fits_def attr_def nth_append)
  qed (use cov(1) al in \<open>auto simp: src2_def src1_def prov_source_def W_def width_def\<close>)
  have ext: "width cat (rts2 ! (i - 1)) = ext_width cat (rts ! (i - 1))"
    "entry_rows cat ops db (rts2 ! (i - 1)) = map (h i) (entry_prov cat ops db (rts ! (i - 1)))" "i - 1 < length rts" if "i \<in> N" for i
  proof -
    from that have i: "i - 1 < length rts" "contributes (rts ! (i - 1))" by (auto simp: N_def in_prov_refs)
    with added have "columns_added (sts ! (i - 1)) (rts2 ! (i - 1)) []" by (auto simp: contributes_def)
    from extended_entry [OF d [OF i(1)] this i(2)] i(1) db
    show "width cat (rts2 ! (i - 1)) = ext_width cat (rts ! (i - 1))" "i - 1 < length rts"
      "entry_rows cat ops db (rts2 ! (i - 1)) = map (h i) (entry_prov cat ops db (rts ! (i - 1)))" by (simp_all add: h_def)
  qed
  have rep: "replaced h N src2 src" using ext(1)
    by (simp add: replaced_def src_def src2_def src1_def plain_source_def prov_source_def h_def ext_width_def ext_cols_def replicate_add)
  have rows: "rows_of src i = map (h i) (rows_of src2 i)" if "i \<in> N" for i
    using ext(2,3) [OF that] len by (simp add: src_def src2_def src1_def plain_source_def prov_source_def)
  have refsN: "set (concat (map refs items)) \<subseteq> N" using facts(6) by (simp only: N_def)
  show "eval_from src items = map (img h) (eval_from src1 items)"
    using eval_from_image [OF rep rows refsN] more_columns_from [OF more facts(4) refsN] by simp
  show "lookup_var (from_env src items (img h A)) v = lookup_var (from_env src1 items A) v"
    if "A \<in> set (eval_from src1 items)" "var_ok W (concat (map scope items)) v" for A v
    using same_columns_from [OF more facts(4) cov(2) [OF that(1)] that(2)] eval_from_dom [OF that(1)]
    by (simp add: img_from_env [OF rep])
  show "covers (\<lambda>i. row_fits cat (rts ! (i - 1))) (concat (map refs items)) A" if "A \<in> set (eval_from src1 items)" for A
    using cov(2) [OF that] unfolding fit_def .
qed

lemma adapted_rows:
  fixes cat rts
  defines "W \<equiv> \<lambda>i. width cat (rts ! (i - 1))" and "pos \<equiv> \<lambda>i. prov_pos cat (rts ! (i - 1))"
  assumes ok: "query_ok cat (SelectQuery tes rts items w dist off cnt m)" and db: "tables_ok cat db"
    and ent: "list_all2 (entry_done cat) rts sts" and len: "length rts2 = length rts"
    and added: "\<And>j. j < length rts \<Longrightarrow> \<exists>ys. columns_added (sts ! j) (rts2 ! j) ys \<and> (rte_kind (rts ! j) \<noteq> RTE_JOIN \<longrightarrow> ys = [])"
    and pl: "stands_for W pos items rts2 n (concat (map (\<lambda>i. map (Pair i) (pos i)) (prov_refs rts))) pl"
  shows "plain_rows cat ops db (tes @ pl) rts2 items w = map (\<lambda>(t, p). t @ p) (annotated_rows cat ops db tes rts items w)"
proof -
  note facts = query_ok_facts [OF ok, folded W_def]
  define src1 where "src1 = prov_source cat ops rts (map (entry_prov cat ops db) rts)"
  define src where "src = plain_source cat ops rts2 (map (entry_rows cat ops db) rts2)"
  define h where "h = (\<lambda>i. ext_cols (rts ! (i - 1)))"
  have "\<forall>j < length rts. \<exists>ys. columns_added (sts ! j) (rts2 ! j) ys \<and> (rte_kind (rts ! j) \<noteq> RTE_JOIN \<longrightarrow> ys = [])"
    using added by blast
  note adapted = adapted_source [OF ok db ent len this, where ops = ops, folded src1_def src_def h_def W_def]
  note fr = adapted(1) and env = adapted(2) and cov = adapted(3)
  have ops: "oper src = ops" "oper src1 = ops" by (simp_all add: src_def src1_def plain_source_def prov_source_def)
  have wh: "where_holds src items w (img h A) = where_holds src1 items w A" if "A \<in> set (eval_from src1 items)" for A
  proof (cases w)
    case (Some e)
    then have "\<And>v. v \<in> set (expr_vars e) \<Longrightarrow> var_ok W (concat (map scope items)) v" using facts(9) by (simp add: list_all_iff)
    then show ?thesis using Some env [OF that] by (simp add: where_holds_def ops holds_cong [of e "from_env src items (img h A)" "from_env src1 items A"])
  qed (simp add: where_holds_def)
  have tr: "target_row src items (tes @ pl) (img h A) = target_row src1 items tes A @ prov_row rts A"
    if "A \<in> set (eval_from src1 items)" for A
  proof -
    have "eval_expr ops (from_env src items (img h A)) (te_expr te) = eval_expr ops (from_env src1 items A) (te_expr te)"
      if "te \<in> set tes" for te
      using facts(10) [OF that] env [OF \<open>A \<in> set (eval_from src1 items)\<close>] by (intro eval_expr_cong) (simp add: list_all_iff)
    moreover have "same_alias src rts2" by (simp add: same_alias_def src_def plain_source_def)
    then have "map (\<lambda>te. eval_expr (oper src) (from_env src items (img h A)) (te_expr te)) pl =
        map (\<lambda>(i, a). attr (cols_of src i (the (img h A i))) a) (concat (map (\<lambda>i. map (Pair i) (pos i)) (prov_refs rts)))"
      using pl unfolding stands_for_def by blast
    moreover have "map (\<lambda>a. attr (cols_of src i (the (img h A i))) a) (pos i) = snd (the (A i))" if "i \<in> set (prov_refs rts)" for i
      using prov_values [OF cov [OF \<open>A \<in> set (eval_from src1 items)\<close>]] that
      unfolding facts(6) h_def pos_def by (simp add: src_def plain_source_def)
    ultimately show ?thesis by (simp add: target_row_def ops prov_row_def map_concat comp_def cong: map_cong)
  qed
  show ?thesis
    unfolding plain_rows_def annotated_rows_def Let_def src_def [symmetric] src1_def [symmetric] fr filter_map map_map
    using wh tr by (auto simp: comp_def cong: filter_cong)
qed

section \<open>DISTINCT\<close>

lemma distinct_on_map:
  "(\<And>x y. x \<in> set xs \<Longrightarrow> y \<in> set xs \<Longrightarrow> f (g x) = f (g y) \<longleftrightarrow> f' x = f' y) \<Longrightarrow> distinct_on f (map g xs) = map g (distinct_on f' xs)"
proof (induction xs)
  case (Cons x xs)
  have "filter (\<lambda>y. f (g y) \<noteq> f (g x)) (distinct_on f' xs) = filter (\<lambda>y. f' y \<noteq> f' x) (distinct_on f' xs)"
    using Cons.prems subsetD [OF set_distinct_on] by (intro filter_cong) fastforce+
  with Cons show ?case by (simp add: filter_map comp_def)
qed simp

lemma number_groups_fields:
  "map te_expr (number_groups pl n) = map te_expr pl" "map resno (number_groups pl n) = map resno pl"
  "map resjunk (number_groups pl n) = map resjunk pl" "map resname (number_groups pl n) = map resname pl"
  "list_all (\<lambda>te. ressortgroupref te = 0) pl \<Longrightarrow> list_all (\<lambda>te. n < ressortgroupref te) (number_groups pl n)"
proof -
  show "list_all (\<lambda>te. ressortgroupref te = 0) pl \<Longrightarrow> list_all (\<lambda>te. n < ressortgroupref te) (number_groups pl n)"
  proof (induction pl arbitrary: n)
    case (Cons te pl)
    then have "list_all (\<lambda>te. Suc n < ressortgroupref te) (number_groups pl (Suc n))" by simp
    with Cons.prems show ?case by (auto simp: list_all_iff)
  qed simp
qed (induction pl arbitrary: n, simp_all)+

lemma max_groupref_ge: "te \<in> set tes \<Longrightarrow> ressortgroupref te \<le> max_groupref tes"
proof -
  have "n \<le> foldl (\<lambda>cur te. if ressortgroupref te > cur then ressortgroupref te else cur) n tes \<and>
      (te \<in> set tes \<longrightarrow> ressortgroupref te \<le> foldl (\<lambda>cur te. if ressortgroupref te > cur then ressortgroupref te else cur) n tes)" for n
  proof (induction tes arbitrary: n)
    case (Cons t ts)
    from Cons [of "if ressortgroupref t > n then ressortgroupref t else n"] show ?case by (auto split: if_splits)
  qed simp
  then show "te \<in> set tes \<Longrightarrow> ressortgroupref te \<le> max_groupref tes" by (simp add: max_groupref_def)
qed

lemma distinct_key_append:
  assumes "length t = length tes" "length p = length pl" "\<And>te te'. te \<in> set tes \<Longrightarrow> te' \<in> set pl \<Longrightarrow> ressortgroupref te < ressortgroupref te'"
  shows "distinct_key (tes @ pl) (dist @ map ressortgroupref pl) (t @ p) = distinct_key tes dist t @ p"
proof -
  have "filter (\<lambda>(te, v). ressortgroupref te \<in> set (dist @ map ressortgroupref pl)) (zip tes t) =
      filter (\<lambda>(te, v). ressortgroupref te \<in> set dist) (zip tes t)"
    using assms(3) by (intro filter_cong) (fastforce dest!: set_zip_leftD)+
  moreover have "filter (\<lambda>(te, v). ressortgroupref te \<in> set (dist @ map ressortgroupref pl)) (zip pl p) = zip pl p"
    by (intro filter_True) (auto dest!: set_zip_leftD)
  ultimately show ?thesis using assms(1,2) by (simp add: distinct_key_def)
qed

section \<open>Well-formedness\<close>

lemma skipped_cong: "eref_of s = eref_of r \<Longrightarrow> provAttrs s = provAttrs r \<Longrightarrow> skipped s = skipped r"
  by (simp add: skipped_def ignoreRTE_def split: option.split)

lemma columns_added_entry_ok:
  "columns_added s s' ys \<Longrightarrow> (rte_kind s \<noteq> RTE_JOIN \<longrightarrow> ys = []) \<Longrightarrow> entry_ok cat s \<Longrightarrow> entry_ok cat s'"
  using columns_added_fields [of s s' ys] skipped_cong [of s' s]
  by (cases "rte_kind s") (auto simp: entry_ok_def)

lemma var_ok_mono: "var_ok W ns v \<Longrightarrow> (\<And>i. i \<in> set ns \<Longrightarrow> W i \<le> W' i) \<Longrightarrow> set ns \<subseteq> set ns' \<Longrightarrow> var_ok W' ns' v"
  by (fastforce simp: var_ok_def)

lemma top_vars_ok:
  assumes "v \<in> set (top_vars W pos item)" "\<And>i a. i \<in> set (refs item) \<Longrightarrow> a \<in> set (pos i) \<Longrightarrow> 0 < a \<and> a \<le> W' i"
    and "\<And>jt k l r c. item = JoinExpr jt k l r c \<Longrightarrow> W' k = W k + attr_count pos item"
  shows "var_ok W' (scope item) v"
  using assms by (cases item) (auto simp: var_ok_def simp del: attr_count.simps)

lemma item_ok_adapt:
  assumes len: "length rts2 = length rts"
    and con: "\<And>i. 0 < i \<Longrightarrow> i \<le> length rts \<Longrightarrow> contributes (rts2 ! (i - 1)) = contributes (rts ! (i - 1))"
    and knd: "\<And>i. 0 < i \<Longrightarrow> i \<le> length rts \<Longrightarrow> (rte_kind (rts2 ! (i - 1)) = RTE_JOIN) = (rte_kind (rts ! (i - 1)) = RTE_JOIN)"
    and pos: "\<And>i a. i \<in> set (prov_refs rts) \<Longrightarrow> a \<in> set (pos i) \<Longrightarrow> 0 < a \<and> a \<le> W' i"
    and W: "\<And>i. i \<in> set (prov_refs rts) \<or> 0 < i \<and> i \<le> length rts \<and> rte_kind (rts ! (i - 1)) = RTE_JOIN \<Longrightarrow> W i \<le> W' i"
  shows "item_ok W rts item \<Longrightarrow> distinct (scope item) \<Longrightarrow>
    (\<And>k. k \<in> set (scope item) - set (refs item) \<Longrightarrow>
       joinaliasvars (rts2 ! (k - 1)) = joinaliasvars (rts ! (k - 1)) @ extra_vars W pos item k \<and> W' k = W k + length (extra_vars W pos item k)) \<Longrightarrow>
    item_ok W' rts2 item"
proof (induction item)
  case (RangeTblRef i)
  then show ?case using con [of i] len by simp
next
  case (JoinExpr jt k l r c)
  note s = item_ok_scope [OF JoinExpr.prems(1)]
  have d: "distinct (scope l)" "distinct (scope r)" "set (scope l) \<inter> set (scope r) = {}" "k \<notin> set (scope l)" "k \<notin> set (scope r)"
    using JoinExpr.prems(2) by auto
  have ex: "extra_vars W pos (JoinExpr jt k l r c) j = extra_vars W pos m j" if "m = l \<or> m = r" "j \<in> set (scope m)" for m j
  proof (cases "m = l")
    case True
    then have "j \<notin> set (scope r)" "j \<noteq> k" using that d by auto
    then show ?thesis using True by (simp add: extra_vars_outside)
  next
    case False
    then have "m = r" "j \<notin> set (scope l)" "j \<noteq> k" using that d by auto
    then show ?thesis by (simp add: extra_vars_outside)
  qed
  have sub: "joinaliasvars (rts2 ! (j - 1)) = joinaliasvars (rts ! (j - 1)) @ extra_vars W pos m j \<and> W' j = W j + length (extra_vars W pos m j)"
    if "m = l \<or> m = r" "j \<in> set (scope m) - set (refs m)" for m j
  proof -
    have "j \<in> set (scope (JoinExpr jt k l r c)) - set (refs (JoinExpr jt k l r c))"
      using that d refs_scope [of l] refs_scope [of r] by auto
    from JoinExpr.prems(3) [OF this] ex [OF that(1), of j] that(2) show ?thesis by (simp del: extra_vars.simps)
  qed
  have top: "var_ok W' (scope m) v" if "m = l \<or> m = r" "v \<in> set (top_vars W pos m)" for m v
  proof (rule top_vars_ok [OF that(2)])
    show "0 < a \<and> a \<le> W' i" if "i \<in> set (refs m)" "a \<in> set (pos i)" for i a
      using that \<open>m = l \<or> m = r\<close> s by (intro pos) auto
    fix jt' k' l' r' c' assume m: "m = JoinExpr jt' k' l' r' c'"
    have "distinct (scope m)" using that(1) d by auto
    then have "k' \<in> set (scope m) - set (refs m)" "extra_vars W pos m k' = top_vars W pos l' @ top_vars W pos r'"
      using m refs_scope [of l'] refs_scope [of r'] by (auto simp: extra_vars_outside)
    then show "W' k' = W k' + attr_count pos m" using sub [OF that(1), of k'] m by simp
  qed
  have "k \<notin> set (refs l @ refs r)" using d refs_scope [of l] refs_scope [of r] by auto
  then have al: "joinaliasvars (rts2 ! (k - 1)) = joinaliasvars (rts ! (k - 1)) @ top_vars W pos l @ top_vars W pos r"
    using JoinExpr.prems(3) [of k] d by (simp add: extra_vars_outside)
  have mono: "var_ok W' (scope l @ scope r) v" if "var_ok W (scope l @ scope r) v" for v
    using s by (intro var_ok_mono [OF that] W) auto
  have "item_ok W' rts2 l" "item_ok W' rts2 r" using JoinExpr.IH JoinExpr.prems(1) d sub by auto
  moreover have "list_all (var_ok W' (scope l @ scope r)) (joinaliasvars (rts2 ! (k - 1)))"
    unfolding al list_all_iff set_append ball_Un using JoinExpr.prems(1) mono top by (simp add: list_all_iff) (auto simp: var_ok_append)
  ultimately show ?case using JoinExpr.prems(1) mono knd [of k] len by (simp add: list_all_iff)
qed

end
