(* ===== verification/ProvSpjQuery.thy ===== *)
theory ProvSpjQuery
  imports ProvSpjAdapt
begin

text \<open>
  The result of \<open>adapt_query\<close>: the step returns, the query it makes is well-formed, and it evaluates to the
  rows of the old query with their provenance.
\<close>

section \<open>The joins of the query\<close>

definition joins_done :: "schema \<Rightarrow> RTE list \<Rightarrow> FromItem list \<Rightarrow> RTE list \<Rightarrow> RTE list \<Rightarrow> bool" where
  "joins_done cat rts items sts rts2 \<longleftrightarrow>
     list_all2 (entry_done cat) rts sts \<and> length rts2 = length rts \<and>
     (\<forall>j < length rts. columns_added (sts ! j) (rts2 ! j)
        (concat (map (\<lambda>item. extra_vars (\<lambda>i. width cat (rts ! (i - 1))) (\<lambda>i. prov_pos cat (rts ! (i - 1))) item (Suc j)) items)))"

lemma entry_done_nth:
  "list_all2 (entry_done cat) rts sts \<Longrightarrow> j < length rts \<Longrightarrow> entry_done cat (rts ! j) (sts ! j)"
  by (simp add: list_all2_conv_all_nth)

lemma correctJoinRTEs_done:
  assumes ok: "query_ok cat (SelectQuery tes rts items w dist off cnt m)" and ent: "list_all2 (entry_done cat) rts sts"
    and stk: "on_stack (\<lambda>i. prov_pos cat (rts ! (i - 1))) (prov_refs rts) psets"
  shows "\<exists>rts2. correctJoinRTEs items (rev psets @ rest) (prov_refs rts) sts = Inr rts2 \<and> joins_done cat rts items sts rts2"
proof -
  note facts = query_ok_facts [OF ok]
  have len: "length sts = length rts" using ent by (simp add: list_all2_lengthD)
  have "\<exists>rts2. correctJoinRTEs items (rev psets @ rest) (prov_refs rts) sts = Inr rts2 \<and> length rts2 = length sts \<and>
      (\<forall>j < length sts. columns_added (sts ! j) (rts2 ! j)
        (concat (map (\<lambda>item. extra_vars (\<lambda>i. width cat (rts ! (i - 1))) (\<lambda>i. prov_pos cat (rts ! (i - 1))) item (Suc j)) items)))"
  proof (rule correctJoinRTEs_ok [OF stk distinct_prov_refs facts(5)])
    fix k assume k: "k \<in> set (concat (map scope items))" "rte_kind (sts ! (k - 1)) = RTE_JOIN"
    then have "k - 1 < length rts" using facts(7) by fastforce
    from entry_done_nth [OF ent this] k(2) show "length (joinaliasvars (sts ! (k - 1))) = width cat (rts ! (k - 1))"
      by (simp add: entry_done_def width_def)
  next
    fix item k assume k: "item \<in> set items" "k \<in> set (scope item) - set (refs item)"
    then have "k - 1 < length rts" using facts(7) by fastforce
    from entry_done_nth [OF ent this] facts(8) [OF k] show "rte_kind (sts ! (k - 1)) = RTE_JOIN" by (simp add: entry_done_def)
  qed (use facts(6,7) len in auto)
  then show ?thesis using ent len by (simp add: joins_done_def)
qed

lemma extra_vars_concat:
  assumes "distinct (concat (map scope items))" "item \<in> set items" "k \<in> set (scope item)"
  shows "concat (map (\<lambda>item. extra_vars W pos item k) items) = extra_vars W pos item k"
  using assms
proof (induction items)
  case (Cons i items)
  show ?case
  proof (cases "k \<in> set (scope i)")
    case True
    then have none: "\<forall>x \<in> set items. k \<notin> set (scope x)" using Cons.prems(1) by auto
    then have "item = i" using Cons.prems(2,3) by auto
    moreover have "concat (map (\<lambda>item. extra_vars W pos item k) items) = []" using none by (simp add: extra_vars_outside)
    ultimately show ?thesis by simp
  next
    case False
    then show ?thesis using Cons by (auto simp: extra_vars_outside)
  qed
qed simp

lemma extra_vars_of_joins: "item_ok W rts item \<Longrightarrow> rte_kind (rts ! (k - 1)) \<noteq> RTE_JOIN \<Longrightarrow> extra_vars W' pos item k = []"
  by (induction item) auto

lemma joins_done_facts:
  assumes ok: "query_ok cat (SelectQuery tes rts items w dist off cnt m)" and J: "joins_done cat rts items sts rts2"
  defines "W \<equiv> \<lambda>i. width cat (rts ! (i - 1))" and "pos \<equiv> \<lambda>i. prov_pos cat (rts ! (i - 1))"
  shows "\<And>j. j < length rts \<Longrightarrow> \<exists>ys. columns_added (sts ! j) (rts2 ! j) ys \<and> (rte_kind (rts ! j) \<noteq> RTE_JOIN \<longrightarrow> ys = [])"
    and "\<And>item k. item \<in> set items \<Longrightarrow> k \<in> set (scope item) - set (refs item) \<Longrightarrow>
      joinaliasvars (rts2 ! (k - 1)) = joinaliasvars (rts ! (k - 1)) @ extra_vars W pos item k"
    and "joins_extended W pos items rts2"
proof -
  note facts = query_ok_facts [OF ok]
  have ent: "list_all2 (entry_done cat) rts sts" and len: "length rts2 = length rts"
    and add: "\<And>j. j < length rts \<Longrightarrow> columns_added (sts ! j) (rts2 ! j) (concat (map (\<lambda>item. extra_vars W pos item (Suc j)) items))"
    using J by (simp_all add: joins_done_def W_def pos_def)
  show "\<exists>ys. columns_added (sts ! j) (rts2 ! j) ys \<and> (rte_kind (rts ! j) \<noteq> RTE_JOIN \<longrightarrow> ys = [])" if "j < length rts" for j
    using add [OF that] facts(4) extra_vars_of_joins [of _ rts _ "Suc j" W pos] by (fastforce simp: list_all_iff)
  show al: "joinaliasvars (rts2 ! (k - 1)) = joinaliasvars (rts ! (k - 1)) @ extra_vars W pos item k"
    if "item \<in> set items" "k \<in> set (scope item) - set (refs item)" for item k
  proof -
    have k: "k - 1 < length rts" "Suc (k - 1) = k" using that facts(7) by fastforce+
    from columns_added_fields(6) [OF add [OF k(1)]] entry_done_nth [OF ent k(1)]
      extra_vars_concat [OF facts(5) that(1), of k W pos] that(2) k(2) show ?thesis by (simp add: entry_done_def)
  qed
  have "length (joinaliasvars (rts ! (k - 1))) = W k" if "item \<in> set items" "k \<in> set (scope item) - set (refs item)" for item k
    using facts(8) [OF that] by (simp add: W_def width_def)
  then show "joins_extended W pos items rts2" using al facts(5,7) len by (auto simp: joins_extended_def)
qed

section \<open>Well-formedness of the new query\<close>

lemma query_okI:
  assumes "map resno tes = [1..<Suc (length tes)]" "list_all (\<lambda>te. \<not> resjunk te) tes" "list_all (entry_ok cat) rts"
    and "list_all (item_ok (\<lambda>i. width cat (rts ! (i - 1))) rts) items" "distinct (concat (map scope items))"
    and "set (prov_refs rts) \<subseteq> set (concat (map scope items))"
    and "list_all (var_ok (\<lambda>i. width cat (rts ! (i - 1))) (concat (map scope items))) (case w of None \<Rightarrow> [] | Some e \<Rightarrow> expr_vars e)"
    and "\<And>te. te \<in> set tes \<Longrightarrow> list_all (var_ok (\<lambda>i. width cat (rts ! (i - 1))) (concat (map scope items))) (expr_vars (te_expr te))"
    and "list_all (\<lambda>n. 0 < n \<and> n \<in> set (map ressortgroupref tes)) dist"
  shows "query_ok cat (SelectQuery tes rts items w dist off cnt m)"
  using assms unfolding query_ok.simps Let_def list_all_iff entry_ok_def by blast

lemma extended_fields:
  assumes ok: "query_ok cat (SelectQuery tes rts items w dist off cnt m)" and J: "joins_done cat rts items sts rts2"
    and j: "j < length rts"
  shows "contributes (rts2 ! j) = contributes (rts ! j)" "(rte_kind (rts2 ! j) = RTE_JOIN) = (rte_kind (rts ! j) = RTE_JOIN)"
    "entry_ok cat (rts2 ! j)" "contributes (rts ! j) \<Longrightarrow> width cat (rts2 ! j) = ext_width cat (rts ! j)"
    "rte_kind (rts ! j) = RTE_JOIN \<Longrightarrow> width cat (rts ! j) \<le> width cat (rts2 ! j)"
proof -
  from joins_done_facts(1) [OF ok J j] obtain ys where ys: "columns_added (sts ! j) (rts2 ! j) ys" "rte_kind (rts ! j) \<noteq> RTE_JOIN \<longrightarrow> ys = []" by blast
  have d: "entry_done cat (rts ! j) (sts ! j)" using J j by (simp add: joins_done_def entry_done_nth)
  note f = columns_added_fields [OF ys(1)]
  show "contributes (rts2 ! j) = contributes (rts ! j)"
    using skipped_cong [of "rts2 ! j" "rts ! j"] f d by (simp add: contributes_def entry_done_def)
  show "(rte_kind (rts2 ! j) = RTE_JOIN) = (rte_kind (rts ! j) = RTE_JOIN)" using f d by (simp add: entry_done_def)
  show "entry_ok cat (rts2 ! j)" using columns_added_entry_ok [OF ys(1)] ys(2) d by (simp add: entry_done_def)
  show "width cat (rts2 ! j) = ext_width cat (rts ! j)" if "contributes (rts ! j)"
    using that f d ys by (auto simp: contributes_def entry_done_def width_def split: RangeTblEntry.splits)
  show "width cat (rts ! j) \<le> width cat (rts2 ! j)" if "rte_kind (rts ! j) = RTE_JOIN"
    using that f d by (simp add: entry_done_def width_def)
qed

lemma prov_refs_cong:
  "length rts2 = length rts \<Longrightarrow> (\<And>j. j < length rts \<Longrightarrow> contributes (rts2 ! j) = contributes (rts ! j)) \<Longrightarrow> prov_refs rts2 = prov_refs rts"
  unfolding prov_refs_def by (intro filter_cong) auto

lemma join_width: "rte_kind r = RTE_JOIN \<Longrightarrow> width cat r = length (joinaliasvars r)"
  by (simp add: width_def)

lemma stands_for_length: "stands_for W pos items rts n vars tes \<Longrightarrow> length tes = length vars"
  unfolding stands_for_def by (metis diff_add_inverse length_map length_upt)

lemma extended_vars:
  assumes ok: "query_ok cat (SelectQuery tes rts items w dist off cnt m)" and J: "joins_done cat rts items sts rts2"
  defines "W \<equiv> \<lambda>i. width cat (rts ! (i - 1))" and "W2 \<equiv> \<lambda>i. width cat (rts2 ! (i - 1))" and "pos \<equiv> \<lambda>i. prov_pos cat (rts ! (i - 1))"
  shows "list_all (item_ok W2 rts2) items"
    and "\<And>v. var_ok W (concat (map scope items)) v \<Longrightarrow> var_ok W2 (concat (map scope items)) v"
    and "\<And>v. v \<in> set (concat (map (top_vars W pos) items)) \<Longrightarrow> var_ok W2 (concat (map scope items)) v"
proof -
  note facts = query_ok_facts [OF ok, folded W_def] and x = extended_fields [OF ok J]
  have len: "length rts2 = length rts" using J by (simp add: joins_done_def)
  have jn: "joinaliasvars (rts2 ! (k - 1)) = joinaliasvars (rts ! (k - 1)) @ extra_vars W pos item k \<and> W2 k = W k + length (extra_vars W pos item k)"
    if "item \<in> set items" "k \<in> set (scope item) - set (refs item)" for item k
  proof -
    have "k - 1 < length rts" using that facts(7) by fastforce
    with joins_done_facts(2) [OF ok J that, folded W_def pos_def] join_width [OF facts(8) [OF that], of cat]
      x(2) [of "k - 1"] facts(8) [OF that] show ?thesis
      by (simp add: W_def W2_def join_width)
  qed
  have mono: "W i \<le> W2 i" if "i \<in> set (prov_refs rts) \<or> 0 < i \<and> i \<le> length rts \<and> rte_kind (rts ! (i - 1)) = RTE_JOIN" for i
    using that x(4,5) [of "i - 1"] by (auto simp: in_prov_refs W_def W2_def ext_width_def)
  have pos: "0 < a \<and> a \<le> W2 i" if "i \<in> set (prov_refs rts)" "a \<in> set (pos i)" for i a
    using that x(4) [of "i - 1"] by (auto simp: in_prov_refs pos_def W2_def ext_width_def prov_pos_def entry_prov_width_def split: if_splits)
  have dist: "distinct (scope item)" if "item \<in> set items" for item using that facts(5) by (auto simp: distinct_concat_iff)
  show "list_all (item_ok W2 rts2) items"
    unfolding list_all_iff
  proof
    fix item assume i: "item \<in> set items"
    show "item_ok W2 rts2 item"
      by (rule item_ok_adapt [OF len x(1) x(2) pos mono _ dist [OF i] jn [OF i]]) (use facts(4) i in \<open>auto simp: list_all_iff\<close>)
  qed
  show "var_ok W2 (concat (map scope items)) v" if "var_ok W (concat (map scope items)) v" for v
  proof (rule var_ok_mono [OF that mono])
    fix i assume "i \<in> set (concat (map scope items))"
    then show "i \<in> set (prov_refs rts) \<or> 0 < i \<and> i \<le> length rts \<and> rte_kind (rts ! (i - 1)) = RTE_JOIN"
      using facts(6,7,8) by fastforce
  qed simp
  fix v assume "v \<in> set (concat (map (top_vars W pos) items))"
  then obtain item where item: "item \<in> set items" "v \<in> set (top_vars W pos item)" by auto
  have "var_ok W2 (scope item) v"
  proof (rule top_vars_ok [OF item(2)])
    show "0 < a \<and> a \<le> W2 i" if "i \<in> set (refs item)" "a \<in> set (pos i)" for i a using that item(1) facts(6) by (intro pos) auto
    fix jt k l r c assume m: "item = JoinExpr jt k l r c"
    then have k: "k \<notin> set (scope l)" "k \<notin> set (scope r)" using dist [OF item(1)] by auto
    then have "k \<in> set (scope item) - set (refs item)" using m refs_scope [of l] refs_scope [of r] by auto
    from jn [OF item(1) this] k show "W2 k = W k + attr_count pos item" by (simp add: m extra_vars_outside)
  qed
  then show "var_ok W2 (concat (map scope items)) v" using item(1) by (auto simp: var_ok_def)
qed

lemma adapted_query_ok:
  fixes cat rts
  defines "W \<equiv> \<lambda>i. width cat (rts ! (i - 1))" and "pos \<equiv> \<lambda>i. prov_pos cat (rts ! (i - 1))"
  assumes ok: "query_ok cat (SelectQuery tes rts items w dist off cnt m)" and J: "joins_done cat rts items sts rts2"
    and pl: "stands_for W pos items rts2 (Suc (length tes)) vars pl"
    and pl': "map te_expr pl' = map te_expr pl" "map resno pl' = map resno pl" "map resjunk pl' = map resjunk pl"
    and dist': "list_all (\<lambda>n. 0 < n \<and> n \<in> set (map ressortgroupref (tes @ pl'))) dist'"
  shows "query_ok cat (SelectQuery (tes @ pl') rts2 items w dist' off' cnt' m')"
proof (rule query_okI)
  note facts = query_ok_facts [OF ok, folded W_def] and x = extended_fields [OF ok J]
    and ev = extended_vars [OF ok J, folded W_def pos_def]
  have len: "length rts2 = length rts" using J by (simp add: joins_done_def)
  have lp: "length pl = length vars" "length pl' = length vars"
    using stands_for_length [OF pl] arg_cong [OF pl'(1), of length] by simp_all
  show "map resno (tes @ pl') = [1..<Suc (length (tes @ pl'))]"
    using facts(1) pl pl'(2) lp upt_add_eq_append [of 1 "Suc (length tes)" "length vars"] by (simp add: stands_for_def del: upt_Suc)
  have "list_all (\<lambda>j. \<not> j) (map resjunk pl')" using pl by (simp add: pl'(3) stands_for_def list_all_iff)
  then show "list_all (\<lambda>te. \<not> resjunk te) (tes @ pl')" using facts(2) by (auto simp: list_all_iff)
  show "list_all (entry_ok cat) rts2" using x(3) len by (simp add: list_all_length)
  show "list_all (item_ok (\<lambda>i. width cat (rts2 ! (i - 1))) rts2) items" by (rule ev(1))
  show "distinct (concat (map scope items))" by (rule facts(5))
  have "prov_refs rts2 = prov_refs rts" using len x(1) by (rule prov_refs_cong)
  then show "set (prov_refs rts2) \<subseteq> set (concat (map scope items))" using facts(6) refs_scope by fastforce
  show "list_all (var_ok (\<lambda>i. width cat (rts2 ! (i - 1))) (concat (map scope items))) (case w of None \<Rightarrow> [] | Some e \<Rightarrow> expr_vars e)"
    using facts(9) ev(2) unfolding list_all_iff by blast
  have "\<forall>e \<in> set (map te_expr pl'). list_all (var_ok (\<lambda>i. width cat (rts2 ! (i - 1))) (concat (map scope items))) (expr_vars e)"
    unfolding pl'(1)
  proof
    fix e assume "e \<in> set (map te_expr pl)"
    then obtain te where te: "te \<in> set pl" "e = te_expr te" by auto
    with pl have v: "is_Var e" "(varno e, varattno e) \<in> set (concat (map (top_vars W pos) items))" by (simp_all add: stands_for_def list_all_iff)
    then show "list_all (var_ok (\<lambda>i. width cat (rts2 ! (i - 1))) (concat (map scope items))) (expr_vars e)"
      using ev(3) [OF v(2)] by (cases e) simp_all
  qed
  then show "list_all (var_ok (\<lambda>i. width cat (rts2 ! (i - 1))) (concat (map scope items))) (expr_vars (te_expr te))"
    if "te \<in> set (tes @ pl')" for te
    using that facts(10) ev(2) unfolding list_all_iff by auto
qed (rule dist')

section \<open>Rows of the new query\<close>

lemma annotated_rows_length:
  assumes "query_ok cat (SelectQuery tes rts items w dist off cnt m)" "tables_ok cat db"
    and "(t, p) \<in> set (annotated_rows cat ops db tes rts items w)"
  shows "length t = length tes \<and> length p = prov_width cat (SelectQuery tes rts items w dist off cnt m)"
proof -
  define q where "q = SelectQuery tes rts items w [] None None m"
  have "query_ok cat q" using assms(1) by (simp add: q_def query_ok.simps Let_def del: upt_Suc)
  moreover have "prov_query cat ops db q = annotated_rows cat ops db tes rts items w"
    by (simp add: q_def prov_query_rows prov_rows_def checkLimit_def limited_def)
  ultimately show ?thesis using prov_query_fits [of cat db q t p ops] assms(2,3) by (simp add: q_def prov_width.simps)
qed

lemma adapted_distinct:
  assumes ok: "query_ok cat (SelectQuery tes rts items w dist off cnt m)" and db: "tables_ok cat db"
    and len: "length pl = prov_width cat (SelectQuery tes rts items w dist off cnt m)"
    and refs: "\<And>te te'. te \<in> set tes \<Longrightarrow> te' \<in> set pl \<Longrightarrow> ressortgroupref te < ressortgroupref te'"
  shows "distinct_on (distinct_key (tes @ pl) (dist @ map ressortgroupref pl))
      (map (\<lambda>(t, p). t @ p) (annotated_rows cat ops db tes rts items w)) =
    map (\<lambda>(t, p). t @ p) (distinct_on (\<lambda>(t, p). (distinct_key tes dist t, p)) (annotated_rows cat ops db tes rts items w))"
proof (rule distinct_on_map)
  fix x y assume xy: "x \<in> set (annotated_rows cat ops db tes rts items w)" "y \<in> set (annotated_rows cat ops db tes rts items w)"
  obtain t p t' p' where [simp]: "x = (t, p)" "y = (t', p')" by fastforce
  have l: "length t = length tes" "length p = length pl" "length t' = length tes" "length p' = length pl"
    using annotated_rows_length [OF ok db] xy len by auto
  show "distinct_key (tes @ pl) (dist @ map ressortgroupref pl) (case x of (t, p) \<Rightarrow> t @ p) =
      distinct_key (tes @ pl) (dist @ map ressortgroupref pl) (case y of (t, p) \<Rightarrow> t @ p) \<longleftrightarrow>
    (case x of (t, p) \<Rightarrow> (distinct_key tes dist t, p)) = (case y of (t, p) \<Rightarrow> (distinct_key tes dist t, p))"
    using distinct_key_append [OF l(1,2) refs] distinct_key_append [OF l(3,4) refs] l(2,4) by simp
qed

lemma prov_pos_length: "length (prov_pos cat r) = entry_prov_width cat r"
  by (simp add: prov_pos_def entry_prov_width_def del: upt_Suc)

section \<open>The step as a whole\<close>

text \<open>The new query, its provenance attributes and its meaning.\<close>

definition query_done :: "schema \<Rightarrow> SelectQuery \<Rightarrow> SelectQuery \<Rightarrow> TargetEntry list \<Rightarrow> bool" where
  "query_done cat q q' pList \<longleftrightarrow>
     query_ok cat q' \<and> length (target_list q') = length (target_list q) + prov_width cat q \<and>
     map resno pList = [Suc (length (target_list q))..<Suc (length (target_list q) + prov_width cat q)] \<and>
     list_all (\<lambda>te. is_Var (te_expr te)) pList \<and>
     (\<forall>ops db. tables_ok cat db \<longrightarrow> eval_query cat ops db q' = map (\<lambda>(t, p). t @ p) (prov_query cat ops db q))"

lemma adapt_query_ok:
  assumes q: "q = SelectQuery tes rts items w dist off cnt m" and ok: "query_ok cat q" and lim: "\<not> checkLimit q"
    and ent: "list_all2 (entry_done cat) rts (correctSubQueryAlias rts')"
    and stk: "on_stack (\<lambda>i. prov_pos cat (rts ! (i - 1))) (prov_refs rts) psets" and st: "pStack st = rev psets @ rest"
  shows "\<exists>q' pList. adapt_query q rts' (prov_refs rts) st = Inr (q', st\<lparr>pStack := pList # rest\<rparr>) \<and> query_done cat q q' pList"
proof -
  let ?W = "\<lambda>i. width cat (rts ! (i - 1))" and ?pos = "\<lambda>i. prov_pos cat (rts ! (i - 1))"
  let ?vars = "concat (map (\<lambda>i. map (Pair i) (?pos i)) (prov_refs rts))"
  note ok' = ok [unfolded q] and facts = query_ok_facts [OF ok [unfolded q]]
  from correctJoinRTEs_done [OF ok' ent stk, of rest] obtain rts2 where
    c: "correctJoinRTEs items (rev psets @ rest) (prov_refs rts) (correctSubQueryAlias rts') = Inr rts2" and
    J: "joins_done cat rts items (correctSubQueryAlias rts') rts2" by blast
  have "set (prov_refs rts) \<subseteq> set (concat (map refs items))" using facts(6) by simp
  from prov_entries_all_ok [OF joins_done_facts(3) [OF ok' J] stk this, of "Suc (length tes)"] obtain pl where
    p: "prov_entries_all items rts2 (prov_refs rts) psets (Suc (length tes)) = Inr pl" and
    pl: "stands_for ?W ?pos items rts2 (Suc (length tes)) ?vars pl" by blast
  have len: "length psets = length (prov_refs rts)" using stk by (auto simp: on_stack_def dest: list_all2_lengthD)
  have "length ?vars = sum_list (map (\<lambda>i. entry_prov_width cat (rts ! (i - 1))) (prov_refs rts))"
    by (simp add: length_concat comp_def prov_pos_length)
  then have lv: "length ?vars = prov_width cat q" by (simp add: q prov_width_refs)
  define r where "r = (if dist \<noteq> [] then rewriteDistinctClause (SelectQuery tes rts2 items w dist off cnt m) pl else (pl, []))"
  define pl' dist' where "pl' = fst r" and "dist' = snd r"
  have res: "adapt_query q rts' (prov_refs rts) st = Inr (SelectQuery (tes @ pl') rts2 items w dist' off cnt m, st\<lparr>pStack := pl' # rest\<rparr>)"
    using c p len by (simp add: adapt_query_def q st addProvenanceAttrs_def pl'_def dist'_def r_def Let_def split: prod.split)
  have z: "list_all (\<lambda>te. ressortgroupref te = 0) pl" using pl by (simp add: stands_for_def list_all_iff)
  have f: "map te_expr pl' = map te_expr pl" "map resno pl' = map resno pl" "map resjunk pl' = map resjunk pl"
    by (simp_all add: pl'_def r_def rewriteDistinctClause_def Let_def number_groups_fields)
  have gt: "dist \<noteq> [] \<Longrightarrow> list_all (\<lambda>te. max_groupref (tes @ pl) < ressortgroupref te) pl'"
    using number_groups_fields(5) [OF z] by (simp add: pl'_def r_def rewriteDistinctClause_def Let_def)
  have d': "dist' = (if dist = [] then [] else dist @ map ressortgroupref pl')"
    by (simp add: dist'_def pl'_def r_def rewriteDistinctClause_def Let_def)
  have "list_all (\<lambda>n. 0 < n \<and> n \<in> set (map ressortgroupref (tes @ pl'))) dist'"
    using facts(11) gt by (fastforce simp: d' list_all_iff)
  from adapted_query_ok [OF ok' J pl f this] have ok2: "query_ok cat (SelectQuery (tes @ pl') rts2 items w dist' off cnt m)" .
  have lp: "length pl' = prov_width cat q" using arg_cong [OF f(1), of length] stands_for_length [OF pl] lv by simp
  have ev: "eval_query cat ops db (SelectQuery (tes @ pl') rts2 items w dist' off cnt m) = map (\<lambda>(t, p). t @ p) (prov_query cat ops db q)"
    if db: "tables_ok cat db" for ops db
  proof -
    have rows: "plain_rows cat ops db (tes @ pl') rts2 items w = map (\<lambda>(t, p). t @ p) (annotated_rows cat ops db tes rts items w)"
      using adapted_rows [OF ok' db ent _ joins_done_facts(1) [OF ok' J] pl] J eval_targets_cong [of "tes @ pl'" "tes @ pl"] f(1)
      by (simp add: joins_done_def)
    have "ressortgroupref te < ressortgroupref te'" if "te \<in> set tes" "te' \<in> set pl'" "dist \<noteq> []" for te te'
      using max_groupref_ge [of te "tes @ pl"] gt that by (fastforce simp: list_all_iff)
    then have "dist \<noteq> [] \<Longrightarrow> distinct_on (distinct_key (tes @ pl') dist') (plain_rows cat ops db (tes @ pl') rts2 items w) =
      map (\<lambda>(t, p). t @ p) (distinct_on (\<lambda>(t, p). (distinct_key tes dist t, p)) (annotated_rows cat ops db tes rts items w))"
      using adapted_distinct [OF ok' db, of pl' ops] lp rows by (simp add: d' q)
    moreover have "dist' = [] \<longleftrightarrow> dist = []" by (simp add: d')
    ultimately show ?thesis using lim by (simp add: q eval_query_rows prov_query_rows prov_rows_def map_limited rows)
  qed
  have "list_all is_Var (map te_expr pl')" using pl by (simp add: f(1) stands_for_def list_all_iff)
  then have "query_done cat q (SelectQuery (tes @ pl') rts2 items w dist' off cnt m) pl'"
    using ok2 ev lp f(2) pl lv by (simp add: query_done_def q stands_for_def list.pred_map comp_def del: upt_Suc)
  with res show ?thesis by blast
qed

end
