(* ===== verification/ProvSpjMain.thy ===== *)
theory ProvSpjMain
  imports ProvSpjQuery
begin

text \<open>
  The rewriting of a whole query: its entries one after the other (\<open>rewriteRTEs\<close>), the join that restores a
  limit (\<open>handleLimit\<close>), and \<open>rewriteSPJQuery\<close> by induction on the nesting of subqueries.
\<close>

declare rewriteSPJQuery.simps [simp del] rewriteSPJrestrict.simps [simp del] rewriteRTEs.simps [simp del]

text \<open>What the rewriting of a query has to show for its subqueries.\<close>

definition rewritten :: "schema \<Rightarrow> SelectQuery \<Rightarrow> rewrite_state \<Rightarrow> bool" where
  "rewritten cat q st \<longleftrightarrow>
     (\<exists>q' st' pList. rewriteSPJQuery cat q st = Inr (q', st') \<and> pStack st' = pList # pStack st \<and> query_done cat q q' pList)"

section \<open>The entries of the range table\<close>

lemma prov_refs_enumerate: "prov_refs rts = map fst (filter (contributes \<circ> snd) (enumerate 1 rts))"
proof -
  have "enumerate 1 rts = map (\<lambda>i. (i, rts ! (i - 1))) [1..<Suc (length rts)]"
    by (rule nth_equalityI) (simp_all add: nth_enumerate_eq del: upt_Suc)
  then show ?thesis by (simp add: prov_refs_def filter_map comp_def del: upt_Suc)
qed

lemma on_stack_refs:
  "list_all2 (attrs_ok cat) (filter contributes rts) psets \<Longrightarrow> on_stack (\<lambda>i. prov_pos cat (rts ! (i - 1))) (prov_refs rts) psets"
  unfolding on_stack_def refs_of_range_table [symmetric] list_all2_map1 attrs_ok_def by simp

lemma base_entry_done:
  assumes "entry_ok cat r" "contributes r" "is_base r"
  shows "entry_done cat r (correctRTEAlias (set_alias al r))"
  using assms
  by (cases r; cases "rte_kind r")
    (auto simp: entry_done_def entry_ok_def contributes_def is_base_def correctRTEAlias_def ext_width_def ext_cols_def
      width_def entry_rows_def entry_prov_def skipped_def ignoreRTE_def comp_def split: option.splits)

lemma subquery_entry_done:
  assumes r: "rte_kind r = RTE_SUBQUERY q" "entry_ok cat r" "contributes r" "\<not> is_base r" and q': "query_done cat q q' pList"
  shows "entry_done cat r (correctRTEAlias (set_kind (RTE_SUBQUERY q') r))" "attrs_ok cat r pList"
proof -
  have w: "width cat r = length (target_list q)" "entry_prov_width cat r = prov_width cat q"
    using r(1,4) by (simp_all add: width_def entry_prov_width_def)
  have c: "ext_cols r = (\<lambda>(t, p). t @ p)" using r(4) by (auto simp: ext_cols_def)
  have e: "entry_prov cat ops db r = prov_query cat ops db q" for ops db using r(1,4) by (simp add: entry_prov_def)
  define s where "s = correctRTEAlias (set_kind (RTE_SUBQUERY q') r)"
  have s: "rte_kind s = RTE_SUBQUERY q'" "eref_of s = eref_of r" "provAttrs s = provAttrs r" "joinaliasvars s = joinaliasvars r"
    "prov_base s = prov_base r" "colnames s = map resname (target_list q')"
    by (cases r; simp add: s_def correctRTEAlias_def)+
  have "entry_ok cat s"
    using r(1,2) q' s skipped_cong [of s r] by (auto simp: entry_ok_def query_done_def)
  then show "entry_done cat r (correctRTEAlias (set_kind (RTE_SUBQUERY q') r))"
    using q' r(1,4) unfolding s_def [symmetric]
    by (auto simp: entry_done_def s ext_width_def w c e query_done_def width_def [of cat s] entry_rows_def)
  show "attrs_ok cat r pList" using q' r(4) by (simp add: attrs_ok_def prov_pos_def w query_done_def del: upt_Suc)
qed

lemma other_entry_done: "entry_ok cat r \<Longrightarrow> \<not> contributes r \<Longrightarrow> entry_done cat r (correctRTEAlias r)"
  by (cases r; cases "rte_kind r")
    (auto simp: entry_done_def entry_ok_def contributes_def correctRTEAlias_def skipped_def ignoreRTE_def split: option.splits)

text \<open>One entry: what is put on the stack for it, and the entry that replaces it.\<close>

lemma rewriteRTEs_Cons:
  assumes ok: "entry_ok cat r" and IH: "\<And>q st. rte_kind r = RTE_SUBQUERY q \<Longrightarrow> query_ok cat q \<Longrightarrow> rewritten cat q st"
  shows "\<exists>r' ps st'. rewriteRTEs cat (r # rts) i st =
      res_bind (rewriteRTEs cat rts (Suc i) st') (\<lambda>(rts, subs, st). Inr (r' # rts, (if contributes r then [i] else []) @ subs, st)) \<and>
    pStack st' = rev ps @ pStack st \<and> entry_done cat r (correctRTEAlias r') \<and>
    (if contributes r then \<exists>p. ps = [p] \<and> attrs_ok cat r p else ps = [])"
proof -
  obtain k rel b al er cs pa js where r: "r = RTE k rel b al er cs pa js" by (cases r)
  consider (skip) "skipped r = Inr True" | (join) "skipped r = Inr False" "rte_kind r = RTE_JOIN"
    | (base) "contributes r" "is_base r" | (sub) q where "contributes r" "\<not> is_base r" "rte_kind r = RTE_SUBQUERY q" "query_ok cat q"
    using ok by (cases "rte_kind r") (auto simp: entry_ok_def contributes_def is_base_def skipped_def split: option.splits)
  then show ?thesis
  proof cases
    case skip
    then have "\<not> contributes r" by (simp add: contributes_def)
    then show ?thesis using other_entry_done [OF ok] skip
      by (intro exI [of _ r] exI [of _ "[]"] exI [of _ st]) (simp add: rewriteRTEs.simps r)
  next
    case join
    then have "\<not> contributes r" "\<not> prov_base r" "provAttrs r = []" using ok by (simp_all add: contributes_def entry_ok_def)
    then show ?thesis using other_entry_done [OF ok] join
      by (intro exI [of _ r] exI [of _ "[]"] exI [of _ st]) (simp add: rewriteRTEs.simps r)
  next
    case base
    from rewriteBaseRelation_ok [OF ok base, of i st] obtain al' pList counts where
      p: "rewriteBaseRelation cat i r st = Inr (set_alias al' r, \<lparr>pStack = pList # pStack st, ref_counts = counts\<rparr>)" "attrs_ok cat r pList" by blast
    have "skipped r = Inr False" "provAttrs r = []" "rte_kind r \<noteq> RTE_JOIN" "rte_kind r = RTE_RELATION \<or> prov_base r"
      using ok base by (simp_all add: contributes_def entry_ok_def is_base_def)
    then show ?thesis using p base base_entry_done [OF ok base, of al']
      by (intro exI [of _ "set_alias al' r"] exI [of _ "[pList]"] exI [of _ "\<lparr>pStack = pList # pStack st, ref_counts = counts\<rparr>"])
        (simp add: rewriteRTEs.simps r)
  next
    case sub
    from IH [OF sub(3,4), of st] obtain q' st' pList where
      p: "rewriteSPJQuery cat q st = Inr (q', st')" "pStack st' = pList # pStack st" "query_done cat q q' pList"
      unfolding rewritten_def by blast
    have "skipped r = Inr False" "provAttrs r = []" "\<not> prov_base r" using ok sub by (simp_all add: contributes_def entry_ok_def is_base_def)
    then show ?thesis using p sub subquery_entry_done [OF sub(3) ok sub(1,2) p(3)]
      by (intro exI [of _ "set_kind (RTE_SUBQUERY q') r"] exI [of _ "[pList]"] exI [of _ st']) (simp add: rewriteRTEs.simps r)
  qed
qed

lemma rewriteRTEs_ok:
  assumes "list_all (entry_ok cat) rts" "\<forall>r \<in> set rts. \<forall>q st. rte_kind r = RTE_SUBQUERY q \<longrightarrow> query_ok cat q \<longrightarrow> rewritten cat q st"
  shows "\<exists>rts' st' psets. rewriteRTEs cat rts i st = Inr (rts', map fst (filter (contributes \<circ> snd) (enumerate i rts)), st') \<and>
    pStack st' = rev psets @ pStack st \<and> list_all2 (entry_done cat) rts (correctSubQueryAlias rts') \<and>
    list_all2 (attrs_ok cat) (filter contributes rts) psets"
  using assms
proof (induction rts arbitrary: i st)
  case Nil
  then show ?case by (simp add: rewriteRTEs.simps correctSubQueryAlias_def)
next
  case (Cons r rts)
  have ok: "entry_ok cat r" "list_all (entry_ok cat) rts" using Cons.prems(1) by simp_all
  have sub: "\<And>q st. rte_kind r = RTE_SUBQUERY q \<Longrightarrow> query_ok cat q \<Longrightarrow> rewritten cat q st"
    "\<forall>r \<in> set rts. \<forall>q st. rte_kind r = RTE_SUBQUERY q \<longrightarrow> query_ok cat q \<longrightarrow> rewritten cat q st"
    using Cons.prems(2) by simp_all
  from rewriteRTEs_Cons [of cat r rts i st, OF ok(1) sub(1)] obtain r' ps st1 where
    1: "rewriteRTEs cat (r # rts) i st =
      res_bind (rewriteRTEs cat rts (Suc i) st1) (\<lambda>(rts, subs, st). Inr (r' # rts, (if contributes r then [i] else []) @ subs, st))"
      "pStack st1 = rev ps @ pStack st" "entry_done cat r (correctRTEAlias r')"
      "if contributes r then \<exists>p. ps = [p] \<and> attrs_ok cat r p else ps = []"
    by blast
  from Cons.IH [of "Suc i" st1, OF ok(2) sub(2)] obtain rts' st2 psets where
    2: "rewriteRTEs cat rts (Suc i) st1 = Inr (rts', map fst (filter (contributes \<circ> snd) (enumerate (Suc i) rts)), st2)"
      "pStack st2 = rev psets @ pStack st1" "list_all2 (entry_done cat) rts (correctSubQueryAlias rts')"
      "list_all2 (attrs_ok cat) (filter contributes rts) psets"
    by blast
  show ?case using 1 2
    by (intro exI [of _ "r' # rts'"] exI [of _ st2] exI [of _ "ps @ psets"]) (auto simp: correctSubQueryAlias_def comp_def split: if_splits)
qed

section \<open>Limits\<close>

text \<open>The join of a query with its rewritten form: the condition compares the columns of the query.\<close>

definition same_columns_cond :: "nat \<Rightarrow> Expression" where
  "same_columns_cond n = AndExpr (map (\<lambda>k. createNotDistinctConditionForVars (1, k) (2, k)) [1..<Suc n])"

definition limit_entry :: "SelectQuery \<Rightarrow> string \<Rightarrow> RTE" where
  "limit_entry q name = RTE (RTE_SUBQUERY q) 0 False (Some name) (Some name) (map resname (target_list q)) [] []"

lemma expand_limit_entry:
  assumes "query_ok cat q"
  shows "\<exists>cols. expandRTEWithParam cat (limit_entry q name) i = Inr cols \<and> map snd cols = map (Pair i) [1..<Suc (length (target_list q))]"
proof -
  have "map resno (target_list q) = [Suc 0..<Suc 0 + length (target_list q)]" "list_all (\<lambda>te. \<not> resjunk te) (target_list q)"
    using query_ok_targets [OF assms] by simp_all
  from expand_subquery_vars [OF this, of "map resname (target_list q)" i] show ?thesis
    by (auto simp: expandRTEWithParam_def limit_entry_def)
qed

lemma zip_columns:
  assumes "map snd l = map (Pair i) [1..<Suc n]" "map snd r = map (Pair j) [1..<Suc (n + m)]"
  shows "map (\<lambda>(a, b). f (snd a) (snd b)) (zip (take n l) (take n r)) = map (\<lambda>k. f (i, k) (j, k)) [1..<Suc n]"
proof -
  have "map (\<lambda>(a, b). f (snd a) (snd b)) (zip (take n l) (take n r)) = map2 f (take n (map snd l)) (take n (map snd r))"
    by (simp add: take_map zip_map1 zip_map2 comp_def case_prod_unfold)
  also have "\<dots> = map (\<lambda>k. f (i, k) (j, k)) [1..<Suc n]"
    unfolding assms by (simp add: take_map zip_map1 zip_map2 zip_same_conv_map comp_def case_prod_unfold del: upt_Suc)
  finally show ?thesis .
qed

lemma handleLimit_query:
  assumes q: "query_ok cat q" and rq: "query_ok cat rq" "length (target_list rq) = length (target_list q) + m"
  shows "\<exists>join. handleLimit cat q rq = Inr (SelectQuery
      (map (\<lambda>(i, te). makeTargetEntry (Var 2 i) i (resname te) (resjunk te)) (enumerate 1 (target_list rq)))
      [limit_entry q ''originalQuery'', limit_entry rq ''rewrittenQuery'', join]
      [JoinExpr JOIN_INNER 3 (RangeTblRef 1) (RangeTblRef 2) (same_columns_cond (length (target_list q)))] None [] None None False) \<and>
    rte_kind join = RTE_JOIN \<and> eref_of join = Some ''newJoin'' \<and> provAttrs join = [] \<and> \<not> prov_base join \<and>
    joinaliasvars join = map (Pair 1) [1..<Suc (length (target_list q))] @ map (Pair 2) [1..<Suc (length (target_list rq))]"
proof -
  have e: "correctRTEAlias (addSubqueryToRT x name) = limit_entry x name" for x name
    by (simp add: correctRTEAlias_def addSubqueryToRT_def limit_entry_def)
  from expand_limit_entry [OF q, of "''originalQuery''" 1] obtain l where
    l: "expandRTEWithParam cat (limit_entry q ''originalQuery'') 1 = Inr l" "map snd l = map (Pair 1) [1..<Suc (length (target_list q))]" by blast
  from expand_limit_entry [OF rq(1), of "''rewrittenQuery''" 2] obtain r where
    r: "expandRTEWithParam cat (limit_entry rq ''rewrittenQuery'') 2 = Inr r" "map snd r = map (Pair 2) [1..<Suc (length (target_list rq))]" by blast
  have len: "length l = length (target_list q)" "length r = length (target_list rq)"
    using arg_cong [OF l(2), of length] arg_cong [OF r(2), of length] by (simp_all del: upt_Suc)
  have "createJoinOnAttrs cat (limit_entry q ''originalQuery'') (limit_entry rq ''rewrittenQuery'') (length (target_list q)) =
      Inr (same_columns_cond (length (target_list q)))"
    using zip_columns [OF l(2) r(2) [unfolded rq(2)], of createNotDistinctConditionForVars] l(1) r(1) len rq(2)
    by (simp add: createJoinOnAttrs_def same_columns_cond_def del: upt_Suc)
  then show ?thesis using l r by (simp add: handleLimit_def e adaptRTEsForJoins_def del: upt_Suc)
qed

lemma same_columns_holds:
  assumes "V 1 = Some x" "V 2 = Some y" "length x = n" "n \<le> length y"
  shows "holds ops V (same_columns_cond n) \<longleftrightarrow> take n y = x"
proof -
  have "eval_expr ops V (createNotDistinctConditionForVars (1, k) (2, k)) = Some (if y ! (k - 1) = x ! (k - 1) then 1 else 0)"
    if "k \<in> set [1..<Suc n]" for k
    using that assms by (auto simp: createNotDistinctConditionForVars_def lookup_var_def attr_def)
  then have "map (eval_expr ops V) (map (\<lambda>k. createNotDistinctConditionForVars (1, k) (2, k)) [1..<Suc n]) =
      map (\<lambda>k. Some (if y ! (k - 1) = x ! (k - 1) then 1 else 0)) [1..<Suc n]" by simp
  then have "holds ops V (same_columns_cond n) \<longleftrightarrow> (\<forall>k \<in> set [1..<Suc n]. y ! (k - 1) = x ! (k - 1))"
    unfolding holds_def same_columns_cond_def eval_expr.simps Let_def by (auto simp del: upt_Suc)
  also have "\<dots> \<longleftrightarrow> (\<forall>k < n. y ! k = x ! k)"
  proof
    assume *: "\<forall>k \<in> set [1..<Suc n]. y ! (k - 1) = x ! (k - 1)"
    show "\<forall>k < n. y ! k = x ! k"
    proof (intro allI impI)
      fix k assume "k < n"
      then show "y ! k = x ! k" using bspec [OF *, of "Suc k"] by (simp del: upt_Suc)
    qed
  qed (auto simp del: upt_Suc)
  also have "\<dots> \<longleftrightarrow> take n y = x" using assms(3,4) by (auto simp: list_eq_iff_nth_eq)
  finally show ?thesis .
qed

lemma map_attr_all: "map (attr y) [1..<Suc (length y)] = y"
  by (rule nth_equalityI) (simp_all add: attr_def del: upt_Suc)

lemma limit_query_eval:
  assumes join: "rte_kind join = RTE_JOIN" and len: "length (target_list rq) = length (target_list q) + m"
  shows "eval_query cat ops db (SelectQuery
      (map (\<lambda>(i, te). makeTargetEntry (Var 2 i) i (resname te) (resjunk te)) (enumerate 1 (target_list rq)))
      [limit_entry q a, limit_entry rq b, join]
      [JoinExpr JOIN_INNER 3 (RangeTblRef 1) (RangeTblRef 2) (same_columns_cond (length (target_list q)))] None [] None None False) =
    concat (map (\<lambda>x. filter (\<lambda>y. take (length (target_list q)) y = x) (eval_query cat ops db rq)) (eval_query cat ops db q))"
    (is "eval_query _ _ _ (SelectQuery ?tes ?rts ?items _ _ _ _ _) = _")
proof -
  let ?n = "length (target_list q)" and ?P = "\<lambda>A. holds ops A (same_columns_cond (length (target_list q)))"
  define src where "src = plain_source cat ops ?rts (map (entry_rows cat ops db) ?rts)"
  have src: "rows_of src 1 = eval_query cat ops db q" "rows_of src 2 = eval_query cat ops db rq" "oper src = ops" "\<And>i x. cols_of src i x = x"
    by (simp_all add: src_def plain_source_def entry_rows_def limit_entry_def)
  have P: "holds ops [1 \<mapsto> x, 2 \<mapsto> y] (same_columns_cond ?n) \<longleftrightarrow> take ?n y = x"
    if "x \<in> set (eval_query cat ops db q)" "y \<in> set (eval_query cat ops db rq)" for x y
    using eval_query_length [OF that(1)] eval_query_length [OF that(2)] len by (intro same_columns_holds) simp_all
  have T: "target_row src ?items ?tes ([1 \<mapsto> x] ++ [2 \<mapsto> y]) = y" if "y \<in> set (eval_query cat ops db rq)" for x y
  proof -
    have "from_env src ?items ([1 \<mapsto> x] ++ [2 \<mapsto> y]) 2 = Some y" by (simp add: src(4) Let_def)
    then have "target_row src ?items ?tes ([1 \<mapsto> x] ++ [2 \<mapsto> y]) = map (attr y \<circ> fst) (enumerate 1 (target_list rq))"
      by (simp add: target_row_def comp_def case_prod_unfold makeTargetEntry_def lookup_var_def del: from_env.simps)
    then show ?thesis using map_attr_all [of y] eval_query_length [OF that]
      unfolding map_map [symmetric] enumerate_upt by simp
  qed
  have E: "eval_from src ?items = concat (map (\<lambda>x. map (\<lambda>y. [1 \<mapsto> x] ++ [2 \<mapsto> y])
      (filter (\<lambda>y. take ?n y = x) (eval_query cat ops db rq))) (eval_query cat ops db q))"
    using P src(1) by (simp add: join_rows_def keeps_left_def keeps_right_def src comp_def filter_map cong: filter_cong map_cong)
  have "filter (where_holds src ?items None) xs = xs" for xs by (simp add: where_holds_def)
  then have "plain_rows cat ops db ?tes ?rts ?items None = map (target_row src ?items ?tes) (eval_from src ?items)"
    unfolding plain_rows_def Let_def src_def [symmetric] by simp
  also have "\<dots> = concat (map (\<lambda>x. filter (\<lambda>y. take ?n y = x) (eval_query cat ops db rq)) (eval_query cat ops db q))"
    unfolding E map_concat map_map comp_def using T by (auto intro!: arg_cong [where f = concat] map_cong map_idI)
  finally show ?thesis by (simp add: eval_query_rows limited_def)
qed

lemma limit_query_ok:
  assumes q: "query_ok cat q" "query_ok cat rq" "length (target_list rq) = length (target_list q) + m"
    and join: "rte_kind join = RTE_JOIN" "eref_of join = Some ''newJoin''" "provAttrs join = []" "\<not> prov_base join"
      "joinaliasvars join = map (Pair 1) [1..<Suc (length (target_list q))] @ map (Pair 2) [1..<Suc (length (target_list rq))]"
  shows "query_ok cat (SelectQuery
      (map (\<lambda>(i, te). makeTargetEntry (Var 2 i) i (resname te) (resjunk te)) (enumerate 1 (target_list rq)))
      [limit_entry q ''originalQuery'', limit_entry rq ''rewrittenQuery'', join]
      [JoinExpr JOIN_INNER 3 (RangeTblRef 1) (RangeTblRef 2) (same_columns_cond (length (target_list q)))] None [] None None False)"
    (is "query_ok cat (SelectQuery ?tes ?rts ?items _ _ _ _ _)")
proof (rule query_okI)
  let ?W = "\<lambda>i. width cat (?rts ! (i - 1))"
  have w: "?W 1 = length (target_list q)" "?W 2 = length (target_list rq)" by (simp_all add: width_def limit_entry_def)
  have c: "contributes (?rts ! (1 - 1))" "contributes (?rts ! (2 - 1))"
    by (simp_all add: contributes_def limit_entry_def skipped_def ignoreRTE_def)
  have "map resno ?tes = map fst (enumerate 1 (target_list rq))" by (simp add: comp_def case_prod_unfold makeTargetEntry_def)
  then show "map resno ?tes = [1..<Suc (length ?tes)]" by (simp only: enumerate_upt length_map length_enumerate plus_1_eq_Suc)
  have "list_all (\<lambda>te. \<not> resjunk te) (target_list rq)" using query_ok_targets [OF q(2)] by simp
  then show "list_all (\<lambda>te. \<not> resjunk te) ?tes" by (auto simp: list_all_iff makeTargetEntry_def enumerate_eq_zip dest!: set_zip_rightD)
  show "list_all (entry_ok cat) ?rts" using q(1,2) join by (simp add: entry_ok_def limit_entry_def)
  have "list_all (var_ok ?W ([1] @ [2])) (expr_vars (same_columns_cond (length (target_list q))))"
    using w q(3) by (simp add: same_columns_cond_def createNotDistinctConditionForVars_def list_all_iff var_ok_def del: upt_Suc)
  moreover have "list_all (var_ok ?W ([1] @ [2])) (joinaliasvars join)"
    using w by (auto simp: join(5) list_all_iff var_ok_def simp del: upt_Suc)
  ultimately show "list_all (item_ok ?W ?rts) ?items" using c join(1) by simp
  show "distinct (concat (map scope ?items))" by simp
  show "set (prov_refs ?rts) \<subseteq> set (concat (map scope ?items))" by (auto simp: in_prov_refs)
  show "list_all (var_ok ?W (concat (map scope ?items))) (expr_vars (te_expr te))" if "te \<in> set ?tes" for te
    using that w(2) by (auto simp: makeTargetEntry_def var_ok_def enumerate_eq_zip dest!: set_zip_leftD)
qed simp_all

lemma handleLimit_ok:
  assumes q: "query_ok cat q" "checkLimit q" and d: "query_done cat (no_limit q) rq pList"
  shows "\<exists>q'. handleLimit cat q rq = Inr q' \<and> query_done cat q q' pList"
proof -
  obtain tes rts items w dist off cnt m where s: "q = SelectQuery tes rts items w dist off cnt m" by (cases q)
  have "prov_rows cat ops db (no_limit q) = prov_rows cat ops db q" for ops db
    unfolding s no_limit.simps prov_rows_def SelectQuery.sel ..
  then have t: "target_list (no_limit q) = target_list q" "prov_width cat (no_limit q) = prov_width cat q"
    "prov_query cat ops db (no_limit q) = prov_rows cat ops db q" for ops db
    by (simp_all add: s prov_width.simps prov_query_rows checkLimit_def limited_def)
  have rq: "query_ok cat rq" "length (target_list rq) = length (target_list q) + prov_width cat q"
    using d by (simp_all add: query_done_def t)
  from handleLimit_query [OF q(1) rq] obtain join q' where
    q': "handleLimit cat q rq = Inr q'" "q' = SelectQuery
      (map (\<lambda>(i, te). makeTargetEntry (Var 2 i) i (resname te) (resjunk te)) (enumerate 1 (target_list rq)))
      [limit_entry q ''originalQuery'', limit_entry rq ''rewrittenQuery'', join]
      [JoinExpr JOIN_INNER 3 (RangeTblRef 1) (RangeTblRef 2) (same_columns_cond (length (target_list q)))] None [] None None False" and
    j: "rte_kind join = RTE_JOIN" "eref_of join = Some ''newJoin''" "provAttrs join = []" "\<not> prov_base join"
      "joinaliasvars join = map (Pair 1) [1..<Suc (length (target_list q))] @ map (Pair 2) [1..<Suc (length (target_list rq))]" by blast
  have "eval_query cat ops db q' = map (\<lambda>(t, p). t @ p) (prov_query cat ops db q)" if db: "tables_ok cat db" for ops db
  proof -
    have r: "eval_query cat ops db rq = map (\<lambda>(t, p). t @ p) (prov_rows cat ops db q)"
      using d db by (simp add: query_done_def t)
    have "query_ok cat (no_limit q)" using q(1) by (simp add: s query_ok.simps Let_def del: upt_Suc)
    then have "length (fst x) = length (target_list q)" if "x \<in> set (prov_rows cat ops db q)" for x
      using prov_query_fits [OF db, of "no_limit q" "fst x" "snd x" ops] that by (simp add: t)
    then have "filter (\<lambda>y. take (length (target_list q)) y = x) (eval_query cat ops db rq) =
        map (\<lambda>(t, p). t @ p) (filter (\<lambda>(t, p). t = x) (prov_rows cat ops db q))" for x
      by (auto simp: r filter_map comp_def case_prod_unfold intro!: arg_cong [where f = "map _"] filter_cong)
    then show ?thesis using q(2) limit_query_eval [OF j(1) rq(2), of cat ops db "''originalQuery''" "''rewrittenQuery''"]
      by (simp add: q'(2) prov_query_rows map_concat comp_def)
  qed
  moreover have "length (target_list q') = length (target_list rq)" by (simp add: q'(2))
  ultimately show ?thesis using q' limit_query_ok [OF q(1) rq j] d rq(2) by (simp add: query_done_def t)
qed

section \<open>The rewriting of a query\<close>

theorem rewriteSPJ_done: "query_ok cat q \<Longrightarrow> rewritten cat q st"
proof (induction "size q" arbitrary: q st rule: less_induct)
  case (less q st)
  have restrict: "\<exists>q' st' pList. rewriteSPJrestrict cat p st = Inr (q', st') \<and> pStack st' = pList # pStack st \<and> query_done cat p q' pList"
    if p: "size p = size q" "query_ok cat p" "\<not> checkLimit p" for p
  proof -
    obtain tes rts items w dist off cnt m where s: "p = SelectQuery tes rts items w dist off cnt m" by (cases p)
    have "rewritten cat q' st" if "r \<in> set rts" "rte_kind r = RTE_SUBQUERY q'" "query_ok cat q'" for r q' st
      using less.hyps [OF _ that(3)] rte_size [OF that(1,2)] p(1) s by simp
    then obtain rts' st' psets where r: "rewriteRTEs cat rts 1 st = Inr (rts', prov_refs rts, st')"
      "pStack st' = rev psets @ pStack st" "list_all2 (entry_done cat) rts (correctSubQueryAlias rts')"
      "on_stack (\<lambda>i. prov_pos cat (rts ! (i - 1))) (prov_refs rts) psets"
      using rewriteRTEs_ok [OF query_ok_facts(3) [OF p(2) [unfolded s]], of 1 st] on_stack_refs
      unfolding prov_refs_enumerate [symmetric] by blast
    from adapt_query_ok [OF s p(2,3) r(3,4,2)] r(1) show ?thesis by (fastforce simp: s rewriteSPJrestrict.simps)
  qed
  show ?case
  proof (cases "checkLimit q")
    case True
    have "query_ok cat (no_limit q)" using less.prems by (cases q) (simp add: query_ok.simps Let_def del: upt_Suc)
    from restrict [OF _ this] obtain rq st' pList where
      r: "rewriteSPJQuery cat (no_limit q) st = Inr (rq, st')" "pStack st' = pList # pStack st" "query_done cat (no_limit q) rq pList"
      by (auto simp: rewriteSPJQuery.simps [of cat "no_limit q"])
    from handleLimit_ok [OF less.prems True r(3)] r show ?thesis
      by (auto simp: rewritten_def rewriteSPJQuery.simps [of cat q] True)
  next
    case False
    then show ?thesis using restrict [OF _ less.prems] by (simp add: rewritten_def rewriteSPJQuery.simps [of cat q])
  qed
qed

end
