(* ===== verification/ProvSpjTuples.thy ===== *)
theory ProvSpjTuples
  imports ProvSpjMain
begin

text \<open>
  The rows of the original query in its provenance: \<open>prov_query\<close> has the rows of \<open>eval_query\<close> and no
  others, and exactly the same list of them when nothing in the query merges duplicates.
\<close>

section \<open>Forgetting the provenance\<close>

lemma forget_replaced:
  "replaced (\<lambda>_. fst) N (prov_source cat ops rts P) (plain_source cat ops rts R)"
  by (simp add: replaced_def prov_source_def plain_source_def)

lemma forget_where:
  assumes "A \<in> set (eval_from (prov_source cat ops rts P) items)"
  shows "where_holds (plain_source cat ops rts R) items w (img (\<lambda>_. fst) A) = where_holds (prov_source cat ops rts P) items w A"
    "target_row (plain_source cat ops rts R) items tes (img (\<lambda>_. fst) A) = target_row (prov_source cat ops rts P) items tes A"
proof -
  have e: "from_env (plain_source cat ops rts R) items (img (\<lambda>_. fst) A) = from_env (prov_source cat ops rts P) items A"
    by (rule img_from_env [OF forget_replaced eval_from_dom [OF assms]])
  have o: "oper (plain_source cat ops rts R) = ops" "oper (prov_source cat ops rts P) = ops"
    by (simp_all add: prov_source_def plain_source_def)
  show "where_holds (plain_source cat ops rts R) items w (img (\<lambda>_. fst) A) = where_holds (prov_source cat ops rts P) items w A"
    "target_row (plain_source cat ops rts R) items tes (img (\<lambda>_. fst) A) = target_row (prov_source cat ops rts P) items tes A"
    unfolding where_holds_def target_row_def e o by (rule refl)+
qed

lemma forget_rows_list:
  assumes refs: "set (concat (map refs items)) = set (prov_refs rts)"
    and rows: "\<And>r. r \<in> set rts \<Longrightarrow> contributes r \<Longrightarrow> map fst (entry_prov cat ops db r) = entry_rows cat ops db r"
  shows "map fst (annotated_rows cat ops db tes rts items w) = plain_rows cat ops db tes rts items w"
proof -
  let ?s = "prov_source cat ops rts (map (entry_prov cat ops db) rts)" and ?t = "plain_source cat ops rts (map (entry_rows cat ops db) rts)"
  have "rows_of ?t i = map fst (rows_of ?s i)" if "i \<in> set (prov_refs rts)" for i
    using that rows [of "rts ! (i - 1)"] by (auto simp: in_prov_refs prov_source_def plain_source_def)
  from eval_from_image [OF forget_replaced this] refs have e: "eval_from ?t items = map (img (\<lambda>_. fst)) (eval_from ?s items)" by blast
  note f = forget_where [of _ cat ops rts "map (entry_prov cat ops db) rts" items "map (entry_rows cat ops db) rts"]
  have w: "filter (where_holds ?t items w \<circ> img (\<lambda>_. fst)) (eval_from ?s items) = filter (where_holds ?s items w) (eval_from ?s items)"
    by (rule filter_cong [OF refl]) (simp only: comp_apply f(1))
  show ?thesis unfolding annotated_rows_def plain_rows_def Let_def e filter_map map_map w
    by (rule map_cong [OF refl]) (simp add: f(2))
qed

lemma forget_rows_set:
  assumes refs: "set (concat (map refs items)) = set (prov_refs rts)"
    and rows: "\<And>r. r \<in> set rts \<Longrightarrow> contributes r \<Longrightarrow> fst ` set (entry_prov cat ops db r) = set (entry_rows cat ops db r)"
  shows "fst ` set (annotated_rows cat ops db tes rts items w) = set (plain_rows cat ops db tes rts items w)"
proof -
  let ?s = "prov_source cat ops rts (map (entry_prov cat ops db) rts)" and ?t = "plain_source cat ops rts (map (entry_rows cat ops db) rts)"
  have "set (rows_of ?t i) = fst ` set (rows_of ?s i)" if "i \<in> set (prov_refs rts)" for i
  proof -
    have "i - 1 < length rts" "contributes (rts ! (i - 1))" using that by (auto simp: in_prov_refs)
    then show ?thesis using rows [of "rts ! (i - 1)"] by (simp add: prov_source_def plain_source_def)
  qed
  from set_eval_from_image [OF forget_replaced this] refs have e: "set (eval_from ?t items) = img (\<lambda>_. fst) ` set (eval_from ?s items)" by blast
  note f = forget_where [of _ cat ops rts "map (entry_prov cat ops db) rts" items "map (entry_rows cat ops db) rts"]
  have w: "{B \<in> img (\<lambda>_. fst) ` set (eval_from ?s items). where_holds ?t items w B} =
      img (\<lambda>_. fst) ` {A \<in> set (eval_from ?s items). where_holds ?s items w A}"
    using f(1) by blast
  show ?thesis unfolding annotated_rows_def plain_rows_def Let_def set_map set_filter e w image_image
    by (rule image_cong [OF refl]) (simp add: f(2))
qed

section \<open>DISTINCT\<close>

lemma distinct_on_images: "f ` set (distinct_on f xs) = f ` set xs"
proof (induction xs)
  case (Cons x xs)
  have "f y \<in> f ` set (x # filter (\<lambda>y. f y \<noteq> f x) (distinct_on f xs))" if "y \<in> set xs" for y
  proof -
    have "f y \<in> f ` set (distinct_on f xs)" using that Cons.IH by simp
    then show ?thesis by (cases "f y = f x") auto
  qed
  then show ?case using set_distinct_on [of f xs] by auto
qed simp

lemma distinct_on_inj: "inj_on f (set xs) \<Longrightarrow> set (distinct_on f xs) = set xs"
  using distinct_on_images [of f xs] set_distinct_on [of f xs] by (simp add: inj_on_image_eq_iff)

lemma distinct_key_all: "length t = length tes \<Longrightarrow> list_all (\<lambda>te. ressortgroupref te \<in> set dist) tes \<Longrightarrow> distinct_key tes dist t = t"
proof -
  assume *: "length t = length tes" "list_all (\<lambda>te. ressortgroupref te \<in> set dist) tes"
  have "filter (\<lambda>(te, v). ressortgroupref te \<in> set dist) (zip tes t) = zip tes t"
    using * by (intro filter_True) (auto simp: list_all_iff dest: set_zip_leftD)
  then show ?thesis using * by (simp add: distinct_key_def)
qed

section \<open>Queries\<close>

text \<open>The subqueries of a well-formed query whose rows contribute are well-formed.\<close>

lemma contributing_entry:
  assumes "query_ok cat (SelectQuery tes rts items w dist off cnt m)" "r \<in> set rts" "contributes r" "\<not> is_base r"
  obtains q where "rte_kind r = RTE_SUBQUERY q" "query_ok cat q" "size q < size (SelectQuery tes rts items w dist off cnt m)"
proof -
  have "entry_ok cat r" using query_ok_facts(3) [OF assms(1)] assms(2) by (simp add: list_all_iff)
  then obtain q where "rte_kind r = RTE_SUBQUERY q" "query_ok cat q"
    using assms(3,4) by (cases "rte_kind r") (auto simp: entry_ok_def contributes_def is_base_def)
  with rte_size [OF assms(2)] show thesis by (intro that) auto
qed

lemma entry_prov_base: "is_base r \<Longrightarrow> map fst (entry_prov cat ops db r) = entry_rows cat ops db r"
  by (simp add: entry_prov_def comp_def)

lemma forget_query_list:
  "query_ok cat q \<Longrightarrow> \<not> checkForNTupleDupConstructs q \<Longrightarrow> map fst (prov_query cat ops db q) = eval_query cat ops db q"
proof (induction "size q" arbitrary: q rule: less_induct)
  case (less q)
  obtain tes rts items w dist off cnt m where s: "q = SelectQuery tes rts items w dist off cnt m" by (cases q)
  have "map fst (entry_prov cat ops db r) = entry_rows cat ops db r" if r: "r \<in> set rts" "contributes r" for r
  proof (cases "is_base r")
    case False
    obtain q' where q': "rte_kind r = RTE_SUBQUERY q'" "query_ok cat q'" "size q' < size q"
      unfolding s by (rule contributing_entry [OF less.prems(1) [unfolded s] r False])
    then have "\<not> checkForNTupleDupConstructs q'" using less.prems(2) r(1) by (force simp: s)
    then show ?thesis using less.hyps [OF q'(3,2)] q'(1) False by (simp add: entry_prov_def entry_rows_def)
  qed (rule entry_prov_base)
  from forget_rows_list [OF query_ok_facts(6) [OF less.prems(1) [unfolded s]] this] less.prems(2) show ?case
    by (simp add: s prov_query_rows prov_rows_def eval_query_rows checkLimit_def map_limited)
qed

lemma no_limit_rows: "limited None None xs = xs"
  by (simp add: limited_def)

lemma matching_rows: "fst ` set (concat (map (\<lambda>t. filter (\<lambda>(t', p). t' = t) xs) ys)) = set ys \<inter> fst ` set xs"
  by (force simp: image_iff)

lemma forget_query_set:
  "query_ok cat q \<Longrightarrow> plain_distinct q \<Longrightarrow> fst ` set (prov_query cat ops db q) = set (eval_query cat ops db q)"
proof (induction "size q" arbitrary: q rule: less_induct)
  case (less q)
  obtain tes rts items w dist off cnt m where s: "q = SelectQuery tes rts items w dist off cnt m" by (cases q)
  let ?P = "annotated_rows cat ops db tes rts items w" and ?R = "plain_rows cat ops db tes rts items w"
  let ?E = "if dist = [] then ?R else distinct_on (distinct_key tes dist) ?R"
  have "fst ` set (entry_prov cat ops db r) = set (entry_rows cat ops db r)" if r: "r \<in> set rts" "contributes r" for r
  proof (cases "is_base r")
    case False
    obtain q' where q': "rte_kind r = RTE_SUBQUERY q'" "query_ok cat q'" "size q' < size q"
      unfolding s by (rule contributing_entry [OF less.prems(1) [unfolded s] r False])
    then have "plain_distinct q'" using less.prems(2) r(1) by (force simp: s plain_distinct.simps)
    then show ?thesis using less.hyps [OF q'(3,2)] q'(1) False by (simp add: entry_prov_def entry_rows_def)
  qed (simp add: entry_prov_base [symmetric])
  from forget_rows_set [OF query_ok_facts(6) [OF less.prems(1) [unfolded s]] this] have rows: "fst ` set ?P = set ?R" .
  have key: "distinct_key tes dist t = t" if "t \<in> set ?R" "dist \<noteq> []" for t
    using that less.prems(2) plain_rows_length [OF that(1)] by (simp add: s plain_distinct.simps distinct_key_all)
  have E: "set ?E = set ?R" using key by (simp add: distinct_on_inj inj_on_def)
  have "set (distinct_on (\<lambda>(t, p). (distinct_key tes dist t, p)) ?P) = set ?P" if "dist \<noteq> []"
  proof (intro distinct_on_inj inj_onI)
    fix x y assume xy: "x \<in> set ?P" "y \<in> set ?P" "(\<lambda>(t, p). (distinct_key tes dist t, p)) x = (\<lambda>(t, p). (distinct_key tes dist t, p)) y"
    have "fst x \<in> set ?R" "fst y \<in> set ?R" using imageI [OF xy(1), of fst] imageI [OF xy(2), of fst] rows by blast+
    with key [OF _ that] xy(3) show "x = y" by (simp add: case_prod_unfold prod_eq_iff)
  qed
  then have P: "set (prov_rows cat ops db q) = set ?P"
    unfolding s prov_rows_def SelectQuery.sel Let_def by simp
  show ?case
  proof (cases "checkLimit q")
    case True
    have "set (eval_query cat ops db q) \<subseteq> fst ` set (prov_rows cat ops db q)"
      using set_limited [of off cnt ?E] unfolding P rows E unfolding s eval_query_rows .
    then show ?thesis by (simp only: prov_query_rows True if_True matching_rows Int_absorb2)
  next
    case False
    show ?thesis
    proof (cases "off = None \<and> cnt = None")
      case True
      then show ?thesis using False P rows E by (simp add: s prov_query_rows eval_query_rows no_limit_rows)
    next
      case lim: False
      then have "\<not> checkForNTupleDupConstructs q" using False by (auto simp: s checkLimit_def)
      from forget_query_list [OF less.prems(1) this, of ops db] show ?thesis by (simp flip: set_map)
    qed
  qed
qed

end
