(* ===== verification/ProvSpjProps.thy ===== *)
theory ProvSpjProps
  imports ProvSpjTuples
begin

text \<open>
  The properties of the rewriting of select-project-join queries, with an example: a query over a
  duplicate-free subquery, an outer join and a limit.
\<close>

section \<open>An example\<close>

definition two_tables :: schema where
  "two_tables =
     \<lparr>rel_names = \<lparr>get_rel_namespace_name = (\<lambda>_. Some ''public''), get_rel_name = (\<lambda>rid. Some (if rid = 1 then ''r'' else ''s''))\<rparr>,
      rel_atts = (\<lambda>_. [(''a'', False), (''b'', False)])\<rparr>"

definition table_ref :: "nat \<Rightarrow> string \<Rightarrow> RTE" where
  "table_ref rid name = RTE RTE_RELATION rid False None (Some name) [''a'', ''b''] [] []"

text \<open>\<open>SELECT DISTINCT a FROM r\<close>, and \<open>SELECT x.a, s.b FROM (...) x LEFT JOIN s ON x.a = s.a LIMIT 2\<close>.\<close>

definition distinct_query :: SelectQuery where
  "distinct_query = SelectQuery [\<lparr>te_expr = Var 1 1, resno = 1, resname = ''a'', ressortgroupref = 1, resjunk = False\<rparr>]
     [table_ref 1 ''r''] [RangeTblRef 1] None [1] None None False"

definition join_query :: "nat option \<Rightarrow> SelectQuery" where
  "join_query cnt = SelectQuery
     [makeTargetEntry (Var 3 1) 1 ''a'' False, makeTargetEntry (Var 3 3) 2 ''b'' False]
     [RTE (RTE_SUBQUERY distinct_query) 0 False (Some ''x'') (Some ''x'') [''a''] [] [], table_ref 2 ''s'',
      RTE RTE_JOIN 0 False None (Some ''j'') [''a'', ''a'', ''b''] [] [(1, 1), (2, 1), (2, 2)]]
     [JoinExpr JOIN_LEFT 3 (RangeTblRef 1) (RangeTblRef 2) (OpExpr 96 [Var 1 1, Var 2 1])] None [] None cnt True"

definition int_eq :: operators where
  "int_eq f vs = (case vs of [Some x, Some y] \<Rightarrow> Some (if x = y then 1 else 0) | _ \<Rightarrow> None)"

definition two_rows :: tables where
  "two_rows rel =
     (if rel = 1 then [[Some 1, Some 10], [Some 1, Some 20], [Some 2, None]] else if rel = 2 then [[Some 1, Some 7]] else [])"

definition no_attrs :: rewrite_state where
  "no_attrs = \<lparr>pStack = [], ref_counts = \<lparr>relRefCount = [], queryRefCount = []\<rparr>\<rparr>"

lemma two_rows_ok: "tables_ok two_tables two_rows"
  by (auto simp: tables_ok_def two_rows_def two_tables_def)

lemma join_query_ok: "query_ok two_tables (join_query (Some 2))"
  by code_simp

section \<open>Rewriting\<close>



text \<open>C2: the rewritten query is well-formed; behind the columns of the original it has one column for each
  column of the contributing base relations, and the list of these columns, left on the stack of the
  rewriter for the query around it, has their positions.\<close>

theorem rewrite_well_formed:
  assumes "query_ok cat q"
  shows "\<exists>q' st' pList. rewriteSPJQuery cat q st = Inr (q', st') \<and> query_ok cat q' \<and>
    length (target_list q') = length (target_list q) + prov_width cat q \<and> pStack st' = pList # pStack st \<and>
    map resno pList = [Suc (length (target_list q))..<Suc (length (target_list q'))] \<and> list_all (\<lambda>te. is_Var (te_expr te)) pList"
  using rewriteSPJ_done [OF assms, of st] unfolding rewritten_def query_done_def by (metis add_Suc)

theorem rewrite_well_formed_witness:
  "query_ok two_tables (join_query (Some 2)) \<and>
   (\<exists>q' st' pList. rewriteSPJQuery two_tables (join_query (Some 2)) no_attrs = Inr (q', st') \<and> query_ok two_tables q' \<and>
    length (target_list q') = 6 \<and> pStack st' = [pList] \<and> map resno pList = [3, 4, 5, 6])"
proof -
  have "length (target_list (join_query (Some 2))) = 2" "prov_width two_tables (join_query (Some 2)) = 4" "pStack no_attrs = []"
    by code_simp+
  moreover have "[Suc 2..<Suc 6] = [3, 4, 5, 6]" by code_simp
  ultimately show ?thesis using rewrite_well_formed [OF join_query_ok, of no_attrs] join_query_ok by fastforce
qed

text \<open>C3: the rewriting keeps the answer: the rows of the rewritten query, cut to the columns of the original,
  are the rows of the original, as sets.\<close>

theorem rewrite_keeps_rows:
  assumes "query_ok cat q" "plain_distinct q" "tables_ok cat db" "rewriteSPJQuery cat q st = Inr (q', st')"
  shows "set (map (take (length (target_list q))) (eval_query cat ops db q')) = set (eval_query cat ops db q)"
proof -
  have e: "eval_query cat ops db q' = map (\<lambda>(t, p). t @ p) (prov_query cat ops db q)"
    using rewriteSPJ_done [OF assms(1), of st] assms(3,4) unfolding rewritten_def query_done_def by auto
  have "take (length (target_list q)) (t @ p) = t" if "(t, p) \<in> set (prov_query cat ops db q)" for t p
    using prov_query_fits [OF assms(3,1) that] by simp
  then have "set (map (take (length (target_list q))) (eval_query cat ops db q')) = fst ` set (prov_query cat ops db q)"
    unfolding e by (force simp: image_iff)
  then show ?thesis using forget_query_set [OF assms(1,2)] by simp
qed

theorem rewrite_keeps_rows_witness:
  "\<exists>q' st'. rewriteSPJQuery two_tables (join_query (Some 2)) no_attrs = Inr (q', st') \<and>
    set (map (take 2) (eval_query two_tables int_eq two_rows q')) = {[Some 1, Some 7], [Some 2, None]}"
proof -
  obtain q' st' where r: "rewriteSPJQuery two_tables (join_query (Some 2)) no_attrs = Inr (q', st')"
    using rewriteSPJ_done [OF join_query_ok, of no_attrs] unfolding rewritten_def by blast
  have "plain_distinct (join_query (Some 2))" "length (target_list (join_query (Some 2))) = 2"
    "set (eval_query two_tables int_eq two_rows (join_query (Some 2))) = {[Some 1, Some 7], [Some 2, None]}"
    by code_simp+
  then show ?thesis using rewrite_keeps_rows [OF join_query_ok _ two_rows_ok r, of int_eq] r by auto
qed

text \<open>C4: when neither the query nor a subquery has a \<open>DISTINCT\<close> clause, a limit included or not, the rewritten
  query returns the rows of the original one for one and in the same order.\<close>

theorem rewrite_keeps_order:
  assumes "query_ok cat q" "\<not> checkForNTupleDupConstructs q" "tables_ok cat db" "rewriteSPJQuery cat q st = Inr (q', st')"
  shows "map (take (length (target_list q))) (eval_query cat ops db q') = eval_query cat ops db q"
proof -
  have e: "eval_query cat ops db q' = map (\<lambda>(t, p). t @ p) (prov_query cat ops db q)"
    using rewriteSPJ_done [OF assms(1), of st] assms(3,4) unfolding rewritten_def query_done_def by auto
  have "map (take (length (target_list q))) (eval_query cat ops db q') = map fst (prov_query cat ops db q)"
    unfolding e map_map using prov_query_fits [OF assms(3,1)] by (intro map_cong) auto
  then show ?thesis using forget_query_list [OF assms(1,2)] by simp
qed

text \<open>\<open>SELECT r.b, s.b FROM r, s WHERE r.a = s.a LIMIT 1 OFFSET 1\<close>.\<close>

definition product_query :: SelectQuery where
  "product_query = SelectQuery
     [makeTargetEntry (Var 1 2) 1 ''b'' False, makeTargetEntry (Var 2 2) 2 ''b'' False]
     [table_ref 1 ''r'', table_ref 2 ''s''] [RangeTblRef 1, RangeTblRef 2] (Some (OpExpr 96 [Var 1 1, Var 2 1])) []
     (Some 1) (Some 1) True"

theorem rewrite_keeps_order_witness:
  "\<exists>q' st'. rewriteSPJQuery two_tables product_query no_attrs = Inr (q', st') \<and>
    map (take 2) (eval_query two_tables int_eq two_rows q') = [[Some 20, Some 7]]"
proof -
  have ok: "query_ok two_tables product_query" by code_simp
  obtain q' st' where r: "rewriteSPJQuery two_tables product_query no_attrs = Inr (q', st')"
    using rewriteSPJ_done [OF ok, of no_attrs] unfolding rewritten_def by blast
  have "\<not> checkForNTupleDupConstructs product_query" "length (target_list product_query) = 2"
    "eval_query two_tables int_eq two_rows product_query = [[Some 20, Some 7]]"
    by code_simp+
  then show ?thesis using rewrite_keeps_order [OF ok _ two_rows_ok r, of int_eq] r by auto
qed

section \<open>Marked queries\<close>

lemma cut_at_first:
  "snd (foldl (\<lambda>(pos, cur) te. (Suc pos, if P te then take pos cur else cur)) (n, cur) tes) =
     (if \<exists>te \<in> set tes. P te then take (n + length (takeWhile (\<lambda>te. \<not> P te) tes)) cur else cur)"
  by (induction tes arbitrary: n cur) (auto simp: min_def)

lemma removeDummyProvenanceTEs_takeWhile:
  "removeDummyProvenanceTEs tes = takeWhile (\<lambda>te. \<not> isProvAttr (Some (resname te))) tes"
proof -
  have "removeDummyProvenanceTEs tes =
      (if \<exists>te \<in> set tes. isProvAttr (Some (resname te))
       then take (length (takeWhile (\<lambda>te. \<not> isProvAttr (Some (resname te))) tes)) tes else tes)"
    using cut_at_first [of "\<lambda>te. isProvAttr (Some (resname te))" 0 tes tes] by (simp add: removeDummyProvenanceTEs_def)
  then show ?thesis by (metis (no_types, lifting) takeWhile_eq_all_conv takeWhile_eq_take)
qed



text \<open>C31: the removal goes by names and stops at the first: a column of the user whose name looks like that of a
  provenance column is lost, and all columns behind it.\<close>

theorem column_named_like_provenance_lost:
  assumes "list_all (\<lambda>te. \<not> isProvAttr (Some (resname te))) tes" "isProvAttr (Some (resname te))"
  shows "traverseQueryTree cat (SelectQuery (tes @ te # rest) rts items w dist off cnt True) st =
    traverseQueryTree cat (SelectQuery tes rts items w dist off cnt True) st"
proof -
  have "removeDummyProvenanceTEs (tes @ te # rest) = tes" "removeDummyProvenanceTEs tes = tes"
    unfolding removeDummyProvenanceTEs_takeWhile using assms by (simp_all add: list_all_iff)
  then show ?thesis by simp
qed

theorem column_named_like_provenance_lost_witness:
  "traverseQueryTree two_tables (SelectQuery [makeTargetEntry (Var 1 1) 1 ''a'' False, makeTargetEntry (Var 1 2) 2 ''prov_v'' False,
      makeTargetEntry (Var 1 2) 3 ''b'' False] [table_ref 1 ''r''] [RangeTblRef 1] None [] None None True) no_attrs =
    traverseQueryTree two_tables (SelectQuery [makeTargetEntry (Var 1 1) 1 ''a'' False]
      [table_ref 1 ''r''] [RangeTblRef 1] None [] None None True) no_attrs"
proof -
  have "list_all (\<lambda>te. \<not> isProvAttr (Some (resname te))) [makeTargetEntry (Var 1 1) 1 ''a'' False]"
    "isProvAttr (Some (resname (makeTargetEntry (Var 1 2) 2 ''prov_v'' False)))" by code_simp+
  from column_named_like_provenance_lost [OF this] show ?thesis by simp
qed

section \<open>Queries that are not rewritten correctly\<close>

text \<open>C32: a query over a function or a \<open>VALUES\<close> list is not rewritten: the entry is counted among those with
  provenance attributes, but none are pushed for it.\<close>

theorem function_in_from_fails:
  assumes "rte_kind r = RTE_FUNCTION \<or> rte_kind r = RTE_VALUES" "skipped r = Inr False" "provAttrs r = []" "\<not> prov_base r"
    and "pStack st = []"
  shows "rewriteSPJQuery cat (SelectQuery tes [r] [RangeTblRef 1] w dist None None m) st = Inl AssertFailed"
proof -
  obtain k rel b al er cs ps js where r: "r = RTE k rel b al er cs ps js" by (cases r)
  have "rewriteRTEs cat [r] 1 st = Inr ([r], [1], st)" using assms(1-4) by (auto simp: r rewriteRTEs.simps)
  then show ?thesis using assms(5)
    by (simp add: rewriteSPJQuery.simps rewriteSPJrestrict.simps checkLimit_def adapt_query_def addProvenanceAttrs_def cassert_def)
qed

theorem function_in_from_fails_witness:
  "rewriteSPJQuery two_tables (SelectQuery [makeTargetEntry (Var 1 1) 1 ''i'' False]
      [RTE RTE_FUNCTION 0 False None (Some ''generate_series'') [''i''] [] []] [RangeTblRef 1] None [] None None True) no_attrs =
    Inl AssertFailed"
  by (rule function_in_from_fails) (simp_all add: skipped_def ignoreRTE_def no_attrs_def)



end
