(* ===== verification/Spec2Isabelle.thy ===== *)
theory Spec2Isabelle
  imports PgListProps ProvStackProps TransProps LdvProps BmsProps AttrProps LzProps LikeProps EncodeProps ProvSpjProps
begin

text \<open>
  LDV is PostgreSQL 8.3 with the provenance extension Perm, and a client library that captures what
  an application does with its database and replays it elsewhere.  This development models the parts
  that LDV and Perm add and that do not need the parser, the planner or the executor of the server,
  the list library of the server on which they rest, and some libraries of the server that stand on
  their own: bitmap sets, hash functions, compression, LIKE and the binary encodings.

  \<^bold>\<open>The parts and how they fit together\<close>

  The server rewrites a query so that it also computes its provenance.  The rewriter keeps its state
  in linked lists (\<open>src/backend/nodes/list.c\<close>), which it uses as stacks
  (\<open>src/backend/provrewrite/util/prov_stack.c\<close>).  \<open>traverseQueryTree\<close> in
  \<open>src/backend/provrewrite/main/provrewrite.c\<close> finds the queries marked \<open>SELECT PROVENANCE\<close>; those that
  select, join and project are rewritten by \<open>src/backend/provrewrite/main/prov_spj.c\<close> with the helpers of
  \<open>src/backend/provrewrite/util/prov_util.c\<close>: every entry of the range table leaves a list of provenance
  attributes on the stack, joins get columns for them, and the query gets them behind its own columns,
  under names made by \<open>src/backend/provrewrite/util/prov_attrname.c\<close>.  For transformation provenance, it gives a number
  to every operation of a query and computes for it a set of numbers
  (\<open>src/backend/provrewrite/transformationp/prov_trans_staticana.c\<close>), as a bit string
  (\<open>src/backend/provrewrite/adt/prov_trans_bitset.c\<close>).  The printed query is kept in a global table,
  and at run time a bit string is turned into a text that marks the operations that did not
  contribute.  The table is emptied at the start of each statement
  (\<open>provenanceRewriteQuery\<close> in \<open>src/backend/provrewrite/main/provrewrite.c\<close>).

  The client library (\<open>src/interfaces/libpq/fe-exec.c\<close>, with hooks in \<open>fe-connect.c\<close> and
  \<open>fe-secure.c\<close>) has a mode.  In mode 21 \<open>PQexec\<close> adds provenance columns to the tables a statement
  uses, asks the server for the provenance of the statement and writes definitions, tuples and
  statements to a log; in mode 22 \<open>PQconnectdb\<close> creates the database again from that log.  In mode
  31 the bytes that the server sends are written to the log, in mode 32 they are read from it.  The
  statements with which the client fetches the tuples of a query name the provenance attributes that
  the server creates.

  \<^bold>\<open>Theories\<close>

  \<^item> \<open>Prelude\<close>: results of fallible code (\<open>cfault + 'a\<close>, the left side is a crash or an error report
    of the C code), their bind, and lemmas on lists that all components share.
  \<^item> \<open>PgList\<close>: every function of \<open>list.c\<close>, one definition each, on a store of cells and headers with
    allocation and freeing; assertions of a debug build are faults.  \<open>PgListRep\<close> says when a header
    represents a HOL list; \<open>PgListSpec\<close>, \<open>PgListSets\<close> and \<open>PgListApi\<close> prove what each function does to
    it and what it leaves alone; the locales \<open>list_set\<close> and \<open>cell_access\<close> are the contracts that the
    pointer, integer, oid and node variants share.  \<open>PgListProps\<close> has the properties.
  \<^item> \<open>ProvStack\<close>: every function of \<open>prov_stack.c\<close> on the same store.  \<open>ProvSort\<close> treats the two bubble
    sorts, \<open>ProvStackSpec\<close> the locale \<open>stack\<close> that \<open>push\<close> and \<open>pop\<close> implement, \<open>ProvStackPos\<close> and
    \<open>ProvStackMore\<close> the functions on positions and predicates, \<open>ProvStackProps\<close> the properties.
  \<^item> \<open>VarBits\<close>: bit strings as bytes (\<open>VarBit\<close>) and all operations on them of \<open>prov_trans_bitset.c\<close>,
    with \<open>elems\<close>, the set a bit string stands for.  \<open>Bitset\<close>: the locale \<open>bit_sets\<close>, which the
    operations implement for each length.
  \<^item> \<open>TransRep\<close>: \<open>TransRepQueryInfo\<close>, \<open>postprocessRanges\<close>, \<open>generateTransProvRep\<close>, \<open>generateMapRep\<close>.
    \<open>TransRepSpec\<close> specifies the result as a text with marks; \<open>TransRepCorrect\<close> proves that the loops
    compute it and stay inside their buffers.
  \<^item> \<open>TransIndex\<close>: the global table with \<open>dropTransProvQueryIndex\<close>, \<open>releaseHold\<close>, the functions that add
    entries, and a session of statements.  \<open>TransIndexSpec\<close> has its invariant \<open>index_ok\<close> and the effect
    of each operation.
  \<^item> \<open>TransStatic\<close>: \<open>prov_trans_staticana.c\<close> on query trees that have what it reads.
    \<open>TransStaticSpec\<close>: numbering, static operations and sets.  \<open>TransProps\<close> has the properties.
  \<^item> \<open>ProvAttrName\<close>: all of \<open>prov_attrname.c\<close>; the names in the catalog are a parameter.  \<open>AttrProps\<close>: the
    names against the statements of the client.
  \<^item> \<open>ProvSpj\<close>: query trees (\<open>SelectQuery\<close>, \<open>RTE\<close>), and as functions on them \<open>prov_spj.c\<close>, what it calls of
    \<open>prov_util.c\<close> and \<open>src/backend/parser/parse_relation.c\<close>, and \<open>traverseQueryTree\<close>; the state is the stack
    of attribute lists and the counters of references.
  \<^item> \<open>ProvSpjSem\<close>: the specification.  \<open>eval_query\<close> is the SQL meaning of a query, a list of rows;
    \<open>prov_query\<close> adds to each row the base rows that contribute to it; \<open>query_ok\<close> says which trees are
    well-formed (variables in scope, numbered target lists, no dropped columns, no functions in FROM).
    The FROM clause is evaluated once and for all, for entries with rows of any type.
  \<^item> \<open>ProvSpjFrom\<close>: the FROM clause under a change of its rows.  \<open>ProvSpjOps\<close>, \<open>ProvSpjRewrite\<close>: what the
    operations of the rewriter do to entries, joins and attributes.  \<open>ProvSpjEval\<close>, \<open>ProvSpjAdapt\<close>,
    \<open>ProvSpjQuery\<close>: one query whose entries are rewritten.  \<open>ProvSpjMain\<close>: whole queries by induction,
    and limits.  \<open>ProvSpjTuples\<close>: the rows of the original.  \<open>ProvSpjProps\<close>: the properties.
  \<^item> \<open>CString\<close>: the functions of the C library that the client uses, buffers of a fixed size, reading
    lines, printing numbers.
  \<^item> \<open>LdvLog\<close>: packets in the log.  \<open>LdvHash\<close>: the hash function on 64 bits and the table of ten hashes,
    which implements the locale \<open>name_cache\<close>.  \<open>LdvSql\<close>: taking statements apart and adding
    provenance.  \<open>LdvClient\<close>: \<open>PQexec\<close> and all it calls; the server is a parameter of type
    \<open>'db server\<close>.  \<open>LdvReplay\<close>: sessions, connecting and restoring.
  \<^item> \<open>LdvClientSpec\<close>: what every operation of the client keeps.  \<open>LdvTuples\<close>: the entries of the log for
    tuples.  \<open>LdvProps\<close>: the properties.
  \<^item> \<open>HashFunc\<close>: \<open>src/backend/access/hash/hashfunc.c\<close> on words.  \<open>Bms\<close>: \<open>src/backend/nodes/bitmapset.c\<close> on
    arrays of 32-bit words; \<open>BmsSpec\<close> relates them to finite sets, \<open>BmsProps\<close> has the properties.
  \<^item> \<open>Lz\<close>: \<open>src/backend/utils/adt/pg_lzcompress.c\<close> on byte arrays with checked accesses; \<open>LzSpec\<close>: the
    format, \<open>LzHist\<close>: the linked history, \<open>LzProps\<close>: the properties.
  \<^item> \<open>Like\<close>: \<open>like.c\<close> and \<open>like_match.c\<close> in \<open>src/backend/utils/adt\<close>, for the encodings that include the
    matcher; \<open>LikeProps\<close> compares it with the definition of a match.
  \<^item> \<open>Encode\<close>: \<open>src/backend/utils/adt/encode.c\<close>; \<open>EncodeProps\<close>: round trips and lengths.

  \<^bold>\<open>What is shown\<close>

  The list functions refine operations on HOL lists and touch no other list, the set operations
  compute sets, \<open>push\<close> and \<open>pop\<close> refine a stack, the sorts sort, and the functions of \<open>prov_stack.c\<close>
  that do not do what they are for are shown to fail.  The rewriting of every well-formed
  select-project-join query returns a well-formed query that computes the provenance of the original
  and keeps its rows, through nested subqueries, outer joins, \<open>SELECT DISTINCT\<close> and limits; the cases in
  which it fails (functions and \<open>VALUES\<close> in FROM, dropped columns, columns named like provenance
  attributes) are proved.  Bit strings implement sets.  The static analysis numbers operations without gaps and gives each the right set.  What is added to the table
  is found again, and the reconstructed text marks exactly the parts whose set is not in the bit
  string; sessions without cursors are safe, and the three cases in which the table is corrupted with
  cursors are proved.  Packets and tables replay as they were captured; \<open>PQexec\<close> returns the result of
  the application's own statement; the cases in which fixed buffers, the size of the table of hashes
  and the comparison of database names fail are proved.  The column that the client reads is the one
  the server creates for the first reference to a table, and not for a further one.  The operations of
  bitmap sets implement those of finite sets; compression and the binary encodings can be undone and
  stay inside their areas; the matcher of LIKE agrees with the definition of a match but for patterns in
  which an underscore follows a percent sign at the end, for which it is shown to be wrong.

  \<^bold>\<open>Bounds\<close>

  Loops over linked cells take fuel.  The fuel is the first free address of the store, which is more
  than the number of cells a chain without cycle can have, and every loop is proved to return on a
  represented list.  The search through the history of the compressor takes the number of entries as
  fuel, and is proved to end before; the loop over the members of a bitmap set takes fuel as well, and
  one more than the number of members is proved to be exactly enough.  All other recursion is
  structural or has a termination proof, so that those functions are total.  The counter of queries has 32 bits and the hash 64 bits, and both wrap
  around; other counters are unbounded integers, and the lemmas state the bounds they need.

  \<^bold>\<open>Not modelled\<close>

  The rewrite rules of Perm for aggregation, set operations and sublinks and those for copy and where
  provenance; in the model of \<open>prov_spj.c\<close>, types of expressions, permissions, \<open>ORDER BY\<close>, and columns of
  joins that are not plain variables (\<open>USING\<close> with an outer join).  Rows are lists, so that a limit
  without an order means the same rows in the original and the rewritten query.  Printing of query
  trees (\<open>prov_trans_parse_back.c\<close> apart from \<open>postprocessRanges\<close>), the parser, planner, executor and storage of the server, and the
  wire protocol, sockets and SSL of the client.  What the modelled code needs of them is a parameter:
  \<open>equal\<close> on nodes, the predicate \<open>isProjection\<close>, the printed ranges of a query, the results of the
  server, and what the network delivers.  Opening the log for writing is taken to succeed.  The unused
  functions \<open>prv_getRowIds\<close>, \<open>prv_addId4table\<close> and \<open>prv_deleteId4table\<close> are left out, and so are the hash
  functions on floating point numbers.  For LIKE in multibyte encodings there is a model, but the
  agreement with the definition of a match is proved for single-byte encodings.
\<close>

end
